(* ===== verification/Prelude.thy ===== *)
theory Prelude
  imports Complex_Main "HOL-Library.Word" "HOL-Library.Numeral_Type"
begin

text \<open>
  Vocabulary shared by the components: the machine types, clamping, in place updates of C arrays
  and the generic facts about them.
\<close>

type_synonym byte = "8 word"
type_synonym u16 = "16 word"
type_synonym u32 = "32 word"

named_theorems flt_ops \<open>the floating point operations on finite operands\<close>

end
