(* ===== verification/Flt.thy ===== *)
theory Flt
  imports Prelude
begin

text \<open>
  IEEE 754 floating point, as the firmware's target (ARM Cortex-M7 with a double precision FPU,
  round to nearest even, no contraction of a product and a sum) executes it.

  A value of type \<open>'p flt\<close> is a C++ \<open>float\<close> for \<open>'p = 24\<close> (\<open>f32\<close>) and a C++ \<open>double\<close> for
  \<open>'p = 53\<close> (\<open>f64\<close>): a rational, the negative zero, an infinity or not-a-number.  The arithmetic
  instances round the exact rational result with \<open>rnd\<close>; \<open>conv\<close> is the conversion between the two
  formats, \<open>of_i\<close> the conversion of an integer and \<open>lit\<close> a decimal literal of the source.
  Comparisons are those of C: false as soon as one operand is not-a-number; \<open>feq\<close> is C's \<open>==\<close>.
  The lemmas give what the components need of rounding: it is monotone, it is the identity on
  representable numbers, and so it never leaves an interval with representable end points.
\<close>

section \<open>Rounding of rationals\<close>

fun clog2 :: "int \<Rightarrow> int" where
  "clog2 n = (if n \<le> 1 then 0 else 1 + clog2 (n div 2))"
declare clog2.simps [simp del]

lemma clog2_nonneg: "0 \<le> clog2 n"
proof (induction n rule: clog2.induct)
  case (1 n) then show ?case by (subst clog2.simps) auto
qed

lemma clog2_bounds: "1 \<le> n \<Longrightarrow> 2 ^ nat (clog2 n) \<le> n \<and> n < 2 ^ nat (clog2 n + 1)"
proof (induction n rule: clog2.induct)
  case (1 n)
  show ?case
  proof (cases "n \<le> 1")
    case True
    with "1.prems" have "n = 1" by simp
    then show ?thesis by (simp add: clog2.simps [of 1])
  next
    case False
    then have "1 \<le> n div 2" by simp
    with "1.IH" False have IH: "2 ^ nat (clog2 (n div 2)) \<le> n div 2"
      "n div 2 < 2 ^ nat (clog2 (n div 2) + 1)" by auto
    have "clog2 n = 1 + clog2 (n div 2)" using False by (simp add: clog2.simps [of n])
    with IH clog2_nonneg [of "n div 2"] show ?thesis by (simp add: nat_add_distrib) linarith
  qed
qed

definition ilog2 :: "rat \<Rightarrow> int" where
  "ilog2 q = (if 1 \<le> q then clog2 \<lfloor>q\<rfloor>
              else - (let m = \<lceil>1 / q\<rceil> in if m \<le> 1 then 0 else 1 + clog2 (m - 1)))"

lemma two_powi_nat: "0 \<le> k \<Longrightarrow> (2::rat) powi k = of_int (2 ^ nat k)"
  by (simp add: power_int_def)

lemma ilog2_bounds:
  assumes "0 < q"
  shows "2 powi ilog2 q \<le> q" and "q < 2 powi (ilog2 q + 1)"
proof -
  have "2 powi ilog2 q \<le> q \<and> q < 2 powi (ilog2 q + 1)"
  proof (cases "1 \<le> q")
    case True
    define n where "n = \<lfloor>q\<rfloor>"
    from True have n: "1 \<le> n" by (simp add: n_def)
    have il: "ilog2 q = clog2 n" using True by (simp add: ilog2_def n_def)
    from clog2_bounds [OF n] have b: "2 ^ nat (clog2 n) \<le> n" "n + 1 \<le> 2 ^ nat (clog2 n + 1)" by auto
    have "(2::rat) powi ilog2 q = of_int (2 ^ nat (clog2 n))"
      by (simp only: il two_powi_nat [OF clog2_nonneg])
    also have "\<dots> \<le> of_int n" using b(1) by (simp only: of_int_le_iff)
    also have "\<dots> \<le> q" by (simp add: n_def)
    finally have 1: "2 powi ilog2 q \<le> q" .
    have "q < of_int (n + 1)" by (simp add: n_def) linarith
    also have "\<dots> \<le> of_int (2 ^ nat (clog2 n + 1))" using b(2) by (simp only: of_int_le_iff)
    also have "\<dots> = 2 powi (ilog2 q + 1)" 
      using clog2_nonneg [of n] by (simp only: il two_powi_nat)
    finally show ?thesis using 1 by simp
  next
    case False
    define m where "m = \<lceil>1 / q\<rceil>"
    have q1: "1 < 1 / q" using False assms by (simp add: field_simps)
    then have m: "2 \<le> m" unfolding m_def by linarith
    define j where "j = 1 + clog2 (m - 1)"
    have il: "ilog2 q = - j" using False m by (simp add: ilog2_def m_def [symmetric] j_def Let_def)
    have j0: "1 \<le> j" using clog2_nonneg [of "m - 1"] by (simp add: j_def)
    have b: "2 ^ nat (j - 1) \<le> m - 1" "m - 1 < 2 ^ nat j"
      using clog2_bounds [of "m - 1"] m by (auto simp: j_def add.commute)
    have "1 / q \<le> of_int m" by (simp add: m_def)
    also have "\<dots> \<le> of_int (2 ^ nat j)" using b(2) by (simp only: of_int_le_iff)
    also have "\<dots> = 2 powi j" using j0 by (simp only: two_powi_nat)
    finally have 1: "1 / q \<le> 2 powi j" .
    have "(2::rat) powi (j - 1) = of_int (2 ^ nat (j - 1))" using j0 by (simp only: two_powi_nat)
    also have "\<dots> \<le> of_int (m - 1)" using b(1) by (simp only: of_int_le_iff)
    also have "\<dots> < 1 / q" unfolding m_def by linarith
    finally have 2: "2 powi (j - 1) < 1 / q" .
    have e1: "2 powi (- j) = 1 / (2 powi j :: rat)" by (simp add: power_int_minus divide_inverse)
    have e2: "2 powi (- j + 1) = 1 / (2 powi (j - 1) :: rat)"
      using power_int_minus [of "2::rat" "j - 1"] by (simp add: divide_inverse)
    have "2 powi (- j) \<le> q" using 1 assms by (simp add: e1 field_simps)
    moreover have "q < 2 powi (- j + 1)" unfolding e2 using 2 assms by (simp add: field_simps del: minus_add_distrib)
    ultimately show ?thesis by (simp only: il)
  qed
  then show "2 powi ilog2 q \<le> q" and "q < 2 powi (ilog2 q + 1)" by auto
qed

definition rne :: "rat \<Rightarrow> int" where
  "rne x = (let f = \<lfloor>x\<rfloor>; r = x - of_int f in
     if r < 1/2 then f else if 1/2 < r then f + 1 else if even f then f else f + 1)"

lemma rne_of_int [simp]: "rne (of_int n) = n"
  by (simp add: rne_def)

lemma rne_floor: "rne x = \<lfloor>x\<rfloor> \<or> rne x = \<lfloor>x\<rfloor> + 1"
  by (simp add: rne_def Let_def)

lemma rne_err: "\<bar>of_int (rne x) - x\<bar> \<le> 1/2"
  using floor_correct [of x] by (auto simp: rne_def Let_def abs_le_iff)

lemma rne_mono: "x \<le> y \<Longrightarrow> rne x \<le> rne y"
proof -
  assume le: "x \<le> y"
  then have fl: "\<lfloor>x\<rfloor> \<le> \<lfloor>y\<rfloor>" by (rule floor_mono)
  show ?thesis
  proof (cases "\<lfloor>x\<rfloor> = \<lfloor>y\<rfloor>")
    case True
    with le show ?thesis by (auto simp: rne_def Let_def)
  next
    case False
    with fl have "\<lfloor>x\<rfloor> + 1 \<le> \<lfloor>y\<rfloor>" by simp
    with rne_floor [of x] rne_floor [of y] show ?thesis by auto
  qed
qed

lemma rne_uminus: "rne (- x) = - rne x"
proof (cases "x = of_int \<lfloor>x\<rfloor>")
  case True
  then show ?thesis by (metis of_int_minus rne_of_int)
next
  case False
  then have f: "\<lfloor>- x\<rfloor> = - \<lfloor>x\<rfloor> - 1"
    by (metis ceiling_altdef floor_minus minus_add_distrib uminus_add_conv_diff add.commute)
  define r where "r = x - of_int \<lfloor>x\<rfloor>"
  have r2: "- x - of_int \<lfloor>- x\<rfloor> = 1 - r" by (simp add: f r_def)
  have "even \<lfloor>- x\<rfloor> \<longleftrightarrow> odd \<lfloor>x\<rfloor>" by (simp add: f)
  then show ?thesis
    unfolding rne_def Let_def r2 r_def [symmetric] by (auto simp: f)
qed

definition qexp :: "int \<Rightarrow> int \<Rightarrow> rat \<Rightarrow> int" where
  "qexp p emin q = max (ilog2 \<bar>q\<bar>) emin - (p - 1)"

definition rndq :: "int \<Rightarrow> int \<Rightarrow> rat \<Rightarrow> rat" where
  "rndq p emin q = (if q = 0 then 0
     else (let e = qexp p emin q in of_int (rne (q / 2 powi e)) * 2 powi e))"

definition representable :: "int \<Rightarrow> int \<Rightarrow> rat \<Rightarrow> bool" where
  "representable p emin y \<longleftrightarrow> (\<exists>m e. y = of_int m * 2 powi e \<and> \<bar>m\<bar> \<le> 2 ^ nat p \<and> emin - (p - 1) \<le> e)"

lemma powi_gt0: "0 < (2::rat) powi e"
  by simp

lemma powi_add2: "(2::rat) powi (a + b) = 2 powi a * 2 powi b"
  by (simp add: power_int_add)

lemma powi_le_iff [simp]: "((2::rat) powi a \<le> 2 powi b) = (a \<le> b)"
  by (metis linorder_not_le one_less_numeral_iff power_int_strict_increasing power_int_increasing semiring_norm(76) one_le_numeral)
lemma rndq_uminus: "rndq p emin (- q) = - rndq p emin q"
proof -
  have "qexp p emin (- q) = qexp p emin q" by (simp add: qexp_def)
  then show ?thesis by (simp add: rndq_def Let_def rne_uminus)
qed

lemma ilog2_mono: assumes "0 < a" "a \<le> b" shows "ilog2 a \<le> ilog2 b"
proof (rule ccontr)
  assume "\<not> ilog2 a \<le> ilog2 b"
  then have "ilog2 b + 1 \<le> ilog2 a" by simp
  then have "(2::rat) powi (ilog2 b + 1) \<le> 2 powi ilog2 a" by simp
  with ilog2_bounds [of a] ilog2_bounds [of b] assms show False by simp
qed

lemma rne_of_int_mult: "x = of_int n \<Longrightarrow> rne x = n"
  by simp

lemma powi_int_quot: "e0 \<le> e \<Longrightarrow> (of_int m * 2 powi e / 2 powi e0 :: rat) = of_int (m * 2 ^ nat (e - e0))"
proof -
  assume "e0 \<le> e"
  then have "(2::rat) powi e = 2 powi e0 * of_int (2 ^ nat (e - e0))"
    using powi_add2 [of e0 "e - e0"] two_powi_nat [of "e - e0"] by (simp del: of_int_power)
  then show ?thesis by (simp del: of_int_power)
qed

lemma rndq_grid: "qexp p emin (of_int m * 2 powi e) \<le> e \<Longrightarrow> rndq p emin (of_int m * 2 powi e) = of_int m * 2 powi e"
proof (cases "m = 0")
  case False
  assume le: "qexp p emin (of_int m * 2 powi e) \<le> e"
  define e0 where "e0 = qexp p emin (of_int m * 2 powi e)"
  have "rne (of_int m * 2 powi e / 2 powi e0) = m * 2 ^ nat (e - e0)"
    using le by (intro rne_of_int_mult powi_int_quot) (simp add: e0_def)
  moreover have "of_int (m * 2 ^ nat (e - e0)) = of_int m * 2 powi e / (2 powi e0 :: rat)"
    using le by (intro powi_int_quot [symmetric]) (simp add: e0_def)
  ultimately show ?thesis using False by (simp add: rndq_def Let_def e0_def [symmetric] del: of_int_mult)
qed (simp add: rndq_def)

lemma ilog2_less_iff: assumes "0 < q" shows "ilog2 q < e \<longleftrightarrow> q < 2 powi e"
proof
  assume "ilog2 q < e"
  then have "ilog2 q + 1 \<le> e" by simp
  then have "(2::rat) powi (ilog2 q + 1) \<le> 2 powi e" by simp
  with ilog2_bounds(2) [OF assms] show "q < 2 powi e" by linarith
next
  assume "q < 2 powi e"
  show "ilog2 q < e"
  proof (rule ccontr)
    assume "\<not> ilog2 q < e"
    then have "(2::rat) powi e \<le> 2 powi ilog2 q" by simp
    with ilog2_bounds(1) [OF assms] \<open>q < 2 powi e\<close> show False by linarith
  qed
qed

lemma ilog2_powi [simp]: "ilog2 (2 powi e) = e"
  using ilog2_less_iff [of "2 powi e" "e + 1"] ilog2_less_iff [of "2 powi e" e]
  by (simp add: powi_add2)

lemma rndq_representable:
  assumes r: "representable p emin y" and p: "1 \<le> p"
  shows "rndq p emin y = y"
proof -
  obtain m e where y: "y = of_int m * 2 powi e" and m: "\<bar>m\<bar> \<le> 2 ^ nat p" and e: "emin - (p - 1) \<le> e"
    using r unfolding representable_def by blast
  consider "m = 0" | "m \<noteq> 0" "qexp p emin y \<le> e" | "m \<noteq> 0" "e < qexp p emin y" by linarith
  then show ?thesis
  proof cases
    case 1 then show ?thesis by (simp add: y rndq_def)
  next
    case 2 then show ?thesis by (simp add: y rndq_grid)
  next
    case 3
    then have il: "e + p \<le> ilog2 \<bar>y\<bar>" using e by (auto simp: qexp_def max_def split: if_splits)
    have y0: "0 < \<bar>y\<bar>" using 3 by (simp add: y)
    have "\<bar>y\<bar> = of_int \<bar>m\<bar> * 2 powi e" by (simp add: y abs_mult)
    also have "\<dots> \<le> of_int (2 ^ nat p) * 2 powi e" using m by (intro mult_right_mono) (simp_all only: of_int_le_iff, simp)
    also have "\<dots> = 2 powi (e + p)" using p two_powi_nat [of p] by (simp add: powi_add2)
    finally have le: "\<bar>y\<bar> \<le> 2 powi (e + p)" .
    have "2 powi (e + p) \<le> (2::rat) powi ilog2 \<bar>y\<bar>" using il by simp
    with le ilog2_bounds(1) [OF y0] have ay: "\<bar>y\<bar> = 2 powi (e + p)" by linarith
    have q: "qexp p emin \<bar>y\<bar> \<le> e + p" using p 3 e il by (simp add: qexp_def ay max_def)
    have "rndq p emin \<bar>y\<bar> = \<bar>y\<bar>"
      using rndq_grid [of p emin 1 "e + p"] q by (simp add: ay)
    then show ?thesis by (cases "0 \<le> y") (auto simp: rndq_uminus)
  qed
qed

lemma rndq_is_repr:
  assumes p: "1 \<le> p" shows "representable p emin (rndq p emin q)"
proof (cases "q = 0")
  case True
  have "(0::rat) = of_int 0 * 2 powi emin \<and> \<bar>0::int\<bar> \<le> 2 ^ nat p \<and> emin - (p - 1) \<le> emin" using p by simp
  with True show ?thesis unfolding rndq_def representable_def by (metis (full_types))
next
  case False
  define e where "e = qexp p emin q"
  define m where "m = rne (q / 2 powi e)"
  have "\<bar>q\<bar> < 2 powi (ilog2 \<bar>q\<bar> + 1)" using False ilog2_bounds(2) by simp
  also have "\<dots> \<le> 2 powi (e + p)" by (simp add: e_def qexp_def)
  also have "\<dots> = 2 powi e * of_int (2 ^ nat p)" using p two_powi_nat [of p] by (simp add: powi_add2)
  finally have "\<bar>q / 2 powi e\<bar> < of_int (2 ^ nat p)" by (simp add: abs_mult field_simps)
  then have "- of_int (2 ^ nat p) \<le> q / 2 powi e" "q / 2 powi e \<le> of_int (2 ^ nat p)" by linarith+
  then have "- (2 ^ nat p) \<le> m" "m \<le> 2 ^ nat p"
    using rne_mono [of "of_int (- (2 ^ nat p))" "q / 2 powi e"] rne_mono [of "q / 2 powi e" "of_int (2 ^ nat p)"]
    unfolding m_def by (simp_all only: rne_of_int rne_uminus of_int_minus)
  then have "\<bar>m\<bar> \<le> 2 ^ nat p" by simp
  moreover have "rndq p emin q = of_int m * 2 powi e" using False by (simp add: rndq_def e_def m_def Let_def)
  moreover have "emin - (p - 1) \<le> e" by (simp add: e_def qexp_def)
  ultimately show ?thesis unfolding representable_def by blast
qed

lemma rndq_nonneg: "0 \<le> q \<Longrightarrow> 0 \<le> rndq p emin q"
proof -
  assume "0 \<le> q"
  then have "rne (of_int 0) \<le> rne (q / 2 powi qexp p emin q)" by (intro rne_mono) simp
  then show ?thesis by (simp add: rndq_def Let_def del: of_int_0)
qed

lemma rndq_mono_pos:
  assumes p: "1 \<le> p" and a: "0 < a" and ab: "a \<le> b"
  shows "rndq p emin a \<le> rndq p emin b"
proof -
  have il: "ilog2 a \<le> ilog2 b" using a ab by (rule ilog2_mono)
  show ?thesis
  proof (cases "qexp p emin a = qexp p emin b")
    case True
    then show ?thesis using a ab by (simp add: rndq_def Let_def rne_mono divide_right_mono)
  next
    case False
    define ea where "ea = qexp p emin a"
    define eb where "eb = qexp p emin b"
    define k where "k = ilog2 b"
    have kb: "k = eb + (p - 1)" "ea < eb" "ilog2 a < k"
      using False il a ab by (auto simp: k_def ea_def eb_def qexp_def max_def split: if_splits)
    have "a < 2 powi k" using a kb(3) by (simp add: ilog2_less_iff)
    then have "a / 2 powi ea \<le> of_int 1 * 2 powi k / 2 powi ea" by (simp add: divide_right_mono)
    also have "\<dots> = of_int (1 * 2 ^ nat (k - ea))" using kb p by (intro powi_int_quot) simp
    finally have "rne (a / 2 powi ea) \<le> 2 ^ nat (k - ea)" using rne_mono rne_of_int by (metis mult_1)
    then have "of_int (rne (a / 2 powi ea)) \<le> (of_int (1 * 2 ^ nat (k - ea)) :: rat)" by (simp only: of_int_le_iff mult_1)
    also have "\<dots> = of_int 1 * 2 powi k / 2 powi ea" using kb p by (intro powi_int_quot [symmetric]) simp
    finally have 1: "of_int (rne (a / 2 powi ea)) * 2 powi ea \<le> (2 powi k :: rat)" by (simp add: field_simps)
    have "2 powi k \<le> b" using a ab by (simp add: k_def ilog2_bounds)
    then have "of_int 1 * 2 powi k / 2 powi eb \<le> b / 2 powi eb" by (simp add: divide_right_mono)
    moreover have "of_int 1 * 2 powi k / (2 powi eb::rat) = of_int (1 * 2 ^ nat (k - eb))" using kb p by (intro powi_int_quot) simp
    ultimately have "2 ^ nat (k - eb) \<le> rne (b / 2 powi eb)" using rne_mono rne_of_int by (metis mult_1)
    then have "(of_int (1 * 2 ^ nat (k - eb)) :: rat) \<le> of_int (rne (b / 2 powi eb))" by (simp only: of_int_le_iff mult_1)
    moreover have "(of_int (1 * 2 ^ nat (k - eb)) :: rat) = of_int 1 * 2 powi k / 2 powi eb" using kb p by (intro powi_int_quot [symmetric]) simp
    ultimately have "2 powi k / (2 powi eb :: rat) \<le> of_int (rne (b / 2 powi eb))" by (simp only: of_int_1 mult_1)
    then have 2: "(2 powi k :: rat) \<le> of_int (rne (b / 2 powi eb)) * 2 powi eb" by (simp only: pos_divide_le_eq powi_gt0)
    from 1 2 a ab show ?thesis by (simp add: rndq_def Let_def ea_def [symmetric] eb_def [symmetric])
  qed
qed

lemma rndq_mono:
  assumes p: "1 \<le> p" and ab: "a \<le> b"
  shows "rndq p emin a \<le> rndq p emin b"
proof -
  consider "0 < a" | "b < 0" | "a \<le> 0" "0 \<le> b" by linarith
  then show ?thesis
  proof cases
    case 1 then show ?thesis using p ab by (simp add: rndq_mono_pos)
  next
    case 2
    then have "rndq p emin (- b) \<le> rndq p emin (- a)" using p ab by (intro rndq_mono_pos) auto
    then show ?thesis by (simp add: rndq_uminus)
  next
    case 3
    then have "0 \<le> rndq p emin (- a)" "0 \<le> rndq p emin b" by (simp_all add: rndq_nonneg)
    then show ?thesis by (simp add: rndq_uminus)
  qed
qed


section \<open>The floating point formats\<close>

datatype 'p flt = Fin rat | NegZero | Inf bool | NaN

type_synonym f32 = "24 flt"
type_synonym f64 = "53 flt"

fun val :: "'p flt \<Rightarrow> rat" where
  "val (Fin q) = q" | "val NegZero = 0" | "val (Inf s) = 0" | "val NaN = 0"

fun is_fin :: "'p flt \<Rightarrow> bool" where
  "is_fin (Fin q) = True" | "is_fin NegZero = True" | "is_fin (Inf s) = False" | "is_fin NaN = False"

fun sgnb :: "'p flt \<Rightarrow> bool" where
  "sgnb (Fin q) = (q < 0)" | "sgnb NegZero = True" | "sgnb (Inf s) = s" | "sgnb NaN = False"

fun is_inf :: "'p flt \<Rightarrow> bool" where
  "is_inf (Inf s) = True" | "is_inf _ = False"

definition prec_of :: "('p::len) flt itself \<Rightarrow> int" where
  "prec_of _ = int LENGTH('p)"

definition emin_of :: "('p::len) flt itself \<Rightarrow> int" where
  "emin_of _ = (if LENGTH('p) \<le> 24 then - 126 else - 1022)"

text \<open>The largest exponent; a rounded result that needs a larger one overflows to an infinity.\<close>

definition emax_of :: "('p::len) flt itself \<Rightarrow> int" where
  "emax_of T = 1 - emin_of T"

definition rnd :: "bool \<Rightarrow> rat \<Rightarrow> ('p::len) flt" where
  "rnd z q = (let r = rndq (prec_of TYPE('p flt)) (emin_of TYPE('p flt)) q in
     if r = 0 then (if q < 0 \<or> q = 0 \<and> z then NegZero else Fin 0)
     else if emax_of TYPE('p flt) < ilog2 \<bar>r\<bar> then Inf (r < 0) else Fin r)"

subsection \<open>Executing the rounding on numerator and denominator\<close>

text \<open>
  Evaluation works on the integers of the fraction: every rounded number is a fraction with a
  power of two below, so the numbers stay small.
\<close>

fun pow2 :: "int \<Rightarrow> int" where
  "pow2 e = (if e \<le> 0 then 1 else 2 * pow2 (e - 1))"
declare pow2.simps [simp del]

lemma pow2_eq: "pow2 e = 2 ^ nat e"
proof (induction e rule: pow2.induct)
  case (1 e)
  show ?case
  proof (cases "e \<le> 0")
    case False
    then have "nat e = Suc (nat (e - 1))" by simp
    with 1 False show ?thesis by (simp add: pow2.simps [of e])
  qed (simp add: pow2.simps [of e])
qed

definition scale2 :: "int \<Rightarrow> int \<Rightarrow> rat" where
  "scale2 m e = (if 0 \<le> e then Fract (m * pow2 e) 1 else Fract m (pow2 (- e)))"

lemma scale2_eq: "scale2 m e = of_int m * 2 powi e"
proof (cases "0 \<le> e")
  case True
  then show ?thesis by (simp add: scale2_def pow2_eq two_powi_nat Fract_of_int_eq [symmetric] of_int_rat)
next
  case False
  then have "(2::rat) powi e = 1 / of_int (2 ^ nat (- e))"
    using power_int_minus [of "2::rat" "- e"] two_powi_nat [of "- e"] by (simp add: divide_inverse)
  with False show ?thesis by (simp add: scale2_def pow2_eq Fract_of_int_quotient)
qed

definition ilog2_nd :: "int \<Rightarrow> int \<Rightarrow> int" where
  "ilog2_nd n d = (if d \<le> n then clog2 (n div d)
     else - (let m = - ((- d) div n) in if m \<le> 1 then 0 else 1 + clog2 (m - 1)))"

lemma ilog2_nd: "0 < d \<Longrightarrow> 0 < n \<Longrightarrow> ilog2 (of_int n / of_int d) = ilog2_nd n d"
proof -
  assume d: "0 < d" and n: "0 < n"
  have "\<lfloor>of_int n / (of_int d :: rat)\<rfloor> = n div d" by (rule floor_divide_of_int_eq)
  moreover have "\<lceil>of_int d / (of_int n :: rat)\<rceil> = - ((- d) div n)" by (rule ceiling_divide_eq_div)
  ultimately show ?thesis using d by (simp add: ilog2_def ilog2_nd_def)
qed

definition rne_nd :: "int \<Rightarrow> int \<Rightarrow> int" where
  "rne_nd n d = (let f = n div d; r = n mod d in
     if 2 * r < d then f else if d < 2 * r then f + 1 else if even f then f else f + 1)"

lemma rne_nd: "0 < d \<Longrightarrow> rne (of_int n / of_int d) = rne_nd n d"
proof -
  assume d: "0 < d"
  have f: "\<lfloor>of_int n / (of_int d :: rat)\<rfloor> = n div d" by (rule floor_divide_of_int_eq)
  have "(of_int n :: rat) = of_int (n div d) * of_int d + of_int (n mod d)"
    by (simp flip: of_int_mult of_int_add)
  then have r: "of_int n / of_int d - of_int (n div d) = of_int (n mod d) / (of_int d :: rat)"
    using d by (simp add: field_simps)
  have "of_int (n mod d) / (of_int d :: rat) < 1 / 2 \<longleftrightarrow> of_int (2 * (n mod d)) < (of_int d :: rat)"
    "1 / 2 < of_int (n mod d) / (of_int d :: rat) \<longleftrightarrow> of_int d < (of_int (2 * (n mod d)) :: rat)"
    using d by (simp_all add: field_simps)
  then show ?thesis
    unfolding rne_def rne_nd_def f Let_def r by (simp only: of_int_less_iff)
qed

definition rnd_nd :: "int \<Rightarrow> int \<Rightarrow> bool \<Rightarrow> int \<Rightarrow> int \<Rightarrow> ('p::len) flt" where
  "rnd_nd p emin z n d =
     (if n = 0 then (if z then NegZero else Fin 0)
      else let e = max (ilog2_nd \<bar>n\<bar> d) emin - (p - 1);
               m = (if 0 \<le> e then rne_nd n (d * pow2 e) else rne_nd (n * pow2 (- e)) d)
           in if m = 0 then (if n < 0 then NegZero else Fin 0)
              else if 1 - emin < clog2 \<bar>m\<bar> + e then Inf (m < 0) else Fin (scale2 m e))"

lemma ilog2_scale: "m \<noteq> 0 \<Longrightarrow> ilog2 \<bar>of_int m * 2 powi e\<bar> = clog2 \<bar>m\<bar> + e"
proof -
  assume "m \<noteq> 0"
  then have m1: "1 \<le> \<bar>m\<bar>" by simp
  from clog2_bounds [OF m1] have b: "2 ^ nat (clog2 \<bar>m\<bar>) \<le> \<bar>m\<bar>" "\<bar>m\<bar> < 2 ^ nat (clog2 \<bar>m\<bar> + 1)" by auto
  have lo: "(2::rat) powi clog2 \<bar>m\<bar> \<le> of_int \<bar>m\<bar>"
    unfolding two_powi_nat [OF clog2_nonneg] of_int_le_iff by (rule b)
  have "of_int \<bar>m\<bar> < (of_int (2 ^ nat (clog2 \<bar>m\<bar> + 1)) :: rat)" unfolding of_int_less_iff by (rule b)
  then have hi: "of_int \<bar>m\<bar> < (2::rat) powi (clog2 \<bar>m\<bar> + 1)"
    using clog2_nonneg [of "\<bar>m\<bar>"] by (simp only: two_powi_nat)
  have q: "\<bar>of_int m * 2 powi e\<bar> = of_int \<bar>m\<bar> * (2::rat) powi e" by (simp add: abs_mult)
  have pos: "0 < \<bar>of_int m * 2 powi e :: rat\<bar>" using m1 by simp
  have "\<bar>of_int m * 2 powi e\<bar> < (2::rat) powi (clog2 \<bar>m\<bar> + e + 1)"
    using hi by (simp only: q powi_add2 add.assoc add.commute [of e 1]) (simp add: powi_add2)
  then have "ilog2 \<bar>of_int m * 2 powi e\<bar> < clog2 \<bar>m\<bar> + e + 1" by (simp only: ilog2_less_iff [OF pos])
  moreover have "\<not> ilog2 \<bar>of_int m * 2 powi e\<bar> < clog2 \<bar>m\<bar> + e"
    using lo ilog2_less_iff [OF pos] by (simp add: q powi_add2 not_less)
  ultimately show ?thesis by simp
qed

lemma rnd_code [code]:
  "(rnd z q :: ('p::len) flt) = (let (n, d) = quotient_of q in
     rnd_nd (prec_of TYPE('p flt)) (emin_of TYPE('p flt)) z n d)"
proof -
  obtain n d where nd: "quotient_of q = (n, d)" by fastforce
  then have d: "0 < d" and q: "q = of_int n / of_int d"
    by (auto dest: quotient_of_denom_pos quotient_of_div)
  let ?p = "prec_of TYPE('p flt)" and ?em = "emin_of TYPE('p flt)"
  show ?thesis
  proof (cases "n = 0")
    case True
    then show ?thesis by (simp add: nd q rnd_def rndq_def rnd_nd_def)
  next
    case False
    define e where "e = qexp ?p ?em q"
    have aq: "\<bar>q\<bar> = of_int \<bar>n\<bar> / of_int d" using d by (simp add: q)
    have e2: "e = max (ilog2_nd \<bar>n\<bar> d) ?em - (?p - 1)"
      using False d by (simp only: e_def qexp_def aq) (simp add: ilog2_nd del: of_int_abs)
    define m where "m = rne (q / 2 powi e)"
    have m2: "m = (if 0 \<le> e then rne_nd n (d * pow2 e) else rne_nd (n * pow2 (- e)) d)"
    proof (cases "0 \<le> e")
      case True
      then have "q / 2 powi e = of_int n / of_int (d * pow2 e)" by (simp add: q two_powi_nat pow2_eq)
      then show ?thesis using True d rne_nd [of "d * pow2 e" n] by (simp add: m_def pow2_eq)
    next
      case F: False
      then have "(2::rat) powi e = 1 / of_int (2 ^ nat (- e))"
        using power_int_minus [of "2::rat" "- e"] two_powi_nat [of "- e"] by (simp add: divide_inverse)
      then have "q / 2 powi e = of_int (n * pow2 (- e)) / of_int d" by (simp add: q pow2_eq)
      then show ?thesis using F d rne_nd [of d "n * pow2 (- e)"] by (simp only: m_def if_False)
    qed
    have r: "rndq ?p ?em q = of_int m * 2 powi e" using False d by (simp add: rndq_def q [symmetric] m_def e_def [symmetric]) (simp add: q)
    have s: "q < 0 \<longleftrightarrow> n < 0" "q \<noteq> 0" using d False by (auto simp: q divide_less_0_iff)
    have ms: "of_int m * 2 powi e < (0::rat) \<longleftrightarrow> m < 0" using powi_gt0 [of e] by (metis mult_less_0_iff of_int_less_0_iff less_asym)
    let ?v = "if m = 0 then (if n < 0 then NegZero else Fin 0)
      else if 1 - ?em < clog2 \<bar>m\<bar> + e then Inf (m < 0) else Fin (scale2 m e) :: 'p flt"
    have R: "rnd_nd ?p ?em z n d = ?v"
      by (simp only: rnd_nd_def False if_False Let_def e2 [symmetric] m2 [symmetric])
    have "rnd z q = ?v"
    proof (cases "m = 0")
      case True then show ?thesis by (simp add: rnd_def r s)
    next
      case m0: False
      have "of_int m * 2 powi e \<noteq> (0::rat)" using m0 by simp
      then show ?thesis
        by (simp only: rnd_def r Let_def ms scale2_eq ilog2_scale [OF m0] emax_of_def m0 if_False)
    qed
    then show ?thesis by (simp only: nd R Let_def prod.case)
  qed
qed

definition fadd :: "('p::len) flt \<Rightarrow> 'p flt \<Rightarrow> 'p flt" where
  "fadd a b = (if a = NaN \<or> b = NaN then NaN
     else if is_inf a then (if is_inf b \<and> sgnb a \<noteq> sgnb b then NaN else a)
     else if is_inf b then b
     else rnd (a = NegZero \<and> b = NegZero) (val a + val b))"

fun fneg :: "'p flt \<Rightarrow> 'p flt" where
  "fneg (Fin q) = (if q = 0 then NegZero else Fin (- q))"
| "fneg NegZero = Fin 0" | "fneg (Inf s) = Inf (\<not> s)" | "fneg NaN = NaN"

definition fmul :: "('p::len) flt \<Rightarrow> 'p flt \<Rightarrow> 'p flt" where
  "fmul a b = (if a = NaN \<or> b = NaN then NaN
     else if is_inf a \<or> is_inf b then
       (if is_fin a \<and> val a = 0 \<or> is_fin b \<and> val b = 0 then NaN else Inf (sgnb a \<noteq> sgnb b))
     else rnd (sgnb a \<noteq> sgnb b) (val a * val b))"

definition fdiv :: "('p::len) flt \<Rightarrow> 'p flt \<Rightarrow> 'p flt" where
  "fdiv a b = (if a = NaN \<or> b = NaN then NaN
     else if is_inf a then (if is_inf b then NaN else Inf (sgnb a \<noteq> sgnb b))
     else if is_inf b then (if sgnb a \<noteq> sgnb b then NegZero else Fin 0)
     else if val b = 0 then (if val a = 0 then NaN else Inf (sgnb a \<noteq> sgnb b))
     else rnd (sgnb a \<noteq> sgnb b) (val a / val b))"

fun fless :: "'p flt \<Rightarrow> 'p flt \<Rightarrow> bool" where
  "fless NaN _ = False"
| "fless _ NaN = False"
| "fless (Inf s) (Inf t) = (s \<and> \<not> t)"
| "fless (Inf s) _ = s"
| "fless _ (Inf t) = (\<not> t)"
| "fless a b = (val a < val b)"

fun feq :: "'p flt \<Rightarrow> 'p flt \<Rightarrow> bool" where
  "feq NaN _ = False"
| "feq _ NaN = False"
| "feq (Inf s) (Inf t) = (s = t)"
| "feq (Inf s) _ = False"
| "feq _ (Inf t) = False"
| "feq a b = (val a = val b)"

fun fabs :: "'p flt \<Rightarrow> 'p flt" where
  "fabs (Fin q) = Fin \<bar>q\<bar>" | "fabs NegZero = Fin 0" | "fabs (Inf s) = Inf False" | "fabs NaN = NaN"

instantiation flt :: (len) "{zero, plus, minus, uminus, times, inverse, ord, abs}"
begin
definition zero_flt :: "'a flt" where "0 = Fin 0"
definition plus_flt :: "'a flt \<Rightarrow> 'a flt \<Rightarrow> 'a flt" where "a + b = fadd a b"
definition uminus_flt :: "'a flt \<Rightarrow> 'a flt" where "- a = fneg a"
definition minus_flt :: "'a flt \<Rightarrow> 'a flt \<Rightarrow> 'a flt" where "a - b = fadd a (fneg b)"
definition times_flt :: "'a flt \<Rightarrow> 'a flt \<Rightarrow> 'a flt" where "a * b = fmul a b"
definition divide_flt :: "'a flt \<Rightarrow> 'a flt \<Rightarrow> 'a flt" where "a div b = fdiv a b"
definition inverse_flt :: "'a flt \<Rightarrow> 'a flt" where "inverse a = fdiv (Fin 1) a"
definition less_flt :: "'a flt \<Rightarrow> 'a flt \<Rightarrow> bool" where "a < b = fless a b"
definition less_eq_flt :: "'a flt \<Rightarrow> 'a flt \<Rightarrow> bool" where "a \<le> b = (fless a b \<or> feq a b)"
definition abs_flt :: "'a flt \<Rightarrow> 'a flt" where "\<bar>a\<bar> = fabs a"
instance ..
end

definition lit :: "rat \<Rightarrow> ('p::len) flt" where "lit q = rnd False q"
definition conv :: "('a::len) flt \<Rightarrow> ('p::len) flt" where
  "conv a = (case a of Fin q \<Rightarrow> rnd False q | NegZero \<Rightarrow> NegZero | Inf s \<Rightarrow> Inf s | NaN \<Rightarrow> NaN)"
definition of_i :: "int \<Rightarrow> ('p::len) flt" where "of_i n = rnd False (of_int n)"

definition trunc :: "rat \<Rightarrow> int" where
  "trunc q = (if 0 \<le> q then \<lfloor>q\<rfloor> else \<lceil>q\<rceil>)"

definition f2i :: "int \<Rightarrow> int \<Rightarrow> 'p flt \<Rightarrow> int" where
  "f2i lo hi a = (case a of NaN \<Rightarrow> 0 | Inf s \<Rightarrow> (if s then lo else hi)
     | _ \<Rightarrow> max lo (min hi (trunc (val a))))"

definition f2i32 :: "'p flt \<Rightarrow> int" where "f2i32 = f2i (- 2147483648) 2147483647"
definition f2u32 :: "'p flt \<Rightarrow> u32" where "f2u32 a = word_of_int (f2i 0 4294967295 a)"
definition f2i64 :: "'p flt \<Rightarrow> int" where "f2i64 = f2i (- 9223372036854775808) 9223372036854775807"

definition ffloor :: "('p::len) flt \<Rightarrow> 'p flt" where
  "ffloor a = (case a of Fin q \<Rightarrow> Fin (of_int \<lfloor>q\<rfloor>) | _ \<Rightarrow> a)"

definition fceil :: "('p::len) flt \<Rightarrow> 'p flt" where
  "fceil a = (case a of Fin q \<Rightarrow> (if q < 0 \<and> \<lceil>q\<rceil> = 0 then NegZero else Fin (of_int \<lceil>q\<rceil>)) | _ \<Rightarrow> a)"

section \<open>Intervals and exactness\<close>

definition repr_in :: "('p::len) flt itself \<Rightarrow> rat \<Rightarrow> bool" where
  "repr_in T y \<longleftrightarrow> representable (prec_of T) (emin_of T) y \<and> \<bar>y\<bar> < 2 powi (emax_of T + 1)"

lemma ilog2_gt_iff: "q \<noteq> 0 \<Longrightarrow> e < ilog2 \<bar>q\<bar> \<longleftrightarrow> 2 powi (e + 1) \<le> \<bar>q\<bar>"
  using ilog2_less_iff [of "\<bar>q\<bar>" "e + 1"] by auto

lemma prec_ge1: "1 \<le> prec_of (T :: ('p::len) flt itself)"
  by (simp add: prec_of_def Suc_le_eq)

lemma rnd_between:
  assumes lo: "repr_in TYPE('p flt) lo" and hi: "repr_in TYPE('p flt) hi" and q: "lo \<le> q" "q \<le> hi"
  shows "is_fin (rnd z q :: ('p::len) flt) \<and> lo \<le> val (rnd z q :: 'p flt) \<and> val (rnd z q :: 'p flt) \<le> hi"
proof -
  let ?r = "rndq (prec_of TYPE('p flt)) (emin_of TYPE('p flt))"
  have "?r lo \<le> ?r q" "?r q \<le> ?r hi" using q prec_ge1 by (auto intro: rndq_mono)
  moreover have "?r lo = lo" "?r hi = hi" using lo hi prec_ge1 by (auto simp: repr_in_def intro: rndq_representable)
  ultimately have r: "lo \<le> ?r q" "?r q \<le> hi" by simp_all
  then have "\<bar>?r q\<bar> < 2 powi (emax_of TYPE('p flt) + 1)" using lo hi by (auto simp: repr_in_def abs_less_iff)
  with r show ?thesis by (auto simp: rnd_def Let_def ilog2_gt_iff)
qed

lemma rnd_exact: "repr_in TYPE('p flt) q \<Longrightarrow> val (rnd z q :: ('p::len) flt) = q \<and> is_fin (rnd z q :: 'p flt)"
  using rnd_between [of q q q z] by auto

lemma rnd_mono:
  assumes "is_fin (rnd y a :: ('p::len) flt)" "is_fin (rnd z b :: 'p flt)" "a \<le> b"
  shows "val (rnd y a :: 'p flt) \<le> val (rnd z b :: 'p flt)"
proof -
  have v: "val (rnd y q :: 'p flt) = rndq (prec_of TYPE('p flt)) (emin_of TYPE('p flt)) q" if "is_fin (rnd y q :: 'p flt)" for y q
    using that by (auto simp: rnd_def Let_def split: if_splits)
  from v [OF assms(1)] v [OF assms(2)] rndq_mono [OF prec_ge1 assms(3)] show ?thesis by simp
qed

lemma representable_int:
  assumes "\<bar>n\<bar> \<le> 2 ^ nat p" "emin \<le> p - 1" shows "representable p emin (of_int n)"
proof -
  have "(of_int n :: rat) = of_int n * 2 powi 0 \<and> \<bar>n\<bar> \<le> 2 ^ nat p \<and> emin - (p - 1) \<le> 0" using assms by simp
  then show ?thesis unfolding representable_def by blast
qed

lemma repr_in_f32_int: "\<bar>n\<bar> \<le> 16777216 \<Longrightarrow> repr_in TYPE(f32) (of_int n)"
proof -
  assume n: "\<bar>n\<bar> \<le> 16777216"
  then have "\<bar>(of_int n :: rat)\<bar> \<le> 16777216" by (simp only: of_int_abs [symmetric] of_int_le_numeral_iff)
  also have "\<dots> < 2 powi (emax_of TYPE(f32) + 1)" by code_simp
  finally show ?thesis using n by (auto simp: repr_in_def prec_of_def emin_of_def intro: representable_int)
qed

lemma repr_in_f64_int: "\<bar>n\<bar> \<le> 9007199254740992 \<Longrightarrow> repr_in TYPE(f64) (of_int n)"
proof -
  assume n: "\<bar>n\<bar> \<le> 9007199254740992"
  then have "\<bar>(of_int n :: rat)\<bar> \<le> 9007199254740992" by (simp only: of_int_abs [symmetric] of_int_le_numeral_iff)
  also have "\<dots> < 2 powi 53 + 1" by simp
  also have "\<dots> \<le> (2::rat) powi 54" by simp
  also have "\<dots> \<le> 2 powi (emax_of TYPE(f64) + 1)" by (simp only: powi_le_iff) (simp add: emax_of_def emin_of_def)
  finally show ?thesis using n by (auto simp: repr_in_def prec_of_def emin_of_def intro: representable_int)
qed

lemma rndq_err:
  assumes p: "1 \<le> p" and q: "\<bar>q\<bar> < 2 powi k" and k: "emin < k"
  shows "\<bar>rndq p emin q - q\<bar> \<le> 2 powi (k - p - 1)"
proof (cases "q = 0")
  case False
  define e where "e = qexp p emin q"
  have "ilog2 \<bar>q\<bar> < k" using False q by (simp add: ilog2_less_iff)
  then have ek: "e - 1 \<le> k - p - 1" using k by (simp add: e_def qexp_def)
  have h: "(2::rat) powi (e - 1) = 2 powi e / 2" using powi_add2 [of "e - 1" 1] by simp
  have "rndq p emin q - q = (of_int (rne (q / 2 powi e)) - q / 2 powi e) * 2 powi e"
    using False by (simp add: rndq_def Let_def e_def [symmetric] left_diff_distrib)
  then have "\<bar>rndq p emin q - q\<bar> = \<bar>of_int (rne (q / 2 powi e)) - q / 2 powi e\<bar> * 2 powi e"
    by (simp only: abs_mult) simp
  also have "\<dots> \<le> 1 / 2 * 2 powi e" by (intro mult_right_mono rne_err) simp
  also have "\<dots> = 2 powi (e - 1)" by (simp add: h)
  also have "\<dots> \<le> 2 powi (k - p - 1)" using ek by simp
  finally show ?thesis .
qed (simp add: rndq_def)

lemma rnd_val: "is_fin (rnd z q :: ('p::len) flt) \<Longrightarrow>
    val (rnd z q :: 'p flt) = rndq (prec_of TYPE('p flt)) (emin_of TYPE('p flt)) q"
  by (auto simp: rnd_def Let_def split: if_splits)

lemma rnd_not_nan [simp]: "rnd z q \<noteq> NaN"
  by (simp add: rnd_def Let_def)

subsection \<open>The operations on finite operands\<close>

lemma nan_not_fin [simp]: "is_fin a \<Longrightarrow> a \<noteq> NaN" and inf_not_fin [simp]: "is_fin a \<Longrightarrow> \<not> is_inf a"
  by (cases a; simp)+

lemma fin_add [flt_ops]: "is_fin a \<Longrightarrow> is_fin b \<Longrightarrow> a + b = rnd (a = NegZero \<and> b = NegZero) (val a + val b)"
  by (simp add: plus_flt_def fadd_def)

lemma fin_neg [simp]: "is_fin (- a) = is_fin a" "is_fin a \<Longrightarrow> val (- a) = - val a"
  by (cases a; simp add: uminus_flt_def)+

lemma fin_sub [flt_ops]: "is_fin a \<Longrightarrow> is_fin b \<Longrightarrow> a - b = rnd (a = NegZero \<and> - b = NegZero) (val a - val b)"
  using fin_neg [of b] by (simp add: minus_flt_def fadd_def uminus_flt_def)

lemma fin_mult [flt_ops]: "is_fin a \<Longrightarrow> is_fin b \<Longrightarrow> a * b = rnd (sgnb a \<noteq> sgnb b) (val a * val b)"
  by (simp add: times_flt_def fmul_def)

lemma fin_div [flt_ops]: "is_fin a \<Longrightarrow> is_fin b \<Longrightarrow> val b \<noteq> 0 \<Longrightarrow> a / b = rnd (sgnb a \<noteq> sgnb b) (val a / val b)"
  by (simp add: divide_flt_def fdiv_def)

lemma fin_less [flt_ops]: "is_fin a \<Longrightarrow> is_fin b \<Longrightarrow> (a < b) = (val a < val b)"
  by (cases a; cases b; simp add: less_flt_def)

lemma fin_less_eq [flt_ops]: "is_fin a \<Longrightarrow> is_fin b \<Longrightarrow> (a \<le> b) = (val a \<le> val b)"
  by (cases a; cases b; auto simp: less_eq_flt_def)

lemma fin_conv [flt_ops]: "is_fin a \<Longrightarrow> conv a = rnd (a = NegZero) (val a)"
  by (cases a) (simp_all add: conv_def rnd_def rndq_def)

lemma fin_abs [simp]: "is_fin \<bar>a\<bar> = is_fin a" "is_fin a \<Longrightarrow> val \<bar>a\<bar> = \<bar>val a\<bar>"
  by (cases a; simp add: abs_flt_def)+

subsection \<open>Monotonicity of the operations, infinities included\<close>

lemma rnd_le: "a \<le> b \<Longrightarrow> (rnd y a :: ('p::len) flt) \<le> rnd z b"
proof -
  assume ab: "a \<le> b"
  let ?r = "rndq (prec_of TYPE('p flt)) (emin_of TYPE('p flt))"
  define K :: rat where "K = 2 powi (emax_of TYPE('p flt) + 1)"
  have K: "0 < K" by (simp add: K_def)
  have le: "?r a \<le> ?r b" by (rule rndq_mono [OF prec_ge1 ab])
  have form: "\<exists>Z. val Z = 0 \<and> is_fin Z \<and> (rnd x q :: 'p flt) =
      (if ?r q = 0 then Z else if K \<le> \<bar>?r q\<bar> then Inf (?r q < 0) else Fin (?r q))" for x q
    by (rule exI [of _ "if q < 0 \<or> q = 0 \<and> x then NegZero else Fin 0"])
      (simp add: rnd_def Let_def ilog2_gt_iff K_def)
  obtain Za Zb :: "'p flt" where z: "val Za = 0" "is_fin Za" "val Zb = 0" "is_fin Zb"
    and ra: "rnd y a = (if ?r a = 0 then Za else if K \<le> \<bar>?r a\<bar> then Inf (?r a < 0) else Fin (?r a))"
    and rb: "rnd z b = (if ?r b = 0 then Zb else if K \<le> \<bar>?r b\<bar> then Inf (?r b < 0) else Fin (?r b))"
    using form [of y a] form [of z b] by blast
  have i: "Inf s \<le> (Inf u :: 'p flt) \<longleftrightarrow> s \<or> \<not> u" "Inf s \<le> w \<longleftrightarrow> s" "w \<le> Inf s \<longleftrightarrow> \<not> s"
    if "is_fin w" for s u and w :: "'p flt"
    using that by (cases w; auto simp: less_eq_flt_def)+
  note fl = fin_less_eq i [of "Fin 0"] i [of Za] i [of Zb] i [of "Fin c" for c]
  have fa: "?r a = 0 \<or> \<bar>?r a\<bar> < K \<Longrightarrow> rnd y a = (if ?r a = 0 then Za else Fin (?r a))" 
    "\<not> (?r a = 0 \<or> \<bar>?r a\<bar> < K) \<Longrightarrow> rnd y a = (Inf (?r a < 0) :: 'p flt)" by (auto simp: ra)
  have fb: "?r b = 0 \<or> \<bar>?r b\<bar> < K \<Longrightarrow> rnd z b = (if ?r b = 0 then Zb else Fin (?r b))" 
    "\<not> (?r b = 0 \<or> \<bar>?r b\<bar> < K) \<Longrightarrow> rnd z b = (Inf (?r b < 0) :: 'p flt)" by (auto simp: rb)
  show ?thesis
  proof (cases "?r a = 0 \<or> \<bar>?r a\<bar> < K"; cases "?r b = 0 \<or> \<bar>?r b\<bar> < K")
    assume "?r a = 0 \<or> \<bar>?r a\<bar> < K" "?r b = 0 \<or> \<bar>?r b\<bar> < K"
    then show ?thesis using le z by (simp only: fa fb) (simp add: fl)
  next
    assume A: "?r a = 0 \<or> \<bar>?r a\<bar> < K" and B: "\<not> (?r b = 0 \<or> \<bar>?r b\<bar> < K)"
    then have "\<not> ?r b < 0" using le K by linarith
    then show ?thesis using z by (simp only: fa(1) [OF A] fb(2) [OF B]) (simp add: fl)
  next
    assume A: "\<not> (?r a = 0 \<or> \<bar>?r a\<bar> < K)" and B: "?r b = 0 \<or> \<bar>?r b\<bar> < K"
    then have "?r a < 0" using le K by linarith
    then show ?thesis using z by (simp only: fa(2) [OF A] fb(1) [OF B]) (simp add: fl)
  next
    assume A: "\<not> (?r a = 0 \<or> \<bar>?r a\<bar> < K)" and B: "\<not> (?r b = 0 \<or> \<bar>?r b\<bar> < K)"
    have "?r b < 0 \<Longrightarrow> ?r a < 0" using le by linarith
    then show ?thesis by (simp only: fa(2) [OF A] fb(2) [OF B]) (auto simp: less_eq_flt_def)
  qed
qed

lemma flt_le_cases:
  assumes "a \<le> b"
  obtains "a = Inf True" "b \<noteq> NaN" | "b = Inf False" "a \<noteq> NaN" | "is_fin a" "is_fin b" "val a \<le> val b"
  using assms by (cases a; cases b) (auto simp: less_eq_flt_def)

lemma inf_le [simp]: "(Inf True \<le> b) = (b \<noteq> NaN)" "(a \<le> Inf False) = (a \<noteq> NaN)"
  by (cases b; auto simp: less_eq_flt_def) (cases a; auto simp: less_eq_flt_def)

lemma fsub_mono: "a \<le> b \<Longrightarrow> is_fin c \<Longrightarrow> a - c \<le> b - c"
proof -
  assume le: "a \<le> b" and c: "is_fin c"
  have i: "Inf s - c = Inf s" for s
    using c fin_neg(1) [of c] by (cases "fneg c") (auto simp: minus_flt_def fadd_def uminus_flt_def)
  have n: "x \<noteq> NaN \<Longrightarrow> x - c \<noteq> NaN" for x
    using c by (cases x) (auto simp: i fin_sub)
  from le show ?thesis by (cases rule: flt_le_cases) (auto simp: i n fin_sub c intro: rnd_le)
qed

lemma fmult_mono: "a \<le> b \<Longrightarrow> is_fin c \<Longrightarrow> 0 < val c \<Longrightarrow> c * a \<le> c * b"
proof -
  assume le: "a \<le> b" and c: "is_fin c" "0 < val c"
  then have s: "\<not> sgnb c" by (cases c) auto
  then have i: "c * Inf s = Inf s" for s
    using c by (auto simp: times_flt_def fmul_def)
  have n: "x \<noteq> NaN \<Longrightarrow> c * x \<noteq> NaN" for x
    using c by (cases x) (auto simp: i fin_mult)
  from le show ?thesis by (cases rule: flt_le_cases) (use c in \<open>auto simp: i n fin_mult intro: rnd_le mult_left_mono\<close>)
qed

lemma fdiv_mono: "a \<le> b \<Longrightarrow> is_fin c \<Longrightarrow> 0 < val c \<Longrightarrow> a / c \<le> b / c"
proof -
  assume le: "a \<le> b" and c: "is_fin c" "0 < val c"
  then have s: "\<not> sgnb c" by (cases c) auto
  then have i: "Inf s / c = Inf s" for s
    using c by (auto simp: divide_flt_def fdiv_def)
  have n: "x \<noteq> NaN \<Longrightarrow> x / c \<noteq> NaN" for x
    using c by (cases x) (auto simp: i fin_div)
  from le show ?thesis by (cases rule: flt_le_cases) (use c in \<open>auto simp: i n fin_div intro!: rnd_le divide_right_mono\<close>)
qed

lemma conv_mono: "a \<le> b \<Longrightarrow> conv a \<le> conv b"
proof -
  assume le: "a \<le> b"
  have n: "x \<noteq> NaN \<Longrightarrow> conv x \<noteq> NaN" for x :: "'a flt"
    by (cases x) (auto simp: conv_def)
  from le show ?thesis
  proof (cases rule: flt_le_cases)
    case 3 then show ?thesis by (simp add: fin_conv rnd_le)
  qed (use n in \<open>auto simp: conv_def split: flt.splits\<close>)
qed

subsection \<open>Error of one rounding, floors and conversions to integers\<close>

lemma repr_in_powi:
  assumes k: "1 \<le> k" "k \<le> 100"
  shows "repr_in TYPE(f32) (2 powi k)" "repr_in TYPE(f64) (2 powi k)"
proof -
  have r: "representable p e (2 powi k)" if "1 \<le> p" "e - (p - 1) \<le> k" for p e
  proof -
    have "(2::rat) powi k = of_int 1 * 2 powi k \<and> \<bar>1::int\<bar> \<le> 2 ^ nat p \<and> e - (p - 1) \<le> k"
      using that by simp
    then show ?thesis unfolding representable_def by blast
  qed
  have b: "(2::rat) powi k < 2 powi (e + 1)" if "100 \<le> e" for e
    using k that by (intro power_int_strict_increasing) auto
  show "repr_in TYPE(f32) (2 powi k)" "repr_in TYPE(f64) (2 powi k)"
    using k r b [of 127] b [of 1023] unfolding repr_in_def prec_of_def emin_of_def emax_of_def by simp_all
qed

lemma repr_in_uminus: "repr_in T (- y) = repr_in T y"
proof -
  have "representable p e y \<Longrightarrow> representable p e (- y)" for p e y
    unfolding representable_def by (metis abs_minus_cancel mult_minus_left of_int_minus)
  from this [of _ _ y] this [of _ _ "- y"] show ?thesis by (auto simp: repr_in_def)
qed

lemma rnd32_err:
  assumes q: "\<bar>q\<bar> < 2 powi k" and k: "1 \<le> k" "k \<le> 100"
  shows "is_fin (rnd z q :: f32)" "\<bar>val (rnd z q :: f32) - q\<bar> \<le> 2 powi (k - 25)"
proof -
  show f: "is_fin (rnd z q :: f32)"
    using rnd_between [of "- (2 powi k)" "2 powi k" q z, where 'p = 24] repr_in_powi(1) [OF k] q
    by (auto simp: repr_in_uminus abs_less_iff)
  show "\<bar>val (rnd z q :: f32) - q\<bar> \<le> 2 powi (k - 25)"
    using rndq_err [of 24 q k "- 126"] q k by (simp add: rnd_val [OF f]) (simp add: prec_of_def emin_of_def)
qed

lemma rnd64_err:
  assumes q: "\<bar>q\<bar> < 2 powi k" and k: "1 \<le> k" "k \<le> 100"
  shows "is_fin (rnd z q :: f64)" "\<bar>val (rnd z q :: f64) - q\<bar> \<le> 2 powi (k - 54)"
proof -
  show f: "is_fin (rnd z q :: f64)"
    using rnd_between [of "- (2 powi k)" "2 powi k" q z, where 'p = 53] repr_in_powi(2) [OF k] q
    by (auto simp: repr_in_uminus abs_less_iff)
  show "\<bar>val (rnd z q :: f64) - q\<bar> \<le> 2 powi (k - 54)"
    using rndq_err [of 53 q k "- 1022"] q k by (simp add: rnd_val [OF f]) (simp add: prec_of_def emin_of_def)
qed

lemma of_i_exact [simp]:
  "\<bar>n\<bar> \<le> 16777216 \<Longrightarrow> is_fin (of_i n :: f32)" "\<bar>n\<bar> \<le> 16777216 \<Longrightarrow> val (of_i n :: f32) = of_int n"
  "\<bar>n\<bar> \<le> 9007199254740992 \<Longrightarrow> is_fin (of_i n :: f64)" "\<bar>n\<bar> \<le> 9007199254740992 \<Longrightarrow> val (of_i n :: f64) = of_int n"
  unfolding of_i_def by (simp_all add: rnd_exact repr_in_f32_int repr_in_f64_int)

lemma lit_int: "repr_in TYPE('p flt) (of_int n) \<Longrightarrow> is_fin (lit (of_int n) :: ('p::len) flt) \<and> val (lit (of_int n) :: 'p flt) = of_int n"
  by (simp add: lit_def rnd_exact)

lemma fin_floor [simp]: "is_fin (ffloor a) = is_fin a" "is_fin a \<Longrightarrow> val (ffloor a) = of_int \<lfloor>val a\<rfloor>"
  by (cases a; simp add: ffloor_def)+

lemma fin_ceil [simp]: "is_fin (fceil a) = is_fin a" "is_fin a \<Longrightarrow> val (fceil a) = of_int \<lceil>val a\<rceil>"
  by (cases a; simp add: fceil_def)+

lemma trunc_of_int [simp]: "trunc (of_int n) = n"
  by (simp add: trunc_def)

lemma trunc_mono: "a \<le> b \<Longrightarrow> trunc a \<le> trunc b"
proof -
  assume ab: "a \<le> b"
  consider "0 \<le> a" "0 \<le> b" | "\<not> 0 \<le> a" "0 \<le> b" | "\<not> 0 \<le> a" "\<not> 0 \<le> b" using ab by linarith
  then show ?thesis
  proof cases
    case 1 then show ?thesis using floor_mono [OF ab] by (simp only: trunc_def if_True)
  next
    case 2
    then have "\<lceil>a\<rceil> \<le> 0" "0 \<le> \<lfloor>b\<rfloor>" by simp_all
    with 2 show ?thesis by (simp only: trunc_def if_True if_False)
  next
    case 3 then show ?thesis using ceiling_mono [OF ab] by (simp only: trunc_def if_False)
  qed
qed

lemma conv_err: 
  assumes f: "is_fin (x :: f32)" and b: "\<bar>val x\<bar> < 2 powi k" "1 \<le> k" "k \<le> 100"
  shows "is_fin (conv x :: f64)" "\<bar>val (conv x :: f64) - val x\<bar> \<le> 2 powi (k - 54)"
  using rnd64_err [OF b] by (simp_all add: fin_conv f)

lemma fadd_mono: "a \<le> b \<Longrightarrow> is_fin c \<Longrightarrow> a + c \<le> b + c"
proof -
  assume le: "a \<le> b" and c: "is_fin c"
  have i: "Inf s + c = Inf s" for s
    using c by (cases c) (auto simp: plus_flt_def fadd_def)
  have n: "x \<noteq> NaN \<Longrightarrow> x + c \<noteq> NaN" for x
    using c by (cases x) (auto simp: i fin_add)
  from le show ?thesis by (cases rule: flt_le_cases) (auto simp: i n fin_add c intro: rnd_le)
qed

lemma flt_le_trans: "a \<le> b \<Longrightarrow> b \<le> c \<Longrightarrow> a \<le> (c :: ('p::len) flt)"
  by (cases a; cases b; cases c) (auto simp: less_eq_flt_def)

lemma flt_le_less_trans: "a \<le> b \<Longrightarrow> b < c \<Longrightarrow> a < (c :: ('p::len) flt)"
  by (cases a; cases b; cases c) (auto simp: less_flt_def less_eq_flt_def)

lemma flt_less_le_trans: "a < b \<Longrightarrow> b \<le> c \<Longrightarrow> a < (c :: ('p::len) flt)"
  by (cases a; cases b; cases c) (auto simp: less_flt_def less_eq_flt_def)

lemma rnd64_b: "\<bar>q\<bar> \<le> 8000000 \<Longrightarrow> is_fin (rnd z q :: f64) \<and> \<bar>val (rnd z q :: f64) - q\<bar> \<le> 1 / 1000000000"
  using rnd64_err [of q 23 z] by simp

lemma rnd32_s: "\<bar>q\<bar> \<le> 31 \<Longrightarrow> is_fin (rnd z q :: f32) \<and> \<bar>val (rnd z q :: f32) - q\<bar> \<le> 1 / 1000000"
  using rnd32_err [of q 5 z] by simp

lemma rnd32_b: "\<bar>q\<bar> \<le> 500000 \<Longrightarrow> is_fin (rnd z q :: f32) \<and> \<bar>val (rnd z q :: f32) - q\<bar> \<le> 1 / 50"
  using rnd32_err [of q 19 z] by simp

lemma approx_trans: "\<bar>a - b\<bar> \<le> d \<Longrightarrow> \<bar>b - c\<bar> \<le> e \<Longrightarrow> d + e \<le> f \<Longrightarrow> \<bar>a - c\<bar> \<le> (f :: rat)"
  by linarith

lemma approx_bound: "\<bar>a - b\<bar> \<le> d \<Longrightarrow> \<bar>b\<bar> \<le> e \<Longrightarrow> d + e \<le> f \<Longrightarrow> \<bar>a\<bar> \<le> (f :: rat)"
  by linarith

lemma approx_mult: "\<bar>a - b\<bar> \<le> d \<Longrightarrow> 0 \<le> c \<Longrightarrow> c \<le> e \<Longrightarrow> d * e \<le> f \<Longrightarrow> \<bar>a * c - b * c\<bar> \<le> (f :: rat)"
proof -
  assume a: "\<bar>a - b\<bar> \<le> d" and c: "0 \<le> c" "c \<le> e" and f: "d * e \<le> f"
  have "\<bar>a * c - b * c\<bar> = \<bar>a - b\<bar> * c" using c by (simp add: abs_mult flip: left_diff_distrib)
  also have "\<dots> \<le> d * e" using a c by (intro mult_mono) auto
  finally show ?thesis using f by linarith
qed

lemma approx_div: "\<bar>a - b\<bar> \<le> d \<Longrightarrow> e \<le> c \<Longrightarrow> 0 < e \<Longrightarrow> d / e \<le> f \<Longrightarrow> \<bar>a / c - b / c\<bar> \<le> (f :: rat)"
proof -
  assume a: "\<bar>a - b\<bar> \<le> d" and c: "e \<le> c" "0 < e" and f: "d / e \<le> f"
  have "\<bar>a / c - b / c\<bar> = \<bar>a - b\<bar> / c" using c by (simp add: abs_divide flip: diff_divide_distrib)
  also have "\<dots> \<le> d / e" using a c by (intro frac_le) auto
  finally show ?thesis using f by linarith
qed

end
