(* ===== verification/FltBits.thy ===== *)
theory FltBits
  imports Flt
begin

text \<open>
  The bit patterns of floating point values, as the firmware sees them through the union of
  Calibration.h and the byte-wise access of EEPROMAnything.h: sign, biased exponent and fraction,
  stored in little-endian byte order.  There is a single not-a-number (the quiet one).
\<close>

text \<open>Width of the exponent field of the two formats.\<close>

definition ebits_of :: "('p::len) flt itself \<Rightarrow> int" where
  "ebits_of T = (if prec_of T \<le> 24 then 8 else 11)"

definition encode_flt :: "('p::len) flt \<Rightarrow> int" where
  "encode_flt a =
     (let mb = prec_of TYPE('p flt) - 1; w = ebits_of TYPE('p flt); em = emin_of TYPE('p flt);
          sgn = (\<lambda>s. if s then pow2 (mb + w) else 0); inf = (pow2 w - 1) * pow2 mb
      in case a of
        NaN \<Rightarrow> inf + pow2 (mb - 1)
      | Inf s \<Rightarrow> sgn s + inf
      | NegZero \<Rightarrow> sgn True
      | Fin q \<Rightarrow> (if q = 0 then 0
          else let e = max (ilog2 \<bar>q\<bar>) em; k = \<lfloor>\<bar>q\<bar> / 2 powi (e - mb)\<rfloor>
               in sgn (q < 0) + (if k < pow2 mb then k else (e - em + 1) * pow2 mb + (k - pow2 mb))))"

definition decode_flt :: "int \<Rightarrow> ('p::len) flt" where
  "decode_flt n =
     (let mb = prec_of TYPE('p flt) - 1; w = ebits_of TYPE('p flt); em = emin_of TYPE('p flt);
          s = (pow2 (mb + w) \<le> n); r = n mod pow2 (mb + w); ex = r div pow2 mb; m = r mod pow2 mb;
          sg = (if s then - 1 else 1)
      in if ex = pow2 w - 1 then (if m = 0 then Inf s else NaN)
         else if ex = 0 then (if m = 0 then (if s then NegZero else Fin 0) else Fin (scale2 (sg * m) (em - mb)))
         else Fin (scale2 (sg * (m + pow2 mb)) (em + ex - 1 - mb)))"

fun wf_flt :: "('p::len) flt \<Rightarrow> bool" where
  "wf_flt (Fin q) = repr_in TYPE('p flt) q"
| "wf_flt _ = True"

lemma rnd_wf: "wf_flt (rnd z q :: ('p::len) flt)"
proof -
  let ?r = "rndq (prec_of TYPE('p flt)) (emin_of TYPE('p flt)) q"
  have "representable (prec_of TYPE('p flt)) (emin_of TYPE('p flt)) ?r" by (rule rndq_is_repr [OF prec_ge1])
  moreover have "representable (prec_of TYPE('p flt)) (emin_of TYPE('p flt)) 0"
    using rndq_is_repr [OF prec_ge1, of "TYPE('p flt)" "emin_of TYPE('p flt)" 0] by (simp add: rndq_def)
  moreover have "(2::rat) powi (emax_of TYPE('p flt) + 1) > 0" by simp
  ultimately show ?thesis
    by (auto simp: rnd_def Let_def repr_in_def ilog2_gt_iff not_le)
qed

lemma repr_significand:
  assumes r: "representable p em q" and p: "1 \<le> p" and q: "q \<noteq> 0"
  defines "e \<equiv> max (ilog2 \<bar>q\<bar>) em"
  obtains k where "\<bar>q\<bar> = of_int k * 2 powi (e - (p - 1))" "0 < k" "k < 2 ^ nat p" "k < 2 ^ nat (p - 1) \<Longrightarrow> e = em"
proof -
  define k where "k = rne (\<bar>q\<bar> / 2 powi (e - (p - 1)))"
  have "rndq p em \<bar>q\<bar> = \<bar>q\<bar>" using rndq_representable [OF r p] by (cases "0 \<le> q") (auto simp: rndq_uminus)
  then have eq: "\<bar>q\<bar> = of_int k * 2 powi (e - (p - 1))" using q by (simp add: rndq_def Let_def k_def qexp_def e_def)
  have "0 < of_int k * (2::rat) powi (e - (p - 1))" unfolding eq [symmetric] using q by simp
  then have "(0::rat) < of_int k" by (simp only: zero_less_mult_pos2 [OF _ powi_gt0])
  then have k0: "0 < k" by simp
  have e1: "ilog2 \<bar>q\<bar> + 1 \<le> e + 1" by (simp only: e_def add_le_cancel_right max.cobounded1)
  have "\<bar>q\<bar> < 2 powi (ilog2 \<bar>q\<bar> + 1)" by (rule ilog2_bounds(2)) (simp add: q)
  also have "\<dots> \<le> 2 powi (e + 1)" using e1 by (simp only: powi_le_iff)
  finally have "of_int k * (2::rat) powi (e - (p - 1)) < 2 powi (e + 1)" unfolding eq .
  also have "(2::rat) powi (e + 1) = of_int (2 ^ nat p) * 2 powi (e - (p - 1))"
    using p two_powi_nat [of p] powi_add2 [of p "e - (p - 1)"] by (simp del: of_int_power)
  finally have k1: "k < 2 ^ nat p" by (simp only: mult_less_cancel_right_pos powi_gt0 of_int_less_iff)
  have "e = em" if "k < 2 ^ nat (p - 1)"
  proof (rule ccontr)
    assume "e \<noteq> em"
    then have "e = ilog2 \<bar>q\<bar>" by (simp add: e_def max_def split: if_splits)
    then have "2 powi e \<le> \<bar>q\<bar>" using ilog2_bounds(1) [of "\<bar>q\<bar>"] q by simp
    also have "\<dots> < of_int (2 ^ nat (p - 1)) * 2 powi (e - (p - 1))"
      unfolding eq using that by (simp only: mult_less_cancel_right_pos powi_gt0 of_int_less_iff)
    also have "\<dots> = 2 powi e"
      using p two_powi_nat [of "p - 1"] powi_add2 [of "p - 1" "e - (p - 1)"] by (simp del: of_int_power)
    finally show False by simp
  qed
  with eq k0 k1 show ?thesis by (rule that)
qed


lemma pow2_pos [simp]: "0 < pow2 k" "0 \<le> pow2 k" "pow2 k \<noteq> 0" by (simp_all add: pow2_eq)

lemma pow2_add: "0 \<le> a \<Longrightarrow> 0 \<le> b \<Longrightarrow> pow2 (a + b) = pow2 a * pow2 b"
  by (simp add: pow2_eq nat_add_distrib power_add)

text \<open>The formats at hand: single and double precision.\<close>

definition std_format :: "('p::len) flt itself \<Rightarrow> bool" where
  "std_format T \<longleftrightarrow> 3 \<le> prec_of T \<and> - emin_of T = pow2 (ebits_of T - 1) - 2"

lemma std_formats: "std_format TYPE(f32)" "std_format TYPE(f64)"
  by code_simp+

definition fields_value :: "bool \<Rightarrow> int \<Rightarrow> int \<Rightarrow> ('p::len) flt" where
  "fields_value s x m =
     (let mb = prec_of TYPE('p flt) - 1; w = ebits_of TYPE('p flt); em = emin_of TYPE('p flt); sg = (if s then - 1 else 1) in
      if x = pow2 w - 1 then (if m = 0 then Inf s else NaN)
      else if x = 0 then (if m = 0 then (if s then NegZero else Fin 0) else Fin (scale2 (sg * m) (em - mb)))
      else Fin (scale2 (sg * (m + pow2 mb)) (em + x - 1 - mb)))"

definition fields_ok :: "('p::len) flt itself \<Rightarrow> int \<Rightarrow> int \<Rightarrow> bool" where
  "fields_ok T x m \<longleftrightarrow> 0 \<le> m \<and> m < pow2 (prec_of T - 1) \<and> 0 \<le> x \<and> x < pow2 (ebits_of T)"

definition fields_int :: "('p::len) flt itself \<Rightarrow> bool \<Rightarrow> int \<Rightarrow> int \<Rightarrow> int" where
  "fields_int T s x m = (if s then pow2 (prec_of T - 1 + ebits_of T) else 0) + (x * pow2 (prec_of T - 1) + m)"

lemma ebits_ge: "3 \<le> ebits_of T"
  by (simp add: ebits_of_def)

lemma fields_bounds:
  assumes "fields_ok T x m"
  shows "0 \<le> x * pow2 (prec_of T - 1) + m \<and> x * pow2 (prec_of T - 1) + m < pow2 (prec_of T - 1 + ebits_of T)"
proof -
  have "pow2 (prec_of T - 1 + ebits_of T) = pow2 (ebits_of T) * pow2 (prec_of T - 1)"
    using prec_ge1 [of T] ebits_ge [of T] by (simp add: pow2_add)
  moreover have "x * pow2 (prec_of T - 1) \<le> (pow2 (ebits_of T) - 1) * pow2 (prec_of T - 1)"
    using assms by (intro mult_right_mono) (auto simp: fields_ok_def order_less_imp_le)
  ultimately show ?thesis using assms by (auto simp: fields_ok_def algebra_simps)
qed

lemma decode_fields:
  assumes ok: "fields_ok TYPE('p flt) x m"
  shows "(decode_flt (fields_int TYPE('p flt) s x m) :: ('p::len) flt) = fields_value s x m"
proof -
  define mb w where "mb = prec_of TYPE('p flt) - 1" and "w = ebits_of TYPE('p flt)"
  define S where "S = pow2 (mb + w)"
  have b: "0 \<le> x * pow2 mb + m" "x * pow2 mb + m < S"
    using fields_bounds [OF ok] by (simp_all add: S_def mb_def w_def)
  have m: "0 \<le> m" "m < pow2 mb" using ok by (simp_all add: fields_ok_def mb_def)
  have sg: "(S \<le> (if s then S else 0) + (x * pow2 mb + m)) = s" using b by auto
  have r: "((if s then S else 0) + (x * pow2 mb + m)) mod S = x * pow2 mb + m" using b by simp
  have f: "(x * pow2 mb + m) div pow2 mb = x" "(x * pow2 mb + m) mod pow2 mb = m" using m by simp_all
  show ?thesis
    unfolding decode_flt_def fields_int_def fields_value_def Let_def mb_def [symmetric] w_def [symmetric] S_def [symmetric] sg r f
    by (rule refl)
qed

lemma fields_I:
  "fields_ok TYPE(('p::len) flt) x m \<Longrightarrow> encode_flt a = fields_int TYPE('p flt) s x m \<Longrightarrow> fields_value s x m = a
   \<Longrightarrow> \<exists>s x m. fields_ok TYPE('p flt) x m \<and> encode_flt a = fields_int TYPE('p flt) s x m \<and> fields_value s x m = (a :: 'p flt)"
  by blast

lemma encode_fields:
  assumes wf: "wf_flt (a :: ('p::len) flt)" and p: "std_format TYPE('p flt)"
  shows "\<exists>s x m. fields_ok TYPE('p flt) x m \<and> encode_flt a = fields_int TYPE('p flt) s x m \<and> fields_value s x m = a"
proof -
  define mb w em where "mb = prec_of TYPE('p flt) - 1" and "w = ebits_of TYPE('p flt)" and "em = emin_of TYPE('p flt)"
  note d = mb_def [symmetric] w_def [symmetric] em_def [symmetric]
  have w1: "3 \<le> w" and mb0: "2 \<le> mb" using p ebits_ge by (simp_all add: w_def mb_def std_format_def)
  have em: "- em = pow2 (w - 1) - 2" using p by (simp add: std_format_def em_def w_def)
  have w2: "pow2 w = 2 * pow2 (w - 1)" using w1 pow2_add [of 1 "w - 1"] by (simp add: pow2_eq)
  have w4: "4 \<le> pow2 (w - 1)" using w1 pow2_add [of 2 "w - 3"] pow2_pos [of "w - 3"] by (simp add: pow2_eq)
  have h: "0 < pow2 (mb - 1)" "pow2 mb = 2 * pow2 (mb - 1)" using mb0 pow2_add [of 1 "mb - 1"] by (simp_all add: pow2_eq)
  note simps = fields_ok_def fields_int_def fields_value_def encode_flt_def Let_def d
  consider "a = NaN" | s where "a = Inf s" | "a = NegZero" | "a = Fin 0" | q where "a = Fin q" "q \<noteq> 0" by (cases a) auto
  then show ?thesis
  proof cases
    case 1 show ?thesis
      by (rule fields_I [where s = False and x = "pow2 w - 1" and m = "pow2 (mb - 1)"])
        (use 1 h w2 w4 in \<open>simp_all add: simps\<close>)
  next
    case (2 s) show ?thesis
      by (rule fields_I [where s = s and x = "pow2 w - 1" and m = 0])
        (use 2 w2 w4 in \<open>simp_all add: simps\<close>)
  next
    case 3 show ?thesis
      by (rule fields_I [where s = True and x = 0 and m = 0])
        (use 3 w2 w4 in \<open>simp_all add: simps\<close>)
  next
    case 4 show ?thesis
      by (rule fields_I [where s = False and x = 0 and m = 0])
        (use 4 w2 w4 in \<open>simp_all add: simps\<close>)
  next
    case (5 q)
    have r: "representable (mb + 1) em q" "\<bar>q\<bar> < 2 powi (2 - em)"
      using wf 5 by (simp_all add: repr_in_def mb_def em_def emax_of_def)
    define e where "e = max (ilog2 \<bar>q\<bar>) em"
    obtain k where k: "\<bar>q\<bar> = of_int k * 2 powi (e - mb)" "0 < k" "k < 2 ^ nat (mb + 1)" "k < 2 ^ nat mb \<Longrightarrow> e = em"
      using repr_significand [OF r(1) _ 5(2)] mb0 unfolding e_def by auto
    have "ilog2 \<bar>q\<bar> < 2 - em" using r(2) 5(2) by (simp add: ilog2_less_iff)
    then have e1: "em \<le> e" "e < 2 - em" using em w4 by (auto simp: e_def)
    have fl: "\<lfloor>\<bar>q\<bar> / 2 powi (e - mb)\<rfloor> = k" by (simp add: k(1))
    have k2: "k < 2 * pow2 mb" "k < pow2 mb \<Longrightarrow> e = em" using k(3,4) mb0 by (simp_all add: pow2_eq nat_add_distrib)
    have q: "q = (if q < 0 then - 1 else 1) * \<bar>q\<bar>" by simp
    have sc: "scale2 ((if q < 0 then - 1 else 1) * k) (e - mb) = q"
      by (subst (2) q) (simp add: scale2_eq k(1))
    have enc: "encode_flt a = (if q < 0 then pow2 (mb + w) else 0) + (if k < pow2 mb then k else (e - em + 1) * pow2 mb + (k - pow2 mb))"
      using 5 by (simp add: encode_flt_def Let_def d e_def [symmetric] fl)
    show ?thesis
    proof (cases "k < pow2 mb")
      case True
      show ?thesis
      by (rule fields_I [where s = "q < 0" and x = 0 and m = k])
        (use True k(2) k2 enc sc 5 w2 w4 in \<open>simp_all add: fields_ok_def fields_int_def fields_value_def Let_def d\<close>)
    next
      case False
      show ?thesis
      by (rule fields_I [where s = "q < 0" and x = "e - em + 1" and m = "k - pow2 mb"])
        (use False k(2) k2 enc sc 5 e1 em w2 w4 in \<open>simp_all add: fields_ok_def fields_int_def fields_value_def Let_def d\<close>)
    qed
  qed
qed

theorem decode_encode:
  assumes "wf_flt (a :: ('p::len) flt)" and "std_format TYPE('p flt)"
  shows "decode_flt (encode_flt a) = a"
  using encode_fields [OF assms] decode_fields by metis

lemma encode_bounds:
  assumes "wf_flt (a :: ('p::len) flt)" and "std_format TYPE('p flt)"
  shows "0 \<le> encode_flt a \<and> encode_flt a < pow2 (prec_of TYPE('p flt) + ebits_of TYPE('p flt))"
proof -
  let ?T = "TYPE('p flt)"
  obtain s x m where "fields_ok ?T x m" "encode_flt a = fields_int ?T s x m" using encode_fields [OF assms] by blast
  moreover have "pow2 (prec_of ?T + ebits_of ?T) = 2 * pow2 (prec_of ?T - 1 + ebits_of ?T)"
    using pow2_add [of 1 "prec_of ?T - 1 + ebits_of ?T"] prec_ge1 [of ?T] ebits_ge [of ?T] by (simp add: pow2_eq)
  ultimately show ?thesis using fields_bounds [of ?T x m] by (auto simp: fields_int_def)
qed

subsection \<open>Little-endian bytes\<close>

fun le_bytes :: "nat \<Rightarrow> int \<Rightarrow> byte list" where
  "le_bytes 0 n = []"
| "le_bytes (Suc k) n = word_of_int (n mod 256) # le_bytes k (n div 256)"

fun le_value :: "byte list \<Rightarrow> int" where
  "le_value [] = 0"
| "le_value (b # bs) = uint b + 256 * le_value bs"

lemma le_bytes_length [simp]: "length (le_bytes k n) = k"
  by (induction k arbitrary: n) simp_all

lemma le_value_le_bytes: "0 \<le> n \<Longrightarrow> n < 256 ^ k \<Longrightarrow> le_value (le_bytes k n) = n"
proof (induction k arbitrary: n)
  case (Suc k)
  have "n div 256 < 256 ^ k" using Suc.prems by (simp add: div_less_iff_less_mult mult.commute)
  moreover have "uint (word_of_int (n mod 256) :: byte) = n mod 256" by (simp add: uint_word_of_int)
  ultimately show ?case using Suc by (simp add: pos_imp_zdiv_nonneg_iff)
qed simp

definition float_bytes :: "f32 \<Rightarrow> byte list" where "float_bytes f = le_bytes 4 (encode_flt f)"
definition float_of_bytes :: "byte list \<Rightarrow> f32" where "float_of_bytes bs = decode_flt (le_value bs)"
definition double_bytes :: "f64 \<Rightarrow> byte list" where "double_bytes f = le_bytes 8 (encode_flt f)"
definition double_of_bytes :: "byte list \<Rightarrow> f64" where "double_of_bytes bs = decode_flt (le_value bs)"

lemma float_of_bytes_inverse: "wf_flt f \<Longrightarrow> float_of_bytes (float_bytes f) = f"
proof -
  assume f: "wf_flt f"
  have "pow2 (prec_of TYPE(f32) + ebits_of TYPE(f32)) = 256 ^ 4" by code_simp
  then show ?thesis using encode_bounds [OF f std_formats(1)] decode_encode [OF f std_formats(1)]
    by (simp add: float_of_bytes_def float_bytes_def le_value_le_bytes del: le_bytes.simps)
qed

lemma double_of_bytes_inverse: "wf_flt f \<Longrightarrow> double_of_bytes (double_bytes f) = f"
proof -
  assume f: "wf_flt f"
  have "pow2 (prec_of TYPE(f64) + ebits_of TYPE(f64)) = 256 ^ 8" by code_simp
  then show ?thesis using encode_bounds [OF f std_formats(2)] decode_encode [OF f std_formats(2)]
    by (simp add: double_of_bytes_def double_bytes_def le_value_le_bytes del: le_bytes.simps)
qed

lemma float_bytes_length [simp]: "length (float_bytes f) = 4" and double_bytes_length [simp]: "length (double_bytes g) = 8"
  by (simp_all only: float_bytes_def double_bytes_def le_bytes_length)

end
