(* ===== verification/Eeprom.thy ===== *)
theory Eeprom
  imports FltBits
begin

text \<open>
  Byte-addressed non-volatile memory and the values the firmware keeps in it: single floats through
  the union of Calibration.h (floatToEeprom, floatFromEeprom) and whole structs through
  EEPROMAnything.h.  The contract of the memory is a locale; the address map is eeprom_adr.h.
\<close>

section \<open>The interface of a byte store\<close>

fun store_bytes :: "('m \<Rightarrow> int \<Rightarrow> byte \<Rightarrow> 'm) \<Rightarrow> int \<Rightarrow> byte list \<Rightarrow> 'm \<Rightarrow> 'm" where
  "store_bytes wr a [] m = m"
| "store_bytes wr a (b # bs) m = store_bytes wr (a + 1) bs (wr m a b)"

fun load_bytes :: "('m \<Rightarrow> int \<Rightarrow> byte) \<Rightarrow> int \<Rightarrow> nat \<Rightarrow> 'm \<Rightarrow> byte list" where
  "load_bytes rd a 0 m = []"
| "load_bytes rd a (Suc n) m = rd m a # load_bytes rd (a + 1) n m"

text \<open>What a memory promises: a read returns the byte last written at that address.\<close>

locale byte_store =
  fixes rd :: "'m \<Rightarrow> int \<Rightarrow> byte" and wr :: "'m \<Rightarrow> int \<Rightarrow> byte \<Rightarrow> 'm"
  assumes rd_wr: "rd (wr m a b) a' = (if a' = a then b else rd m a')"
begin

lemma rd_store: "rd (store_bytes wr a bs m) x = (if a \<le> x \<and> x < a + int (length bs) then bs ! nat (x - a) else rd m x)"
proof (induction bs arbitrary: a m)
  case (Cons b bs)
  have "nat (x - a) = Suc (nat (x - (a + 1)))" if "a + 1 \<le> x" using that by simp
  with Cons.IH [of "a + 1" "wr m a b"] show ?case by (auto simp: rd_wr)
qed auto

lemma load_cong: "(\<And>x. a \<le> x \<Longrightarrow> x < a + int n \<Longrightarrow> rd m x = rd m' x) \<Longrightarrow> load_bytes rd a n m = load_bytes rd a n m'"
  by (induction n arbitrary: a) simp_all

lemma load_nth: "i < n \<Longrightarrow> load_bytes rd a n m ! i = rd m (a + int i)"
  by (induction n arbitrary: a i) (auto simp: nth_Cons' algebra_simps)

lemma load_length [simp]: "length (load_bytes rd a n m) = n"
  by (induction n arbitrary: a) simp_all

lemma load_store_same: "load_bytes rd a (length bs) (store_bytes wr a bs m) = bs"
  by (rule nth_equalityI) (simp_all add: load_nth rd_store)

lemma load_store_other:
  "a + int (length bs) \<le> x \<or> x + int n \<le> a \<Longrightarrow> load_bytes rd x n (store_bytes wr a bs m) = load_bytes rd x n m"
  by (rule load_cong) (auto simp: rd_store)

end

section \<open>The EEPROM\<close>

type_synonym eeprom = "int \<Rightarrow> byte"

definition EEPROM_read :: "eeprom \<Rightarrow> int \<Rightarrow> byte" where "EEPROM_read m a = m a"
definition EEPROM_write :: "eeprom \<Rightarrow> int \<Rightarrow> byte \<Rightarrow> eeprom" where "EEPROM_write m a b = m(a := b)"

interpretation eep: byte_store EEPROM_read EEPROM_write
  by unfold_locales (simp add: EEPROM_read_def EEPROM_write_def)

definition floatToEeprom :: "int \<Rightarrow> f32 \<Rightarrow> eeprom \<Rightarrow> eeprom" where
  "floatToEeprom address f m = store_bytes EEPROM_write address (float_bytes f) m"

definition floatFromEeprom :: "int \<Rightarrow> eeprom \<Rightarrow> f32" where
  "floatFromEeprom address m = float_of_bytes (load_bytes EEPROM_read address 4 m)"

definition EA_ANYTHING :: int where "EA_ANYTHING = 0x200"

text \<open>\<open>EEPROM.update\<close> writes a byte only when it differs; the contents are those of a write.\<close>

definition EEPROM_update :: "eeprom \<Rightarrow> int \<Rightarrow> byte \<Rightarrow> eeprom" where
  "EEPROM_update m a b = (if EEPROM_read m a = b then m else EEPROM_write m a b)"

interpretation upd: byte_store EEPROM_read EEPROM_update
  by unfold_locales (simp add: EEPROM_read_def EEPROM_write_def EEPROM_update_def)

definition EEPROM_writeAnything :: "int \<Rightarrow> byte list \<Rightarrow> eeprom \<Rightarrow> int \<times> eeprom" where
  "EEPROM_writeAnything ee v m = (int (length v), store_bytes EEPROM_update (ee + EA_ANYTHING) v m)"

definition EEPROM_readAnything :: "int \<Rightarrow> nat \<Rightarrow> eeprom \<Rightarrow> byte list" where
  "EEPROM_readAnything ee n m = load_bytes EEPROM_read (ee + EA_ANYTHING) n m"

section \<open>Reading back what was written\<close>

lemma float_eeprom_same [simp]: "wf_flt f \<Longrightarrow> floatFromEeprom a (floatToEeprom a f m) = f"
  using eep.load_store_same [of a "float_bytes f" m]
  by (simp add: floatFromEeprom_def floatToEeprom_def float_of_bytes_inverse)

lemma float_eeprom_other: "a + 4 \<le> x \<or> x + 4 \<le> a \<Longrightarrow> floatFromEeprom x (floatToEeprom a f m) = floatFromEeprom x m"
  using eep.load_store_other [of a "float_bytes f" x 4 m] by (simp add: floatFromEeprom_def floatToEeprom_def)

lemma float_eeprom_byte: "a + 4 \<le> x \<or> x < a \<Longrightarrow> floatToEeprom a f m x = m x"
  using eep.rd_store [of a "float_bytes f" m x] by (auto simp: EEPROM_read_def floatToEeprom_def)

lemma anything_same [simp]: "length v = n \<Longrightarrow> EEPROM_readAnything ee n (snd (EEPROM_writeAnything ee v m)) = v"
  using upd.load_store_same [of "ee + EA_ANYTHING" v m] by (auto simp: EEPROM_readAnything_def EEPROM_writeAnything_def)

text \<open>An erased cell (all ones) reads as not-a-number, which the callers take for "not defined".\<close>

lemma erased_is_nan: "(\<And>i. a \<le> i \<Longrightarrow> i < a + 4 \<Longrightarrow> m i = 0xFF) \<Longrightarrow> floatFromEeprom a m = NaN"
proof -
  assume m: "\<And>i. a \<le> i \<Longrightarrow> i < a + 4 \<Longrightarrow> m i = 0xFF"
  then have "load_bytes EEPROM_read a 4 m = [0xFF, 0xFF, 0xFF, 0xFF]"
    by (simp add: numeral_eq_Suc EEPROM_read_def m)
  moreover have "float_of_bytes [0xFF, 0xFF, 0xFF, 0xFF] = NaN" by code_simp
  ultimately show ?thesis by (simp add: floatFromEeprom_def)
qed

section \<open>The address map\<close>

definition EA_DAC_GAIN_COMP_POS_VOL :: int where "EA_DAC_GAIN_COMP_POS_VOL = 0x00"
definition EA_DAC_GAIN_COMP_NEG_VOL :: int where "EA_DAC_GAIN_COMP_NEG_VOL = 0x04"
definition EA_ADC_GAIN_COMP_POS_VOL :: int where "EA_ADC_GAIN_COMP_POS_VOL = 0x08"
definition EA_ADC_GAIN_COMP_NEG_VOL :: int where "EA_ADC_GAIN_COMP_NEG_VOL = 0x12"
definition EA_DAC_GAIN_COMP_POS_CUR :: int where "EA_DAC_GAIN_COMP_POS_CUR = 0x16"
definition EA_DAC_GAIN_COMP_NEG_CUR :: int where "EA_DAC_GAIN_COMP_NEG_CUR = 0x20"
definition EA_ADC_GAIN_COMP_POS_CUR :: int where "EA_ADC_GAIN_COMP_POS_CUR = 0x24"
definition EA_ADC_GAIN_COMP_NEG_CUR :: int where "EA_ADC_GAIN_COMP_NEG_CUR = 0x28"
definition EA_DAC_ZERO_COMP_VOL :: int where "EA_DAC_ZERO_COMP_VOL = 0x32"
definition EA_DAC_ZERO_COMP_CUR :: int where "EA_DAC_ZERO_COMP_CUR = 0x36"
definition EA_ADC_ZERO_COMP_VOL :: int where "EA_ADC_ZERO_COMP_VOL = 0x40"
definition EA_ADC_ZERO_COMP_CUR :: int where "EA_ADC_ZERO_COMP_CUR = 0x44"
definition EA_ADC_ZERO_COMP_CUR2 :: int where "EA_ADC_ZERO_COMP_CUR2 = 0x48"
definition EA_DAC_GAIN_COMP_POS_LIM :: int where "EA_DAC_GAIN_COMP_POS_LIM = 0x52"
definition EA_DAC_GAIN_COMP_POS_VOL2 :: int where "EA_DAC_GAIN_COMP_POS_VOL2 = 0x60"
definition EA_DAC_GAIN_COMP_NEG_VOL2 :: int where "EA_DAC_GAIN_COMP_NEG_VOL2 = 0x64"
definition EA_DAC_GAIN_COMP_POS_CUR2 :: int where "EA_DAC_GAIN_COMP_POS_CUR2 = 0x68"
definition EA_DAC_GAIN_COMP_NEG_CUR2 :: int where "EA_DAC_GAIN_COMP_NEG_CUR2 = 0x72"
definition EA_ADC_GAIN_COMP_POS_VOL2 :: int where "EA_ADC_GAIN_COMP_POS_VOL2 = 0x76"
definition EA_ADC_GAIN_COMP_NEG_VOL2 :: int where "EA_ADC_GAIN_COMP_NEG_VOL2 = 0x80"
definition EA_ADC_GAIN_COMP_POS_CUR2 :: int where "EA_ADC_GAIN_COMP_POS_CUR2 = 0x84"
definition EA_ADC_GAIN_COMP_NEG_CUR2 :: int where "EA_ADC_GAIN_COMP_NEG_CUR2 = 0x88"
definition EA_DAC_ZERO_COMP_VOL2 :: int where "EA_DAC_ZERO_COMP_VOL2 = 0x92"
definition EA_DAC_ZERO_COMP_CUR2 :: int where "EA_DAC_ZERO_COMP_CUR2 = 0x96"
definition EA_ADC_NONLINEAR_COMP_NR_VOL :: int where "EA_ADC_NONLINEAR_COMP_NR_VOL = 0x100"
definition EA_ADC_NONLINEAR_COMP_START_VOL :: int where "EA_ADC_NONLINEAR_COMP_START_VOL = 0x104"
definition EA_ADC_ZERO_COMP_VOL2 :: int where "EA_ADC_ZERO_COMP_VOL2 = 0x108"
definition EA_ADC_NONLINEAR_COMP_NR_CUR :: int where "EA_ADC_NONLINEAR_COMP_NR_CUR = 0x500"
definition EA_ADC_NONLINEAR_COMP_START_CUR :: int where "EA_ADC_NONLINEAR_COMP_START_CUR = 0x504"

lemmas address_defs = EA_DAC_GAIN_COMP_POS_VOL_def EA_DAC_GAIN_COMP_NEG_VOL_def EA_ADC_GAIN_COMP_POS_VOL_def
  EA_ADC_GAIN_COMP_NEG_VOL_def EA_DAC_GAIN_COMP_POS_CUR_def EA_DAC_GAIN_COMP_NEG_CUR_def EA_ADC_GAIN_COMP_POS_CUR_def
  EA_ADC_GAIN_COMP_NEG_CUR_def EA_DAC_ZERO_COMP_VOL_def EA_DAC_ZERO_COMP_CUR_def EA_ADC_ZERO_COMP_VOL_def
  EA_ADC_ZERO_COMP_CUR_def EA_ADC_ZERO_COMP_CUR2_def EA_DAC_GAIN_COMP_POS_LIM_def EA_DAC_GAIN_COMP_POS_VOL2_def
  EA_DAC_GAIN_COMP_NEG_VOL2_def EA_DAC_GAIN_COMP_POS_CUR2_def EA_DAC_GAIN_COMP_NEG_CUR2_def EA_ADC_GAIN_COMP_POS_VOL2_def
  EA_ADC_GAIN_COMP_NEG_VOL2_def EA_ADC_GAIN_COMP_POS_CUR2_def EA_ADC_GAIN_COMP_NEG_CUR2_def EA_DAC_ZERO_COMP_VOL2_def
  EA_DAC_ZERO_COMP_CUR2_def EA_ADC_NONLINEAR_COMP_NR_VOL_def EA_ADC_NONLINEAR_COMP_START_VOL_def EA_ADC_ZERO_COMP_VOL2_def
  EA_ADC_NONLINEAR_COMP_NR_CUR_def EA_ADC_NONLINEAR_COMP_START_CUR_def EA_ANYTHING_def

text \<open>The addresses of the single calibration floats.\<close>

definition scalar_addresses :: "int list" where
  "scalar_addresses = [EA_DAC_GAIN_COMP_POS_VOL, EA_DAC_GAIN_COMP_NEG_VOL, EA_ADC_GAIN_COMP_POS_VOL,
    EA_ADC_GAIN_COMP_NEG_VOL, EA_DAC_GAIN_COMP_POS_CUR, EA_DAC_GAIN_COMP_NEG_CUR, EA_ADC_GAIN_COMP_POS_CUR,
    EA_ADC_GAIN_COMP_NEG_CUR, EA_DAC_ZERO_COMP_VOL, EA_DAC_ZERO_COMP_CUR, EA_ADC_ZERO_COMP_VOL,
    EA_ADC_ZERO_COMP_CUR, EA_ADC_ZERO_COMP_CUR2, EA_DAC_GAIN_COMP_POS_LIM, EA_DAC_GAIN_COMP_POS_VOL2,
    EA_DAC_GAIN_COMP_NEG_VOL2, EA_DAC_GAIN_COMP_POS_CUR2, EA_DAC_GAIN_COMP_NEG_CUR2, EA_ADC_GAIN_COMP_POS_VOL2,
    EA_ADC_GAIN_COMP_NEG_VOL2, EA_ADC_GAIN_COMP_POS_CUR2, EA_ADC_GAIN_COMP_NEG_CUR2, EA_DAC_ZERO_COMP_VOL2,
    EA_DAC_ZERO_COMP_CUR2, EA_ADC_NONLINEAR_COMP_NR_VOL, EA_ADC_ZERO_COMP_VOL2, EA_ADC_NONLINEAR_COMP_NR_CUR]"

text \<open>The calibration floats do not share EEPROM bytes: writing any one of them reads back
  exactly and leaves every other one unchanged.\<close>

theorem eeprom_scalars_disjoint:
  assumes "i < length scalar_addresses" and "j < length scalar_addresses" and "wf_flt f"
  shows "floatFromEeprom (scalar_addresses ! j) (floatToEeprom (scalar_addresses ! i) f m) =
    (if i = j then f else floatFromEeprom (scalar_addresses ! j) m)"
proof -
  have "\<forall>i < length scalar_addresses. \<forall>j < length scalar_addresses. i \<noteq> j \<longrightarrow>
      scalar_addresses ! i + 4 \<le> scalar_addresses ! j \<or> scalar_addresses ! j + 4 \<le> scalar_addresses ! i"
    by code_simp
  then show ?thesis using assms float_eeprom_other by auto
qed

theorem eeprom_scalars_disjoint_witness:
  "floatFromEeprom (scalar_addresses ! 3) (floatToEeprom (scalar_addresses ! 2) (Fin 1) (\<lambda>_. 0xFF)) =
     (if (2::nat) = 3 then Fin 1 else floatFromEeprom (scalar_addresses ! 3) (\<lambda>_. 0xFF))"
proof (rule eeprom_scalars_disjoint)
  show "wf_flt (Fin 1 :: f32)" using repr_in_f32_int [of 1] by simp
qed (simp_all add: scalar_addresses_def)

text \<open>The second voltage zero compensation does share its bytes with the voltage linearity
  table: its address is that of the measured value of the table's first entry, so storing the
  10 mA voltage null value changes the first calibration point.\<close>

theorem adc_zero_comp_vol2_overlaps_table:
  assumes "wf_flt f"
  shows "floatFromEeprom (EA_ADC_NONLINEAR_COMP_START_VOL + 4) (floatToEeprom EA_ADC_ZERO_COMP_VOL2 f m) = f"
  using assms by (simp add: address_defs)

theorem adc_zero_comp_vol2_overlaps_table_witness:
  "floatFromEeprom (EA_ADC_NONLINEAR_COMP_START_VOL + 4) (floatToEeprom EA_ADC_ZERO_COMP_VOL2 (Fin 1) (\<lambda>_. 0)) = Fin 1"
proof (rule adc_zero_comp_vol2_overlaps_table)
  show "wf_flt (Fin 1 :: f32)" using repr_in_f32_int [of 1] by simp
qed

end
