(* ===== verification/Calibration.thy ===== *)
theory Calibration
  imports Eeprom
begin

text \<open>
  Calibration data (src/src/Calibration.cpp, Calibration.h): gains, zero offsets, null values and the
  linearity tables of one operation type, their EEPROM copies and the compensation functions.
  Each instance (V_CALIBRATION, C_CALIBRATION) is a \<open>cal\<close> record; what the class shares between
  instances (the static null values) and the EEPROM are in \<open>cal_store\<close>.  Debug output and the
  drawing functions are not modelled.  The operations that need the SMU are in theory CalOps.
\<close>

section \<open>State\<close>

datatype OPERATION_TYPE = SOURCE_VOLTAGE | SOURCE_CURRENT
datatype CURRENT_RANGE = AMP1 | MILLIAMP10

definition range_index :: "CURRENT_RANGE \<Rightarrow> nat" where
  "range_index r = (case r of AMP1 \<Rightarrow> 0 | MILLIAMP10 \<Rightarrow> 1)"

record cal =
  operationType :: OPERATION_TYPE
  timeSinceLastChange :: u32
  set_adc :: "f32 list"
  meas_adc :: "f32 list"
  adc_cal_points :: int
  set_dac :: "f32 list"
  meas_dac :: "f32 list"
  dac_cal_points :: int
  dacGainCompPos :: f32
  dacGainCompNeg :: f32
  dacGainCompLim :: f32
  dacGainCompPos2 :: f32
  dacGainCompNeg2 :: f32
  adcGainCompPos2 :: f32
  adcGainCompNeg2 :: f32
  adcGainCompPos :: f32
  adcGainCompNeg :: f32
  dacZeroComp :: f32
  dacZeroComp2 :: f32
  ea_dac_gain_comp_pos :: int
  ea_dac_gain_comp_neg :: int
  ea_dac_gain_comp_pos2 :: int
  ea_dac_gain_comp_neg2 :: int
  ea_dac_gain_comp_lim :: int
  ea_adc_gain_comp_pos :: int
  ea_adc_gain_comp_neg :: int
  ea_adc_gain_comp_pos2 :: int
  ea_adc_gain_comp_neg2 :: int
  ea_adc_nonlinear_comp_nr :: int
  ea_adc_nonlinear_comp_start :: int
  ea_dac_zero_comp :: int
  ea_dac_zero_comp2 :: int
  ea_adc_zero_comp_vol :: int
  ea_adc_zero_comp_vol2 :: int
  ea_adc_zero_comp_cur :: int
  ea_adc_zero_comp_cur2 :: int
  autoCalInProgress :: bool
  relativeValue :: "f32 list"
  useCalibratedValues :: bool
  useDacCalibratedValues :: bool
  autoCalDone :: bool

record cal_store =
  cs_eeprom :: eeprom
  nullValueVol :: "f32 list"
  nullValueCur :: "f32 list"

text \<open>A static object before init: zero-initialised, with the member initialisers of the header.\<close>

definition cal_zero :: cal where
  "cal_zero = \<lparr>operationType = SOURCE_VOLTAGE, timeSinceLastChange = 0, set_adc = replicate 200 (Fin 0),
     meas_adc = replicate 200 (Fin 0), adc_cal_points = 0, set_dac = replicate 100 (Fin 0), meas_dac = replicate 100 (Fin 0),
     dac_cal_points = 0, dacGainCompPos = Fin 0, dacGainCompNeg = Fin 0, dacGainCompLim = Fin 0, dacGainCompPos2 = Fin 0,
     dacGainCompNeg2 = Fin 0, adcGainCompPos2 = Fin 0, adcGainCompNeg2 = Fin 0, adcGainCompPos = Fin 0,
     adcGainCompNeg = Fin 0, dacZeroComp = Fin 0, dacZeroComp2 = Fin 0, ea_dac_gain_comp_pos = 0,
     ea_dac_gain_comp_neg = 0, ea_dac_gain_comp_pos2 = 0, ea_dac_gain_comp_neg2 = 0, ea_dac_gain_comp_lim = 0,
     ea_adc_gain_comp_pos = 0, ea_adc_gain_comp_neg = 0, ea_adc_gain_comp_pos2 = 0, ea_adc_gain_comp_neg2 = 0,
     ea_adc_nonlinear_comp_nr = 0, ea_adc_nonlinear_comp_start = 0, ea_dac_zero_comp = 0, ea_dac_zero_comp2 = 0,
     ea_adc_zero_comp_vol = 0, ea_adc_zero_comp_vol2 = 0, ea_adc_zero_comp_cur = 0, ea_adc_zero_comp_cur2 = 0,
     autoCalInProgress = False, relativeValue = [Fin 0, Fin 0], useCalibratedValues = True,
     useDacCalibratedValues = True, autoCalDone = False\<rparr>"

section \<open>Start-up\<close>

text \<open>The repeated pattern of init: read a float, and if it is not a number, use and store a default.\<close>

definition read_or_default :: "int \<Rightarrow> f32 \<Rightarrow> eeprom \<Rightarrow> f32 \<times> eeprom" where
  "read_or_default a d m = (let v = floatFromEeprom a m in if v = NaN then (d, floatToEeprom a d m) else (v, m))"

definition suspect :: "f32 \<Rightarrow> bool" where
  "suspect v \<longleftrightarrow> (conv \<bar>v\<bar> :: f64) < lit (- 10000) \<or> (conv \<bar>v\<bar> :: f64) > lit 10000"

text \<open>The variant for zero offsets: a value beyond 10000 is replaced, but not stored, too.\<close>

definition read_zero :: "int \<Rightarrow> eeprom \<Rightarrow> f32 \<times> eeprom" where
  "read_zero a m = (let v = floatFromEeprom a m in
     if v = NaN then (lit 0, floatToEeprom a (lit 0) m) else if suspect v then (lit 0, m) else (v, m))"

text \<open>
  The last entry of init differs: when adcZeroCompCur2 is suspect, the code clears adcZeroCompCur
  (which is no longer used) and keeps the suspect value.
\<close>

definition read_zero_cur2 :: "int \<Rightarrow> eeprom \<Rightarrow> f32 \<times> eeprom" where
  "read_zero_cur2 a m = (let v = floatFromEeprom a m in
     if v = NaN then (lit 0, floatToEeprom a (lit 0) m) else (v, m))"

fun read_points :: "nat \<Rightarrow> nat \<Rightarrow> int \<Rightarrow> eeprom \<Rightarrow> f32 list \<times> f32 list \<Rightarrow> f32 list \<times> f32 list" where
  "read_points 0 dataPtr adr m tab = tab"
| "read_points (Suc k) dataPtr adr m tab =
     (let s = floatFromEeprom adr m; ms = floatFromEeprom (adr + 4) m in
      if s = NaN \<or> ms = NaN then tab
      else read_points k (dataPtr + 1) (adr + 8) m ((fst tab)[dataPtr := s], (snd tab)[dataPtr := ms]))"

definition readAdcCalFromEeprom :: "eeprom \<Rightarrow> cal \<Rightarrow> cal" where
  "readAdcCalFromEeprom m c =
     (let nr = floatFromEeprom (ea_adc_nonlinear_comp_nr c) m in
      if nr = NaN then c
      else if (conv nr :: f64) < lit 10 \<or> (conv nr :: f64) > lit 1000 then c
      else let nrOfPoints = f2i32 nr;
               tab = read_points (nat nrOfPoints) 0 (ea_adc_nonlinear_comp_start c) m (set_adc c, meas_adc c)
           in c\<lparr>adc_cal_points := nrOfPoints, set_adc := fst tab, meas_adc := snd tab, useCalibratedValues := True\<rparr>)"

definition set_addresses :: "OPERATION_TYPE \<Rightarrow> cal \<Rightarrow> cal" where
  "set_addresses t c =
     (let c1 = c\<lparr>operationType := t, ea_adc_zero_comp_vol := EA_ADC_ZERO_COMP_VOL, ea_adc_zero_comp_vol2 := EA_ADC_ZERO_COMP_VOL2,
           ea_adc_zero_comp_cur := EA_ADC_ZERO_COMP_CUR, ea_adc_zero_comp_cur2 := EA_ADC_ZERO_COMP_CUR2\<rparr>
      in if t = SOURCE_VOLTAGE then
        c1\<lparr>ea_dac_zero_comp := EA_DAC_ZERO_COMP_VOL, ea_dac_zero_comp2 := EA_DAC_ZERO_COMP_VOL2,
           ea_dac_gain_comp_pos := EA_DAC_GAIN_COMP_POS_VOL, ea_dac_gain_comp_neg := EA_DAC_GAIN_COMP_NEG_VOL,
           ea_dac_gain_comp_pos2 := EA_DAC_GAIN_COMP_POS_VOL2, ea_dac_gain_comp_neg2 := EA_DAC_GAIN_COMP_NEG_VOL2,
           ea_dac_gain_comp_lim := EA_DAC_GAIN_COMP_POS_LIM,
           ea_adc_gain_comp_pos := EA_ADC_GAIN_COMP_POS_VOL, ea_adc_gain_comp_neg := EA_ADC_GAIN_COMP_NEG_VOL,
           ea_adc_gain_comp_pos2 := EA_ADC_GAIN_COMP_POS_VOL2, ea_adc_gain_comp_neg2 := EA_ADC_GAIN_COMP_NEG_VOL2,
           ea_adc_nonlinear_comp_nr := EA_ADC_NONLINEAR_COMP_NR_VOL, ea_adc_nonlinear_comp_start := EA_ADC_NONLINEAR_COMP_START_VOL\<rparr>
      else
        c1\<lparr>ea_dac_zero_comp := EA_DAC_ZERO_COMP_CUR, ea_dac_zero_comp2 := EA_DAC_ZERO_COMP_CUR2,
           ea_dac_gain_comp_pos := EA_DAC_GAIN_COMP_POS_CUR, ea_dac_gain_comp_neg := EA_DAC_GAIN_COMP_NEG_CUR,
           ea_dac_gain_comp_pos2 := EA_DAC_GAIN_COMP_POS_CUR2, ea_dac_gain_comp_neg2 := EA_DAC_GAIN_COMP_NEG_CUR2,
           ea_adc_gain_comp_pos2 := EA_ADC_GAIN_COMP_POS_CUR2, ea_adc_gain_comp_neg2 := EA_ADC_GAIN_COMP_NEG_CUR2,
           ea_adc_gain_comp_pos := EA_ADC_GAIN_COMP_POS_CUR, ea_adc_gain_comp_neg := EA_ADC_GAIN_COMP_NEG_CUR,
           ea_adc_nonlinear_comp_nr := EA_ADC_NONLINEAR_COMP_NR_CUR, ea_adc_nonlinear_comp_start := EA_ADC_NONLINEAR_COMP_START_CUR\<rparr>)"

definition cal_init :: "u32 \<Rightarrow> OPERATION_TYPE \<Rightarrow> cal \<Rightarrow> cal_store \<Rightarrow> cal \<times> cal_store" where
  "cal_init now t c0 st =
     (let m0 = cs_eeprom st;
          c = readAdcCalFromEeprom m0 (set_addresses t c0);
          (dgp, m1) = read_or_default (ea_dac_gain_comp_pos c) (lit 1) m0;
          (dgp2, m2) = read_or_default (ea_dac_gain_comp_pos2 c) (lit 1) m1;
          (dgn, m3) = read_or_default (ea_dac_gain_comp_neg c) (lit 1) m2;
          (dgn2, m4) = read_or_default (ea_dac_gain_comp_neg2 c) (lit 1) m3;
          (agp2, m5) = read_or_default (ea_adc_gain_comp_pos2 c) (lit 1) m4;
          (agn2, m6) = read_or_default (ea_adc_gain_comp_neg2 c) (lit 1) m5;
          (dgl, m7) = read_or_default (ea_dac_gain_comp_lim c) (lit 1) m6;
          (agp, m8) = read_or_default (ea_adc_gain_comp_pos c) (lit 1) m7;
          (agn, m9) = read_or_default (ea_adc_gain_comp_neg c) (lit 1) m8;
          (dz, m10) = read_zero (ea_dac_zero_comp c) m9;
          (dz2, m11) = read_zero (ea_dac_zero_comp2 c) m10;
          (zv, m12) = read_zero (ea_adc_zero_comp_vol c) m11;
          (zv2, m13) = read_zero (ea_adc_zero_comp_vol2 c) m12;
          (zc, m14) = read_zero (ea_adc_zero_comp_cur c) m13;
          (zc2, m15) = read_zero_cur2 (ea_adc_zero_comp_cur2 c) m14
      in (c\<lparr>timeSinceLastChange := now, dacGainCompPos := dgp, dacGainCompPos2 := dgp2, dacGainCompNeg := dgn,
            dacGainCompNeg2 := dgn2, adcGainCompPos2 := agp2, adcGainCompNeg2 := agn2, dacGainCompLim := dgl,
            adcGainCompPos := agp, adcGainCompNeg := agn, dacZeroComp := dz, dacZeroComp2 := dz2\<rparr>,
          st\<lparr>cs_eeprom := m15, nullValueVol := [zv, zv2], nullValueCur := [zc, zc2]\<rparr>))"

section \<open>Saving\<close>

fun write_points :: "nat \<Rightarrow> nat \<Rightarrow> int \<Rightarrow> cal \<Rightarrow> eeprom \<Rightarrow> eeprom" where
  "write_points 0 dataPtr adr c m = m"
| "write_points (Suc k) dataPtr adr c m =
     write_points k (dataPtr + 1) (adr + 8) c
       (floatToEeprom (adr + 4) (meas_adc c ! dataPtr) (floatToEeprom adr (set_adc c ! dataPtr) m))"

text \<open>The loop bound is \<open>adr <= start + 8 * nrOfPoints\<close>: one entry more than nrOfPoints.\<close>

definition writeAdcCalToEeprom :: "int \<Rightarrow> cal \<Rightarrow> eeprom \<Rightarrow> eeprom" where
  "writeAdcCalToEeprom nrOfPoints c m =
     write_points (nat (nrOfPoints + 1)) 0 (ea_adc_nonlinear_comp_start c) c
       (floatToEeprom (ea_adc_nonlinear_comp_nr c) (of_i nrOfPoints) m)"

definition saveGain :: "f64 \<Rightarrow> eeprom \<Rightarrow> eeprom" where
  "saveGain v m = snd (EEPROM_writeAnything 0 (double_bytes v @ double_bytes (- v)) m)"

definition readGain :: "eeprom \<Rightarrow> f64 \<times> f64" where
  "readGain m = (let b = EEPROM_readAnything 0 16 m in (double_of_bytes (take 8 b), double_of_bytes (drop 8 b)))"

definition setNullValueVol :: "f32 \<Rightarrow> CURRENT_RANGE \<Rightarrow> cal \<Rightarrow> cal_store \<Rightarrow> cal_store" where
  "setNullValueVol v r c st =
     st\<lparr>nullValueVol := (nullValueVol st)[range_index r := v],
        cs_eeprom := floatToEeprom (if r = AMP1 then ea_adc_zero_comp_vol c else ea_adc_zero_comp_vol2 c) v (cs_eeprom st)\<rparr>"

definition setNullValueCur :: "f32 \<Rightarrow> CURRENT_RANGE \<Rightarrow> cal \<Rightarrow> cal_store \<Rightarrow> cal_store" where
  "setNullValueCur v r c st =
     st\<lparr>nullValueCur := (nullValueCur st)[range_index r := v],
        cs_eeprom := floatToEeprom (if r = AMP1 then ea_adc_zero_comp_cur c else ea_adc_zero_comp_cur2 c) v (cs_eeprom st)\<rparr>"

definition nullValueIsSet :: "CURRENT_RANGE \<Rightarrow> cal_store \<Rightarrow> bool" where
  "nullValueIsSet r st \<longleftrightarrow> \<not> feq (nullValueVol st ! range_index r) (lit 0) \<or> \<not> feq (nullValueCur st ! range_index r) (lit 0)"

definition relativeValueIsSet :: "CURRENT_RANGE \<Rightarrow> cal \<Rightarrow> bool" where
  "relativeValueIsSet r c \<longleftrightarrow> \<not> feq (relativeValue c ! range_index r) (lit 0)"

definition toggleCalibratedValues :: "u32 \<Rightarrow> cal \<Rightarrow> bool \<times> cal" where
  "toggleCalibratedValues now c =
     (if timeSinceLastChange c + 100 > now then (useCalibratedValues c, c)
      else let u = \<not> useCalibratedValues c in (u, c\<lparr>useCalibratedValues := u, timeSinceLastChange := now\<rparr>))"

definition toggleRelativeValue :: "u32 \<Rightarrow> f32 \<Rightarrow> CURRENT_RANGE \<Rightarrow> cal \<Rightarrow> cal" where
  "toggleRelativeValue now v r c =
     (if timeSinceLastChange c + 100 > now then c
      else c\<lparr>relativeValue := (relativeValue c)[range_index r :=
                 (if \<not> feq (relativeValue c ! range_index r) (lit 0) then lit 0 else v)],
             timeSinceLastChange := now\<rparr>)"

section \<open>Compensation\<close>

text \<open>
  The interpolation inside the interval that starts at entry \<open>i\<close> of a table, in the operation order
  of the source.
\<close>

definition interpolate :: "f32 list \<Rightarrow> f32 list \<Rightarrow> nat \<Rightarrow> f32 \<Rightarrow> f32" where
  "interpolate sets meas i v =
     (let adj_factor_low = sets ! i - meas ! i;
          adj_factor_high = sets ! (i + 1) - meas ! (i + 1);
          adj_factor_diff = adj_factor_high - adj_factor_low;
          range = sets ! (i + 1) - sets ! i;
          partWithinRange = (v - sets ! i) / range;
          adj_factor = adj_factor_low + adj_factor_diff * partWithinRange
      in v + adj_factor)"

definition find_interval :: "f32 list \<Rightarrow> int \<Rightarrow> f32 \<Rightarrow> nat option" where
  "find_interval sets points v = find (\<lambda>i. v > sets ! i \<and> v \<le> sets ! (i + 1)) [0 ..< nat (points - 1)]"

definition adc_nonlinear_compensation :: "cal \<Rightarrow> f32 \<Rightarrow> f32" where
  "adc_nonlinear_compensation c v =
     (if \<not> useCalibratedValues c then v
      else case find_interval (set_adc c) (adc_cal_points c) v of None \<Rightarrow> v
        | Some i \<Rightarrow> interpolate (set_adc c) (meas_adc c) i v)"

definition dac_nonlinear_compensation :: "cal \<Rightarrow> f32 \<Rightarrow> f32" where
  "dac_nonlinear_compensation c milliVolt =
     (case find_interval (set_dac c) (dac_cal_points c) milliVolt of None \<Rightarrow> milliVolt
      | Some i \<Rightarrow> interpolate (set_dac c) (meas_dac c) i milliVolt)"

section \<open>Adjustments\<close>

text \<open>Each adjustment adds to the value and stores the sum at the value's address.\<close>

type_synonym cal_op = "f32 \<Rightarrow> cal \<Rightarrow> eeprom \<Rightarrow> cal \<times> eeprom"

definition adjDacGainCompPos :: cal_op where
  "adjDacGainCompPos d c m = (let v = dacGainCompPos c + d in (c\<lparr>dacGainCompPos := v\<rparr>, floatToEeprom (ea_dac_gain_comp_pos c) v m))"
definition adjDacGainCompPos2 :: cal_op where
  "adjDacGainCompPos2 d c m = (let v = dacGainCompPos2 c + d in (c\<lparr>dacGainCompPos2 := v\<rparr>, floatToEeprom (ea_dac_gain_comp_pos2 c) v m))"
definition adjDacGainCompNeg :: cal_op where
  "adjDacGainCompNeg d c m = (let v = dacGainCompNeg c + d in (c\<lparr>dacGainCompNeg := v\<rparr>, floatToEeprom (ea_dac_gain_comp_neg c) v m))"
definition adjDacGainCompNeg2 :: cal_op where
  "adjDacGainCompNeg2 d c m = (let v = dacGainCompNeg2 c + d in (c\<lparr>dacGainCompNeg2 := v\<rparr>, floatToEeprom (ea_dac_gain_comp_neg2 c) v m))"
definition adjDacGainCompLim :: cal_op where
  "adjDacGainCompLim d c m = (let v = dacGainCompLim c + d in (c\<lparr>dacGainCompLim := v\<rparr>, floatToEeprom (ea_dac_gain_comp_lim c) v m))"
definition adjAdcGainCompPos :: cal_op where
  "adjAdcGainCompPos d c m = (let v = adcGainCompPos c + d in (c\<lparr>adcGainCompPos := v\<rparr>, floatToEeprom (ea_adc_gain_comp_pos c) v m))"
definition adjAdcGainCompNeg :: cal_op where
  "adjAdcGainCompNeg d c m = (let v = adcGainCompNeg c + d in (c\<lparr>adcGainCompNeg := v\<rparr>, floatToEeprom (ea_adc_gain_comp_neg c) v m))"
definition adjAdcGainCompPos2 :: cal_op where
  "adjAdcGainCompPos2 d c m = (let v = adcGainCompPos2 c + d in (c\<lparr>adcGainCompPos2 := v\<rparr>, floatToEeprom (ea_adc_gain_comp_pos2 c) v m))"
definition adjAdcGainCompNeg2 :: cal_op where
  "adjAdcGainCompNeg2 d c m = (let v = adcGainCompNeg2 c + d in (c\<lparr>adcGainCompNeg2 := v\<rparr>, floatToEeprom (ea_adc_gain_comp_neg2 c) v m))"
definition adjDacZeroComp :: cal_op where
  "adjDacZeroComp d c m = (let v = dacZeroComp c + d in (c\<lparr>dacZeroComp := v\<rparr>, floatToEeprom (ea_dac_zero_comp c) v m))"
definition adjDacZeroComp2 :: cal_op where
  "adjDacZeroComp2 d c m = (let v = dacZeroComp2 c + d in (c\<lparr>dacZeroComp2 := v\<rparr>, floatToEeprom (ea_dac_zero_comp2 c) v m))"

section \<open>Start-up reads what was stored\<close>

definition gain_at :: "int \<Rightarrow> eeprom \<Rightarrow> f32" where
  "gain_at a m = (let v = floatFromEeprom a m in if v = NaN then lit 1 else v)"

definition zero_at :: "int \<Rightarrow> eeprom \<Rightarrow> f32" where
  "zero_at a m = (let v = floatFromEeprom a m in if v = NaN \<or> suspect v then lit 0 else v)"

lemma read_fst: "fst (read_or_default a (lit 1) m) = gain_at a m" "fst (read_zero a m) = zero_at a m"
  by (auto simp: read_or_default_def gain_at_def read_zero_def zero_at_def Let_def)

lemma read_other [simp]:
  "a + 4 \<le> x \<or> x + 4 \<le> a \<Longrightarrow> floatFromEeprom x (snd (read_or_default a d m)) = floatFromEeprom x m"
  "a + 4 \<le> x \<or> x + 4 \<le> a \<Longrightarrow> floatFromEeprom x (snd (read_zero a m)) = floatFromEeprom x m"
  "a + 4 \<le> x \<or> x + 4 \<le> a \<Longrightarrow> floatFromEeprom x (snd (read_zero_cur2 a m)) = floatFromEeprom x m"
  by (simp_all add: read_or_default_def read_zero_def read_zero_cur2_def Let_def float_eeprom_other)

lemma wf_consts: "wf_flt (lit q)" "wf_flt (of_i n)"
  by (simp_all add: lit_def of_i_def rnd_wf)

lemma gain_at_cong: "floatFromEeprom a m = floatFromEeprom a m' \<Longrightarrow> gain_at a m = gain_at a m'"
  and zero_at_cong: "floatFromEeprom a m = floatFromEeprom a m' \<Longrightarrow> zero_at a m = zero_at a m'"
  by (simp_all add: gain_at_def zero_at_def)

lemma gain_at_other [simp]:
  "a + 4 \<le> x \<or> x + 4 \<le> a \<Longrightarrow> gain_at x (snd (read_or_default a d m)) = gain_at x m"
  "a + 4 \<le> x \<or> x + 4 \<le> a \<Longrightarrow> gain_at x (snd (read_zero a m)) = gain_at x m"
  "a + 4 \<le> x \<or> x + 4 \<le> a \<Longrightarrow> zero_at x (snd (read_or_default a d m)) = zero_at x m"
  "a + 4 \<le> x \<or> x + 4 \<le> a \<Longrightarrow> zero_at x (snd (read_zero a m)) = zero_at x m"
  by (intro gain_at_cong zero_at_cong read_other; simp)+

lemma readAdcCal_frame [simp]:
  "ea_dac_gain_comp_pos (readAdcCalFromEeprom m c) = ea_dac_gain_comp_pos c"
  "ea_dac_gain_comp_neg (readAdcCalFromEeprom m c) = ea_dac_gain_comp_neg c"
  "ea_dac_gain_comp_pos2 (readAdcCalFromEeprom m c) = ea_dac_gain_comp_pos2 c"
  "ea_dac_gain_comp_neg2 (readAdcCalFromEeprom m c) = ea_dac_gain_comp_neg2 c"
  "ea_dac_gain_comp_lim (readAdcCalFromEeprom m c) = ea_dac_gain_comp_lim c"
  "ea_adc_gain_comp_pos (readAdcCalFromEeprom m c) = ea_adc_gain_comp_pos c"
  "ea_adc_gain_comp_neg (readAdcCalFromEeprom m c) = ea_adc_gain_comp_neg c"
  "ea_adc_gain_comp_pos2 (readAdcCalFromEeprom m c) = ea_adc_gain_comp_pos2 c"
  "ea_adc_gain_comp_neg2 (readAdcCalFromEeprom m c) = ea_adc_gain_comp_neg2 c"
  "ea_dac_zero_comp (readAdcCalFromEeprom m c) = ea_dac_zero_comp c"
  "ea_dac_zero_comp2 (readAdcCalFromEeprom m c) = ea_dac_zero_comp2 c"
  "ea_adc_zero_comp_vol (readAdcCalFromEeprom m c) = ea_adc_zero_comp_vol c"
  "ea_adc_zero_comp_vol2 (readAdcCalFromEeprom m c) = ea_adc_zero_comp_vol2 c"
  "ea_adc_zero_comp_cur (readAdcCalFromEeprom m c) = ea_adc_zero_comp_cur c"
  "ea_adc_zero_comp_cur2 (readAdcCalFromEeprom m c) = ea_adc_zero_comp_cur2 c"
  "dac_cal_points (readAdcCalFromEeprom m c) = dac_cal_points c"
  by (simp_all add: readAdcCalFromEeprom_def Let_def)

text \<open>The fifteen reads of init do not disturb each other: whatever the EEPROM holds, each gain of
  the voltage calibration becomes the stored value or 1, each zero offset the stored value or 0 when
  it is undefined or beyond 10000, and both voltage null values likewise.\<close>

theorem cal_init_voltage_reads:
  "let r = cal_init now SOURCE_VOLTAGE c \<lparr>cs_eeprom = m, nullValueVol = nv, nullValueCur = nc\<rparr> in
    dacGainCompPos (fst r) = gain_at EA_DAC_GAIN_COMP_POS_VOL m
    \<and> dacGainCompPos2 (fst r) = gain_at EA_DAC_GAIN_COMP_POS_VOL2 m
    \<and> dacGainCompNeg (fst r) = gain_at EA_DAC_GAIN_COMP_NEG_VOL m
    \<and> dacGainCompNeg2 (fst r) = gain_at EA_DAC_GAIN_COMP_NEG_VOL2 m
    \<and> adcGainCompPos (fst r) = gain_at EA_ADC_GAIN_COMP_POS_VOL m
    \<and> adcGainCompNeg (fst r) = gain_at EA_ADC_GAIN_COMP_NEG_VOL m
    \<and> adcGainCompPos2 (fst r) = gain_at EA_ADC_GAIN_COMP_POS_VOL2 m
    \<and> adcGainCompNeg2 (fst r) = gain_at EA_ADC_GAIN_COMP_NEG_VOL2 m
    \<and> dacGainCompLim (fst r) = gain_at EA_DAC_GAIN_COMP_POS_LIM m
    \<and> dacZeroComp (fst r) = zero_at EA_DAC_ZERO_COMP_VOL m
    \<and> dacZeroComp2 (fst r) = zero_at EA_DAC_ZERO_COMP_VOL2 m
    \<and> nullValueVol (snd r) = [zero_at EA_ADC_ZERO_COMP_VOL m, zero_at EA_ADC_ZERO_COMP_VOL2 m]"
  unfolding cal_init_def Let_def case_prod_unfold
  by (simp add: read_fst set_addresses_def address_defs)

text \<open>A suspect second current null value (beyond 10000) survives init, unlike every other zero
  offset: its branch resets adcZeroCompCur, which is no longer used, instead of adcZeroCompCur2.\<close>

theorem cal_init_keeps_suspect_null:
  fixes m :: eeprom
  assumes "floatFromEeprom EA_ADC_ZERO_COMP_CUR2 m = v" "v \<noteq> NaN"
  shows "nullValueCur (snd (cal_init now SOURCE_VOLTAGE c \<lparr>cs_eeprom = m, nullValueVol = nv, nullValueCur = nc\<rparr>)) =
     [zero_at EA_ADC_ZERO_COMP_CUR m, v]"
  using assms unfolding cal_init_def Let_def case_prod_unfold
  by (simp add: read_fst set_addresses_def address_defs read_zero_cur2_def Let_def)

theorem cal_init_keeps_suspect_null_witness:
  "suspect (Fin 20000) \<and> nullValueCur (snd (cal_init 0 SOURCE_VOLTAGE cal_zero
      \<lparr>cs_eeprom = floatToEeprom EA_ADC_ZERO_COMP_CUR2 (Fin 20000) (\<lambda>_. 0), nullValueVol = [], nullValueCur = []\<rparr>)) =
     [zero_at EA_ADC_ZERO_COMP_CUR (floatToEeprom EA_ADC_ZERO_COMP_CUR2 (Fin 20000) (\<lambda>_. 0)), Fin 20000]"
proof
  show "suspect (Fin 20000)" by code_simp
  have "wf_flt (Fin 20000 :: f32)" using repr_in_f32_int [of 20000] by simp
  then have e: "floatFromEeprom EA_ADC_ZERO_COMP_CUR2 (floatToEeprom EA_ADC_ZERO_COMP_CUR2 (Fin 20000) (\<lambda>_. 0)) = Fin 20000"
    by simp
  show "nullValueCur (snd (cal_init 0 SOURCE_VOLTAGE cal_zero
      \<lparr>cs_eeprom = floatToEeprom EA_ADC_ZERO_COMP_CUR2 (Fin 20000) (\<lambda>_. 0), nullValueVol = [], nullValueCur = []\<rparr>)) =
     [zero_at EA_ADC_ZERO_COMP_CUR (floatToEeprom EA_ADC_ZERO_COMP_CUR2 (Fin 20000) (\<lambda>_. 0)), Fin 20000]"
    by (rule cal_init_keeps_suspect_null [OF e]) simp
qed

text \<open>The eleven adjustments of a calibration object: the operation, the value it adjusts and the
  address it stores the value at.\<close>

datatype adjustment = DacPos | DacPos2 | DacNeg | DacNeg2 | DacLim | AdcPos | AdcPos2 | AdcNeg | AdcNeg2
  | DacZero | DacZero2

fun adj_op :: "adjustment \<Rightarrow> cal_op" where
  "adj_op DacPos = adjDacGainCompPos" | "adj_op DacPos2 = adjDacGainCompPos2"
| "adj_op DacNeg = adjDacGainCompNeg" | "adj_op DacNeg2 = adjDacGainCompNeg2"
| "adj_op DacLim = adjDacGainCompLim"
| "adj_op AdcPos = adjAdcGainCompPos" | "adj_op AdcPos2 = adjAdcGainCompPos2"
| "adj_op AdcNeg = adjAdcGainCompNeg" | "adj_op AdcNeg2 = adjAdcGainCompNeg2"
| "adj_op DacZero = adjDacZeroComp" | "adj_op DacZero2 = adjDacZeroComp2"

fun adj_value :: "adjustment \<Rightarrow> cal \<Rightarrow> f32" where
  "adj_value DacPos c = dacGainCompPos c" | "adj_value DacPos2 c = dacGainCompPos2 c"
| "adj_value DacNeg c = dacGainCompNeg c" | "adj_value DacNeg2 c = dacGainCompNeg2 c"
| "adj_value DacLim c = dacGainCompLim c"
| "adj_value AdcPos c = adcGainCompPos c" | "adj_value AdcPos2 c = adcGainCompPos2 c"
| "adj_value AdcNeg c = adcGainCompNeg c" | "adj_value AdcNeg2 c = adcGainCompNeg2 c"
| "adj_value DacZero c = dacZeroComp c" | "adj_value DacZero2 c = dacZeroComp2 c"

definition is_zero_adj :: "adjustment \<Rightarrow> bool" where
  "is_zero_adj a \<longleftrightarrow> a = DacZero \<or> a = DacZero2"

text \<open>Where the object of each operation type keeps them; the current object's limit gain has the
  address 0 of an uninitialised static.\<close>

fun adj_address :: "OPERATION_TYPE \<Rightarrow> adjustment \<Rightarrow> int" where
  "adj_address t DacPos = (if t = SOURCE_VOLTAGE then EA_DAC_GAIN_COMP_POS_VOL else EA_DAC_GAIN_COMP_POS_CUR)"
| "adj_address t DacPos2 = (if t = SOURCE_VOLTAGE then EA_DAC_GAIN_COMP_POS_VOL2 else EA_DAC_GAIN_COMP_POS_CUR2)"
| "adj_address t DacNeg = (if t = SOURCE_VOLTAGE then EA_DAC_GAIN_COMP_NEG_VOL else EA_DAC_GAIN_COMP_NEG_CUR)"
| "adj_address t DacNeg2 = (if t = SOURCE_VOLTAGE then EA_DAC_GAIN_COMP_NEG_VOL2 else EA_DAC_GAIN_COMP_NEG_CUR2)"
| "adj_address t DacLim = (if t = SOURCE_VOLTAGE then EA_DAC_GAIN_COMP_POS_LIM else 0)"
| "adj_address t AdcPos = (if t = SOURCE_VOLTAGE then EA_ADC_GAIN_COMP_POS_VOL else EA_ADC_GAIN_COMP_POS_CUR)"
| "adj_address t AdcPos2 = (if t = SOURCE_VOLTAGE then EA_ADC_GAIN_COMP_POS_VOL2 else EA_ADC_GAIN_COMP_POS_CUR2)"
| "adj_address t AdcNeg = (if t = SOURCE_VOLTAGE then EA_ADC_GAIN_COMP_NEG_VOL else EA_ADC_GAIN_COMP_NEG_CUR)"
| "adj_address t AdcNeg2 = (if t = SOURCE_VOLTAGE then EA_ADC_GAIN_COMP_NEG_VOL2 else EA_ADC_GAIN_COMP_NEG_CUR2)"
| "adj_address t DacZero = (if t = SOURCE_VOLTAGE then EA_DAC_ZERO_COMP_VOL else EA_DAC_ZERO_COMP_CUR)"
| "adj_address t DacZero2 = (if t = SOURCE_VOLTAGE then EA_DAC_ZERO_COMP_VOL2 else EA_DAC_ZERO_COMP_CUR2)"

definition readback :: "OPERATION_TYPE \<Rightarrow> adjustment \<Rightarrow> eeprom \<Rightarrow> f32" where
  "readback t a m = (if is_zero_adj a then zero_at (adj_address t a) m else gain_at (adj_address t a) m)"

text \<open>Switching the unit on: init on the object as the linker leaves it.\<close>

definition switch_on :: "u32 \<Rightarrow> OPERATION_TYPE \<Rightarrow> eeprom \<Rightarrow> cal \<times> eeprom" where
  "switch_on now t m =
     map_prod id cs_eeprom (cal_init now t cal_zero \<lparr>cs_eeprom = m, nullValueVol = [], nullValueCur = []\<rparr>)"

fun adjust_all :: "(adjustment \<times> f32) list \<Rightarrow> cal \<times> eeprom \<Rightarrow> cal \<times> eeprom" where
  "adjust_all [] s = s"
| "adjust_all ((a, d) # ads) (c, m) = adjust_all ads (adj_op a d c m)"

definition placed :: "OPERATION_TYPE \<Rightarrow> cal \<Rightarrow> bool" where
  "placed t c \<longleftrightarrow> set_addresses t c = c \<and> ea_dac_gain_comp_lim c = adj_address t DacLim"

lemma wf_add [simp]: "wf_flt (a + b :: ('p::len) flt)"
  by (cases a; cases b) (simp_all add: plus_flt_def fadd_def rnd_wf)

lemma adj_op_effect:
  assumes "placed t c"
  shows "adj_value b (fst (adj_op a d c m)) = (if b = a then adj_value a c + d else adj_value b c)"
    and "snd (adj_op a d c m) = floatToEeprom (adj_address t a) (adj_value a c + d) m"
    and "placed t (fst (adj_op a d c m))"
proof -
  show "adj_value b (fst (adj_op a d c m)) = (if b = a then adj_value a c + d else adj_value b c)"
    by (cases a; cases b)
      (simp_all add: adjDacGainCompPos_def adjDacGainCompPos2_def adjDacGainCompNeg_def adjDacGainCompNeg2_def
        adjDacGainCompLim_def adjAdcGainCompPos_def adjAdcGainCompPos2_def adjAdcGainCompNeg_def
        adjAdcGainCompNeg2_def adjDacZeroComp_def adjDacZeroComp2_def Let_def)
  have c: "c = set_addresses t c" "ea_dac_gain_comp_lim c = adj_address t DacLim"
    using assms by (simp_all add: placed_def)
  have "(case a of DacPos \<Rightarrow> ea_dac_gain_comp_pos c | DacPos2 \<Rightarrow> ea_dac_gain_comp_pos2 c
      | DacNeg \<Rightarrow> ea_dac_gain_comp_neg c | DacNeg2 \<Rightarrow> ea_dac_gain_comp_neg2 c | DacLim \<Rightarrow> ea_dac_gain_comp_lim c
      | AdcPos \<Rightarrow> ea_adc_gain_comp_pos c | AdcPos2 \<Rightarrow> ea_adc_gain_comp_pos2 c
      | AdcNeg \<Rightarrow> ea_adc_gain_comp_neg c | AdcNeg2 \<Rightarrow> ea_adc_gain_comp_neg2 c
      | DacZero \<Rightarrow> ea_dac_zero_comp c | DacZero2 \<Rightarrow> ea_dac_zero_comp2 c) = adj_address t a"
    by (cases a; cases t; simp add: c(2); subst c(1); simp add: set_addresses_def)
  then show "snd (adj_op a d c m) = floatToEeprom (adj_address t a) (adj_value a c + d) m"
    by (cases a)
      (simp_all add: adjDacGainCompPos_def adjDacGainCompPos2_def adjDacGainCompNeg_def adjDacGainCompNeg2_def
        adjDacGainCompLim_def adjAdcGainCompPos_def adjAdcGainCompPos2_def adjAdcGainCompNeg_def
        adjAdcGainCompNeg2_def adjDacZeroComp_def adjDacZeroComp2_def Let_def)
  show "placed t (fst (adj_op a d c m))"
    using assms unfolding placed_def
    by (cases a; cases t; cases c)
      (simp_all add: adjDacGainCompPos_def adjDacGainCompPos2_def adjDacGainCompNeg_def adjDacGainCompNeg2_def
        adjDacGainCompLim_def adjAdcGainCompPos_def adjAdcGainCompPos2_def adjAdcGainCompNeg_def
        adjAdcGainCompNeg2_def adjDacZeroComp_def adjDacZeroComp2_def Let_def set_addresses_def)
qed

text \<open>The eleven places of an object do not overlap.\<close>

lemma places_apart: "a \<noteq> b \<Longrightarrow> adj_address t a + 4 \<le> adj_address t b \<or> adj_address t b + 4 \<le> adj_address t a"
  by (cases t; cases a; cases b; simp add: address_defs)

lemma gain_at_same [simp]: "gain_at x (snd (read_or_default x (lit 1) m)) = gain_at x m"
  and zero_at_same [simp]: "zero_at x (snd (read_zero x m)) = zero_at x m"
  by (simp_all add: read_or_default_def read_zero_def gain_at_def zero_at_def Let_def wf_consts)

lemma gain_at_cur2 [simp]:
  "a + 4 \<le> x \<or> x + 4 \<le> a \<Longrightarrow> gain_at x (snd (read_zero_cur2 a m)) = gain_at x m"
  "a + 4 \<le> x \<or> x + 4 \<le> a \<Longrightarrow> zero_at x (snd (read_zero_cur2 a m)) = zero_at x m"
  by (intro gain_at_cong zero_at_cong read_other; simp)+

text \<open>Switching on takes every value from its place, and leaves what the next start would read.\<close>

lemma switch_on_values:
  "adj_value a (fst (switch_on now SOURCE_VOLTAGE m)) = readback SOURCE_VOLTAGE a m"
  "adj_value a (fst (switch_on now SOURCE_CURRENT m)) = readback SOURCE_CURRENT a m"
  unfolding switch_on_def cal_init_def Let_def case_prod_unfold
  by (cases a; simp add: read_fst set_addresses_def address_defs readback_def is_zero_adj_def cal_zero_def)+

lemma switch_on_eeprom:
  "snd (switch_on now t m) =
     (let c = set_addresses t cal_zero; g = (\<lambda>x m. snd (read_or_default x (lit 1) m)); z = (\<lambda>x m. snd (read_zero x m))
      in snd (read_zero_cur2 (ea_adc_zero_comp_cur2 c) (z (ea_adc_zero_comp_cur c) (z (ea_adc_zero_comp_vol2 c)
        (z (ea_adc_zero_comp_vol c) (z (ea_dac_zero_comp2 c) (z (ea_dac_zero_comp c) (g (ea_adc_gain_comp_neg c)
        (g (ea_adc_gain_comp_pos c) (g (ea_dac_gain_comp_lim c) (g (ea_adc_gain_comp_neg2 c) (g (ea_adc_gain_comp_pos2 c)
        (g (ea_dac_gain_comp_neg2 c) (g (ea_dac_gain_comp_neg c) (g (ea_dac_gain_comp_pos2 c)
        (g (ea_dac_gain_comp_pos c) m))))))))))))))))"
  unfolding switch_on_def cal_init_def Let_def case_prod_unfold by simp

lemma switch_on_stores:
  "readback SOURCE_VOLTAGE a (snd (switch_on now SOURCE_VOLTAGE m)) = readback SOURCE_VOLTAGE a m"
  "readback SOURCE_CURRENT a (snd (switch_on now SOURCE_CURRENT m)) = readback SOURCE_CURRENT a m"
  unfolding switch_on_eeprom Let_def
  by (cases a; simp add: set_addresses_def address_defs readback_def is_zero_adj_def cal_zero_def)+

lemma placed_update:
  "placed t c \<Longrightarrow> placed t (c\<lparr>timeSinceLastChange := w, dacGainCompPos := v1, dacGainCompPos2 := v2, dacGainCompNeg := v3,
     dacGainCompNeg2 := v4, adcGainCompPos2 := v5, adcGainCompNeg2 := v6, dacGainCompLim := v7,
     adcGainCompPos := v8, adcGainCompNeg := v9, dacZeroComp := v10, dacZeroComp2 := v11\<rparr>)"
  and placed_table: "placed t c \<Longrightarrow> placed t (c\<lparr>adc_cal_points := n, set_adc := xs, meas_adc := ys, useCalibratedValues := b\<rparr>)"
  unfolding placed_def by (cases t; cases c; simp add: set_addresses_def)+

lemma switch_on_placed: "placed t (fst (switch_on now t m))"
proof -
  have "placed t (set_addresses t cal_zero)"
    unfolding placed_def by (cases t) (simp_all add: set_addresses_def cal_zero_def)
  then have "placed t (readAdcCalFromEeprom m (set_addresses t cal_zero))"
    unfolding readAdcCalFromEeprom_def Let_def by (simp add: placed_table)
  then show ?thesis
    unfolding switch_on_def cal_init_def Let_def case_prod_unfold by (simp add: placed_update)
qed

lemma switch_on_reads:
  "adj_value a (fst (switch_on now t m)) = readback t a m"
  "readback t a (snd (switch_on now t m)) = readback t a m"
  "placed t (fst (switch_on now t m))"
  by (cases t; simp only: switch_on_values switch_on_stores switch_on_placed)+

text \<open>The invariant of a series of adjustments: every value is what its place holds, or what a start
  would make of it (a default is in RAM only for a suspect zero offset).\<close>

definition kept :: "OPERATION_TYPE \<Rightarrow> cal \<times> eeprom \<Rightarrow> bool" where
  "kept t s \<longleftrightarrow> placed t (fst s) \<and>
     (\<forall>a. floatFromEeprom (adj_address t a) (snd s) = adj_value a (fst s) \<or> readback t a (snd s) = adj_value a (fst s))"

lemma readback_cong:
  "floatFromEeprom (adj_address t a) m = floatFromEeprom (adj_address t a) m' \<Longrightarrow> readback t a m = readback t a m'"
  by (simp add: readback_def gain_at_def zero_at_def)

lemma kept_adjust: "kept t (c, m) \<Longrightarrow> kept t (adj_op a d c m)"
proof -
  assume k: "kept t (c, m)"
  then have p: "placed t c" by (simp add: kept_def)
  have o: "floatFromEeprom (adj_address t b) (snd (adj_op a d c m)) = floatFromEeprom (adj_address t b) m" if "b \<noteq> a" for b
    using places_apart [of a b t] that by (auto simp: adj_op_effect(2) [OF p] float_eeprom_other)
  have s: "floatFromEeprom (adj_address t a) (snd (adj_op a d c m)) = adj_value a (fst (adj_op a d c m))"
    by (simp add: adj_op_effect [OF p])
  have "floatFromEeprom (adj_address t b) (snd (adj_op a d c m)) = adj_value b (fst (adj_op a d c m))
      \<or> readback t b (snd (adj_op a d c m)) = adj_value b (fst (adj_op a d c m))" for b
  proof (cases "b = a")
    case False
    have "adj_value b (fst (adj_op a d c m)) = adj_value b c" using adj_op_effect(1) [OF p] False by simp
    then show ?thesis using k o [OF False] readback_cong [OF o [OF False]] by (simp add: kept_def)
  qed (simp add: s)
  then show ?thesis by (simp add: kept_def adj_op_effect(3) [OF p])
qed

lemma kept_all: "kept t s \<Longrightarrow> kept t (adjust_all ads s)"
  by (induction ads s rule: adjust_all.induct) (auto intro: kept_adjust)

lemma adjust_all_sums:
  "placed t (fst s) \<Longrightarrow> adj_value b (fst (adjust_all ads s)) =
     foldl (+) (adj_value b (fst s)) (List.map snd (filter (\<lambda>(a, d). a = b) ads))"
  by (induction ads s rule: adjust_all.induct) (simp_all add: adj_op_effect)

text \<open>C37: Adjustments are permanent.  Switch the unit on with any EEPROM contents, let the calibration
  object of either operation type go through any series of its eleven adjustments (DAC gains, ADC
  gains, the limit gain and the zero offsets, both ranges), and switch it off and on again: each of
  the eleven values is the start value plus the amounts it was adjusted by, one after the other, and
  after the restart it is the same, provided it is a number, and not beyond 10000 if it is a zero offset.\<close>

theorem adjustments_survive_restart:
  assumes "s = adjust_all ads (switch_on now t m)"
    and "adj_value b (fst s) \<noteq> NaN" "is_zero_adj b \<Longrightarrow> \<not> suspect (adj_value b (fst s))"
  shows "adj_value b (fst s) =
      foldl (+) (adj_value b (fst (switch_on now t m))) (List.map snd (filter (\<lambda>(a, d). a = b) ads))
    \<and> adj_value b (fst (switch_on later t (snd s))) = adj_value b (fst s)"
proof
  show "adj_value b (fst s) =
      foldl (+) (adj_value b (fst (switch_on now t m))) (List.map snd (filter (\<lambda>(a, d). a = b) ads))"
    unfolding assms(1) by (rule adjust_all_sums [OF switch_on_reads(3)])
  have "kept t (switch_on now t m)" by (simp add: kept_def switch_on_reads)
  then have "kept t s" unfolding assms(1) by (rule kept_all)
  then have "floatFromEeprom (adj_address t b) (snd s) = adj_value b (fst s) \<or> readback t b (snd s) = adj_value b (fst s)"
    by (simp add: kept_def)
  then show "adj_value b (fst (switch_on later t (snd s))) = adj_value b (fst s)"
    using assms(2,3) unfolding switch_on_reads(1) by (auto simp: readback_def gain_at_def zero_at_def)
qed

text \<open>A new unit (EEPROM all ones, so every value starts at its default): the second ADC gain of the
  current calibration adjusted twice, with the limit gain in between.\<close>

theorem adjustments_survive_restart_witness:
  "let s = adjust_all [(AdcNeg2, Fin 1), (DacLim, Fin 2), (AdcNeg2, Fin 1)] (switch_on 0 SOURCE_CURRENT (\<lambda>_. 0xFF))
   in adj_value AdcNeg2 (fst s) = Fin 3 \<and> adj_value AdcNeg2 (fst (switch_on 7 SOURCE_CURRENT (snd s))) = Fin 3"
proof -
  let ?w = "switch_on 0 SOURCE_CURRENT (\<lambda>_. 0xFF)"
  let ?ads = "[(AdcNeg2, Fin 1), (DacLim, Fin 2), (AdcNeg2, Fin 1)] :: (adjustment \<times> f32) list"
  have v: "adj_value AdcNeg2 (fst ?w) = Fin 1"
    unfolding switch_on_reads(1) by code_simp
  have "adj_value AdcNeg2 (fst (adjust_all ?ads ?w)) = Fin 1 + Fin 1 + Fin 1"
    using adjust_all_sums [OF switch_on_reads(3), of AdcNeg2 ?ads 0 SOURCE_CURRENT "\<lambda>_. 0xFF"] by (simp add: v [simplified])
  also have "\<dots> = Fin 3" by code_simp
  finally have e: "adj_value AdcNeg2 (fst (adjust_all ?ads ?w)) = Fin 3" .
  show ?thesis
    using adjustments_survive_restart [OF refl, of AdcNeg2 ?ads 0 SOURCE_CURRENT "\<lambda>_. 0xFF" 7] e
    by (simp add: is_zero_adj_def Let_def)
qed

text \<open>The two calibration objects share the EEPROM.  The current object never sets the address of its
  limit gain, which stays 0, the place of the voltage object's DAC gain: adjusting the limit in
  current mode replaces the DAC gain of the voltage calibration at the next start.\<close>

theorem current_limit_overwrites_voltage_gain:
  assumes "placed SOURCE_CURRENT c" "dacGainCompLim c + d \<noteq> NaN"
  shows "dacGainCompPos (fst (switch_on now SOURCE_VOLTAGE (snd (adjDacGainCompLim d c m)))) = dacGainCompLim c + d"
proof -
  have e: "snd (adjDacGainCompLim d c m) = floatToEeprom 0 (dacGainCompLim c + d) m"
    using adj_op_effect(2) [OF assms(1), of DacLim] by simp
  show ?thesis
    using assms(2) switch_on_reads(1) [of DacPos now SOURCE_VOLTAGE "snd (adjDacGainCompLim d c m)"]
    by (simp add: e readback_def is_zero_adj_def gain_at_def address_defs)
qed

section \<open>The linearity table\<close>

lemma write_points_below: "x + 4 \<le> adr \<Longrightarrow> floatFromEeprom x (write_points k p adr c m) = floatFromEeprom x m"
  by (induction k arbitrary: p adr m) (simp_all add: float_eeprom_other)

lemma write_points_nth:
  assumes "\<And>j. j < k \<Longrightarrow> wf_flt (set_adc c ! (p + j)) \<and> wf_flt (meas_adc c ! (p + j))" "i < k"
  shows "floatFromEeprom (adr + 8 * int i) (write_points k p adr c m) = set_adc c ! (p + i)
       \<and> floatFromEeprom (adr + 8 * int i + 4) (write_points k p adr c m) = meas_adc c ! (p + i)"
  using assms
proof (induction k arbitrary: p adr m i)
  case (Suc k)
  show ?case
  proof (cases i)
    case 0
    then show ?thesis using Suc.prems(1) [of 0] by (simp add: write_points_below float_eeprom_other)
  next
    case (Suc j)
    have "wf_flt (set_adc c ! (Suc p + q)) \<and> wf_flt (meas_adc c ! (Suc p + q))" if "q < k" for q
      using Suc.prems(1) [of "Suc q"] that by simp
    from Suc.IH [OF this, of j "adr + 8"] Suc.prems(2) Suc show ?thesis by (simp add: algebra_simps)
  qed
qed simp

lemma read_points_nth:
  assumes "\<And>j. j < k \<Longrightarrow> floatFromEeprom (adr + 8 * int j) m = s ! (p + j) \<and> floatFromEeprom (adr + 8 * int j + 4) m = t ! (p + j)
      \<and> s ! (p + j) \<noteq> NaN \<and> t ! (p + j) \<noteq> NaN"
    and "p + k \<le> length (fst tab)" "p + k \<le> length (snd tab)"
  shows "\<forall>j < p + k. fst (read_points k p adr m tab) ! j = (if p \<le> j then s ! j else fst tab ! j)
     \<and> snd (read_points k p adr m tab) ! j = (if p \<le> j then t ! j else snd tab ! j)"
  using assms
proof (induction k arbitrary: p adr tab)
  case (Suc k)
  define tab' where "tab' = ((fst tab)[p := s ! p], (snd tab)[p := t ! p])"
  have h: "floatFromEeprom (adr + 8 + 8 * int j) m = s ! (Suc p + j) \<and> floatFromEeprom (adr + 8 + 8 * int j + 4) m = t ! (Suc p + j)
      \<and> s ! (Suc p + j) \<noteq> NaN \<and> t ! (Suc p + j) \<noteq> NaN" if "j < k" for j
    using Suc.prems(1) [of "Suc j"] that by (simp add: algebra_simps)
  have l: "Suc p + k \<le> length (fst tab')" "Suc p + k \<le> length (snd tab')" using Suc.prems by (simp_all add: tab'_def)
  have e: "read_points (Suc k) p adr m tab = read_points k (Suc p) (adr + 8) m tab'"
    using Suc.prems(1) [of 0] by (simp add: tab'_def)
  have P: "\<forall>j < Suc p + k. fst (read_points (Suc k) p adr m tab) ! j = (if Suc p \<le> j then s ! j else fst tab' ! j)
     \<and> snd (read_points (Suc k) p adr m tab) ! j = (if Suc p \<le> j then t ! j else snd tab' ! j)"
    unfolding e by (rule Suc.IH [OF h l])
  show ?case
  proof (intro allI impI)
    fix j assume "j < p + Suc k"
    then have "j < Suc p + k" by simp
    with P have "fst (read_points (Suc k) p adr m tab) ! j = (if Suc p \<le> j then s ! j else fst tab' ! j)"
       "snd (read_points (Suc k) p adr m tab) ! j = (if Suc p \<le> j then t ! j else snd tab' ! j)" by blast+
    moreover have "fst tab' ! j = (if j = p then s ! p else fst tab ! j)" "snd tab' ! j = (if j = p then t ! p else snd tab ! j)"
      using Suc.prems(2,3) by (auto simp: tab'_def nth_list_update)
    ultimately show "fst (read_points (Suc k) p adr m tab) ! j = (if p \<le> j then s ! j else fst tab ! j)
     \<and> snd (read_points (Suc k) p adr m tab) ! j = (if p \<le> j then t ! j else snd tab ! j)"
      by (auto simp: not_less_eq_eq le_Suc_eq split: if_splits)
  qed
qed simp

definition table_ok :: "int \<Rightarrow> cal \<Rightarrow> bool" where
  "table_ok n c \<longleftrightarrow> length (set_adc c) = 200 \<and> length (meas_adc c) = 200 \<and>
     (\<forall>j \<le> nat n. wf_flt (set_adc c ! j) \<and> set_adc c ! j \<noteq> NaN \<and> wf_flt (meas_adc c ! j) \<and> meas_adc c ! j \<noteq> NaN)"

text \<open>C38: Round trip of the linearity table through the EEPROM: what writeAdcCalToEeprom stores for n
  points (10 to 199), readAdcCalFromEeprom reads back as the same n points and their number, into
  any arrays, and it enables the compensation.\<close>

theorem table_roundtrip:
  assumes n: "10 \<le> n" "n \<le> 199" and ok: "table_ok n c"
    and addr: "ea_adc_nonlinear_comp_nr c' = ea_adc_nonlinear_comp_nr c" "ea_adc_nonlinear_comp_start c' = ea_adc_nonlinear_comp_start c"
      "ea_adc_nonlinear_comp_nr c + 4 \<le> ea_adc_nonlinear_comp_start c"
    and len: "length (set_adc c') = 200" "length (meas_adc c') = 200"
  shows "let c2 = readAdcCalFromEeprom (writeAdcCalToEeprom n c m) c' in
     adc_cal_points c2 = n \<and> useCalibratedValues c2 \<and> take (nat n) (set_adc c2) = take (nat n) (set_adc c)
     \<and> take (nat n) (meas_adc c2) = take (nat n) (meas_adc c)"
proof -
  define m' where "m' = writeAdcCalToEeprom n c m"
  let ?st = "ea_adc_nonlinear_comp_start c"
  have nr: "floatFromEeprom (ea_adc_nonlinear_comp_nr c) m' = of_i n"
    using addr(3) by (simp add: m'_def writeAdcCalToEeprom_def write_points_below wf_consts)
  have nv: "is_fin (of_i n :: f32)" "val (of_i n :: f32) = of_int n" using n by simp_all
  have r: "(10::rat) \<le> of_int n" "of_int n \<le> (1000::rat)" using n by simp_all
  have cv: "is_fin (conv (of_i n :: f32) :: f64)" "val (conv (of_i n :: f32) :: f64) = of_int n"
    using nv n rnd_exact [OF repr_in_f64_int [of n]] by (simp_all add: fin_conv)
  have l: "is_fin (lit 10 :: f64)" "val (lit 10 :: f64) = 10" "is_fin (lit 1000 :: f64)" "val (lit 1000 :: f64) = 1000" by code_simp+
  have rng: "\<not> (conv (of_i n :: f32) :: f64) < lit 10" "\<not> (conv (of_i n :: f32) :: f64) > lit 1000" "of_i n \<noteq> (NaN :: f32)"
    using cv l r nv by (auto simp: fin_less)
  have fi: "f2i32 (of_i n :: f32) = n"
  proof -
    have t: "trunc (val (of_i n :: f32)) = n" by (simp add: nv)
    show ?thesis using nv(1) t n by (cases "of_i n :: f32") (simp_all add: f2i32_def f2i_def)
  qed
  have pts: "floatFromEeprom (?st + 8 * int j) m' = set_adc c ! (0 + j) \<and> floatFromEeprom (?st + 8 * int j + 4) m' = meas_adc c ! (0 + j)
      \<and> set_adc c ! (0 + j) \<noteq> NaN \<and> meas_adc c ! (0 + j) \<noteq> NaN" if "j < nat n" for j
  proof -
    have "floatFromEeprom (?st + 8 * int j) m' = set_adc c ! (0 + j) \<and> floatFromEeprom (?st + 8 * int j + 4) m' = meas_adc c ! (0 + j)"
      unfolding m'_def writeAdcCalToEeprom_def by (rule write_points_nth) (use ok that n in \<open>auto simp: table_ok_def\<close>)
    then show ?thesis using ok that by (simp add: table_ok_def)
  qed
  define tab where "tab = read_points (nat n) 0 ?st m' (set_adc c', meas_adc c')"
  have T: "\<forall>j < 0 + nat n. fst tab ! j = (if 0 \<le> j then set_adc c ! j else fst (set_adc c', meas_adc c') ! j)
     \<and> snd tab ! j = (if 0 \<le> j then meas_adc c ! j else snd (set_adc c', meas_adc c') ! j)"
    unfolding tab_def by (rule read_points_nth [OF pts]) (use len n in simp_all)
  have ln: "length (fst (read_points k p a m t)) = length (fst t)" "length (snd (read_points k p a m t)) = length (snd t)" for k p a m t
    by (induction k arbitrary: p a t) (simp_all add: Let_def)
  have "take (nat n) (fst tab) = take (nat n) (set_adc c)" "take (nat n) (snd tab) = take (nat n) (meas_adc c)"
    using T ok len n by (auto intro!: nth_equalityI simp: tab_def ln table_ok_def)
  then show ?thesis
    by (simp add: readAdcCalFromEeprom_def Let_def addr m'_def [symmetric] nr rng fi tab_def [symmetric])
qed

theorem table_roundtrip_witness:
  "adc_cal_points (readAdcCalFromEeprom (writeAdcCalToEeprom 10 (set_addresses SOURCE_VOLTAGE cal_zero) (\<lambda>_. 0)) (set_addresses SOURCE_VOLTAGE cal_zero)) = 10"
proof -
  have "wf_flt (Fin 0 :: f32)" using repr_in_f32_int [of 0] by simp
  then have ok: "table_ok 10 (set_addresses SOURCE_VOLTAGE cal_zero)"
    by (simp add: table_ok_def set_addresses_def cal_zero_def)
  show ?thesis
    by (rule table_roundtrip [OF _ _ ok, unfolded Let_def, THEN conjunct1]) (simp_all add: set_addresses_def cal_zero_def address_defs)
qed

end
