(* ===== verification/SmuHal.thy ===== *)
theory SmuHal
  imports Calibration
begin

text \<open>
  The hardware abstraction layer (src/src/SMU_HAL.h): the class with virtual methods through which
  the application drives the source measure unit.  An implementation is a table of its methods
  (\<open>hal\<close>, the virtual method table) over its own state; the globals the implementations read
  (calibration objects, latest current reading, clock) are the argument \<open>env\<close>.  What the
  application relies on is the locale \<open>smu_hal\<close>: the settings last requested are the settings
  reported.  Theories Hal717x and HalDummy interpret it.
\<close>

section \<open>The method table\<close>

record env =
  env_V :: cal
  env_C :: cal
  env_store :: cal_store
  env_rawCurrent :: f32
  env_autoNull :: bool
  env_millis :: u32
  env_micros :: u32

record 's hal =
  fltSetCommitVoltageSource :: "env \<Rightarrow> int \<Rightarrow> bool \<Rightarrow> 's \<Rightarrow> int \<times> 's"
  fltSetCommitCurrentSource :: "env \<Rightarrow> int \<Rightarrow> 's \<Rightarrow> int \<times> 's"
  fltSetCommitCurrentLimit :: "env \<Rightarrow> int \<Rightarrow> 's \<Rightarrow> int \<times> 's"
  fltSetCommitVoltageLimit :: "env \<Rightarrow> int \<Rightarrow> 's \<Rightarrow> int \<times> 's"
  getSetValue_micro :: "'s \<Rightarrow> int"
  getLimitValue_micro :: "'s \<Rightarrow> int"
  measureMilliVoltage :: "env \<Rightarrow> 's \<Rightarrow> f64 \<times> 's"
  measureCurrent :: "env \<Rightarrow> CURRENT_RANGE \<Rightarrow> 's \<Rightarrow> f64 \<times> 's"
  updateSettings :: "'s \<Rightarrow> 's"
  getCurrentRange :: "'s \<Rightarrow> CURRENT_RANGE"
  setCurrentRange :: "env \<Rightarrow> CURRENT_RANGE \<Rightarrow> OPERATION_TYPE \<Rightarrow> 's \<Rightarrow> 's"
  setSamplingRate :: "int \<Rightarrow> 's \<Rightarrow> 's"
  getSamplingRate :: "'s \<Rightarrow> int"
  hasCompliance :: "'s \<Rightarrow> bool"
  dataReady :: "env \<Rightarrow> 's \<Rightarrow> int \<times> 's"
  setGPIO :: "nat \<Rightarrow> bool \<Rightarrow> 's \<Rightarrow> 's"
  use100uVSetResolution :: "'s \<Rightarrow> bool"
  shortAdcInput :: "bool \<Rightarrow> 's \<Rightarrow> 's"
  internalRefInput :: "bool \<Rightarrow> 's \<Rightarrow> 's"
  enableVoltageMeasurement :: "bool \<Rightarrow> 's \<Rightarrow> 's"
  enableCurrentMeasurement :: "bool \<Rightarrow> 's \<Rightarrow> 's"
  isVoltageMeasurementEnabled :: "'s \<Rightarrow> bool"
  isCurrentMeasurementEnabled :: "'s \<Rightarrow> bool"
  handleAutoCurrentRange :: "env \<Rightarrow> bool \<Rightarrow> 's \<Rightarrow> 's"
  hal_operationType :: "'s \<Rightarrow> OPERATION_TYPE"

section \<open>The abstract unit\<close>

text \<open>What a client can observe of the settings, and the requests it makes.\<close>

record settings =
  mode :: OPERATION_TYPE
  set_micro :: int
  limit_micro :: int
  crange :: CURRENT_RANGE
  rate :: int

datatype request = SetVoltage int bool | SetCurrent int | LimitCurrent int | LimitVoltage int
  | Range CURRENT_RANGE | Rate int

fun spec_step :: "request \<Rightarrow> settings \<Rightarrow> settings" where
  "spec_step (SetVoltage v d) a = a\<lparr>mode := SOURCE_VOLTAGE, set_micro := v\<rparr>"
| "spec_step (SetCurrent i) a = a\<lparr>mode := SOURCE_CURRENT, set_micro := i\<rparr>"
| "spec_step (LimitCurrent i) a = a\<lparr>limit_micro := i\<rparr>"
| "spec_step (LimitVoltage v) a = a\<lparr>limit_micro := v\<rparr>"
| "spec_step (Range r) a = a\<lparr>crange := r\<rparr>"
| "spec_step (Rate n) a = a\<lparr>rate := n\<rparr>"

definition view :: "'s hal \<Rightarrow> 's \<Rightarrow> settings" where
  "view H s = \<lparr>mode = hal_operationType H s, set_micro = getSetValue_micro H s, limit_micro = getLimitValue_micro H s,
     crange = getCurrentRange H s, rate = getSamplingRate H s\<rparr>"

text \<open>A range request passes the present operation type, as the application does.\<close>

fun perform :: "'s hal \<Rightarrow> env \<Rightarrow> request \<Rightarrow> 's \<Rightarrow> 's" where
  "perform H E (SetVoltage v d) s = snd (fltSetCommitVoltageSource H E v d s)"
| "perform H E (SetCurrent i) s = snd (fltSetCommitCurrentSource H E i s)"
| "perform H E (LimitCurrent i) s = snd (fltSetCommitCurrentLimit H E i s)"
| "perform H E (LimitVoltage v) s = snd (fltSetCommitVoltageLimit H E v s)"
| "perform H E (Range r) s = setCurrentRange H E r (hal_operationType H s) s"
| "perform H E (Rate n) s = setSamplingRate H n s"

section \<open>The contract\<close>

locale smu_hal =
  fixes H :: "'s hal"
  assumes set_voltage: "view H (snd (fltSetCommitVoltageSource H E v d s)) = (view H s)\<lparr>mode := SOURCE_VOLTAGE, set_micro := v\<rparr>"
    and set_current: "view H (snd (fltSetCommitCurrentSource H E v s)) = (view H s)\<lparr>mode := SOURCE_CURRENT, set_micro := v\<rparr>"
    and limit_current: "view H (snd (fltSetCommitCurrentLimit H E v s)) = (view H s)\<lparr>limit_micro := v\<rparr>"
    and limit_voltage: "view H (snd (fltSetCommitVoltageLimit H E v s)) = (view H s)\<lparr>limit_micro := v\<rparr>"
    and set_range: "t = hal_operationType H s \<Longrightarrow> view H (setCurrentRange H E r t s) = (view H s)\<lparr>crange := r\<rparr>"
    and set_range_any: "crange (view H (setCurrentRange H E r t s)) = r" "rate (view H (setCurrentRange H E r t s)) = rate (view H s)"
      "set_micro (view H (setCurrentRange H E r t s)) = set_micro (view H s)"
      "limit_micro (view H (setCurrentRange H E r t s)) = limit_micro (view H s)"
    and set_rate: "view H (setSamplingRate H n s) = (view H s)\<lparr>rate := n\<rparr>"
    and returns: "fst (fltSetCommitVoltageSource H E v d s) = v" "fst (fltSetCommitCurrentSource H E v s) = v"
      "fst (fltSetCommitCurrentLimit H E v s) = v" "fst (fltSetCommitVoltageLimit H E v s) = v"
    and measure: "view H (snd (measureMilliVoltage H E s)) = view H s" "view H (snd (measureCurrent H E r s)) = view H s"
    and gpio: "view H (setGPIO H nr on s) = view H s"
begin

lemma perform_refines: "view H (perform H E q s) = spec_step q (view H s)"
  by (cases q) (simp_all add: set_voltage set_current limit_current limit_voltage set_range set_rate)

lemma run_refines: "view H (fold (perform H E) qs s) = fold spec_step qs (view H s)"
  by (induction qs arbitrary: s) (simp_all add: perform_refines)

lemma observed:
  "getSetValue_micro H s = set_micro (view H s)" "getLimitValue_micro H s = limit_micro (view H s)"
  "getCurrentRange H s = crange (view H s)" "getSamplingRate H s = rate (view H s)" "hal_operationType H s = mode (view H s)"
  by (simp_all add: view_def)

lemmas laws = set_voltage set_current limit_current limit_voltage set_range set_range_any set_rate returns measure gpio

end

end
