(* ===== verification/Bus.thy ===== *)
theory Bus
  imports Flt
begin

text \<open>
  The Arduino pins and the SPI bus, as far as the drivers of src/src use them: \<open>digitalWrite\<close>,
  \<open>digitalRead\<close> and \<open>SPI.transfer\<close>.  What hangs on the bus (the two DACs, the ADC and the
  amplifier behind the chip select multiplexer) is not part of the sources: it is a parameter
  \<open>X\<close> that is told every pin write and every byte shifted out, may change its state and answers
  each byte with a byte.  \<open>wire\<close> records every byte together with the levels of the multiplexer
  lines (pins 7, 8 and 9) at the time, so that theorems can say which chip was addressed.
\<close>

datatype bus_event = PinWrite nat bool | SpiByte byte

type_synonym 'd chips = "bus_event \<Rightarrow> 'd \<Rightarrow> byte \<times> 'd"
type_synonym lines = "bool \<times> bool \<times> bool"

record 'd board =
  pins :: "nat \<Rightarrow> bool"
  dev :: 'd
  wire :: "(lines \<times> byte) list"

definition mux_lines :: "('d, 'z) board_scheme \<Rightarrow> lines" where
  "mux_lines s = (pins s 7, pins s 8, pins s 9)"

definition digitalWrite :: "'d chips \<Rightarrow> nat \<Rightarrow> bool \<Rightarrow> ('d, 'z) board_scheme \<Rightarrow> ('d, 'z) board_scheme" where
  "digitalWrite X p v s = s\<lparr>pins := (pins s)(p := v), dev := snd (X (PinWrite p v) (dev s))\<rparr>"

definition digitalRead :: "nat \<Rightarrow> ('d, 'z) board_scheme \<Rightarrow> bool" where
  "digitalRead p s = pins s p"

definition spi_transfer :: "'d chips \<Rightarrow> byte \<Rightarrow> ('d, 'z) board_scheme \<Rightarrow> byte \<times> ('d, 'z) board_scheme" where
  "spi_transfer X b s = (let (r, d) = X (SpiByte b) (dev s) in
     (r, s\<lparr>dev := d, wire := wire s @ [(mux_lines s, b)]\<rparr>))"

fun spi_transfers :: "'d chips \<Rightarrow> byte list \<Rightarrow> ('d, 'z) board_scheme \<Rightarrow> byte list \<times> ('d, 'z) board_scheme" where
  "spi_transfers X [] s = ([], s)"
| "spi_transfers X (b # bs) s = (let (r, s1) = spi_transfer X b s; (rs, s2) = spi_transfers X bs s1 in (r # rs, s2))"

subsection \<open>What the bus operations leave alone\<close>

lemma digitalWrite_simps [simp]:
  "pins (digitalWrite X p v s) = (pins s)(p := v)"
  "wire (digitalWrite X p v s) = wire s"
  "board.more (digitalWrite X p v s) = board.more s"
  by (simp_all add: digitalWrite_def)

lemma spi_transfer_simps [simp]:
  "pins (snd (spi_transfer X b s)) = pins s"
  "wire (snd (spi_transfer X b s)) = wire s @ [(mux_lines s, b)]"
  "board.more (snd (spi_transfer X b s)) = board.more s"
  by (simp_all add: spi_transfer_def split: prod.splits)

lemma spi_transfers_Cons:
  "spi_transfers X (b # bs) s =
     (fst (spi_transfer X b s) # fst (spi_transfers X bs (snd (spi_transfer X b s))),
      snd (spi_transfers X bs (snd (spi_transfer X b s))))"
  by (simp split: prod.splits)

lemma spi_transfers_simps [simp]:
  "pins (snd (spi_transfers X bs s)) = pins s"
  "wire (snd (spi_transfers X bs s)) = wire s @ map (Pair (mux_lines s)) bs"
  "board.more (snd (spi_transfers X bs s)) = board.more s"
  "length (fst (spi_transfers X bs s)) = length bs"
proof (induction bs arbitrary: s)
  case (Cons b bs)
  { case 1 show ?case by (simp only: spi_transfers_Cons snd_conv Cons.IH spi_transfer_simps) }
  { case 2 show ?case by (simp add: spi_transfers_Cons Cons.IH mux_lines_def del: spi_transfers.simps) }
  { case 3 show ?case by (simp only: spi_transfers_Cons snd_conv Cons.IH spi_transfer_simps) }
  { case 4 show ?case by (simp only: spi_transfers_Cons fst_conv Cons.IH list.size) }
qed simp_all

end
