(* ===== verification/Ad7176.thy ===== *)
theory Ad7176
  imports Bus
begin

text \<open>
  The AD7176 converter driver (src/src/AD7176.cpp, AD7176_Comm.cpp, AD7176_regs.h): the register
  table, the SPI transactions, the checksums, register reads and writes, polling and set-up.
  \<open>int32_t\<close> register values are kept as 32 bit words; return codes are integers.  The reply bytes
  come from the bus parameter \<open>X\<close>, so a reply is arbitrary.
\<close>

section \<open>Registers and driver state\<close>

record st_reg =
  addr :: byte
  rsize :: byte
  extra :: u16
  rvalue :: u32
  rname :: string

datatype CRC_MODE = disable | use_CRC | use_XOR

datatype bit_order = LSBFIRST | MSBFIRST
datatype spi_mode = SPI_MODE0 | SPI_MODE1 | SPI_MODE2 | SPI_MODE3

record 'd adc_board = "'d board" +
  AD7176_spisettings :: "u32 \<times> bit_order \<times> spi_mode"
  AD7176_regs :: "st_reg list"
  useCRC :: CRC_MODE
  dataStatus :: byte

definition mk_reg :: "byte \<Rightarrow> byte \<Rightarrow> u16 \<Rightarrow> u32 \<Rightarrow> string \<Rightarrow> st_reg" where
  "mk_reg a n e v nm = \<lparr>addr = a, rsize = n, extra = e, rvalue = v, rname = nm\<rparr>"

definition initial_regs :: "st_reg list" where
  "initial_regs = [
    mk_reg 0x00 1 0 0x0000 ''Status_Reg '', mk_reg 0x01 2 0 0x0000 ''ADCModeReg '',
    mk_reg 0x02 2 0 0x0100 ''IfModeReg  '', mk_reg 0x03 3 0 0x0000 ''Reg_Check  '',
    mk_reg 0x04 3 0 0x0000 ''ADC_Data   '', mk_reg 0x06 2 0 0x0000 ''GPIO_Conf  '',
    mk_reg 0x07 2 0 0x0000 ''ID_ST_Reg  '', mk_reg 0x10 2 0 0x8002 ''Chan_Map_0 '',
    mk_reg 0x11 2 0 0x0000 ''Chan_Map_1 '', mk_reg 0x12 2 0 0x0000 ''Chan_Map_2 '',
    mk_reg 0x13 2 0 0x0000 ''Chan_Map_3 '', mk_reg 0x20 2 0 0x0000 ''SetupCfg0  '',
    mk_reg 0x21 2 0 0x0000 ''SetupCfg1  '', mk_reg 0x22 2 0 0x0000 ''SetupCfg2  '',
    mk_reg 0x23 2 0 0x0000 ''SetupCfg3  '', mk_reg 0x28 2 0 0x020A ''FilterCfg0 '',
    mk_reg 0x29 2 0 0x0200 ''FilterCfg1 '', mk_reg 0x2a 2 0 0x0200 ''FilterCfg2 '',
    mk_reg 0x2b 2 0 0x0200 ''FilterCfg3 '', mk_reg 0x30 3 0 0 ''Offset_0   '',
    mk_reg 0x31 3 0 0 ''Offset_1   '', mk_reg 0x32 3 0 0 ''Offset_2   '',
    mk_reg 0x33 3 0 0 ''Offset_3   '', mk_reg 0x38 3 0 0 ''Gain_0     '',
    mk_reg 0x39 3 0 0 ''Gain_1     '', mk_reg 0x3a 3 0 0 ''Gain_2     '',
    mk_reg 0x3b 3 0 0 ''Gain_3     '', mk_reg 0xFF 1 0 0 ''Comm_Reg   '']"

text \<open>The enumeration \<open>AD7176_registers\<close>: positions in the table, not register addresses.\<close>

definition Status_Register :: nat where "Status_Register = 0"
definition ADC_Mode_Register :: nat where "ADC_Mode_Register = 1"
definition Interface_Mode_Register :: nat where "Interface_Mode_Register = 2"
definition Data_Register :: nat where "Data_Register = 4"
definition IOCon_Register :: nat where "IOCon_Register = 5"
definition ID_st_reg :: nat where "ID_st_reg = 6"
definition Offset_1 :: nat where "Offset_1 = 19"
definition Gain_3 :: nat where "Gain_3 = 25"

definition COMM_REG_WEN :: byte where "COMM_REG_WEN = 0"
definition COMM_REG_WR :: byte where "COMM_REG_WR = 0"
definition COMM_REG_RD :: byte where "COMM_REG_RD = 0x40"
definition STATUS_REG_RDY :: u32 where "STATUS_REG_RDY = 0x80"
definition STATUS_REG_ADC_ERR :: byte where "STATUS_REG_ADC_ERR = 0x40"
definition STATUS_REG_CRC_ERR :: byte where "STATUS_REG_CRC_ERR = 0x20"

section \<open>SPI transactions\<close>

definition AD7176_Init :: "byte \<Rightarrow> u32 \<Rightarrow> byte \<Rightarrow> byte \<Rightarrow> ('d, 'z) adc_board_scheme \<Rightarrow> ('d, 'z) adc_board_scheme" where
  "AD7176_Init lsbFirst clockFreq clockPol clockEdg s =
     s\<lparr>AD7176_spisettings := (clockFreq, if lsbFirst \<noteq> 0 then LSBFIRST else MSBFIRST,
        if clockPol \<noteq> 0 then (if clockEdg \<noteq> 0 then SPI_MODE1 else SPI_MODE0)
        else (if clockEdg \<noteq> 0 then SPI_MODE3 else SPI_MODE2))\<rparr>"

definition SPIMuxSelectAD7176 :: "'d chips \<Rightarrow> ('d, 'z) board_scheme \<Rightarrow> ('d, 'z) board_scheme" where
  "SPIMuxSelectAD7176 X s = digitalWrite X 7 False (digitalWrite X 9 False (digitalWrite X 8 False s))"

text \<open>\<open>SPI.transfer (data, n)\<close> exchanges the first \<open>n\<close> bytes of the buffer in place.\<close>

definition AD7176_Read :: "'d chips \<Rightarrow> byte list \<Rightarrow> nat \<Rightarrow> ('d, 'z) board_scheme \<Rightarrow> int \<times> byte list \<times> ('d, 'z) board_scheme" where
  "AD7176_Read X data bytesNumber s =
     (let s1 = digitalWrite X 7 False (digitalWrite X 9 False (digitalWrite X 8 False s));
          (r, s2) = spi_transfers X (take bytesNumber data) s1
      in (int bytesNumber, r @ drop bytesNumber data, digitalWrite X 7 True s2))"

definition AD7176_Write :: "'d chips \<Rightarrow> byte list \<Rightarrow> nat \<Rightarrow> ('d, 'z) board_scheme \<Rightarrow> int \<times> ('d, 'z) board_scheme" where
  "AD7176_Write X data bytesNumber s =
     (let (r, s1) = spi_transfers X (take bytesNumber data) (SPIMuxSelectAD7176 X s)
      in (int bytesNumber, digitalWrite X 7 True s1))"

section \<open>Checksums\<close>

definition CRC8_POLYNOMIAL_REPRESENTATION :: byte where "CRC8_POLYNOMIAL_REPRESENTATION = 0x07"

definition crc8_step :: "byte \<Rightarrow> byte \<Rightarrow> byte \<Rightarrow> byte" where
  "crc8_step b i crc =
     (if (and crc 0x80 \<noteq> 0) \<noteq> (and b i \<noteq> 0) then xor (push_bit 1 crc) CRC8_POLYNOMIAL_REPRESENTATION
      else push_bit 1 crc)"

definition crc8_byte :: "byte \<Rightarrow> byte \<Rightarrow> byte" where
  "crc8_byte b crc = fold (crc8_step b) [0x80, 0x40, 0x20, 0x10, 0x08, 0x04, 0x02, 0x01] crc"

definition AD7176_ComputeCRC8 :: "byte list \<Rightarrow> nat \<Rightarrow> byte" where
  "AD7176_ComputeCRC8 pBuf bufSize = fold crc8_byte (take bufSize pBuf) 0"

definition AD7176_ComputeXOR8 :: "byte list \<Rightarrow> nat \<Rightarrow> byte" where
  "AD7176_ComputeXOR8 pBuf bufSize = fold (\<lambda>b v. xor v b) (take bufSize pBuf) 0"

section \<open>Registers\<close>

text \<open>The big-endian value of the bytes \<open>buffer[1] .. buffer[size]\<close>, as the read loop builds it.\<close>

definition be_value :: "byte list \<Rightarrow> u32" where
  "be_value bs = fold (\<lambda>b v. push_bit 8 v + ucast b) bs 0"

definition reg_read_len :: "('d, 'z) adc_board_scheme \<Rightarrow> st_reg \<Rightarrow> nat" where
  "reg_read_len s pReg = unat (rsize pReg) + 1 + (if useCRC s \<noteq> disable then 1 else 0)
     + (if dataStatus s = 1 \<and> addr pReg = 0x04 then 1 else 0)"

definition reg_check :: "CRC_MODE \<Rightarrow> byte \<Rightarrow> byte list \<Rightarrow> nat \<Rightarrow> byte" where
  "reg_check m cmd buffer n = (let msgBuf = cmd # tl buffer in
     case m of disable \<Rightarrow> 0 | use_CRC \<Rightarrow> AD7176_ComputeCRC8 msgBuf n | use_XOR \<Rightarrow> AD7176_ComputeXOR8 msgBuf n)"

definition AD7176_ReadRegister :: "'d chips \<Rightarrow> nat \<Rightarrow> ('d, 'z) adc_board_scheme \<Rightarrow> int \<times> ('d, 'z) adc_board_scheme" where
  "AD7176_ReadRegister X k s =
     (let pReg = AD7176_regs s ! k;
          cmd = or (or COMM_REG_WEN COMM_REG_RD) (addr pReg);
          read_len = reg_read_len s pReg;
          (ret, buffer, s1) = AD7176_Read X [cmd, 0, 0, 0, 0, 0, 0, 0] read_len s
      in if ret < 0 then (ret, s1)
         else if reg_check (useCRC s) cmd buffer read_len \<noteq> 0 then (- 1, s1)
         else let r1 = (if dataStatus s = 1 \<and> addr pReg = 0x04
                        then pReg\<lparr>extra := ucast (buffer ! (unat (rsize pReg) + 1))\<rparr> else pReg);
                  r2 = r1\<lparr>rvalue := be_value (take (unat (rsize pReg)) (tl buffer))\<rparr>
              in (ret, s1\<lparr>AD7176_regs := (AD7176_regs s1)[k := r2]\<rparr>))"

text \<open>
  The write loop stores \<open>regValue & 0xFF\<close> from the last data byte to the first, shifting
  \<open>regValue\<close> right (arithmetically, it is an \<open>int32_t\<close>) by eight each time.
\<close>

fun be_bytes :: "nat \<Rightarrow> u32 \<Rightarrow> byte list" where
  "be_bytes 0 v = []"
| "be_bytes (Suc n) v = be_bytes n (signed_drop_bit 8 v) @ [ucast (and v 0xFF)]"

definition reg_write_buf :: "CRC_MODE \<Rightarrow> st_reg \<Rightarrow> byte list" where
  "reg_write_buf m reg =
     (let cmd = or (or COMM_REG_WEN COMM_REG_WR) (addr reg);
          body = cmd # be_bytes (unat (rsize reg)) (rvalue reg)
      in if m \<noteq> disable then body @ [AD7176_ComputeCRC8 body (length body)] else body)"

definition AD7176_WriteRegister :: "'d chips \<Rightarrow> st_reg \<Rightarrow> ('d, 'z) adc_board_scheme \<Rightarrow> int \<times> ('d, 'z) adc_board_scheme" where
  "AD7176_WriteRegister X reg s =
     (let wrBuf = reg_write_buf (useCRC s) reg in AD7176_Write X wrBuf (length wrBuf) s)"

definition AD7176_Reset :: "'d chips \<Rightarrow> ('d, 'z) board_scheme \<Rightarrow> int \<times> ('d, 'z) board_scheme" where
  "AD7176_Reset X s = AD7176_Write X [0xFF, 0xFF, 0xFF, 0xFF, 0xFF, 0xFF, 0xFF, 0xFF] 8 s"

definition AD7176_UpdateSettings :: "('d, 'z) adc_board_scheme \<Rightarrow> ('d, 'z) adc_board_scheme" where
  "AD7176_UpdateSettings s =
     (let v = rvalue (AD7176_regs s ! Interface_Mode_Register)
      in s\<lparr>useCRC := (if and v 0x08 = 0x08 then use_CRC else if and v 0x04 = 0x04 then use_XOR else disable),
           dataStatus := (if and v 0x40 \<noteq> 0 then 1 else 0)\<rparr>)"

section \<open>Polling and data\<close>

text \<open>
  \<open>while (!ready && --timeout)\<close>: the counter is decremented, wrapping, before each poll, and
  the result is taken from what is left of it.
\<close>

function AD7176_WaitForReady :: "'d chips \<Rightarrow> u32 \<Rightarrow> ('d, 'z) adc_board_scheme \<Rightarrow> int \<times> ('d, 'z) adc_board_scheme" where
  "AD7176_WaitForReady X timeout s =
     (let t = timeout - 1 in
      if t = 0 then (- 1, s)
      else case AD7176_ReadRegister X Status_Register s of (ret, s1) \<Rightarrow>
        if ret < 0 then (ret, s1)
        else if and (rvalue (AD7176_regs s1 ! Status_Register)) STATUS_REG_RDY = 0 then (0, s1)
        else AD7176_WaitForReady X t s1)"
  by pat_completeness auto
termination
proof (relation "measure (\<lambda>(X, t, s). unat (t - 1))")
  fix X :: "'d chips" and timeout t :: u32 and s s1 :: "('d, 'z) adc_board_scheme"
  assume "t = timeout - 1" "t \<noteq> 0"
  then show "((X, t, s1), (X, timeout, s)) \<in> measure (\<lambda>(X, t, s). unat (t - 1))"
    using unat_minus_one [of t] by (simp add: unat_gt_0)
qed simp
declare AD7176_WaitForReady.simps [simp del]

definition AD7176_dataReady :: "'d chips \<Rightarrow> ('d, 'z) adc_board_scheme \<Rightarrow> int \<times> ('d, 'z) adc_board_scheme" where
  "AD7176_dataReady X s =
     (case AD7176_ReadRegister X Status_Register s of (ret, s1) \<Rightarrow>
        if ret < 0 then (- 99, s1)
        else let v = rvalue (AD7176_regs s1 ! Status_Register); stat = (ucast v :: byte) in
          if 1 \<le> and stat STATUS_REG_ADC_ERR then (- 98, s1)
          else if 1 < and stat STATUS_REG_CRC_ERR then (- 99, s1)
          else if and v STATUS_REG_RDY = 0 then (sint v, s1)
          else (- 1, s1))"

definition AD7176_ReadData :: "'d chips \<Rightarrow> ('d, 'z) adc_board_scheme \<Rightarrow> int \<times> int \<times> ('d, 'z) adc_board_scheme" where
  "AD7176_ReadData X s =
     (case AD7176_ReadRegister X Data_Register s of (ret, s1) \<Rightarrow>
        (ret, sint (rvalue (AD7176_regs s1 ! Data_Register)), s1))"

section \<open>Set-up\<close>

fun write_regs :: "'d chips \<Rightarrow> nat list \<Rightarrow> int \<Rightarrow> ('d, 'z) adc_board_scheme \<Rightarrow> int \<times> ('d, 'z) adc_board_scheme" where
  "write_regs X [] ret s = (ret, s)"
| "write_regs X (regNr # ns) ret s =
     (if \<not> ret < 0 then (case AD7176_WriteRegister X (AD7176_regs s ! regNr) s of (ret1, s1) \<Rightarrow> write_regs X ns ret1 s1)
      else (ret, s))"

definition AD7176_Setup :: "'d chips \<Rightarrow> ('d, 'z) adc_board_scheme \<Rightarrow> int \<times> ('d, 'z) adc_board_scheme" where
  "AD7176_Setup X s =
     (let s1 = AD7176_Init 0 6000000 1 0 s;
          (_, s2) = AD7176_Reset X s1;
          (ret, s3) = AD7176_WriteRegister X (AD7176_regs s2 ! ADC_Mode_Register) s2
      in if ret < 0 then (ret, s3)
         else case AD7176_WriteRegister X (AD7176_regs s3 ! Interface_Mode_Register) s3 of (ret, s4) \<Rightarrow>
           if ret < 0 then (ret, s4)
           else write_regs X [Data_Register ..< Offset_1] ret (AD7176_UpdateSettings s4))"

section \<open>Lemmas\<close>

subsection \<open>Frame conditions\<close>

lemma AD7176_Write_simps [simp]:
  "fst (AD7176_Write X bs n s) = int n"
  "pins (snd (AD7176_Write X bs n s)) = (pins s)(8 := False, 9 := False, 7 := True)"
  "wire (snd (AD7176_Write X bs n s)) = wire s @ map (Pair (False, False, False)) (take n bs)"
  "board.more (snd (AD7176_Write X bs n s)) = board.more s"
  by (auto simp: AD7176_Write_def SPIMuxSelectAD7176_def mux_lines_def case_prod_unfold)

lemma AD7176_Read_simps [simp]:
  "fst (AD7176_Read X bs n s) = int n"
  "length (fst (snd (AD7176_Read X bs n s))) = length bs"
  "pins (snd (snd (AD7176_Read X bs n s))) = (pins s)(8 := False, 9 := False, 7 := True)"
  "wire (snd (snd (AD7176_Read X bs n s))) = wire s @ map (Pair (False, False, False)) (take n bs)"
  "board.more (snd (snd (AD7176_Read X bs n s))) = board.more s"
  by (auto simp: AD7176_Read_def mux_lines_def case_prod_unfold Let_def)

lemma board_more_adc:
  fixes s t :: "('d, 'z) adc_board_scheme"
  assumes "board.more s = board.more t"
  shows "AD7176_regs s = AD7176_regs t" "useCRC s = useCRC t" "dataStatus s = dataStatus t"
    "AD7176_spisettings s = AD7176_spisettings t" "adc_board.more s = adc_board.more t"
  using assms by (cases s; cases t; simp)+

lemmas Write_adc [simp] = board_more_adc [OF AD7176_Write_simps(4)]
lemmas Read_adc [simp] = board_more_adc [OF AD7176_Read_simps(5)]

subsection \<open>The checksum\<close>

lemma bit7: "(and c 0x80 \<noteq> 0) = bit (c :: byte) 7"
  using and_exp_eq_0_iff_not_bit [of c 7] by simp

lemma crc8_step_self: "bit c 7 = (and b i \<noteq> 0) \<Longrightarrow> crc8_step b i c = push_bit 1 c"
  by (simp add: crc8_step_def bit7)

lemma mask_bits:
  "(and b 0x80 \<noteq> 0) = bit (b :: byte) 7" "(and b 0x40 \<noteq> 0) = bit b 6" "(and b 0x20 \<noteq> 0) = bit b 5"
  "(and b 0x10 \<noteq> 0) = bit b 4" "(and b 0x08 \<noteq> 0) = bit b 3" "(and b 0x04 \<noteq> 0) = bit b 2"
  "(and b 0x02 \<noteq> 0) = bit b 1" "(and b 0x01 \<noteq> 0) = bit b 0"
  using and_exp_eq_0_iff_not_bit [of b 7] and_exp_eq_0_iff_not_bit [of b 6] and_exp_eq_0_iff_not_bit [of b 5]
    and_exp_eq_0_iff_not_bit [of b 4] and_exp_eq_0_iff_not_bit [of b 3] and_exp_eq_0_iff_not_bit [of b 2]
    and_exp_eq_0_iff_not_bit [of b 1] and_exp_eq_0_iff_not_bit [of b 0] by simp_all

lemma crc8_step_shifted:
  assumes "(and c i \<noteq> 0) = bit c m" "k + m = 7" "j = Suc k"
  shows "crc8_step c i (push_bit k c) = push_bit j c"
proof -
  have "7 - k = m" "k \<le> 7" using assms by simp_all
  then have "bit (push_bit k c) 7 = (and c i \<noteq> 0)" using assms(1) by (simp add: bit_push_bit_iff)
  from crc8_step_self [OF this] show ?thesis by (simp only: push_bit_push_bit plus_1_eq_Suc assms)
qed

lemma crc8_byte_self: "crc8_byte c c = 0"
proof -
  have s: "crc8_step c 0x80 (push_bit 0 c) = push_bit 1 c" "crc8_step c 0x40 (push_bit 1 c) = push_bit 2 c"
    "crc8_step c 0x20 (push_bit 2 c) = push_bit 3 c" "crc8_step c 0x10 (push_bit 3 c) = push_bit 4 c"
    "crc8_step c 0x08 (push_bit 4 c) = push_bit 5 c" "crc8_step c 0x04 (push_bit 5 c) = push_bit 6 c"
    "crc8_step c 0x02 (push_bit 6 c) = push_bit 7 c" "crc8_step c 0x01 (push_bit 7 c) = push_bit 8 c"
    by (rule crc8_step_shifted [OF mask_bits(1)] crc8_step_shifted [OF mask_bits(2)] crc8_step_shifted [OF mask_bits(3)]
      crc8_step_shifted [OF mask_bits(4)] crc8_step_shifted [OF mask_bits(5)] crc8_step_shifted [OF mask_bits(6)]
      crc8_step_shifted [OF mask_bits(7)] crc8_step_shifted [OF mask_bits(8)]; simp only: arith_simps)+
  have "crc8_byte c c = push_bit 8 c"
    unfolding crc8_byte_def fold_simps using s(1) by (simp only: s push_bit_0_id id_apply)
  also have "\<dots> = 0" by (rule bit_word_eqI) (simp add: bit_push_bit_iff)
  finally show ?thesis .
qed

lemma crc8_step_bit0: "bit (crc8_step b i x) 0 = (bit x 7 \<noteq> (and b i \<noteq> 0))"
proof -
  have "\<not> bit (push_bit 1 x) 0" by (simp only: bit_push_bit_iff) simp
  moreover have "bit (0x07 :: byte) 0" by simp
  ultimately show ?thesis
    by (cases "bit x 7 \<noteq> (and b i \<noteq> 0)")
      (simp_all only: crc8_step_def bit7 CRC8_POLYNOMIAL_REPRESENTATION_def if_True if_False bit_xor_iff simp_thms)
qed

lemma crc8_step_inject:
  assumes "crc8_step b i c = crc8_step b i d" shows "c = d"
proof -
  have b7: "bit c 7 = bit d 7" using assms crc8_step_bit0 [of b i c] crc8_step_bit0 [of b i d] by auto
  have x: "xor (xor p q) q = p" for p q :: byte by (simp add: xor.assoc)
  have "push_bit 1 c = push_bit 1 d" using assms b7 x by (metis crc8_step_def bit7)
  then have s: "bit (push_bit 1 c) (Suc n) = bit (push_bit 1 d) (Suc n)" for n by (simp only:)
  show ?thesis
  proof (rule bit_word_eqI)
    fix n assume "n < LENGTH(8)"
    then consider "n = 7" | "n < 7" by fastforce
    then show "bit c n = bit d n" using s [of n] b7 by cases (auto simp only: bit_push_bit_iff, simp_all)
  qed
qed

lemma crc8_byte_inject: "crc8_byte b c = crc8_byte b d \<Longrightarrow> c = d"
  by (auto simp: crc8_byte_def dest!: crc8_step_inject)


lemma crc8_fold_inject: "fold crc8_byte bs c = fold crc8_byte bs d \<Longrightarrow> c = d"
  by (induction bs arbitrary: c d) (auto dest: crc8_byte_inject)

text \<open>Feeding byte \<open>b\<close> in state \<open>c\<close> is feeding 0 in state \<open>b XOR c\<close>.\<close>

lemma crc8_step_linear:
  assumes "(and b i \<noteq> 0) = bit b m" "k + m = 7" "j = Suc k"
  shows "crc8_step b i (xor x (push_bit k b)) = xor (crc8_step 0 i x) (push_bit j b)"
proof -
  have "7 - k = m" "k \<le> 7" using assms by simp_all
  then have "bit (push_bit k b) 7 = bit b m" by (simp add: bit_push_bit_iff)
  then have "(bit (xor x (push_bit k b)) 7 \<noteq> (and b i \<noteq> 0)) = bit x 7"
    unfolding assms(1) bit_xor_iff by auto
  moreover have "push_bit 1 (xor x (push_bit k b)) = xor (push_bit 1 x) (push_bit j b)"
    by (simp only: push_bit_xor push_bit_push_bit plus_1_eq_Suc assms)
  moreover have "and 0 i = (0 :: byte)" by simp
  ultimately show ?thesis
    by (cases "bit x 7") (simp_all only: crc8_step_def bit7 simp_thms if_True if_False xor.assoc xor.left_commute xor.commute)
qed

lemma crc8_byte_zero: "crc8_byte b c = crc8_byte 0 (xor b c)"
proof -
  note l = crc8_step_linear [OF mask_bits(1)] crc8_step_linear [OF mask_bits(2)] crc8_step_linear [OF mask_bits(3)]
    crc8_step_linear [OF mask_bits(4)] crc8_step_linear [OF mask_bits(5)] crc8_step_linear [OF mask_bits(6)]
    crc8_step_linear [OF mask_bits(7)] crc8_step_linear [OF mask_bits(8)]
  have s: "crc8_step b 0x80 (xor x (push_bit 0 b)) = xor (crc8_step 0 0x80 x) (push_bit 1 b)"
    "crc8_step b 0x40 (xor x (push_bit 1 b)) = xor (crc8_step 0 0x40 x) (push_bit 2 b)"
    "crc8_step b 0x20 (xor x (push_bit 2 b)) = xor (crc8_step 0 0x20 x) (push_bit 3 b)"
    "crc8_step b 0x10 (xor x (push_bit 3 b)) = xor (crc8_step 0 0x10 x) (push_bit 4 b)"
    "crc8_step b 0x08 (xor x (push_bit 4 b)) = xor (crc8_step 0 0x08 x) (push_bit 5 b)"
    "crc8_step b 0x04 (xor x (push_bit 5 b)) = xor (crc8_step 0 0x04 x) (push_bit 6 b)"
    "crc8_step b 0x02 (xor x (push_bit 6 b)) = xor (crc8_step 0 0x02 x) (push_bit 7 b)"
    "crc8_step b 0x01 (xor x (push_bit 7 b)) = xor (crc8_step 0 0x01 x) (push_bit 8 b)" for x
    by (rule l; simp only: arith_simps)+
  have "push_bit 8 b = 0" by (rule bit_word_eqI) (simp add: bit_push_bit_iff)
  moreover have "c = xor (xor b c) (push_bit 0 b)" by (simp add: xor.commute [of b c] xor.assoc)
  ultimately show ?thesis
    unfolding crc8_byte_def fold_simps using s by (metis xor.comm_neutral xor.right_neutral)
qed

lemma crc8_byte_inject2: "crc8_byte b c = crc8_byte b' c \<Longrightarrow> b = b'"
proof -
  assume "crc8_byte b c = crc8_byte b' c"
  then have "xor b c = xor b' c" using crc8_byte_zero crc8_byte_inject by metis
  then have "xor (xor b c) c = xor (xor b' c) c" by simp
  then show ?thesis by (simp add: xor.assoc)
qed

lemma crc8_codeword: "AD7176_ComputeCRC8 (m @ [AD7176_ComputeCRC8 m (length m)]) (Suc (length m)) = 0"
  by (simp add: AD7176_ComputeCRC8_def crc8_byte_self)

lemma crc8_detects:
  assumes "i < length m" "e \<noteq> m ! i"
  shows "fold crc8_byte (m[i := e]) c \<noteq> fold crc8_byte m c"
proof
  assume eq: "fold crc8_byte (m[i := e]) c = fold crc8_byte m c"
  have m: "m = take i m @ m ! i # drop (Suc i) m" using assms(1) by (rule id_take_nth_drop)
  have m': "m[i := e] = take i m @ e # drop (Suc i) m" using assms(1) by (rule upd_conv_take_nth_drop)
  from eq have "crc8_byte e (fold crc8_byte (take i m) c) = crc8_byte (m ! i) (fold crc8_byte (take i m) c)"
    by (subst (asm) m', subst (asm) (2) m) (simp add: crc8_fold_inject)
  then show False using assms(2) by (auto dest: crc8_byte_inject2)
qed

subsection \<open>Big-endian values\<close>

lemma be_bytes_length [simp]: "length (be_bytes n v) = n"
  by (induction n arbitrary: v) simp_all

lemma be_value_append: "be_value (bs @ [b]) = push_bit 8 (be_value bs) + ucast b"
  by (simp add: be_value_def)

lemma be_value_be_bytes: "n \<le> 3 \<Longrightarrow> be_value (be_bytes n v) = take_bit (8 * n) v"
proof (induction n arbitrary: v)
  case 0 then show ?case by (simp add: be_value_def)
next
  case (Suc n)
  have m: "and v 0xFF = take_bit 8 v" by (simp add: take_bit_eq_mask mask_eq_exp_minus_1)
  have "push_bit 8 x + ucast (ucast (take_bit 8 v) :: byte) = or (push_bit 8 x) (take_bit 8 v)" for x :: u32
    by (subst disjunctive_add) (auto simp: bit_simps intro!: bit_word_eqI)
  then have "be_value (be_bytes (Suc n) v) = or (push_bit 8 (take_bit (8 * n) (signed_drop_bit 8 v))) (take_bit 8 v)"
    using Suc by (simp add: be_value_append m)
  also have "\<dots> = take_bit (8 * Suc n) v"
    using Suc.prems by (intro bit_word_eqI) (auto simp: bit_simps min_def)
  finally show ?case .
qed

subsection \<open>Register transactions\<close>

lemma WriteRegister_simps [simp]:
  "fst (AD7176_WriteRegister X reg s) = int (length (reg_write_buf (useCRC s) reg))"
  "pins (snd (AD7176_WriteRegister X reg s)) = (pins s)(8 := False, 9 := False, 7 := True)"
  "wire (snd (AD7176_WriteRegister X reg s)) = wire s @ map (Pair (False, False, False)) (reg_write_buf (useCRC s) reg)"
  "board.more (snd (AD7176_WriteRegister X reg s)) = board.more s"
  by (simp_all add: AD7176_WriteRegister_def Let_def)

lemmas WriteRegister_adc [simp] = board_more_adc [OF WriteRegister_simps(4)]

text \<open>The bytes the converter answers to the command for register k, and the checked message.\<close>

definition reg_cmd :: "('d, 'z) adc_board_scheme \<Rightarrow> nat \<Rightarrow> byte" where
  "reg_cmd s k = or (or COMM_REG_WEN COMM_REG_RD) (addr (AD7176_regs s ! k))"

definition reg_reply :: "'d chips \<Rightarrow> nat \<Rightarrow> ('d, 'z) adc_board_scheme \<Rightarrow> byte list" where
  "reg_reply X k s = fst (spi_transfers X (take (reg_read_len s (AD7176_regs s ! k)) [reg_cmd s k, 0, 0, 0, 0, 0, 0, 0])
     (digitalWrite X 7 False (digitalWrite X 9 False (digitalWrite X 8 False s))))"

definition regs_small :: "('d, 'z) adc_board_scheme \<Rightarrow> bool" where
  "regs_small s \<longleftrightarrow> (\<forall>r \<in> set (AD7176_regs s). 1 \<le> unat (rsize r) \<and> unat (rsize r) \<le> 3)"

lemma initial_regs_small: "\<forall>r \<in> set initial_regs. 1 \<le> unat (rsize r) \<and> unat (rsize r) \<le> 3"
  by (simp add: initial_regs_def mk_reg_def)

lemma map_upd_same: "f y = f (xs ! k) \<Longrightarrow> map f (xs[k := y]) = map f xs"
  by (metis list_update_id map_update)

lemma ReadRegister_frame:
  "pins (snd (AD7176_ReadRegister X k s)) = (pins s)(8 := False, 9 := False, 7 := True)"
  "wire (snd (AD7176_ReadRegister X k s)) = wire s @ map (Pair (False, False, False))
     (take (reg_read_len s (AD7176_regs s ! k)) [reg_cmd s k, 0, 0, 0, 0, 0, 0, 0])"
  "useCRC (snd (AD7176_ReadRegister X k s)) = useCRC s"
  "dataStatus (snd (AD7176_ReadRegister X k s)) = dataStatus s"
  "adc_board.more (snd (AD7176_ReadRegister X k s)) = adc_board.more s"
  "map addr (AD7176_regs (snd (AD7176_ReadRegister X k s))) = map addr (AD7176_regs s)"
  "map rsize (AD7176_regs (snd (AD7176_ReadRegister X k s))) = map rsize (AD7176_regs s)"
  by (simp_all add: AD7176_ReadRegister_def Let_def case_prod_unfold reg_cmd_def map_upd_same)

lemma reply_length: "reg_read_len s (AD7176_regs s ! k) \<le> 8 \<Longrightarrow> length (reg_reply X k s) = reg_read_len s (AD7176_regs s ! k)"
  by (simp add: reg_reply_def)

lemma reg_check_app:
  "r \<noteq> [] \<Longrightarrow> reg_check m cmd (r @ d) (length r) = reg_check m cmd r (length r)"
  by (cases r) (simp_all add: reg_check_def Let_def AD7176_ComputeCRC8_def AD7176_ComputeXOR8_def split: CRC_MODE.splits)

lemma ReadRegister_eq:
  assumes "reg_read_len s (AD7176_regs s ! k) \<le> 8" and r: "reg_reply X k s = r"
  shows "fst (AD7176_ReadRegister X k s) =
      (if reg_check (useCRC s) (reg_cmd s k) r (length r) = 0 then int (length r) else - 1)"
    "reg_check (useCRC s) (reg_cmd s k) r (length r) \<noteq> 0 \<Longrightarrow> AD7176_regs (snd (AD7176_ReadRegister X k s)) = AD7176_regs s"
    "reg_check (useCRC s) (reg_cmd s k) r (length r) = 0 \<Longrightarrow> k < length (AD7176_regs s) \<Longrightarrow>
       rvalue (AD7176_regs (snd (AD7176_ReadRegister X k s)) ! k) = be_value (take (unat (rsize (AD7176_regs s ! k))) (tl r))"
proof -
  let ?n = "reg_read_len s (AD7176_regs s ! k)"
  let ?b = "[reg_cmd s k, 0, 0, 0, 0, 0, 0, 0]"
  define s1 where "s1 = snd (snd (AD7176_Read X ?b ?n s))"
  have rd: "AD7176_Read X ?b ?n s = (int ?n, r @ drop ?n ?b, s1)"
    by (simp add: s1_def AD7176_Read_def Let_def case_prod_unfold reg_reply_def r [symmetric])
  have n: "length r = ?n" "r \<noteq> []" "unat (rsize (AD7176_regs s ! k)) < ?n"
    using reply_length [OF assms(1), of X] by (auto simp: r reg_read_len_def)
  have s1: "AD7176_regs s1 = AD7176_regs s" unfolding s1_def by (rule board_more_adc) simp
  have v: "take (unat (rsize (AD7176_regs s ! k))) (tl (r @ drop ?n ?b)) = take (unat (rsize (AD7176_regs s ! k))) (tl r)"
    using n by (cases r) auto
  have c: "reg_check (useCRC s) (reg_cmd s k) (r @ drop ?n ?b) ?n = reg_check (useCRC s) (reg_cmd s k) r (length r)"
    using reg_check_app [OF n(2)] by (simp only: n(1) [symmetric])
  note R = AD7176_ReadRegister_def [of X k s, unfolded Let_def, folded reg_cmd_def, unfolded rd prod.case, unfolded c v, folded n(1)]
  show "fst (AD7176_ReadRegister X k s) =
      (if reg_check (useCRC s) (reg_cmd s k) r (length r) = 0 then int (length r) else - 1)"
    unfolding R by simp
  show "reg_check (useCRC s) (reg_cmd s k) r (length r) \<noteq> 0 \<Longrightarrow> AD7176_regs (snd (AD7176_ReadRegister X k s)) = AD7176_regs s"
    unfolding R by (simp add: s1)
  show "reg_check (useCRC s) (reg_cmd s k) r (length r) = 0 \<Longrightarrow> k < length (AD7176_regs s) \<Longrightarrow>
       rvalue (AD7176_regs (snd (AD7176_ReadRegister X k s)) ! k) = be_value (take (unat (rsize (AD7176_regs s ! k))) (tl r))"
    unfolding R by (simp add: s1)
qed

lemma check_ok: "length r = Suc (length p) \<Longrightarrow> tl r = p \<Longrightarrow> p = q @ [AD7176_ComputeCRC8 (cmd # q) (Suc (length q))] \<Longrightarrow>
    reg_check use_CRC cmd r (length r) = 0"
  using crc8_codeword [of "cmd # q"] by (simp add: reg_check_def Let_def)

text \<open>C35: Round trip of a register over the wire with the CRC on: if the converter answers a read
  command with the bytes AD7176_WriteRegister builds for a value (be_bytes) and their CRC, then
  AD7176_ReadRegister accepts the reply and stores the low bytes of exactly that value.\<close>

theorem AD7176_write_then_read:
  assumes "useCRC s = use_CRC" "dataStatus s \<noteq> 1" "k < length (AD7176_regs s)"
    and size: "1 \<le> unat (rsize (AD7176_regs s ! k))" "unat (rsize (AD7176_regs s ! k)) \<le> 3"
    and reply: "reg_reply X k s = b # be_bytes (unat (rsize (AD7176_regs s ! k))) v
       @ [AD7176_ComputeCRC8 (reg_cmd s k # be_bytes (unat (rsize (AD7176_regs s ! k))) v) (Suc (unat (rsize (AD7176_regs s ! k))))]"
  shows "fst (AD7176_ReadRegister X k s) = int (unat (rsize (AD7176_regs s ! k)) + 2) \<and>
    rvalue (AD7176_regs (snd (AD7176_ReadRegister X k s)) ! k) = take_bit (8 * unat (rsize (AD7176_regs s ! k))) v"
proof -
  have n: "reg_read_len s (AD7176_regs s ! k) \<le> 8" using assms by (simp add: reg_read_len_def)
  let ?q = "be_bytes (unat (rsize (AD7176_regs s ! k))) v"
  let ?r = "b # ?q @ [AD7176_ComputeCRC8 (reg_cmd s k # ?q) (Suc (unat (rsize (AD7176_regs s ! k))))]"
  have c: "reg_check (useCRC s) (reg_cmd s k) ?r (length ?r) = 0"
    unfolding assms(1) by (rule check_ok [where q = ?q]) simp_all
  have t: "take (unat (rsize (AD7176_regs s ! k))) (tl ?r) = ?q" by simp
  show ?thesis using ReadRegister_eq(1,3) [OF n reply] c assms(3) be_value_be_bytes [OF size(2), of v]
    by (simp only: t) simp
qed

text \<open>C34: With the CRC on, AD7176_ReadRegister rejects every reply in which one byte of the data or of
  the checksum was changed: it returns -1 and no register of the table is touched.\<close>

theorem AD7176_read_rejects_corruption:
  assumes "useCRC s = use_CRC" "reg_read_len s (AD7176_regs s ! k) \<le> 8"
    and good: "reg_check use_CRC (reg_cmd s k) r (length r) = 0" and i: "1 \<le> i" "i < length r" "e \<noteq> r ! i"
    and reply: "reg_reply X k s = r[i := e]"
  shows "fst (AD7176_ReadRegister X k s) = - 1 \<and> AD7176_regs (snd (AD7176_ReadRegister X k s)) = AD7176_regs s"
proof -
  obtain b p where r: "r = b # p" using i by (cases r) auto
  obtain j where j: "i = Suc j" using i by (cases i) auto
  have "fold crc8_byte (p[j := e]) (crc8_byte (reg_cmd s k) 0) \<noteq> fold crc8_byte p (crc8_byte (reg_cmd s k) 0)"
    using i by (intro crc8_detects) (simp_all add: r j)
  then have "reg_check use_CRC (reg_cmd s k) (r[i := e]) (length (r[i := e])) \<noteq> 0"
    using good by (simp add: r j reg_check_def Let_def AD7176_ComputeCRC8_def)
  then show ?thesis using ReadRegister_eq(1,2) [OF assms(2) reply] by (simp add: assms(1))
qed


lemma ReadRegister_ret: "fst (AD7176_ReadRegister X k s) = - 1 \<or> 0 < fst (AD7176_ReadRegister X k s)"
proof -
  have "0 < reg_read_len s (AD7176_regs s ! k)" by (simp add: reg_read_len_def)
  then show ?thesis by (simp add: AD7176_ReadRegister_def Let_def case_prod_unfold)
qed

lemma WaitForReady_total:
  "fst (AD7176_WaitForReady X t s) \<in> {0, - 1}
   \<and> (fst (AD7176_WaitForReady X t s) = 0 \<longrightarrow>
        and (rvalue (AD7176_regs (snd (AD7176_WaitForReady X t s)) ! Status_Register)) STATUS_REG_RDY = 0)
   \<and> length (wire (snd (AD7176_WaitForReady X t s))) \<le> length (wire s) + 8 * unat (t - 1)"
proof (induction X t s rule: AD7176_WaitForReady.induct)
  case (1 X t s)
  let ?r = "AD7176_ReadRegister X Status_Register s"
  obtain ret s1 where r: "?r = (ret, s1)" by fastforce
  have w: "length (wire s1) \<le> length (wire s) + 8" using ReadRegister_frame(2) [of X Status_Register s] by (simp add: r)
  have ret: "ret = - 1 \<or> 0 < ret" using ReadRegister_ret [of X Status_Register s] by (simp add: r)
  consider "t - 1 = 0" | "t - 1 \<noteq> 0" "ret < 0"
    | "t - 1 \<noteq> 0" "\<not> ret < 0" "and (rvalue (AD7176_regs s1 ! Status_Register)) STATUS_REG_RDY = 0"
    | "t - 1 \<noteq> 0" "\<not> ret < 0" "and (rvalue (AD7176_regs s1 ! Status_Register)) STATUS_REG_RDY \<noteq> 0" by blast
  then show ?case
  proof cases
    case 1 then show ?thesis by (subst (1 2 3 4) AD7176_WaitForReady.simps) simp
  next
    case 2
    then have "1 \<le> unat (t - 1)" by (simp add: Suc_le_eq unat_gt_0)
    then show ?thesis using 2 w ret by (subst (1 2 3 4) AD7176_WaitForReady.simps) (simp add: r Let_def)
  next
    case 3
    then have "1 \<le> unat (t - 1)" by (simp add: Suc_le_eq unat_gt_0)
    then show ?thesis using 3 w by (subst (1 2 3 4) AD7176_WaitForReady.simps) (simp add: r Let_def)
  next
    case 4
    have IH: "fst (AD7176_WaitForReady X (t - 1) s1) \<in> {0, - 1}
      \<and> (fst (AD7176_WaitForReady X (t - 1) s1) = 0 \<longrightarrow>
        and (rvalue (AD7176_regs (snd (AD7176_WaitForReady X (t - 1) s1)) ! Status_Register)) STATUS_REG_RDY = 0)
      \<and> length (wire (snd (AD7176_WaitForReady X (t - 1) s1))) \<le> length (wire s1) + 8 * unat (t - 1 - 1)"
      using 1 [OF refl 4(1) r [symmetric] 4(2,3)] by simp
    have e: "AD7176_WaitForReady X t s = AD7176_WaitForReady X (t - 1) s1"
      using 4 by (subst AD7176_WaitForReady.simps) (simp add: r Let_def)
    have "unat (t - 1 - 1) = unat (t - 1) - 1" "1 \<le> unat (t - 1)"
      using 4(1) unat_minus_one [of "t - 1"] by (simp_all add: Suc_le_eq unat_gt_0)
    then show ?thesis using IH w unfolding e by auto
  qed
qed

text \<open>AD7176_WaitForReady terminates with 0 or -1 for every timeout and every behaviour of the
  converter, reports 0 only when the RDY bit it last read is clear, and polls at most timeout - 1
  times (a zero timeout wraps to the largest count).\<close>

theorem AD7176_WaitForReady_polls:
  "(if fst (AD7176_WaitForReady X t s) = 0
    then and (rvalue (AD7176_regs (snd (AD7176_WaitForReady X t s)) ! Status_Register)) STATUS_REG_RDY = 0
    else fst (AD7176_WaitForReady X t s) = - 1)
   \<and> length (wire (snd (AD7176_WaitForReady X t s))) \<le> length (wire s) + 8 * unat (t - 1)"
  using WaitForReady_total [of X t s] by auto

text \<open>A timeout of one never polls: the counter is decremented before the first poll, so the call
  fails without touching the bus, although the parameter is documented as the number of polls.\<close>

theorem AD7176_WaitForReady_one: "AD7176_WaitForReady X 1 s = (- 1, s)"
  by (subst AD7176_WaitForReady.simps) simp

lemma and_bit: "and (x :: byte) 0x40 = (if bit x 6 then 0x40 else 0)" "and x 0x20 = (if bit x 5 then 0x20 else 0)"
proof -
  have p: "(0x40 :: byte) = push_bit 6 1" "(0x20 :: byte) = push_bit 5 1" by simp_all
  have a: "and x (push_bit n 1) = (if bit x n then push_bit n 1 else 0)" for n
    by (rule bit_word_eqI) (auto simp: bit_and_iff bit_exp_iff)
  show "and (x :: byte) 0x40 = (if bit x 6 then 0x40 else 0)" "and x 0x20 = (if bit x 5 then 0x20 else 0)"
    unfolding p a by (rule refl)+
qed

lemma dataReady_eq:
  "AD7176_dataReady X s =
     (case AD7176_ReadRegister X Status_Register s of (ret, s1) \<Rightarrow>
        (if ret < 0 then - 99
         else let v = rvalue (AD7176_regs s1 ! Status_Register) in
           if bit v 6 then - 98 else if bit v 5 then - 99 else if bit v 7 then - 1 else sint v, s1))"
proof -
  have b: "bit (ucast v :: byte) 6 = bit (v :: u32) 6" "bit (ucast v :: byte) 5 = bit v 5" for v
    by (simp_all add: bit_simps)
  have r: "(and (v :: u32) 0x80 = 0) = (\<not> bit v 7)" for v
    using and_exp_eq_0_iff_not_bit [of v 7] by simp
  show ?thesis
    by (auto simp: AD7176_dataReady_def Let_def STATUS_REG_ADC_ERR_def STATUS_REG_CRC_ERR_def STATUS_REG_RDY_def
        and_bit b r split: prod.splits)
qed

text \<open>AD7176_dataReady classifies the received status byte on every branch: an ADC error gives
  -98, a CRC error -99, not ready -1, and otherwise the status byte itself, from which the caller
  takes the channel number.\<close>

theorem AD7176_dataReady_status:
  assumes "useCRC s = disable" "0 < length (AD7176_regs s)" "rsize (AD7176_regs s ! Status_Register) = 1"
    and "addr (AD7176_regs s ! Status_Register) = 0" and reply: "reg_reply X Status_Register s = [x, st]"
  shows "fst (AD7176_dataReady X s) =
     (if bit st 6 then - 98 else if bit st 5 then - 99 else if bit st 7 then - 1 else uint st)"
proof -
  have n: "reg_read_len s (AD7176_regs s ! Status_Register) = 2" using assms by (simp add: reg_read_len_def)
  have c: "reg_check (useCRC s) (reg_cmd s Status_Register) [x, st] (length [x, st]) = 0"
    by (simp add: assms(1) reg_check_def)
  have v: "rvalue (AD7176_regs (snd (AD7176_ReadRegister X Status_Register s)) ! Status_Register) = ucast st"
    using ReadRegister_eq(3) [OF _ reply c] n assms(2,3) by (simp add: Status_Register_def be_value_def)
  have r: "fst (AD7176_ReadRegister X Status_Register s) = 2"
    using ReadRegister_eq(1) [OF _ reply] n c by simp
  have b: "bit (ucast st :: u32) k = bit st k" if "k < 8" for k using that by (simp add: bit_simps)
  have "uint st < 2 ^ 8" using uint_lt2p [of st] by simp
  then have u: "uint (ucast st :: u32) = uint st" "uint st < 2 ^ 31" by (simp_all add: unsigned_ucast_eq take_bit_int_eq_self)
  have "signed_take_bit 31 (uint st) = uint st" using u(2) uint_ge_0 [of st] by (intro signed_take_bit_int_eq_self) linarith+
  then have "sint (ucast st :: u32) = uint st" using u(1) by (simp only: sint_uint) simp
  then show ?thesis using r v b by (simp add: dataReady_eq case_prod_unfold Let_def)
qed


subsection \<open>Set-up\<close>

lemma reg_write_buf_nonempty [simp]: "0 < length (reg_write_buf m r)"
  by (simp add: reg_write_buf_def Let_def)

lemma write_regs_wire:
  "0 \<le> ret \<Longrightarrow> pins s 7 \<Longrightarrow>
     wire (snd (write_regs X ks ret s)) = wire s @ map (Pair (False, False, False)) (concat (map (\<lambda>k. reg_write_buf (useCRC s) (AD7176_regs s ! k)) ks))
     \<and> AD7176_regs (snd (write_regs X ks ret s)) = AD7176_regs s \<and> useCRC (snd (write_regs X ks ret s)) = useCRC s
     \<and> dataStatus (snd (write_regs X ks ret s)) = dataStatus s
     \<and> pins (snd (write_regs X ks ret s)) 7 \<and> 0 \<le> fst (write_regs X ks ret s)"
proof (induction ks arbitrary: ret s)
  case (Cons k ks)
  let ?w = "AD7176_WriteRegister X (AD7176_regs s ! k) s"
  have "0 \<le> fst ?w" "pins (snd ?w) 7" by simp_all
  from Cons.IH [OF this] show ?case using Cons.prems by (simp add: case_prod_unfold)
qed simp

lemma AD7176_Init_simps [simp]:
  "pins (AD7176_Init a b c d s) = pins s" "wire (AD7176_Init a b c d s) = wire s"
  "AD7176_regs (AD7176_Init a b c d s) = AD7176_regs s" "useCRC (AD7176_Init a b c d s) = useCRC s"
  by (simp_all add: AD7176_Init_def)

lemma AD7176_UpdateSettings_simps [simp]:
  "pins (AD7176_UpdateSettings s) = pins s" "wire (AD7176_UpdateSettings s) = wire s"
  "AD7176_regs (AD7176_UpdateSettings s) = AD7176_regs s"
  by (simp_all add: AD7176_UpdateSettings_def Let_def)

lemma UpdateSettings_regs: "AD7176_regs s = AD7176_regs t \<Longrightarrow> useCRC (AD7176_UpdateSettings s) = useCRC (AD7176_UpdateSettings t)"
  by (simp add: AD7176_UpdateSettings_def Let_def)

lemma AD7176_Reset_simps [simp]:
  "wire (snd (AD7176_Reset X s)) = wire s @ map (Pair (False, False, False)) (replicate 8 0xFF)"
  "pins (snd (AD7176_Reset X s)) = (pins s)(8 := False, 9 := False, 7 := True)"
  by (simp_all add: AD7176_Reset_def numeral_eq_Suc)

lemma AD7176_Reset_adc [simp]:
  "AD7176_regs (snd (AD7176_Reset X s)) = AD7176_regs s" "useCRC (snd (AD7176_Reset X s)) = useCRC s"
  by (simp_all add: AD7176_Reset_def)

text \<open>AD7176_Setup sends exactly the 64 ones of the reset, the ADC mode and interface mode
  registers and then the registers from Data_Register up to Filter_Config_4, each framed in the
  checksum mode the interface register selects, all addressed to the converter, and releases the bus.\<close>

theorem AD7176_Setup_frames:
  "wire (snd (AD7176_Setup X s)) = wire s @ map (Pair (False, False, False))
     (replicate 8 0xFF @ reg_write_buf (useCRC s) (AD7176_regs s ! ADC_Mode_Register)
      @ reg_write_buf (useCRC s) (AD7176_regs s ! Interface_Mode_Register)
      @ concat (map (\<lambda>k. reg_write_buf (useCRC (AD7176_UpdateSettings s)) (AD7176_regs s ! k)) [Data_Register ..< Offset_1]))
   \<and> useCRC (snd (AD7176_Setup X s)) = useCRC (AD7176_UpdateSettings s)
   \<and> pins (snd (AD7176_Setup X s)) 7"
proof -
  define s2 where "s2 = snd (AD7176_Reset X (AD7176_Init 0 6000000 1 0 s))"
  define s3 where "s3 = snd (AD7176_WriteRegister X (AD7176_regs s2 ! ADC_Mode_Register) s2)"
  define w4 where "w4 = AD7176_WriteRegister X (AD7176_regs s3 ! Interface_Mode_Register) s3"
  have e: "AD7176_Setup X s = write_regs X [Data_Register ..< Offset_1] (fst w4) (AD7176_UpdateSettings (snd w4))"
    by (simp add: AD7176_Setup_def Let_def case_prod_unfold s2_def [symmetric] s3_def [symmetric] w4_def [symmetric])
      (simp add: w4_def s3_def s2_def)
  have r: "AD7176_regs s2 = AD7176_regs s" "useCRC s2 = useCRC s" "AD7176_regs s3 = AD7176_regs s" "useCRC s3 = useCRC s"
    "AD7176_regs (snd w4) = AD7176_regs s" by (simp_all add: s2_def s3_def w4_def)
  have "0 \<le> fst w4" "pins (AD7176_UpdateSettings (snd w4)) 7" by (simp_all add: w4_def)
  from write_regs_wire [OF this, of X "[Data_Register ..< Offset_1]"] r UpdateSettings_regs [OF r(5)]
  show ?thesis unfolding e by (simp add: w4_def s3_def s2_def)
qed


subsection \<open>Instances\<close>

text \<open>A converter that answers with the bytes of a list, one per byte shifted out.\<close>

fun scripted :: "bus_event \<Rightarrow> byte list \<Rightarrow> byte \<times> byte list" where
  "scripted (PinWrite p v) d = (0, d)"
| "scripted (SpiByte b) d = (case d of [] \<Rightarrow> (0, []) | x # xs \<Rightarrow> (x, xs))"

definition sample :: "CRC_MODE \<Rightarrow> byte list \<Rightarrow> byte list adc_board" where
  "sample m d = \<lparr>pins = (\<lambda>_. True), dev = d, wire = [], AD7176_spisettings = (0, MSBFIRST, SPI_MODE0),
     AD7176_regs = initial_regs, useCRC = m, dataStatus = 0\<rparr>"

theorem AD7176_write_then_read_witness:
  "rvalue (AD7176_regs (snd (AD7176_ReadRegister scripted 5
     (sample use_CRC [0, 0x12, 0x34, AD7176_ComputeCRC8 [0x46, 0x12, 0x34] 3]))) ! 5) = take_bit (8 * unat (2 :: byte)) 0x1234"
proof -
  let ?s = "sample use_CRC [0, 0x12, 0x34, AD7176_ComputeCRC8 [0x46, 0x12, 0x34] 3]"
  have r: "rsize (AD7176_regs ?s ! 5) = 2" by code_simp
  show ?thesis
    by (rule AD7176_write_then_read [of ?s 5 scripted 0 "0x1234", unfolded r, THEN conjunct2]; code_simp)
qed

theorem AD7176_read_rejects_corruption_witness:
  "fst (AD7176_ReadRegister scripted 5 (sample use_CRC [0, 0x13, 0x34, AD7176_ComputeCRC8 [0x46, 0x12, 0x34] 3])) = - 1"
  by (rule AD7176_read_rejects_corruption [of _ 5 "[0, 0x12, 0x34, AD7176_ComputeCRC8 [0x46, 0x12, 0x34] 3]" 1 "0x13" scripted,
      THEN conjunct1]; code_simp)

theorem AD7176_dataReady_status_witness:
  "fst (AD7176_dataReady scripted (sample disable [0, 0x01])) =
     (if bit (1 :: byte) 6 then - 98 else if bit (1 :: byte) 5 then - 99 else if bit (1 :: byte) 7 then - 1 else uint (1 :: byte))"
  by (rule AD7176_dataReady_status [of _ scripted 0]; code_simp)

end
