(* ===== verification/Ltc2758.thy ===== *)
theory Ltc2758
  imports Bus
begin

text \<open>
  The driver of the two LTC2758 18 bit SoftSpan DACs (src/src/LTC2758.cpp): chip selection over
  the multiplexer, the 32 bit input frame, and the conversions between an output voltage and the
  18 bit code of a span.  The conversions are written with the C++ types and promotions of the
  source: \<open>float\<close> arguments, \<open>double\<close> literals, results stored back into a \<open>float\<close>.
\<close>

section \<open>Addressing and framing\<close>

definition LTC2758_WRITE_SPAN_DAC :: byte where "LTC2758_WRITE_SPAN_DAC = 0x20"
definition LTC2758_WRITE_CODE_UPDATE_DAC :: byte where "LTC2758_WRITE_CODE_UPDATE_DAC = 0x70"
definition ADDRESS_DAC_ALL :: byte where "ADDRESS_DAC_ALL = 0x0E"

definition SPIMuxSelectLTC2758 :: "'d chips \<Rightarrow> int \<Rightarrow> ('d, 'z) board_scheme \<Rightarrow> ('d, 'z) board_scheme" where
  "SPIMuxSelectLTC2758 X nr s =
     (let s1 = (if nr = 0 then digitalWrite X 9 True (digitalWrite X 8 False s)
                else digitalWrite X 9 False (digitalWrite X 8 True s))
      in digitalWrite X 7 False s1)"

definition LTC2758_frame :: "byte \<Rightarrow> byte \<Rightarrow> u32 \<Rightarrow> byte list" where
  "LTC2758_frame cmd addr data =
     [or cmd addr, ucast (and (drop_bit 10 data) 0xFF), ucast (and (drop_bit 2 data) 0xFF),
      ucast (and (push_bit 6 data) 0xFF)]"

definition LTC2758_write :: "'d chips \<Rightarrow> int \<Rightarrow> byte \<Rightarrow> byte \<Rightarrow> u32 \<Rightarrow> ('d, 'z) board_scheme \<Rightarrow> ('d, 'z) board_scheme" where
  "LTC2758_write X nr cmd addr data s =
     digitalWrite X 7 True (snd (spi_transfers X (LTC2758_frame cmd addr data) (SPIMuxSelectLTC2758 X nr s)))"

text \<open>What the DAC latches from the last three bytes of a frame: the 18 data bits.\<close>

definition frame_data :: "byte list \<Rightarrow> u32" where
  "frame_data f = or (push_bit 10 (ucast (f ! 1))) (or (push_bit 2 (ucast (f ! 2))) (drop_bit 6 (ucast (f ! 3))))"

section \<open>Voltage and code\<close>

definition LTC2758_code_to_voltage :: "u32 \<Rightarrow> f32 \<Rightarrow> f32 \<Rightarrow> f32" where
  "LTC2758_code_to_voltage dac_code min_output max_output =
     conv (((conv (of_i (uint dac_code) :: f32) / lit 262143) * conv (max_output - min_output)) + conv min_output :: f64)"

definition round_code :: "f32 \<Rightarrow> f32" where
  "round_code float_code =
     (if conv float_code > (conv (ffloor float_code) + lit 0.5 :: f64) then fceil float_code else ffloor float_code)"

definition clamp_code :: "f32 \<Rightarrow> f32" where
  "clamp_code float_code =
     (let c = (if float_code < lit 0 then lit 0 else float_code) in if c > lit 262143 then lit 262143 else c)"

definition LTC2758_voltage_to_code :: "f32 \<Rightarrow> f32 \<Rightarrow> f32 \<Rightarrow> u32" where
  "LTC2758_voltage_to_code dac_voltage min_output max_output =
     (let float_code = conv (lit 262143 * conv (dac_voltage - min_output) / conv (max_output - min_output) :: f64)
      in f2u32 (clamp_code (round_code float_code)))"

section \<open>Framing\<close>

lemma mux_select_simps [simp]:
  "pins (SPIMuxSelectLTC2758 X nr s) = (pins s)(8 := (nr \<noteq> 0), 9 := (nr = 0), 7 := False)"
  "wire (SPIMuxSelectLTC2758 X nr s) = wire s"
  "board.more (SPIMuxSelectLTC2758 X nr s) = board.more s"
  by (auto simp: SPIMuxSelectLTC2758_def Let_def)

lemma LTC2758_write_simps [simp]:
  "pins (LTC2758_write X nr cmd addr data s) = (pins s)(8 := (nr \<noteq> 0), 9 := (nr = 0), 7 := True)"
  "wire (LTC2758_write X nr cmd addr data s) =
     wire s @ map (Pair (False, nr \<noteq> 0, nr = 0)) (LTC2758_frame cmd addr data)"
  "board.more (LTC2758_write X nr cmd addr data s) = board.more s"
  by (simp_all add: LTC2758_write_def mux_lines_def)

lemma LTC2758_frame_data: "data < 2 ^ 18 \<Longrightarrow> frame_data (LTC2758_frame cmd addr data) = data"
proof -
  assume d: "data < 2 ^ 18"
  then have "unat data < 2 ^ 18" by (simp add: word_less_nat_alt)
  then have td: "take_bit 18 data = data"
    by (intro word_unat_eq_iff [THEN iffD2]) (simp add: unsigned_take_bit_eq take_bit_nat_eq_self)
  have hi: "bit data n \<Longrightarrow> n < 18" for n using bit_take_bit_iff [of 18 data n] td by simp
  have m: "and w 0xFF = take_bit 8 w" for w :: u32
    by (simp add: take_bit_eq_mask mask_eq_exp_minus_1)
  have s2: "2 \<le> n \<Longrightarrow> Suc (Suc (n - 2)) = n" "10 \<le> n \<Longrightarrow> 10 + (n - 10) = n" for n :: nat by simp_all
  have "\<not> bit data (10 + (n - 10)) \<Longrightarrow> bit data n \<Longrightarrow> n < 10" for n
    by (cases "10 \<le> n") simp_all
  then have h: "\<not> bit data (10 + (n - 10)) \<Longrightarrow> bit data n \<Longrightarrow> n - 2 < 8" for n
    by fastforce
  show ?thesis
    unfolding frame_data_def LTC2758_frame_def m
    by (rule bit_word_eqI) (auto simp: bit_simps s2 not_less not_le dest: hi h)
qed

section \<open>Helper facts about the conversions\<close>

lemma lit_consts [simp]:
  "is_fin (lit 262143 :: f64)" "val (lit 262143 :: f64) = 262143"
  "is_fin (lit 262143 :: f32)" "val (lit 262143 :: f32) = 262143"
  "is_fin (lit 0 :: f32)" "val (lit 0 :: f32) = 0"
  "is_fin (lit (1 / 2) :: f64)" "val (lit (1 / 2) :: f64) = 1 / 2"
  by code_simp+

lemma code_value:
  "uint (f2u32 (clamp_code r)) = (case r of NaN \<Rightarrow> 0 | Inf s \<Rightarrow> (if s then 0 else 262143)
     | _ \<Rightarrow> max 0 (min 262143 (trunc (val r))))"
proof -
  have z: "val (lit 0 :: f32) = 0" "is_fin (lit 0 :: f32)" "val (lit 262143 :: f32) = 262143" "is_fin (lit 262143 :: f32)"
    by simp_all
  have u: "0 \<le> n \<Longrightarrow> n \<le> 262143 \<Longrightarrow> uint (word_of_int n :: u32) = n" for n
    by (simp add: uint_word_of_int)
  have f: "f2u32 x = word_of_int (trunc (val x))" if "is_fin x" "0 \<le> val x" "val x \<le> 262143" for x :: f32
  proof -
    have "0 \<le> trunc (val x)" "trunc (val x) \<le> 262143"
      using that trunc_mono [of 0 "val x"] trunc_mono [of "val x" 262143] trunc_of_int [of 0] trunc_of_int [of 262143]
      by (simp_all del: trunc_of_int)
    then show ?thesis using that by (cases x) (auto simp: f2u32_def f2i_def max_def min_def)
  qed
  have b: "uint (f2u32 x) = trunc (val x)" if "is_fin x" "0 \<le> val x" "val x \<le> 262143" for x :: f32
    using that trunc_mono [of 0 "val x"] trunc_mono [of "val x" 262143] trunc_of_int [of 0] trunc_of_int [of 262143]
    by (simp add: f u del: trunc_of_int)
  have t0: "trunc 0 = 0" "trunc 262143 = 262143" using trunc_of_int [of 0] trunc_of_int [of 262143] by (simp_all del: trunc_of_int)
  have fin: "uint (f2u32 (clamp_code r)) = max 0 (min 262143 (trunc (val r)))" if "is_fin r"
  proof -
    consider "val r < 0" | "0 \<le> val r" "val r \<le> 262143" | "262143 < val r" by linarith
    then show ?thesis
    proof cases
      case 1
      then have "clamp_code r = lit 0" using that z by (simp add: clamp_code_def fin_less del: lit_consts)
      then show ?thesis using 1 trunc_mono [of "val r" 0] b [of "lit 0"] z by (simp only: t0) auto
    next
      case 2
      then have "clamp_code r = r" using that z by (auto simp: clamp_code_def fin_less simp del: lit_consts)
      then show ?thesis using 2 trunc_mono [of "val r" 262143] trunc_mono [of 0 "val r"] b [of r] that by (simp add: t0)
    next
      case 3
      then have "clamp_code r = lit 262143" using that z by (auto simp: clamp_code_def fin_less Let_def simp del: lit_consts)
      then show ?thesis using 3 trunc_mono [of 262143 "val r"] b [of "lit 262143"] z by (simp only: t0) auto
    qed
  qed
  have "uint (f2u32 (clamp_code NaN)) = 0" "uint (f2u32 (clamp_code (Inf True))) = 0"
    "uint (f2u32 (clamp_code (Inf False))) = 262143" by code_simp+
  then show ?thesis using fin by (cases r) auto
qed

lemma round_code_near:
  assumes f: "is_fin x" and near: "\<bar>val x - of_int c\<bar> < 1 / 4" and c: "0 \<le> c" "c \<le> 262143"
  shows "is_fin (round_code x) \<and> val (round_code x) = of_int c"
proof -
  have cr: "0 \<le> (of_int c :: rat)" "(of_int c :: rat) \<le> 262143"
    using near c by (simp_all add: abs_less_iff)
  have ax: "\<bar>val x\<bar> < 262144" using near cr by linarith
  have cx: "is_fin (conv x :: f64)" "\<bar>val (conv x :: f64) - val x\<bar> \<le> 2 powi (- 35)"
    using conv_err [OF f, of 19] ax by simp_all
  let ?h = "conv (ffloor x) + lit 0.5 :: f64"
  have fl: "\<lfloor>val x\<rfloor> = (if of_int c \<le> val x then c else c - 1)"
    using near by (auto intro!: floor_unique)
  have fx: "is_fin (ffloor x)" "\<bar>val (ffloor x)\<bar> < 2 powi 19" using f fl ax near by (auto simp: abs_less_iff)
  have cf: "is_fin (conv (ffloor x) :: f64)" "\<bar>val (conv (ffloor x) :: f64) - of_int \<lfloor>val x\<rfloor>\<bar> \<le> 2 powi (- 35)"
    using conv_err [OF fx] f by simp_all
  have p: "(2::rat) powi (- 35) \<le> 1" "(2::rat) powi 20 = 1048576" by simp_all
  have fb: "- 1 \<le> (of_int \<lfloor>val x\<rfloor> :: rat)" "of_int \<lfloor>val x\<rfloor> \<le> (262143 :: rat)"
    using fl cr by simp_all
  have "\<bar>val (conv (ffloor x) :: f64) + 1 / 2\<bar> < 2 powi 20" using cf(2) fb p by linarith
  then have h: "is_fin ?h" "\<bar>val ?h - (val (conv (ffloor x) :: f64) + 1 / 2)\<bar> \<le> 2 powi (- 34)"
    using rnd64_err [of "val (conv (ffloor x) :: f64) + 1 / 2" 20] cf(1) by (simp_all add: fin_add)
  have e: "(2::rat) powi (- 35) \<le> 1 / 100" "(2::rat) powi (- 34) \<le> 1 / 100" by simp_all
  have dec: "conv x > ?h \<longleftrightarrow> \<not> of_int c \<le> val x"
  proof (cases "of_int c \<le> val x")
    case True
    with fl have "(of_int \<lfloor>val x\<rfloor> :: rat) = of_int c" by simp
    then have "\<not> val ?h < val (conv x :: f64)" using cx(2) h(2) cf(2) near True e by linarith
    then show ?thesis using True cx(1) h(1) by (simp add: fin_less)
  next
    case False
    with fl have "(of_int \<lfloor>val x\<rfloor> :: rat) = of_int c - 1" by simp
    then have "val ?h < val (conv x :: f64)" using cx(2) h(2) cf(2) near False e by linarith
    then show ?thesis using False cx(1) h(1) by (simp add: fin_less)
  qed
  have ce: "\<lceil>val x\<rceil> = c" if "\<not> of_int c \<le> val x" using near that by (auto intro!: ceiling_unique)
  show ?thesis using dec ce fl f by (auto simp: round_code_def)
qed

lemma round_code_mono: "x \<le> y \<Longrightarrow> round_code x \<le> round_code y"
proof (erule flt_le_cases)
  assume x: "x = Inf True" and y: "y \<noteq> NaN"
  have "round_code (Inf True) = Inf True" by code_simp
  moreover have "round_code y \<noteq> NaN" using y by (cases y) (auto simp: round_code_def fceil_def ffloor_def)
  ultimately show ?thesis by (simp add: x)
next
  assume x: "y = Inf False" and y: "x \<noteq> NaN"
  have "round_code (Inf False) = Inf False" by code_simp
  moreover have "round_code x \<noteq> NaN" using y by (cases x) (auto simp: round_code_def fceil_def ffloor_def)
  ultimately show ?thesis by (simp add: x)
next
  assume f: "is_fin x" "is_fin y" and le: "val x \<le> val y"
  have fl: "\<lfloor>val x\<rfloor> \<le> \<lfloor>val y\<rfloor>" "\<lceil>val x\<rceil> \<le> \<lceil>val y\<rceil>" using le by (simp_all add: floor_mono ceiling_mono)
  have rf: "is_fin (round_code z)" "\<lfloor>val z\<rfloor> \<le> \<lfloor>val (round_code z)\<rfloor>" "val (round_code z) \<le> of_int \<lceil>val z\<rceil>"
    "of_int \<lfloor>val z\<rfloor> \<le> val (round_code z)" if "is_fin z" for z
    using that by (simp_all add: round_code_def)
  have "val (round_code x) \<le> val (round_code y)"
  proof (cases "\<lfloor>val x\<rfloor> = \<lfloor>val y\<rfloor>")
    case True
    have mono: "conv (ffloor x) + lit 0.5 < (conv x :: f64) \<Longrightarrow> conv (ffloor y) + lit 0.5 < (conv y :: f64)"
    proof -
      have c: "(conv x :: f64) \<le> conv y" using f le by (intro conv_mono) (simp add: fin_less_eq)
      have "ffloor y \<le> ffloor x" using f True by (simp add: fin_less_eq)
      then have q: "conv (ffloor y) + lit 0.5 \<le> (conv (ffloor x) + lit 0.5 :: f64)"
        by (intro fadd_mono conv_mono) simp_all
      show "conv (ffloor x) + lit 0.5 < (conv x :: f64) \<Longrightarrow> conv (ffloor y) + lit 0.5 < (conv y :: f64)"
        by (rule flt_less_le_trans [OF flt_le_less_trans [OF q] c])
    qed
    show ?thesis using mono True f fl by (auto simp: round_code_def)
  next
    case False
    then have "\<lceil>val x\<rceil> \<le> \<lfloor>val y\<rfloor>" using fl(1) by linarith
    then have "(of_int \<lceil>val x\<rceil> :: rat) \<le> of_int \<lfloor>val y\<rfloor>" by simp
    with rf(3) [OF f(1)] rf(4) [OF f(2)] show ?thesis by linarith
  qed
  then show ?thesis using rf(1) f by (simp add: fin_less_eq)
qed

lemma code_mono:
  assumes "x \<le> y" shows "uint (f2u32 (clamp_code (round_code x))) \<le> uint (f2u32 (clamp_code (round_code y)))"
  using round_code_mono [OF assms]
proof (cases rule: flt_le_cases)
  case 1
  have "0 \<le> uint (f2u32 (clamp_code (round_code y)))" by simp
  then show ?thesis using 1 by (simp add: code_value)
next
  case 2
  then show ?thesis by (cases "round_code x") (simp_all add: code_value)
next
  case 3
  then show ?thesis using trunc_mono [OF 3(3)]
    by (cases "round_code x"; cases "round_code y") (simp_all add: code_value)
qed

definition span_ok :: "f32 \<Rightarrow> f32 \<Rightarrow> bool" where
  "span_ok lo hi \<longleftrightarrow> is_fin lo \<and> is_fin (hi - lo) \<and> \<bar>val lo\<bar> \<le> 10 \<and> 5 \<le> val (hi - lo) \<and> val (hi - lo) \<le> 20"

lemma span_ok_width:
  assumes "span_ok lo hi"
  shows "is_fin (conv (hi - lo) :: f64)" "5 \<le> val (conv (hi - lo) :: f64)" "val (conv (hi - lo) :: f64) \<le> 20"
    "is_fin (conv lo :: f64)" "\<bar>val (conv lo :: f64) - val lo\<bar> \<le> 1 / 1000000000"
  using rnd_between [of 5 20 "val (hi - lo)", where 'p = 53] repr_in_f64_int [of 5] repr_in_f64_int [of 20]
    conv_err [of lo 5] assms
  by (simp_all add: span_ok_def fin_conv)

lemma span_ok_used: "span_ok (lit (-10)) (lit 10)" "span_ok (lit (-5)) (lit 5)" "span_ok (lit (-2.5)) (lit 2.5)" "span_ok (lit 0) (lit 10)"
  unfolding span_ok_def by code_simp+

definition ideal_volts :: "u32 \<Rightarrow> f32 \<Rightarrow> f32 \<Rightarrow> rat" where
  "ideal_volts c lo hi = of_int (uint c) / 262143 * val (conv (hi - lo) :: f64)"

lemma ideal_volts_bounds: "span_ok lo hi \<Longrightarrow> uint c \<le> 262143 \<Longrightarrow> 0 \<le> ideal_volts c lo hi \<and> ideal_volts c lo hi \<le> 20"
proof -
  assume s: "span_ok lo hi" and c: "uint c \<le> 262143"
  have "(of_int (uint c) :: rat) \<le> of_int 262143" using c by (simp only: of_int_le_iff)
  moreover have "(0 :: rat) \<le> of_int (uint c)" by (simp only: of_int_0_le_iff uint_ge_0)
  ultimately show ?thesis
    using span_ok_width [OF s] mult_mono [of "of_int (uint c) / 262143" 1 "val (conv (hi - lo) :: f64)" 20]
    by (simp add: ideal_volts_def)
qed

lemma code_to_voltage_err:
  assumes s: "span_ok lo hi" and c: "uint c \<le> 262143"
  shows "is_fin (LTC2758_code_to_voltage c lo hi) \<and>
    \<bar>val (LTC2758_code_to_voltage c lo hi) - (ideal_volts c lo hi + val lo)\<bar> \<le> 2 / 1000000"
proof -
  define W L where "W = (conv (hi - lo) :: f64)" and "L = (conv lo :: f64)"
  define C T where "C = (of_int (uint c) :: rat)" and "T = ideal_volts c lo hi"
  note W = span_ok_width (1-3) [OF s, folded W_def] and L = span_ok_width (4-5) [OF s, folded L_def]
  have T: "0 \<le> T" "T \<le> 20" "T = C / 262143 * val W"
    using ideal_volts_bounds [OF s c] by (simp_all add: T_def ideal_volts_def C_def W_def)
  have "C \<le> of_int 262143" using c by (simp only: C_def of_int_le_iff)
  moreover have "0 \<le> C" by (simp only: C_def of_int_0_le_iff uint_ge_0)
  ultimately have C: "\<bar>C / 262143\<bar> \<le> 1" by simp
  have lo: "\<bar>val lo\<bar> \<le> 10" using s by (simp add: span_ok_def)
  have cf: "is_fin (conv (of_i (uint c) :: f32) :: f64)" "val (conv (of_i (uint c) :: f32) :: f64) = C"
    using c repr_in_f64_int [of "uint c"] rnd_exact [of "of_int (uint c)", where 'p = 53] by (simp_all add: fin_conv C_def)
  define q1 where "q1 = (conv (of_i (uint c) :: f32) / lit 262143 :: f64)"
  have q1: "is_fin q1" "\<bar>val q1 - C / 262143\<bar> \<le> 1 / 1000000000"
    using rnd64_b [of "C / 262143"] C cf by (simp_all add: q1_def fin_div)
  have e1: "\<bar>val q1 * val W - T\<bar> \<le> 2 / 100000000"
    unfolding T(3) by (rule approx_mult [OF q1(2)]) (use W in simp_all)
  have "\<bar>val q1 * val W\<bar> \<le> 30" by (rule approx_bound [OF e1, of 20]) (use T(1,2) in simp_all)
  then have q2: "is_fin (q1 * W)" "\<bar>val (q1 * W) - val q1 * val W\<bar> \<le> 1 / 1000000000"
    using rnd64_b [of "val q1 * val W"] q1 W by (simp_all add: fin_mult)
  have e2: "\<bar>val (q1 * W) + val L - (T + val lo)\<bar> \<le> 3 / 100000000" using q2(2) e1 L(2) by linarith
  have "\<bar>val (q1 * W) + val L\<bar> \<le> 31" using e2 T lo by linarith
  then have q3: "is_fin (q1 * W + L)" "\<bar>val (q1 * W + L) - (val (q1 * W) + val L)\<bar> \<le> 1 / 1000000000"
    using rnd64_b [of "val (q1 * W) + val L"] q2 L by (simp_all add: fin_add)
  have e3: "\<bar>val (q1 * W + L) - (T + val lo)\<bar> \<le> 4 / 100000000"
    by (rule approx_trans [OF q3(2) e2]) simp
  have "\<bar>val (q1 * W + L)\<bar> \<le> 31" using e3 T lo by linarith
  then have v: "is_fin (conv (q1 * W + L) :: f32)" "\<bar>val (conv (q1 * W + L) :: f32) - val (q1 * W + L)\<bar> \<le> 1 / 1000000"
    using rnd32_s [of "val (q1 * W + L)"] q3 by (simp_all add: fin_conv)
  have "\<bar>val (conv (q1 * W + L) :: f32) - (T + val lo)\<bar> \<le> 2 / 1000000"
    by (rule approx_trans [OF v(2) e3]) simp
  with v(1) show ?thesis by (simp add: LTC2758_code_to_voltage_def q1_def W_def L_def T_def)
qed

lemma voltage_to_code_near:
  assumes s: "span_ok lo hi" and c: "uint c \<le> 262143"
    and v: "is_fin v" "\<bar>val v - (ideal_volts c lo hi + val lo)\<bar> \<le> 2 / 1000000"
  shows "LTC2758_voltage_to_code v lo hi = c"
proof -
  define W where "W = (conv (hi - lo) :: f64)"
  define C T where "C = (of_int (uint c) :: rat)" and "T = ideal_volts c lo hi"
  note W = span_ok_width (1-3) [OF s, folded W_def]
  have T: "0 \<le> T" "T \<le> 20" "262143 * T / val W = C"
    using ideal_volts_bounds [OF s c] W by (simp_all add: T_def ideal_volts_def C_def W_def)
  have "C \<le> of_int 262143" using c by (simp only: C_def of_int_le_iff)
  moreover have "0 \<le> C" by (simp only: C_def of_int_0_le_iff uint_ge_0)
  ultimately have C: "\<bar>C\<bar> \<le> 262143" by simp
  have lo: "is_fin lo" using s by (simp add: span_ok_def)
  have e0: "\<bar>val v - val lo - T\<bar> \<le> 2 / 1000000" using v(2) unfolding T_def by linarith
  have "\<bar>val v - val lo\<bar> \<le> 31" by (rule approx_bound [OF e0, of 20]) (use T in simp_all)
  then have d: "is_fin (v - lo)" "\<bar>val (v - lo) - (val v - val lo)\<bar> \<le> 1 / 1000000"
    using rnd32_s [of "val v - val lo"] v lo by (simp_all add: fin_sub)
  have e1: "\<bar>val (v - lo) - T\<bar> \<le> 3 / 1000000" by (rule approx_trans [OF d(2) e0]) simp
  define D where "D = (conv (v - lo) :: f64)"
  have "\<bar>val (v - lo)\<bar> \<le> 8000000" by (rule approx_bound [OF e1, of 20]) (use T in simp_all)
  then have D: "is_fin D" "\<bar>val D - val (v - lo)\<bar> \<le> 1 / 1000000000"
    using rnd64_b [of "val (v - lo)"] d(1) by (simp_all add: D_def fin_conv)
  have e2: "\<bar>262143 * val D - 262143 * T\<bar> \<le> 1" using D(2) e1 by linarith
  have "\<bar>262143 * val D\<bar> \<le> 8000000" by (rule approx_bound [OF e2, of 5242860]) (use T in simp_all)
  then have m: "is_fin (lit 262143 * D)" "\<bar>val (lit 262143 * D) - 262143 * val D\<bar> \<le> 1 / 1000000000"
    using rnd64_b [of "262143 * val D"] D by (simp_all add: fin_mult)
  have e3: "\<bar>val (lit 262143 * D) - 262143 * T\<bar> \<le> 11 / 10" by (rule approx_trans [OF m(2) e2]) simp
  have e4: "\<bar>val (lit 262143 * D) / val W - C\<bar> \<le> 22 / 100"
    unfolding T(3) [symmetric] by (rule approx_div [OF e3, of 5]) (use W in simp_all)
  have "\<bar>val (lit 262143 * D) / val W\<bar> \<le> 8000000" by (rule approx_bound [OF e4 C]) simp
  then have r: "is_fin (lit 262143 * D / W)" "\<bar>val (lit 262143 * D / W) - val (lit 262143 * D) / val W\<bar> \<le> 1 / 1000000000"
    using rnd64_b [of "val (lit 262143 * D) / val W"] m W by (simp_all add: fin_div)
  have e5: "\<bar>val (lit 262143 * D / W) - C\<bar> \<le> 221 / 1000" by (rule approx_trans [OF r(2) e4]) simp
  define f where "f = (conv (lit 262143 * D / W) :: f32)"
  have "\<bar>val (lit 262143 * D / W)\<bar> \<le> 500000" by (rule approx_bound [OF e5 C]) simp
  then have f: "is_fin f" "\<bar>val f - val (lit 262143 * D / W)\<bar> \<le> 1 / 50"
    using rnd32_b [of "val (lit 262143 * D / W)"] r by (simp_all add: f_def fin_conv)
  have "\<bar>val f - C\<bar> \<le> 242 / 1000" by (rule approx_trans [OF f(2) e5]) simp
  then have "\<bar>val f - of_int (uint c)\<bar> < 1 / 4" unfolding C_def by linarith
  from round_code_near [OF f(1) this] c have g: "is_fin (round_code f)" "val (round_code f) = of_int (uint c)" by simp_all
  have "f2u32 (clamp_code (round_code f)) = c"
    unfolding word_uint_eq_iff
    using g c trunc_of_int [of "uint c"] by (cases "round_code f") (simp_all add: code_value)
  then show ?thesis
    by (simp add: LTC2758_voltage_to_code_def D_def [symmetric] W_def [symmetric] f_def [symmetric] Let_def)
qed

lemma voltage_to_code_mono:
  assumes "v \<le> w" and "is_fin lo" and "is_fin (conv (hi - lo) :: f64)" and "0 < val (conv (hi - lo) :: f64)"
  shows "uint (LTC2758_voltage_to_code v lo hi) \<le> uint (LTC2758_voltage_to_code w lo hi)"
  unfolding LTC2758_voltage_to_code_def Let_def using assms
  by (intro code_mono conv_mono fdiv_mono fmult_mono fsub_mono) simp_all

section \<open>Properties\<close>

text \<open>Whatever float voltage and span a caller passes, not-a-number and the infinities included,
  LTC2758_voltage_to_code yields an 18 bit code: the clamp is complete, so the frame that is built
  from the code never loses bits.\<close>

theorem LTC2758_voltage_to_code_range: "uint (LTC2758_voltage_to_code v lo hi) \<le> 262143"
  by (simp add: LTC2758_voltage_to_code_def Let_def code_value split: flt.splits)

text \<open>LTC2758_voltage_to_code is monotone in the voltage, roundings and clamps included: a
  larger requested voltage never gives a smaller DAC code.\<close>

theorem LTC2758_voltage_to_code_monotone:
  assumes "v \<le> w" and "is_fin lo" and "is_fin (conv (hi - lo) :: f64)" and "0 < val (conv (hi - lo) :: f64)"
  shows "uint (LTC2758_voltage_to_code v lo hi) \<le> uint (LTC2758_voltage_to_code w lo hi)"
  by (rule voltage_to_code_mono [OF assms])

theorem LTC2758_voltage_to_code_monotone_witness:
  "uint (LTC2758_voltage_to_code (lit 1) (lit (-10)) (lit 10)) \<le> uint (LTC2758_voltage_to_code (lit 2) (lit (-10)) (lit 10))"
  by (rule LTC2758_voltage_to_code_monotone) code_simp+

text \<open>On every span the firmware uses, LTC2758_voltage_to_code inverts LTC2758_code_to_voltage
  on all 262144 codes: the float roundings of the two conversions never move a code.\<close>

theorem LTC2758_code_voltage_code:
  assumes "span_ok lo hi" and "uint c \<le> 262143"
  shows "LTC2758_voltage_to_code (LTC2758_code_to_voltage c lo hi) lo hi = c"
  using code_to_voltage_err [OF assms] by (intro voltage_to_code_near assms) simp_all

theorem LTC2758_code_voltage_code_witness:
  "LTC2758_voltage_to_code (LTC2758_code_to_voltage 183500 (lit (-10)) (lit 10)) (lit (-10)) (lit 10) = 183500"
  by (rule LTC2758_code_voltage_code [OF span_ok_used(1)]) simp

text \<open>One LTC2758_write sends exactly four bytes, all of them while the multiplexer selects
  DAC nr and is enabled; the command byte comes first, the three data bytes carry the 18 bit value,
  and the multiplexer is released afterwards.\<close>

theorem LTC2758_write_addresses_one_dac:
  assumes "data < 2 ^ 18"
  shows "\<exists>f. wire (LTC2758_write X nr cmd addr data s) = wire s @ map (Pair (False, nr \<noteq> 0, nr = 0)) f
     \<and> length f = 4 \<and> f ! 0 = or cmd addr \<and> frame_data f = data \<and> pins (LTC2758_write X nr cmd addr data s) 7"
  using LTC2758_frame_data [OF assms, of cmd addr]
  by (intro exI [of _ "LTC2758_frame cmd addr data"]) (auto simp: LTC2758_frame_def)

theorem LTC2758_write_addresses_one_dac_witness:
  "\<exists>f. wire (LTC2758_write (\<lambda>_ d. (0, d)) 1 0x70 0 0x6666 \<lparr>pins = (\<lambda>_. True), dev = (), wire = []\<rparr>) =
      map (Pair (False, True, False)) f \<and> length f = 4 \<and> f ! 0 = 0x70 \<and> frame_data f = 0x6666"
  using LTC2758_write_addresses_one_dac [of "0x6666" "\<lambda>_ d. (0, d)" 1 "0x70" 0 "\<lparr>pins = (\<lambda>_. True), dev = (), wire = []\<rparr>"]
  by auto

end
