(* ===== verification/Hal717x.thy ===== *)
theory Hal717x
  imports SmuHal Ad7176 Ltc2758
begin

text \<open>
  The hardware implementation of the abstraction layer (src/src/SMU_HAL_717x.cpp, class ADCClass):
  the AD7176 converter and the two LTC2758 DACs behind one board.  The state extends the converter
  driver's board with the members of the class and the two GPIO shadow globals.  Delays and debug
  output are left out.  Arithmetic follows the types of the source: members and locals are
  \<open>float\<close>, literals with a decimal point and int64 divisions are \<open>double\<close>.
\<close>

section \<open>State\<close>

record 'd smu717 = "'d adc_board" +
  s_setLimit_micro :: int
  s_setValue_micro :: int
  s_vref :: f64
  s_VFSR :: f64
  s_current_range :: CURRENT_RANGE
  s_samplingRate :: int
  s_oldSamplingRate :: int
  s_oldShortSetting :: bool
  s_shortSetting :: bool
  s_oldInternalRef :: bool
  s_internalRef :: bool
  s_voltageMeasurementEnabled :: bool
  s_currentMeasurementEnabled :: bool
  s_deviceTypeId :: int
  s_operationType :: OPERATION_TYPE
  s_DAC_RANGE_LOW :: f32
  s_DAC_RANGE_HIGH :: f32
  s_voltageMeasurementGainX2 :: bool
  s_gpio0 :: bool
  s_gpio1 :: bool

definition FSR :: int where "FSR = 2 ^ 23 - 1"
definition VREF_EXTERNAL_CAL :: f64 where "VREF_EXTERNAL_CAL = lit 5.013"
definition R_shunt_1A :: f32 where "R_shunt_1A = lit 0.5"
definition R_shunt_10mA :: f32 where "R_shunt_10mA = lit 100"
definition R_mosfetSwitch :: f32 where "R_mosfetSwitch = lit 0.005"
definition voltageInputDividerCompensation :: f32 where "voltageInputDividerCompensation = lit 1"

definition init_state :: "st_reg list" where
  "init_state = [
    mk_reg 0x00 1 0 0x00 ''Stat_Reg '', mk_reg 0x01 2 0 0x8000 ''ADCModReg'', mk_reg 0x02 2 0 0x0000 ''IfModeReg'',
    mk_reg 0x03 3 0 0x0000 ''Reg_Check'', mk_reg 0x04 3 0 0x0000 ''ADC_Data '', mk_reg 0x06 2 0 0x080C ''GPIO_Conf'',
    mk_reg 0x07 1 0 0x0000 ''ID_ST_Reg'', mk_reg 0x10 2 0 0x8001 ''Ch_Map_0 '', mk_reg 0x11 2 0 0x8043 ''Ch_Map_1 '',
    mk_reg 0x12 2 0 0x0000 ''Ch_Map_2 '', mk_reg 0x13 2 0 0x0000 ''Ch_Map_3 '', mk_reg 0x20 2 0 0x1f00 ''SetupCfg0'',
    mk_reg 0x21 2 0 0x1020 ''SetupCfg1'', mk_reg 0x22 2 0 0x1020 ''SetupCfg2'', mk_reg 0x23 2 0 0x1020 ''SetupCfg3'',
    mk_reg 0x28 2 0 0x020e ''FilterCf0'', mk_reg 0x29 2 0 0x0214 ''FilterCf1'', mk_reg 0x2a 2 0 0x0214 ''FilterCf2'',
    mk_reg 0x2b 2 0 0x0214 ''FilterCf3'', mk_reg 0x30 3 0 0x800000 ''Offset_0 '', mk_reg 0x31 3 0 0x800000 ''Offset_1 '',
    mk_reg 0x32 3 0 0x800000 ''Offset_2 '', mk_reg 0x33 3 0 0x800000 ''Offset_3 '', mk_reg 0x38 3 0 0x555555 ''Gain_0   '',
    mk_reg 0x39 3 0 0x555555 ''Gain_1   '', mk_reg 0x3a 3 0 0x555555 ''Gain_2   '', mk_reg 0x3b 3 0 0x555555 ''Gain_3   '',
    mk_reg 0xFF 1 0 0 ''Comm_Reg '']"

section \<open>Converter settings\<close>

text \<open>A register given by a brace initialiser, without name, in the argument of the write.\<close>

definition wreg :: "'d chips \<Rightarrow> byte \<Rightarrow> u32 \<Rightarrow> ('d, 'z) adc_board_scheme \<Rightarrow> ('d, 'z) adc_board_scheme" where
  "wreg X a v s = snd (AD7176_WriteRegister X (mk_reg a 2 0 v []) s)"

definition setVrefMv :: "f64 \<Rightarrow> ('d, 'z) smu717_scheme \<Rightarrow> ('d, 'z) smu717_scheme" where
  "setVrefMv vrefMv s = s\<lparr>s_vref := vrefMv, s_VFSR := vrefMv\<rparr>"

definition disable_ADC_DAC_SPI_units :: "'d chips \<Rightarrow> ('d, 'z) board_scheme \<Rightarrow> ('d, 'z) board_scheme" where
  "disable_ADC_DAC_SPI_units X s = digitalWrite X 7 True s"

definition adc_setSamplingRate :: "int \<Rightarrow> ('d, 'z) smu717_scheme \<Rightarrow> ('d, 'z) smu717_scheme" where
  "adc_setSamplingRate v s = s\<lparr>s_samplingRate := v\<rparr>"

definition adc_updateSettings :: "'d chips \<Rightarrow> ('d, 'z) smu717_scheme \<Rightarrow> ('d, 'z) smu717_scheme" where
  "adc_updateSettings X s =
     (if s_currentMeasurementEnabled s \<and> s_voltageMeasurementEnabled s then wreg X 0x11 0x8043 (wreg X 0x10 0x8001 s)
      else if s_currentMeasurementEnabled s then wreg X 0x11 0x0001 (wreg X 0x10 0x8043 s)
      else if s_voltageMeasurementEnabled s then wreg X 0x11 0x0043 (wreg X 0x10 0x8001 s)
      else s)"

definition adc_shortAdcInput :: "bool \<Rightarrow> ('d, 'z) smu717_scheme \<Rightarrow> ('d, 'z) smu717_scheme" where
  "adc_shortAdcInput b s = s\<lparr>s_shortSetting := b\<rparr>"

definition writeShortSetting :: "'d chips \<Rightarrow> ('d, 'z) smu717_scheme \<Rightarrow> ('d, 'z) smu717_scheme" where
  "writeShortSetting X s =
     (if s_shortSetting s \<noteq> s_oldShortSetting s
      then wreg X 0x10 (if s_shortSetting s then 0x8000 else 0x8001) (s\<lparr>s_oldShortSetting := s_shortSetting s\<rparr>)
      else s)"

definition adc_internalRefInput :: "bool \<Rightarrow> ('d, 'z) smu717_scheme \<Rightarrow> ('d, 'z) smu717_scheme" where
  "adc_internalRefInput b s = s\<lparr>s_internalRef := b\<rparr>"

definition writeRefInputSetting :: "'d chips \<Rightarrow> ('d, 'z) smu717_scheme \<Rightarrow> ('d, 'z) smu717_scheme" where
  "writeRefInputSetting X s =
     (if s_internalRef s \<noteq> s_oldInternalRef s
      then let s1 = s\<lparr>s_oldInternalRef := s_internalRef s\<rparr>
           in if s_internalRef s then setVrefMv (lit 2.5) (wreg X 0x20 0x1c20 s1)
              else setVrefMv VREF_EXTERNAL_CAL (wreg X 0x20 0x1f00 s1)
      else s)"

definition rate_code :: "int \<Rightarrow> u32 option" where
  "rate_code value = map_of [(1, 0x0216), (2, 0x0215), (5, 0x0214), (10, 0x0213), (20, 0x0211), (50, 0x0210), (100, 0x020e),
     (200, 0x020d), (500, 0x020b), (1000, 0x020a), (2500, 0x0209), (5000, 0x0208), (10000, 0x0207), (15625, 0x0206),
     (25000, 0x0205), (31250, 0x0204), (50000, 0x0203)] value"

definition writeSamplingRate :: "'d chips \<Rightarrow> ('d, 'z) smu717_scheme \<Rightarrow> ('d, 'z) smu717_scheme" where
  "writeSamplingRate X s =
     (if s_oldSamplingRate s = s_samplingRate s then s
      else let s1 = s\<lparr>s_oldSamplingRate := s_samplingRate s\<rparr>
           in case rate_code (s_samplingRate s) of None \<Rightarrow> s1 | Some c \<Rightarrow> wreg X 0x28 c s1)"

text \<open>setGPIO reads table entry 6, which is the ID register and not the GPIO register (entry 5).\<close>

definition adc_setGPIO :: "'d chips \<Rightarrow> nat \<Rightarrow> bool \<Rightarrow> ('d, 'z) smu717_scheme \<Rightarrow> ('d, 'z) smu717_scheme" where
  "adc_setGPIO X nr on s =
     (let s1 = snd (AD7176_ReadRegister X 6 s);
          v = and (rvalue (AD7176_regs s1 ! 6)) 0xfff0;
          g0 = (if nr = 0 then on else s_gpio0 s1);
          g1 = (if nr = 1 then on else s_gpio1 s1);
          b = (if \<not> g0 \<and> \<not> g1 then 0xC else if g0 \<and> \<not> g1 then 0xD else if \<not> g0 \<and> g1 then 0xE else 0xF)
      in wreg X 0x06 (v + b) (s1\<lparr>s_gpio0 := g0, s_gpio1 := g1\<rparr>))"

section \<open>Sources and limits\<close>

text \<open>The two frames that set a DAC: its span, then its code, which passes through a float variable.\<close>

definition dac_program :: "'d chips \<Rightarrow> int \<Rightarrow> u32 \<Rightarrow> f32 \<Rightarrow> f32 \<Rightarrow> f32 \<Rightarrow> ('d, 'z) board_scheme \<Rightarrow> ('d, 'z) board_scheme" where
  "dac_program X nr choice v lo hi s =
     (let s1 = LTC2758_write X nr LTC2758_WRITE_SPAN_DAC 0 (push_bit 2 choice) s;
          v_adj = (of_i (uint (LTC2758_voltage_to_code v lo hi)) :: f32)
      in LTC2758_write X nr LTC2758_WRITE_CODE_UPDATE_DAC 0 (f2u32 v_adj) s1)"

definition milli :: "int \<Rightarrow> f32" where
  "milli micro = conv ((of_i micro :: f64) / lit 1000)"

definition volt_dac_voltage :: "cal \<Rightarrow> int \<Rightarrow> f32" where
  "volt_dac_voltage V voltage_uV =
     (let mv0 = milli voltage_uV;
          mv = (if useDacCalibratedValues V then dac_nonlinear_compensation V mv0 else mv0);
          dv = conv ((conv mv :: f64) / lit 1000) + dacZeroComp V;
          comp = (if dv > lit 0
                  then if (conv dv :: f64) > lit 2.3 then dacGainCompPos2 V else dacGainCompPos V
                  else if (conv dv :: f64) < lit (- 2.3) then dacGainCompNeg2 V else dacGainCompNeg V)
      in dv * comp * voltageInputDividerCompensation)"

definition volt_span :: "bool \<Rightarrow> f32 \<Rightarrow> u32 \<times> f32 \<times> f32" where
  "volt_span dynamicRange dv =
     (if dynamicRange \<and> (conv \<bar>dv\<bar> :: f64) \<le> lit 2.3 then (4, lit (- 2.5), lit 2.5)
      else if dynamicRange \<and> (conv \<bar>dv\<bar> :: f64) \<le> lit 4.6 then (2, lit (- 5), lit 5)
      else (3, lit (- 10), lit 10))"

definition adc_setVoltageSource :: "'d chips \<Rightarrow> env \<Rightarrow> int \<Rightarrow> bool \<Rightarrow> ('d, 'z) smu717_scheme \<Rightarrow> int \<times> ('d, 'z) smu717_scheme" where
  "adc_setVoltageSource X E voltage_uV dynamicRange s =
     (let dv = volt_dac_voltage (env_V E) voltage_uV;
          (choice, lo, hi) = volt_span dynamicRange dv;
          s1 = s\<lparr>s_operationType := SOURCE_VOLTAGE, s_setValue_micro := voltage_uV, s_DAC_RANGE_LOW := lo, s_DAC_RANGE_HIGH := hi\<rparr>
      in (voltage_uV, dac_program X 0 choice (- dv) lo hi s1))"

definition curr_dac_voltage :: "cal \<Rightarrow> CURRENT_RANGE \<Rightarrow> int \<Rightarrow> f32" where
  "curr_dac_voltage C r current_uA =
     (let mv0 = milli current_uA;
          mv = (if useDacCalibratedValues C then dac_nonlinear_compensation C mv0 else mv0);
          dv = conv ((conv mv :: f64) / lit 1000) :: f32
      in case r of
        AMP1 \<Rightarrow>
          (let d1 = conv ((conv dv :: f64) * lit 10) :: f32;
               d2 = conv ((conv d1 :: f64) / lit 2) :: f32;
               d3 = conv ((conv d2 :: f64) - lit 0) :: f32;
               d4 = d3 + dacZeroComp C;
               d5 = conv ((conv d4 :: f64) * lit 0.9) :: f32;
               d6 = (if d5 < lit 0 then d5 * dacGainCompNeg C else d5 * dacGainCompPos C)
           in conv ((conv d6 :: f64) * lit 1.09))
      | MILLIAMP10 \<Rightarrow>
          (let d1 = conv ((conv dv :: f64) * lit 1000) :: f32;
               d2 = d1 + dacZeroComp2 C
           in if d2 < lit 0 then d2 * dacGainCompNeg2 C else d2 * dacGainCompPos2 C))"

definition curr_span :: "f32 \<Rightarrow> u32 \<times> f32 \<times> f32" where
  "curr_span dv = (if (conv \<bar>dv\<bar> :: f64) < lit 2.2 then (4, lit (- 2.5), lit 2.5) else (3, lit (- 10), lit 10))"

definition adc_setCurrentSource :: "'d chips \<Rightarrow> env \<Rightarrow> int \<Rightarrow> ('d, 'z) smu717_scheme \<Rightarrow> int \<times> ('d, 'z) smu717_scheme" where
  "adc_setCurrentSource X E current_uA s =
     (let dv = - curr_dac_voltage (env_C E) (s_current_range s) current_uA;
          (choice, lo, hi) = curr_span dv;
          s1 = s\<lparr>s_operationType := SOURCE_CURRENT, s_setValue_micro := current_uA\<rparr>
      in (current_uA, dac_program X 0 choice dv lo hi s1))"

definition adc_setVoltageLimit :: "'d chips \<Rightarrow> int \<Rightarrow> ('d, 'z) smu717_scheme \<Rightarrow> int \<times> ('d, 'z) smu717_scheme" where
  "adc_setVoltageLimit X voltage_uV s =
     (let mV = milli voltage_uV * voltageInputDividerCompensation
      in (voltage_uV, dac_program X 1 1 (conv ((conv mV :: f64) / lit 1000)) (lit 0) (lit 10) (s\<lparr>s_setLimit_micro := voltage_uV\<rparr>)))"

definition limit_dac_voltage :: "cal \<Rightarrow> CURRENT_RANGE \<Rightarrow> int \<Rightarrow> f32" where
  "limit_dac_voltage V r current_uA =
     (case r of
        MILLIAMP10 \<Rightarrow> (let dv = milli current_uA in if (conv dv :: f64) > lit 10 then lit 10 else dv)
      | AMP1 \<Rightarrow>
          (let d1 = conv ((of_i current_uA :: f64) / lit 1000 / lit 1000) :: f32;
               d2 = conv (lit 10 * conv d1 * conv (R_shunt_1A + R_mosfetSwitch) :: f64) :: f32
           in d2 * dacGainCompLim V))"

definition adc_setCurrentLimit :: "'d chips \<Rightarrow> env \<Rightarrow> int \<Rightarrow> ('d, 'z) smu717_scheme \<Rightarrow> int \<times> ('d, 'z) smu717_scheme" where
  "adc_setCurrentLimit X E current_uA s =
     (current_uA, dac_program X 1 1 (limit_dac_voltage (env_V E) (s_current_range s) current_uA) (lit 0) (lit 10)
        (s\<lparr>s_setLimit_micro := current_uA\<rparr>))"

definition adc_setCurrentRange :: "'d chips \<Rightarrow> env \<Rightarrow> CURRENT_RANGE \<Rightarrow> OPERATION_TYPE \<Rightarrow> ('d, 'z) smu717_scheme \<Rightarrow> ('d, 'z) smu717_scheme" where
  "adc_setCurrentRange X E rg t s =
     (let s1 = s\<lparr>s_current_range := rg\<rparr>;
          commit = (\<lambda>u. if t = SOURCE_VOLTAGE then snd (adc_setCurrentLimit X E (s_setLimit_micro u) u)
                        else snd (adc_setCurrentSource X E (s_setValue_micro u) u))
      in case rg of
           AMP1 \<Rightarrow> commit (adc_setGPIO X 1 True (digitalWrite X 4 True s1))
         | MILLIAMP10 \<Rightarrow> adc_setGPIO X 1 False (digitalWrite X 4 False (commit s1)))"

section \<open>Measuring\<close>

definition reading :: "('d, 'z) smu717_scheme \<Rightarrow> f32" where
  "reading s = conv ((of_i (sint (rvalue (AD7176_regs s ! 4))) * s_VFSR s * lit 1000) / of_i FSR :: f64)"

definition measureMilliVoltageRaw :: "'d chips \<Rightarrow> ('d, 'z) smu717_scheme \<Rightarrow> f64 \<times> ('d, 'z) smu717_scheme" where
  "measureMilliVoltageRaw X s =
     (let s1 = snd (AD7176_ReadRegister X 4 s);
          v = conv ((conv (reading s1) :: f64) - s_vref s1 * lit 1000) :: f32
      in (conv v, writeSamplingRate X s1))"

definition adc_hasCompliance :: "('d, 'z) board_scheme \<Rightarrow> bool" where
  "adc_hasCompliance s \<longleftrightarrow> \<not> digitalRead 2 s \<or> \<not> digitalRead 3 s"

definition adc_voltage_gain :: "cal \<Rightarrow> f32 \<Rightarrow> f32" where
  "adc_voltage_gain V v =
     (if \<bar>v\<bar> > lit 2300 then (if v > lit 0 then v * adcGainCompPos2 V else v * adcGainCompNeg2 V)
      else (if v > lit 0 then v * adcGainCompPos V else v * adcGainCompNeg V))"

definition adc_measureMilliVoltage :: "'d chips \<Rightarrow> env \<Rightarrow> ('d, 'z) smu717_scheme \<Rightarrow> f64 \<times> ('d, 'z) smu717_scheme" where
  "adc_measureMilliVoltage X E s =
     (let s1 = snd (AD7176_ReadRegister X 4 s);
          v1 = conv ((conv (reading s1) :: f64) - s_vref s1 * lit 1000) :: f32;
          v2 = conv ((conv v1 :: f64) / lit 0.4) :: f32;
          v3 = (if s_voltageMeasurementGainX2 s1 then conv ((conv v2 :: f64) / lit 2) else v2);
          v4 = adc_nonlinear_compensation (env_V E) (adc_voltage_gain (env_V E) v3);
          s2 = writeRefInputSetting X (writeShortSetting X (writeSamplingRate X s1));
          v5 = v4 - nullValueVol (env_store E) ! range_index (s_current_range s2)
      in (conv v5, s2))"

definition current_of_reading :: "env \<Rightarrow> CURRENT_RANGE \<Rightarrow> f32 \<Rightarrow> f64 \<Rightarrow> f32" where
  "current_of_reading E rg rd vref =
     (let v = ((conv rd :: f64) - vref * lit 1000) / lit 0.4;
          C = env_C E;
          i1 = (case rg of
             MILLIAMP10 \<Rightarrow> (let i = conv (v / conv R_shunt_10mA) :: f32 in if i > lit 0 then i * adcGainCompPos2 C else i * adcGainCompNeg2 C)
           | AMP1 \<Rightarrow> (let i = (conv v :: f32) / (R_shunt_1A + R_mosfetSwitch) in if i > lit 0 then i * adcGainCompPos C else i * adcGainCompNeg C));
          i2 = conv ((conv i1 :: f64) / lit 10) :: f32
      in i2 - nullValueCur (env_store E) ! range_index rg)"

definition adc_measureCurrent :: "'d chips \<Rightarrow> env \<Rightarrow> CURRENT_RANGE \<Rightarrow> ('d, 'z) smu717_scheme \<Rightarrow> f64 \<times> ('d, 'z) smu717_scheme" where
  "adc_measureCurrent X E rg s =
     (let s1 = snd (AD7176_ReadRegister X 4 s)
      in (conv (current_of_reading E rg (reading s1) (s_vref s1)), writeSamplingRate X s1))"

section \<open>Automatic current range\<close>

definition max_current_10mA_range :: f32 where "max_current_10mA_range = lit 9"
definition max_current_1A_range :: f32 where "max_current_1A_range = lit 3300"

definition adc_handleAutoCurrentRange :: "'d chips \<Rightarrow> env \<Rightarrow> bool \<Rightarrow> ('d, 'z) smu717_scheme \<Rightarrow> ('d, 'z) smu717_scheme" where
  "adc_handleAutoCurrentRange X E enabled s =
     (if \<not> enabled then s
      else if \<not> env_autoNull E \<and> \<not> autoCalInProgress (env_V E) \<and> \<not> autoCalInProgress (env_C E) then
        let milliAmpere = env_rawCurrent E; hysteresis = lit 0.5; switchAt = max_current_10mA_range;
            commit = (\<lambda>u. if s_operationType u = SOURCE_VOLTAGE then snd (adc_setCurrentLimit X E (s_setLimit_micro u) u) else u);
            s1 = (if s_current_range s = AMP1 \<and> \<bar>milliAmpere\<bar> < switchAt - hysteresis
                  then commit (adc_setCurrentRange X E MILLIAMP10 (s_operationType s) s) else s)
        in (if s_current_range s1 = MILLIAMP10 \<and> \<bar>milliAmpere\<bar> > switchAt
            then commit (adc_setCurrentRange X E AMP1 (s_operationType s1) s1) else s1)
      else s)"

section \<open>Start-up\<close>

fun init_regs :: "'d chips \<Rightarrow> nat list \<Rightarrow> ('d, 'z) smu717_scheme \<Rightarrow> ('d, 'z) smu717_scheme" where
  "init_regs X [] s = s"
| "init_regs X (k # ks) s =
     (let s1 = snd (AD7176_WriteRegister X (init_state ! k) s);
          s2 = snd (AD7176_ReadRegister X k s1);
          s3 = (if k = 6 then s2\<lparr>s_deviceTypeId := sint (rvalue (AD7176_regs s2 ! k))\<rparr> else s2)
      in init_regs X ks s3)"

definition initADC :: "'d chips \<Rightarrow> ('d, 'z) smu717_scheme \<Rightarrow> ('d, 'z) smu717_scheme" where
  "initADC X s = AD7176_UpdateSettings (init_regs X [0 ..< Gain_3] (snd (AD7176_Setup X (snd (AD7176_Reset X s)))))"

text \<open>The span word is written as 3, not as 3 shifted to the span bits.\<close>

definition initDAC :: "'d chips \<Rightarrow> ('d, 'z) board_scheme \<Rightarrow> ('d, 'z) board_scheme" where
  "initDAC X s =
     LTC2758_write X 1 LTC2758_WRITE_CODE_UPDATE_DAC 0 0x6666
       (LTC2758_write X 1 LTC2758_WRITE_SPAN_DAC ADDRESS_DAC_ALL 3
         (LTC2758_write X 0 LTC2758_WRITE_CODE_UPDATE_DAC 0 0
           (LTC2758_write X 0 LTC2758_WRITE_SPAN_DAC ADDRESS_DAC_ALL 3 s)))"

definition adc_init :: "'d chips \<Rightarrow> ('d, 'z) smu717_scheme \<Rightarrow> ('d, 'z) smu717_scheme" where
  "adc_init X s = initDAC X (initADC X (setVrefMv VREF_EXTERNAL_CAL s))"

definition adc_use100uVSetResolution :: "('d, 'z) smu717_scheme \<Rightarrow> bool" where
  "adc_use100uVSetResolution s \<longleftrightarrow> \<not> feq (conv (s_DAC_RANGE_LOW s) :: f64) (lit (- 10))"

section \<open>The method table\<close>

definition hal717 :: "'d chips \<Rightarrow> ('d, 'z) smu717_scheme hal" where
  "hal717 X = \<lparr>fltSetCommitVoltageSource = adc_setVoltageSource X, fltSetCommitCurrentSource = adc_setCurrentSource X,
     fltSetCommitCurrentLimit = adc_setCurrentLimit X, fltSetCommitVoltageLimit = (\<lambda>E. adc_setVoltageLimit X),
     getSetValue_micro = s_setValue_micro, getLimitValue_micro = s_setLimit_micro,
     measureMilliVoltage = adc_measureMilliVoltage X, measureCurrent = adc_measureCurrent X,
     updateSettings = adc_updateSettings X, getCurrentRange = s_current_range, setCurrentRange = adc_setCurrentRange X,
     setSamplingRate = adc_setSamplingRate, getSamplingRate = s_samplingRate, hasCompliance = adc_hasCompliance,
     dataReady = (\<lambda>E. AD7176_dataReady X), setGPIO = adc_setGPIO X, use100uVSetResolution = adc_use100uVSetResolution,
     shortAdcInput = adc_shortAdcInput, internalRefInput = adc_internalRefInput,
     enableVoltageMeasurement = (\<lambda>b s. s\<lparr>s_voltageMeasurementEnabled := b\<rparr>),
     enableCurrentMeasurement = (\<lambda>b s. s\<lparr>s_currentMeasurementEnabled := b\<rparr>),
     isVoltageMeasurementEnabled = s_voltageMeasurementEnabled, isCurrentMeasurementEnabled = s_currentMeasurementEnabled,
     handleAutoCurrentRange = adc_handleAutoCurrentRange X, hal_operationType = s_operationType\<rparr>"

section \<open>Frame conditions\<close>

lemma board_more_smu:
  fixes s t :: "('d, 'z) smu717_scheme"
  assumes "adc_board.more s = adc_board.more t"
  shows "s_setLimit_micro s = s_setLimit_micro t" "s_setValue_micro s = s_setValue_micro t" "s_vref s = s_vref t"
    "s_VFSR s = s_VFSR t" "s_current_range s = s_current_range t" "s_samplingRate s = s_samplingRate t"
    "s_oldSamplingRate s = s_oldSamplingRate t" "s_oldShortSetting s = s_oldShortSetting t" "s_shortSetting s = s_shortSetting t"
    "s_oldInternalRef s = s_oldInternalRef t" "s_internalRef s = s_internalRef t" "s_operationType s = s_operationType t"
    "s_voltageMeasurementGainX2 s = s_voltageMeasurementGainX2 t" "s_gpio0 s = s_gpio0 t" "s_gpio1 s = s_gpio1 t"
    "s_DAC_RANGE_LOW s = s_DAC_RANGE_LOW t" "s_DAC_RANGE_HIGH s = s_DAC_RANGE_HIGH t"
  using assms by (cases s; cases t; simp)+

lemma wreg_frame [simp]:
  "board.more (wreg X a v s) = board.more s"
  "wire (wreg X a v s) = wire s @ map (Pair (False, False, False)) (reg_write_buf (useCRC s) (mk_reg a 2 0 v []))"
  "pins (wreg X a v s) = (pins s)(8 := False, 9 := False, 7 := True)"
  by (simp_all add: wreg_def)

lemma dac_program_frame [simp]:
  "board.more (dac_program X nr ch v lo hi s) = board.more s"
  "pins (dac_program X nr ch v lo hi s) = (pins s)(8 := nr \<noteq> 0, 9 := nr = 0, 7 := True)"
  by (auto simp: dac_program_def Let_def)

lemmas wreg_adc [simp] = board_more_adc [OF wreg_frame(1)]
lemmas dac_program_adc [simp] = board_more_adc [OF dac_program_frame(1)]
lemmas digitalWrite_adc [simp] = board_more_adc [OF digitalWrite_simps(3)]
lemmas wreg_smu [simp] = board_more_smu [OF wreg_adc(5)]
lemmas dac_program_smu [simp] = board_more_smu [OF dac_program_adc(5)]
lemmas digitalWrite_smu [simp] = board_more_smu [OF digitalWrite_adc(5)]
lemmas Read_smu [simp] = board_more_smu [OF ReadRegister_frame(5)]

lemma code_uint_le: "uint (LTC2758_voltage_to_code v lo hi) \<le> 262143"
  by (simp add: LTC2758_voltage_to_code_def Let_def code_value split: flt.splits)

lemma code_through_float: "uint c \<le> 262143 \<Longrightarrow> f2u32 (of_i (uint c) :: f32) = c"
proof -
  assume c: "uint c \<le> 262143"
  then have v: "is_fin (of_i (uint c) :: f32)" "val (of_i (uint c) :: f32) = of_int (uint c)" by simp_all
  show ?thesis unfolding word_uint_eq_iff using v c trunc_of_int [of "uint c"]
    by (cases "of_i (uint c) :: f32") (simp_all add: code_value f2u32_def f2i_def uint_word_of_int_eq take_bit_int_eq_self)
qed

text \<open>The two frames of dac_program: the code survives the float variable.\<close>

lemma dac_program_wire:
  "wire (dac_program X nr ch v lo hi s) = wire s @ map (Pair (False, nr \<noteq> 0, nr = 0))
     (LTC2758_frame LTC2758_WRITE_SPAN_DAC 0 (push_bit 2 ch)
      @ LTC2758_frame LTC2758_WRITE_CODE_UPDATE_DAC 0 (LTC2758_voltage_to_code v lo hi))"
  by (simp add: dac_program_def Let_def code_through_float [OF code_uint_le])


section \<open>The contract holds\<close>

lemmas view717 = view_def hal717_def

lemma writes_view:
  "s_setLimit_micro (writeSamplingRate X s) = s_setLimit_micro s" "s_setValue_micro (writeSamplingRate X s) = s_setValue_micro s"
  "s_current_range (writeSamplingRate X s) = s_current_range s" "s_samplingRate (writeSamplingRate X s) = s_samplingRate s"
  "s_operationType (writeSamplingRate X s) = s_operationType s"
  "s_setLimit_micro (writeShortSetting X s) = s_setLimit_micro s" "s_setValue_micro (writeShortSetting X s) = s_setValue_micro s"
  "s_current_range (writeShortSetting X s) = s_current_range s" "s_samplingRate (writeShortSetting X s) = s_samplingRate s"
  "s_operationType (writeShortSetting X s) = s_operationType s"
  "s_setLimit_micro (writeRefInputSetting X s) = s_setLimit_micro s" "s_setValue_micro (writeRefInputSetting X s) = s_setValue_micro s"
  "s_current_range (writeRefInputSetting X s) = s_current_range s" "s_samplingRate (writeRefInputSetting X s) = s_samplingRate s"
  "s_operationType (writeRefInputSetting X s) = s_operationType s"
  by (simp_all add: writeSamplingRate_def writeShortSetting_def writeRefInputSetting_def setVrefMv_def Let_def split: option.splits)

lemma setGPIO_view [simp]:
  "s_setLimit_micro (adc_setGPIO X nr on s) = s_setLimit_micro s" "s_setValue_micro (adc_setGPIO X nr on s) = s_setValue_micro s"
  "s_current_range (adc_setGPIO X nr on s) = s_current_range s" "s_samplingRate (adc_setGPIO X nr on s) = s_samplingRate s"
  "s_operationType (adc_setGPIO X nr on s) = s_operationType s"
  by (simp_all add: adc_setGPIO_def Let_def)

lemma limit_view [simp]:
  "s_setLimit_micro (snd (adc_setCurrentLimit X E v s)) = v" "s_setValue_micro (snd (adc_setCurrentLimit X E v s)) = s_setValue_micro s"
  "s_current_range (snd (adc_setCurrentLimit X E v s)) = s_current_range s"
  "s_samplingRate (snd (adc_setCurrentLimit X E v s)) = s_samplingRate s"
  "s_operationType (snd (adc_setCurrentLimit X E v s)) = s_operationType s"
  by (simp_all add: adc_setCurrentLimit_def)

lemma source_view [simp]:
  "s_setLimit_micro (snd (adc_setCurrentSource X E v s)) = s_setLimit_micro s" "s_setValue_micro (snd (adc_setCurrentSource X E v s)) = v"
  "s_current_range (snd (adc_setCurrentSource X E v s)) = s_current_range s"
  "s_samplingRate (snd (adc_setCurrentSource X E v s)) = s_samplingRate s"
  "s_operationType (snd (adc_setCurrentSource X E v s)) = SOURCE_CURRENT"
  by (simp_all add: adc_setCurrentSource_def Let_def case_prod_unfold)

lemma setRange_view [simp]:
  "s_setLimit_micro (adc_setCurrentRange X E r t s) = s_setLimit_micro s"
  "s_setValue_micro (adc_setCurrentRange X E r t s) = s_setValue_micro s"
  "s_current_range (adc_setCurrentRange X E r t s) = r" "s_samplingRate (adc_setCurrentRange X E r t s) = s_samplingRate s"
  "s_operationType (adc_setCurrentRange X E r t s) = (if t = SOURCE_VOLTAGE then s_operationType s else SOURCE_CURRENT)"
  by (cases r; simp add: adc_setCurrentRange_def Let_def)+

interpretation h717: smu_hal "hal717 X :: ('d, 'z) smu717_scheme hal" for X :: "'d chips"
proof
  fix E v d s t r n nr on
  show "view (hal717 X) (snd (fltSetCommitVoltageSource (hal717 X) E v d s)) = (view (hal717 X) s)\<lparr>mode := SOURCE_VOLTAGE, set_micro := v\<rparr>"
    by (simp add: view717 adc_setVoltageSource_def Let_def case_prod_unfold)
  show "t = hal_operationType (hal717 X) s \<Longrightarrow> view (hal717 X) (setCurrentRange (hal717 X) E r t s) = (view (hal717 X) s)\<lparr>crange := r\<rparr>"
    by (cases "s_operationType s") (simp_all add: view717)
  show "view (hal717 X) (snd (measureMilliVoltage (hal717 X) E s)) = view (hal717 X) s"
    "view (hal717 X) (snd (measureCurrent (hal717 X) E r s)) = view (hal717 X) s"
    by (simp_all add: view717 adc_measureMilliVoltage_def adc_measureCurrent_def Let_def writes_view)
qed (simp_all add: view717 adc_setVoltageLimit_def adc_setVoltageSource_def adc_setCurrentSource_def adc_setCurrentLimit_def
       adc_setSamplingRate_def Let_def case_prod_unfold)

text \<open>C2: The hardware implementation refines the abstract unit: after any sequence of source, limit,
  range and sampling rate requests, with any calibration and any behaviour of the chips, the mode,
  set value, limit, range and rate it reports are those the abstract unit computes; in particular
  the commits hidden in a range switch never change a setting.\<close>

theorem hal717_refines_spec:
  "view (hal717 X) (fold (perform (hal717 X) E) qs s) = fold spec_step qs (view (hal717 X) s)"
  by (rule h717.run_refines)

section \<open>The automatic range switch\<close>

definition auto_range :: "rat \<Rightarrow> CURRENT_RANGE \<Rightarrow> CURRENT_RANGE" where
  "auto_range mA r = (if mA < 17 / 2 then MILLIAMP10 else if mA > 9 then AMP1 else r)"

lemma switch_levels:
  "is_fin (max_current_10mA_range - lit 0.5)" "val (max_current_10mA_range - lit 0.5) = 17 / 2"
  "is_fin max_current_10mA_range" "val max_current_10mA_range = 9"
  unfolding max_current_10mA_range_def by code_simp+

text \<open>C25: handleAutoCurrentRange is the hysteresis switch it is meant to be: below 8.5 mA it selects the
  10 mA range, above 9 mA the 1 A range, in between it keeps the range; set value, limit and mode are
  not touched, a second call with the same reading does not switch back, and during null or auto
  calibration, or when disabled, it does nothing.\<close>

theorem handleAutoCurrentRange_hysteresis:
  assumes fin: "is_fin (env_rawCurrent E)"
    and idle: "\<not> env_autoNull E" "\<not> autoCalInProgress (env_V E)" "\<not> autoCalInProgress (env_C E)"
  defines "a \<equiv> \<bar>val (env_rawCurrent E)\<bar>"
  shows "view (hal717 X) (adc_handleAutoCurrentRange X E True s)
           = (view (hal717 X) s)\<lparr>crange := auto_range a (s_current_range s)\<rparr>
       \<and> adc_handleAutoCurrentRange X E True (adc_handleAutoCurrentRange X E True s) = adc_handleAutoCurrentRange X E True s
       \<and> adc_handleAutoCurrentRange X E False s = s
       \<and> adc_handleAutoCurrentRange X (E\<lparr>env_autoNull := True\<rparr>) True s = s"
proof -
  have c: "\<bar>env_rawCurrent E\<bar> < max_current_10mA_range - lit 0.5 \<longleftrightarrow> a < 17 / 2"
    "\<bar>env_rawCurrent E\<bar> > max_current_10mA_range \<longleftrightarrow> a > 9"
    using fin switch_levels by (simp_all only: fin_less fin_abs a_def)
  have h: "adc_handleAutoCurrentRange X E True u =
     (let commit = (\<lambda>u. if s_operationType u = SOURCE_VOLTAGE then snd (adc_setCurrentLimit X E (s_setLimit_micro u) u) else u) in
      if a < 17 / 2 \<and> s_current_range u = AMP1 then commit (adc_setCurrentRange X E MILLIAMP10 (s_operationType u) u)
      else if a > 9 \<and> s_current_range u = MILLIAMP10 then commit (adc_setCurrentRange X E AMP1 (s_operationType u) u) else u)" for u :: "('a, 'b) smu717_scheme"
    using idle unfolding adc_handleAutoCurrentRange_def Let_def c by auto
  have r: "s_current_range (adc_handleAutoCurrentRange X E True s) = auto_range a (s_current_range s)"
    unfolding h Let_def by (cases "s_current_range s") (auto simp: auto_range_def)
  show ?thesis
  proof (intro conjI)
    show "view (hal717 X) (adc_handleAutoCurrentRange X E True s) = (view (hal717 X) s)\<lparr>crange := auto_range a (s_current_range s)\<rparr>"
      unfolding h Let_def by (cases "s_current_range s"; cases "s_operationType s") (auto simp: auto_range_def view717)
    show "adc_handleAutoCurrentRange X E True (adc_handleAutoCurrentRange X E True s) = adc_handleAutoCurrentRange X E True s"
      unfolding h [of "adc_handleAutoCurrentRange X E True s"] using r by (cases "s_current_range s") (auto simp: auto_range_def Let_def)
  qed (simp_all add: adc_handleAutoCurrentRange_def)
qed

section \<open>Accuracy of the sources\<close>

lemma round_code_err:
  assumes f: "is_fin x" and ax: "\<bar>val x\<bar> < 500000"
  shows "is_fin (round_code x) \<and> \<bar>val (round_code x) - val x\<bar> \<le> 501 / 1000 \<and> (\<exists>n. val (round_code x) = of_int n)"
proof -
  have cx: "is_fin (conv x :: f64)" "\<bar>val (conv x :: f64) - val x\<bar> \<le> 2 powi (- 35)"
    using conv_err [OF f, of 19] ax by simp_all
  let ?h = "conv (ffloor x) + lit 0.5 :: f64"
  have fv: "val (ffloor x) \<le> val x" "val x < val (ffloor x) + 1" "val x \<le> val (fceil x)" "val (fceil x) < val x + 1"
    using f of_int_floor_le [of "val x"] le_of_int_ceiling [of "val x"] of_int_ceiling_le_add_one [of "val x"]
    by simp_all linarith+
  have "\<bar>val (ffloor x)\<bar> < 500001" using fv(1,2) ax by (simp only: abs_less_iff) linarith
  then have fx: "is_fin (ffloor x)" "\<bar>val (ffloor x)\<bar> < 2 powi 19" using f by simp_all
  have cf: "is_fin (conv (ffloor x) :: f64)" "\<bar>val (conv (ffloor x) :: f64) - val (ffloor x)\<bar> \<le> 2 powi (- 35)"
    using conv_err [OF fx] by simp_all
  have e: "(2::rat) powi (- 35) \<le> 1 / 4000" "(2::rat) powi (- 34) \<le> 1 / 4000" "(2::rat) powi 20 = 1048576" by simp_all
  have "\<bar>val (conv (ffloor x) :: f64) + 1 / 2\<bar> < 2 powi 20" using cf(2) \<open>\<bar>val (ffloor x)\<bar> < 500001\<close> e by linarith
  then have h: "is_fin ?h" "\<bar>val ?h - (val (conv (ffloor x) :: f64) + 1 / 2)\<bar> \<le> 2 powi (- 34)"
    using rnd64_err [of "val (conv (ffloor x) :: f64) + 1 / 2" 20] cf(1) by (simp_all add: fin_add)
  show ?thesis
  proof (cases "conv x > ?h")
    case True
    then have "val ?h < val (conv x :: f64)" using cx(1) h(1) by (simp add: fin_less)
    moreover have "val (fceil x) \<le> val (ffloor x) + 1" using fv(1,2,4) f ceiling_diff_floor_le_1 [of "val x"] of_int_le_iff [of "\<lceil>val x\<rceil>" "\<lfloor>val x\<rfloor> + 1", where 'a = rat] by simp
    ultimately have "\<bar>val (fceil x) - val x\<bar> \<le> 501 / 1000" using cx(2) cf(2) h(2) fv e by (simp only: abs_le_iff) linarith
    then show ?thesis using True f by (auto simp: round_code_def)
  next
    case False
    then have "val (conv x :: f64) \<le> val ?h" using cx(1) h(1) by (simp add: fin_less)
    then have "\<bar>val (ffloor x) - val x\<bar> \<le> 501 / 1000" using cx(2) cf(2) h(2) fv e by (simp only: abs_le_iff) linarith
    then show ?thesis using False f by (auto simp: round_code_def)
  qed
qed

lemma clamp_err:
  assumes "is_fin r" "val r = of_int n" "\<bar>val r - t\<bar> \<le> e" "0 \<le> t" "t \<le> 262143"
  shows "\<bar>of_int (uint (f2u32 (clamp_code r))) - t\<bar> \<le> e"
proof -
  have "uint (f2u32 (clamp_code r)) = max 0 (min 262143 n)"
    using assms(1,2) code_value [of r] trunc_of_int [of n] by (cases r) (auto simp del: trunc_of_int)
  then have "(of_int (uint (f2u32 (clamp_code r))) :: rat) = max 0 (min 262143 (val r))"
    by (simp add: assms(2) of_int_max of_int_min)
  then show ?thesis using assms(3-5) by (auto simp: max_def min_def abs_le_iff)
qed

text \<open>The code programmed for a voltage inside a span is within 0.6 steps of the ideal code.\<close>

lemma voltage_to_code_err:
  assumes s: "span_ok lo hi" and v: "is_fin v" "val lo \<le> val v" "val v \<le> val lo + val (conv (hi - lo) :: f64)"
  shows "\<bar>ideal_volts (LTC2758_voltage_to_code v lo hi) lo hi + val lo - val v\<bar> \<le> 6 / 10 * val (conv (hi - lo) :: f64) / 262143"
proof -
  define W where "W = (conv (hi - lo) :: f64)"
  note W = span_ok_width (1-3) [OF s, folded W_def]
  have lo: "is_fin lo" using s by (simp add: span_ok_def)
  define T where "T = val v - val lo"
  have T: "0 \<le> T" "T \<le> val W" "T \<le> 20" using v W by (simp_all add: T_def W_def)
  define C where "C = 262143 * T / val W"
  have C: "0 \<le> C" "C \<le> 262143" using T W mult_left_mono [of T "val W" 262143] by (simp_all add: C_def divide_le_eq)
  have d: "is_fin (v - lo)" "\<bar>val (v - lo) - T\<bar> \<le> 1 / 1000000"
    using rnd32_s [of T] v lo T by (simp_all add: fin_sub T_def)
  define D where "D = (conv (v - lo) :: f64)"
  have "\<bar>val (v - lo)\<bar> \<le> 8000000" by (rule approx_bound [OF d(2), of 20]) (use T in simp_all)
  then have D: "is_fin D" "\<bar>val D - val (v - lo)\<bar> \<le> 1 / 1000000000"
    using rnd64_b [of "val (v - lo)"] d(1) by (simp_all add: D_def fin_conv)
  have "\<bar>val D - T\<bar> \<le> 1001 / 1000000000" by (rule approx_trans [OF D(2) d(2)]) simp
  then have e2: "\<bar>262143 * val D - 262143 * T\<bar> \<le> 263 / 1000" by linarith
  have "\<bar>262143 * val D\<bar> \<le> 8000000" by (rule approx_bound [OF e2, of 5242860]) (use T in simp_all)
  then have m: "is_fin (lit 262143 * D)" "\<bar>val (lit 262143 * D) - 262143 * val D\<bar> \<le> 1 / 1000000000"
    using rnd64_b [of "262143 * val D"] D by (simp_all add: fin_mult)
  have e3: "\<bar>val (lit 262143 * D) - 262143 * T\<bar> \<le> 264 / 1000" by (rule approx_trans [OF m(2) e2]) simp
  have e4: "\<bar>val (lit 262143 * D) / val W - C\<bar> \<le> 53 / 1000"
    unfolding C_def by (rule approx_div [OF e3, of 5]) (use W in simp_all)
  have aC: "\<bar>C\<bar> \<le> 262143" using C by simp
  have "\<bar>val (lit 262143 * D) / val W\<bar> \<le> 8000000" by (rule approx_bound [OF e4 aC]) simp
  then have r: "is_fin (lit 262143 * D / W)" "\<bar>val (lit 262143 * D / W) - val (lit 262143 * D) / val W\<bar> \<le> 1 / 1000000000"
    using rnd64_b [of "val (lit 262143 * D) / val W"] m W by (simp_all add: fin_div)
  have e5: "\<bar>val (lit 262143 * D / W) - C\<bar> \<le> 54 / 1000" by (rule approx_trans [OF r(2) e4]) simp
  define f where "f = (conv (lit 262143 * D / W) :: f32)"
  have "\<bar>val (lit 262143 * D / W)\<bar> \<le> 500000" by (rule approx_bound [OF e5 aC]) simp
  then have f: "is_fin f" "\<bar>val f - val (lit 262143 * D / W)\<bar> \<le> 1 / 50"
    using rnd32_b [of "val (lit 262143 * D / W)"] r by (simp_all add: f_def fin_conv)
  have e6: "\<bar>val f - C\<bar> \<le> 74 / 1000" by (rule approx_trans [OF f(2) e5]) simp
  have "\<bar>val f\<bar> \<le> 262144" by (rule approx_bound [OF e6 aC]) simp
  then have "\<bar>val f\<bar> < 500000" by linarith
  from round_code_err [OF f(1) this] obtain n where g: "is_fin (round_code f)" "\<bar>val (round_code f) - val f\<bar> \<le> 501 / 1000"
    "val (round_code f) = of_int n" by blast
  have e7: "\<bar>val (round_code f) - C\<bar> \<le> 6 / 10" by (rule approx_trans [OF g(2) e6]) simp
  define c where "c = LTC2758_voltage_to_code v lo hi"
  have "c = f2u32 (clamp_code (round_code f))"
    by (simp add: c_def LTC2758_voltage_to_code_def D_def [symmetric] W_def [symmetric] f_def [symmetric] Let_def)
  with clamp_err [OF g(1,3) e7 C] have e8: "\<bar>of_int (uint c) - C\<bar> \<le> 6 / 10" by simp
  have "\<bar>of_int (uint c) * (val W / 262143) - C * (val W / 262143)\<bar> \<le> 6 / 10 * (val W / 262143)"
    unfolding left_diff_distrib [symmetric] abs_mult using W(2) e8 by (simp add: mult_right_mono)
  moreover have "C * (val W / 262143) = T" using W(2) by (simp add: C_def)
  ultimately have "\<bar>of_int (uint c) * (val W / 262143) + val lo - val v\<bar> \<le> 6 / 10 * (val W / 262143)"
    unfolding T_def by (simp only: diff_diff_eq2)
  then show ?thesis
    unfolding c_def [symmetric] ideal_volts_def W_def [symmetric] times_divide_eq_right times_divide_eq_left .
qed


definition unit_voltage_cal :: "cal \<Rightarrow> bool" where
  "unit_voltage_cal V \<longleftrightarrow> dac_cal_points V = 0 \<and> dacZeroComp V = lit 0 \<and> dacGainCompPos V = lit 1 \<and> dacGainCompPos2 V = lit 1
     \<and> dacGainCompNeg V = lit 1 \<and> dacGainCompNeg2 V = lit 1"

lemma lit_unit [simp]: "is_fin (lit 1 :: f32)" "val (lit 1 :: f32) = 1" "is_fin (lit 1000 :: f64)" "val (lit 1000 :: f64) = 1000"
  by code_simp+

lemma of_int_bound: "\<bar>n\<bar> \<le> m \<Longrightarrow> \<bar>of_int n :: rat\<bar> \<le> of_int m"
  by (simp flip: of_int_abs)

lemma milli_near:
  assumes "\<bar>u\<bar> \<le> 9999000"
  shows "is_fin (milli u) \<and> \<bar>val (milli u) - of_int u / 1000\<bar> \<le> 5 / 10000"
proof -
  have "\<bar>u\<bar> \<le> 9007199254740992" using assms by simp
  then have o: "is_fin (of_i u :: f64)" "val (of_i u :: f64) = of_int u" by simp_all
  have q: "\<bar>(of_int u :: rat)\<bar> \<le> 9999000" using of_int_bound [OF assms] by simp
  have d: "is_fin (of_i u / lit 1000 :: f64)" "\<bar>val (of_i u / lit 1000 :: f64) - of_int u / 1000\<bar> \<le> 1 / 1000000000"
    using rnd64_b [of "of_int u / 1000"] assms q by (simp_all add: fin_div)
  have "\<bar>val (of_i u / lit 1000 :: f64)\<bar> < 16384" using d(2) q by linarith
  then have "\<bar>val (of_i u / lit 1000 :: f64)\<bar> < 2 powi 14" by simp
  then have "is_fin (milli u)" "\<bar>val (milli u) - val (of_i u / lit 1000 :: f64)\<bar> \<le> 2 powi (- 11)"
    using rnd32_err [of "val (of_i u / lit 1000 :: f64)" 14] d(1) by (simp_all add: milli_def fin_conv)
  moreover have "(2::rat) powi (- 11) \<le> 4999 / 10000000" by simp
  ultimately show ?thesis using d(2) by linarith
qed


lemma flt_less_abs_le: "is_fin a \<Longrightarrow> is_fin b \<Longrightarrow> (conv \<bar>a\<bar> :: f64) \<le> b \<Longrightarrow> \<bar>val a\<bar> \<le> 31 \<Longrightarrow> \<bar>val (a :: f32)\<bar> \<le> val b + 1 / 1000000000"
proof -
  assume h: "is_fin a" "is_fin b" "(conv \<bar>a\<bar> :: f64) \<le> b" "\<bar>val a\<bar> \<le> 31"
  then have "is_fin (conv \<bar>a\<bar> :: f64)" "\<bar>val (conv \<bar>a\<bar> :: f64) - \<bar>val a\<bar>\<bar> \<le> 1 / 1000000000"
    using rnd64_b [of "\<bar>val a\<bar>"] by (simp_all add: fin_conv)
  moreover have "val (conv \<bar>a\<bar> :: f64) \<le> val b" using h calculation(1) by (simp add: fin_less_eq)
  ultimately show ?thesis by linarith
qed

lemma unit_dac_voltage:
  assumes V: "unit_voltage_cal V" and u: "\<bar>u\<bar> \<le> 9999000"
  shows "is_fin (volt_dac_voltage V u) \<and> \<bar>val (volt_dac_voltage V u) - of_int u / 1000000\<bar> \<le> 5 / 1000000"
proof -
  have q: "\<bar>(of_int u :: rat)\<bar> \<le> 9999000" using of_int_bound [OF u] by simp
  note m = milli_near [OF u]
  have mb: "\<bar>val (milli u)\<bar> \<le> 10000" using m q by linarith
  then have c: "is_fin (conv (milli u) :: f64)" "\<bar>val (conv (milli u) :: f64) - val (milli u)\<bar> \<le> 1 / 1000000000"
    using rnd64_b [of "val (milli u)"] m by (simp_all add: fin_conv)
  have cb: "\<bar>val (conv (milli u) :: f64) / 1000\<bar> \<le> 8000000" using c(2) mb by linarith
  define Q where "Q = (conv (milli u) / lit 1000 :: f64)"
  have d: "is_fin Q" "\<bar>val Q - val (conv (milli u) :: f64) / 1000\<bar> \<le> 1 / 1000000000"
    using rnd64_b [OF cb] c by (simp_all add: fin_div Q_def)
  have e1: "\<bar>val Q - of_int u / 1000000\<bar> \<le> 502 / 1000000000" using d(2) c(2) m by linarith
  have qb: "\<bar>of_int u / 1000000 :: rat\<bar> \<le> 9999 / 1000" using q by linarith
  have Qb: "\<bar>val Q\<bar> \<le> 31" by (rule approx_bound [OF e1 qb]) simp
  define a where "a = (conv Q :: f32)"
  have a: "is_fin a" "\<bar>val a - val Q\<bar> \<le> 1 / 1000000"
    using rnd32_s [OF Qb] d(1) by (simp_all add: a_def fin_conv)
  have ab: "\<bar>val a\<bar> \<le> 31" using a(2) e1 qb by linarith
  have s: "is_fin (a + lit 0)" "\<bar>val (a + lit 0) - val a\<bar> \<le> 1 / 1000000"
    using rnd32_s [OF ab] a(1) by (simp_all add: fin_add)
  have sb: "\<bar>val (a + lit 0)\<bar> \<le> 31" using s(2) a(2) e1 qb by linarith
  have p: "is_fin ((a + lit 0) * lit 1)" "\<bar>val ((a + lit 0) * lit 1) - val (a + lit 0)\<bar> \<le> 1 / 1000000"
    using rnd32_s [OF sb] s(1) by (simp_all add: fin_mult)
  have pb: "\<bar>val ((a + lit 0) * lit 1)\<bar> \<le> 31" using p(2) s(2) a(2) e1 qb by linarith
  have r: "is_fin ((a + lit 0) * lit 1 * lit 1)" "\<bar>val ((a + lit 0) * lit 1 * lit 1) - val ((a + lit 0) * lit 1)\<bar> \<le> 1 / 1000000"
    using rnd32_s [OF pb] p(1) by (simp_all add: fin_mult)
  have "volt_dac_voltage V u = (a + lit 0) * lit 1 * lit 1"
    using V by (simp add: volt_dac_voltage_def unit_voltage_cal_def dac_nonlinear_compensation_def find_interval_def Let_def
      voltageInputDividerCompensation_def a_def Q_def)
  moreover have "\<bar>val ((a + lit 0) * lit 1 * lit 1) - of_int u / 1000000\<bar> \<le> 5 / 1000000"
    using r(2) p(2) s(2) a(2) e1 by linarith
  ultimately show ?thesis using r(1) by (simp only: simp_thms)
qed

lemma span_values:
  "is_fin (lit 2.3 :: f64)" "val (lit 2.3 :: f64) < 24 / 10" "is_fin (lit 4.6 :: f64)" "val (lit 4.6 :: f64) < 49 / 10"
  "val (lit (- 2.5) :: f32) = - 5 / 2" "val (conv (lit 2.5 - lit (- 2.5) :: f32) :: f64) = 5"
  "val (lit (- 5) :: f32) = - 5" "val (conv (lit 5 - lit (- 5) :: f32) :: f64) = 10"
  "val (lit (- 10) :: f32) = - 10" "val (conv (lit 10 - lit (- 10) :: f32) :: f64) = 20"
  by code_simp+

lemma volt_span_covers:
  assumes dv: "is_fin dv" "\<bar>val dv\<bar> \<le> 10" and sp: "volt_span d dv = (ch, lo, hi)"
  shows "span_ok lo hi \<and> val lo \<le> - val dv \<and> - val dv \<le> val lo + val (conv (hi - lo) :: f64)"
proof -
  have le: "(conv \<bar>dv\<bar> :: f64) \<le> lit 2.3 \<Longrightarrow> \<bar>val dv\<bar> \<le> 5 / 2" "(conv \<bar>dv\<bar> :: f64) \<le> lit 4.6 \<Longrightarrow> \<bar>val dv\<bar> \<le> 5"
    using flt_less_abs_le [OF dv(1) span_values(1)] flt_less_abs_le [OF dv(1) span_values(3)] dv(2) span_values(2,4) by linarith+
  consider "(lo, hi) = (lit (- 2.5), lit 2.5)" "\<bar>val dv\<bar> \<le> 5 / 2" | "(lo, hi) = (lit (- 5), lit 5)" "\<bar>val dv\<bar> \<le> 5"
    | "(lo, hi) = (lit (- 10), lit 10)" "\<bar>val dv\<bar> \<le> 10"
    using sp le dv(2) by (auto simp: volt_span_def split: if_splits)
  then show ?thesis
  proof cases
    case 1 then show ?thesis using span_ok_used(3) span_values(5,6) by auto
  next
    case 2 then show ?thesis using span_ok_used(2) span_values(7,8) by auto
  next
    case 3 then show ?thesis using span_ok_used(1) span_values(9,10) by auto
  qed
qed

text \<open>C1: End-to-end accuracy of the voltage source: with unit gains and no offset, for every request up to
  9.999 V and either range mode, what fltSetCommitVoltageSource puts on the bus is one span frame and
  one code frame for DAC 0, the span covers the request, and the programmed output is the inverted
  request up to 0.6 steps of that span plus 5 microvolt, all float roundings included.\<close>

theorem voltage_source_accuracy:
  assumes "unit_voltage_cal (env_V E)" and "\<bar>u\<bar> \<le> 9999000"
  shows "\<exists>ch lo hi c. volt_span d (volt_dac_voltage (env_V E) u) = (ch, lo, hi) \<and> span_ok lo hi
     \<and> wire (snd (adc_setVoltageSource X E u d s)) = wire s @ map (Pair (False, False, True))
         (LTC2758_frame LTC2758_WRITE_SPAN_DAC 0 (push_bit 2 ch) @ LTC2758_frame LTC2758_WRITE_CODE_UPDATE_DAC 0 c)
     \<and> \<bar>ideal_volts c lo hi + val lo + of_int u / 1000000\<bar> \<le> 6 / 10 * val (conv (hi - lo) :: f64) / 262143 + 5 / 1000000"
proof -
  define dv where "dv = volt_dac_voltage (env_V E) u"
  obtain ch lo hi where sp: "volt_span d dv = (ch, lo, hi)" by (cases "volt_span d dv") auto
  have q: "\<bar>(of_int u :: rat)\<bar> \<le> 9999000" using of_int_bound [OF assms(2)] by simp
  note dv = unit_dac_voltage [OF assms, folded dv_def]
  have "\<bar>val dv\<bar> \<le> 10" using dv q by linarith
  note cov = volt_span_covers [OF conjunct1 [OF dv] this sp]
  define c where "c = LTC2758_voltage_to_code (- dv) lo hi"
  have "\<bar>ideal_volts c lo hi + val lo - val (- dv)\<bar> \<le> 6 / 10 * val (conv (hi - lo) :: f64) / 262143"
    unfolding c_def by (rule voltage_to_code_err) (use cov dv in simp_all)
  then have "\<bar>ideal_volts c lo hi + val lo + of_int u / 1000000\<bar> \<le> 6 / 10 * val (conv (hi - lo) :: f64) / 262143 + 5 / 1000000"
    using dv by (simp only: fin_neg) linarith
  moreover have "wire (snd (adc_setVoltageSource X E u d s)) = wire s @ map (Pair (False, False, True))
         (LTC2758_frame LTC2758_WRITE_SPAN_DAC 0 (push_bit 2 ch) @ LTC2758_frame LTC2758_WRITE_CODE_UPDATE_DAC 0 c)"
    by (simp add: adc_setVoltageSource_def Let_def dv_def [symmetric] sp dac_program_wire c_def)
  ultimately show ?thesis using sp cov dv_def by blast
qed

section \<open>Monotone limits and readings\<close>

lemma fmult_commute: "a * b = b * (a :: ('p::len) flt)"
  by (cases a; cases b) (auto simp: times_flt_def fmul_def mult.commute intro: arg_cong2 [where f = rnd])

lemma fmult_mono_right: "a \<le> b \<Longrightarrow> is_fin c \<Longrightarrow> 0 < val c \<Longrightarrow> a * c \<le> b * c"
  using fmult_mono [of a b c] by (simp only: fmult_commute)

lemma of_i_mono: "u \<le> v \<Longrightarrow> (of_i u :: ('p::len) flt) \<le> of_i v"
  unfolding of_i_def by (rule rnd_le) simp

lemma limit_consts:
  "is_fin (lit 1000 :: f64)" "0 < val (lit 1000 :: f64)" "is_fin (lit 10 :: f64)" "0 < val (lit 10 :: f64)"
  "is_fin (conv (R_shunt_1A + R_mosfetSwitch) :: f64)" "0 < val (conv (R_shunt_1A + R_mosfetSwitch) :: f64)"
  "is_fin (lit 10 :: f32)" "val (lit 10 :: f32) = 10" "val (lit 10 :: f64) = 10" "is_fin (lit 0 :: f32)"
  "is_fin (conv (lit 10 - lit 0 :: f32) :: f64)" "0 < val (conv (lit 10 - lit 0 :: f32) :: f64)"
  unfolding R_shunt_1A_def R_mosfetSwitch_def by code_simp+

text \<open>The current limit is monotone: with a positive limit gain, a larger requested limit never
  programs a smaller code into the limit DAC, in either range, clamping at 10 V included.\<close>

theorem current_limit_monotone:
  assumes "u \<le> v" and "is_fin (dacGainCompLim V)" and "0 < val (dacGainCompLim V)"
  shows "uint (LTC2758_voltage_to_code (limit_dac_voltage V r u) (lit 0) (lit 10))
       \<le> uint (LTC2758_voltage_to_code (limit_dac_voltage V r v) (lit 0) (lit 10))"
proof (cases r)
  case AMP1
  have "limit_dac_voltage V AMP1 u \<le> limit_dac_voltage V AMP1 v"
    unfolding limit_dac_voltage_def CURRENT_RANGE.case Let_def
    by (intro fmult_mono_right fmult_mono conv_mono fdiv_mono of_i_mono assms limit_consts)
  then show ?thesis unfolding AMP1 by (rule voltage_to_code_mono) (rule limit_consts)+
next
  case MILLIAMP10
  have m: "milli u \<le> milli v" unfolding milli_def by (intro conv_mono fdiv_mono of_i_mono assms limit_consts)
  have c: "(conv (milli u) :: f64) \<le> conv (milli v)" by (rule conv_mono [OF m])
  have full: "uint (LTC2758_voltage_to_code (lit 10) (lit 0) (lit 10)) = 262143" by code_simp
  show ?thesis
  proof (cases "(conv (milli v) :: f64) > lit 10")
    case True
    then show ?thesis using full code_uint_le by (simp add: MILLIAMP10 limit_dac_voltage_def Let_def)
  next
    case False
    then have "\<not> (conv (milli u) :: f64) > lit 10" using c flt_less_le_trans by blast
    then show ?thesis using False voltage_to_code_mono [OF m limit_consts(10,11,12)]
      by (simp add: MILLIAMP10 limit_dac_voltage_def Let_def)
  qed
qed

theorem current_limit_monotone_witness:
  "uint (LTC2758_voltage_to_code (limit_dac_voltage (cal_zero\<lparr>dacGainCompLim := lit 1\<rparr>) AMP1 10000) (lit 0) (lit 10))
       \<le> uint (LTC2758_voltage_to_code (limit_dac_voltage (cal_zero\<lparr>dacGainCompLim := lit 1\<rparr>) AMP1 500000) (lit 0) (lit 10))"
  by (rule current_limit_monotone) simp_all

lemma gain_mono:
  fixes i j :: f32
  assumes ij: "i \<le> j" and g: "is_fin g" "0 < val g" "is_fin h" "0 < val h"
  shows "(if i > lit 0 then i * g else i * h) \<le> (if j > lit 0 then j * g else j * h)"
proof -
  have nan: "i \<noteq> NaN" "j \<noteq> NaN" using ij by (cases i; cases j; auto simp: less_eq_flt_def)+
  have tot: "\<not> x > lit 0 \<Longrightarrow> x \<noteq> NaN \<Longrightarrow> x \<le> lit 0" "x > lit 0 \<Longrightarrow> lit 0 \<le> x" for x :: f32
    using limit_consts(10) by (cases x; cases "lit 0 :: f32"; auto simp: less_eq_flt_def less_flt_def)+
  have z: "lit 0 * x \<le> lit 0" "lit 0 \<le> lit 0 * x" if "is_fin x" for x :: f32
    using that rnd_exact [OF repr_in_f32_int [of 0]] by (simp_all add: fin_mult fin_less_eq)
  consider "i > lit 0" "j > lit 0" | "\<not> i > lit 0" "\<not> j > lit 0" | "\<not> i > lit 0" "j > lit 0" | "i > lit 0" "\<not> j > lit 0" by blast
  then show ?thesis
  proof cases
    case 3
    have "i * h \<le> lit 0 * h" by (rule fmult_mono_right [OF tot(1) g(3,4)]) (use 3 nan in simp_all)
    moreover have "lit 0 * g \<le> j * g" by (rule fmult_mono_right [OF tot(2) g(1,2)]) (use 3 in simp_all)
    ultimately have "i * h \<le> j * g" using z(1) [OF g(3)] z(2) [OF g(1)] by (metis flt_le_trans)
    then show ?thesis using 3 by simp
  next
    case 4
    then show ?thesis using ij flt_less_le_trans by blast
  qed (simp_all add: fmult_mono_right ij g)
qed

lemma shunt_consts:
  "is_fin (lit 0.4 :: f64)" "0 < val (lit 0.4 :: f64)" "is_fin (conv R_shunt_10mA :: f64)" "0 < val (conv R_shunt_10mA :: f64)"
  "is_fin (R_shunt_1A + R_mosfetSwitch)" "0 < val (R_shunt_1A + R_mosfetSwitch)"
  unfolding R_shunt_10mA_def R_shunt_1A_def R_mosfetSwitch_def by code_simp+

definition positive_current_gains :: "cal \<Rightarrow> bool" where
  "positive_current_gains C \<longleftrightarrow> (\<forall>g \<in> {adcGainCompPos C, adcGainCompNeg C, adcGainCompPos2 C, adcGainCompNeg2 C}. is_fin g \<and> 0 < val g)"

text \<open>The measured current is monotone in the converter reading, in both ranges: the separate gains
  of the two signs meet at zero, and no rounding of the chain reverses an order.\<close>

theorem current_reading_monotone:
  assumes "rd1 \<le> rd2" and g: "positive_current_gains (env_C E)" and "is_fin (vref * lit 1000)"
    and "is_fin (nullValueCur (env_store E) ! range_index r)"
  shows "current_of_reading E r rd1 vref \<le> current_of_reading E r rd2 vref"
proof -
  note G = g [unfolded positive_current_gains_def, simplified]
  have v: "((conv rd1 :: f64) - vref * lit 1000) / lit 0.4 \<le> (conv rd2 - vref * lit 1000) / lit 0.4"
    by (intro fdiv_mono fsub_mono conv_mono assms shunt_consts)
  show ?thesis
  proof (cases r)
    case MILLIAMP10
    show ?thesis unfolding current_of_reading_def Let_def MILLIAMP10 CURRENT_RANGE.case
      by (intro fsub_mono conv_mono fdiv_mono gain_mono v shunt_consts limit_consts assms(4) [unfolded MILLIAMP10]) (use G in simp_all)
  next
    case AMP1
    show ?thesis unfolding current_of_reading_def Let_def AMP1 CURRENT_RANGE.case
      by (intro fsub_mono conv_mono fdiv_mono gain_mono v shunt_consts limit_consts assms(4) [unfolded AMP1]) (use G in simp_all)
  qed
qed

section \<open>Range switches\<close>

text \<open>The two frames that program the limit DAC for a limit in a range.\<close>

definition limit_frames :: "cal \<Rightarrow> CURRENT_RANGE \<Rightarrow> int \<Rightarrow> byte list" where
  "limit_frames V r uA = LTC2758_frame LTC2758_WRITE_SPAN_DAC 0 (push_bit 2 1)
     @ LTC2758_frame LTC2758_WRITE_CODE_UPDATE_DAC 0 (LTC2758_voltage_to_code (limit_dac_voltage V r uA) (lit 0) (lit 10))"

lemma limit_wire:
  "wire (snd (adc_setCurrentLimit X E u s)) = wire s @ map (Pair (False, True, False)) (limit_frames (env_V E) (s_current_range s) u)"
  by (simp add: adc_setCurrentLimit_def dac_program_wire limit_frames_def)

lemma setGPIO_wire:
  "wire (adc_setGPIO X nr on s) = wire s @ map (Pair (False, False, False))
     (take (reg_read_len s (AD7176_regs s ! 6)) [reg_cmd s 6, 0, 0, 0, 0, 0, 0, 0]
      @ reg_write_buf (useCRC s) (mk_reg 0x06 2 0
          (and (rvalue (AD7176_regs (snd (AD7176_ReadRegister X 6 s)) ! 6)) 0xfff0
           + (let g0 = (if nr = 0 then on else s_gpio0 s); g1 = (if nr = 1 then on else s_gpio1 s)
              in if \<not> g0 \<and> \<not> g1 then 0xC else if g0 \<and> \<not> g1 then 0xD else if \<not> g0 \<and> g1 then 0xE else 0xF)) []))"
  by (simp add: adc_setGPIO_def Let_def ReadRegister_frame)

lemma setGPIO_to_adc: "\<exists>pre. wire (adc_setGPIO X nr on s) = wire s @ map (Pair (False, False, False)) pre"
  unfolding setGPIO_wire by blast

lemma limit_pin4: "pins (snd (adc_setCurrentLimit X E u t)) 4 = pins t 4" "pins (adc_setGPIO X nr on t) 4 = pins t 4"
  by (simp_all add: adc_setCurrentLimit_def adc_setGPIO_def Let_def ReadRegister_frame)

text \<open>C26: Switching the current range while sourcing voltage reprograms the limit DAC for the new range:
  whatever else goes over the bus goes to the converter only, and exactly one span and one code frame
  reach DAC 1, computed from the present limit under the new range.  Towards 1 A they are sent after
  the sense relay pin is switched on, towards 10 mA before it is switched off.\<close>

theorem setCurrentRange_reprograms_limit:
  "\<exists>pre post. wire (adc_setCurrentRange X E r SOURCE_VOLTAGE s) = wire s @ map (Pair (False, False, False)) pre
       @ map (Pair (False, True, False)) (limit_frames (env_V E) r (s_setLimit_micro s)) @ map (Pair (False, False, False)) post
     \<and> pins (adc_setCurrentRange X E r SOURCE_VOLTAGE s) 4 = (r = AMP1)
     \<and> (if r = AMP1 then post = [] else pre = [])"
proof (cases r)
  case AMP1
  define s1 where "s1 = digitalWrite X 4 True (s\<lparr>s_current_range := AMP1\<rparr>)"
  have e: "adc_setCurrentRange X E r SOURCE_VOLTAGE s = snd (adc_setCurrentLimit X E (s_setLimit_micro (adc_setGPIO X 1 True s1)) (adc_setGPIO X 1 True s1))"
    by (simp add: adc_setCurrentRange_def AMP1 Let_def s1_def)
  obtain pre where g: "wire (adc_setGPIO X 1 True s1) = wire s @ map (Pair (False, False, False)) pre"
    using setGPIO_to_adc [of X 1 True s1] by (auto simp: s1_def)
  have f: "s_setLimit_micro (adc_setGPIO X 1 True s1) = s_setLimit_micro s" "s_current_range (adc_setGPIO X 1 True s1) = AMP1" "pins s1 4"
    by (simp_all add: s1_def)
  show ?thesis unfolding e limit_wire g f(1,2) limit_pin4 using f(3) AMP1 by (intro exI [of _ pre] exI [of _ "[]"]) simp
next
  case MILLIAMP10
  define s1 where "s1 = snd (adc_setCurrentLimit X E (s_setLimit_micro s) (s\<lparr>s_current_range := MILLIAMP10\<rparr>))"
  define s2 where "s2 = digitalWrite X 4 False s1"
  have e: "adc_setCurrentRange X E r SOURCE_VOLTAGE s = adc_setGPIO X 1 False s2"
    by (simp add: adc_setCurrentRange_def MILLIAMP10 Let_def s1_def s2_def)
  have "wire s2 = wire s @ map (Pair (False, True, False)) (limit_frames (env_V E) r (s_setLimit_micro s))" "\<not> pins s2 4"
    by (simp_all add: s2_def s1_def limit_wire MILLIAMP10)
  moreover obtain post where "wire (adc_setGPIO X 1 False s2) = wire s2 @ map (Pair (False, False, False)) post"
    using setGPIO_to_adc [of X 1 False s2] by auto
  ultimately show ?thesis unfolding e limit_pin4 using MILLIAMP10 by (intro exI [of _ "[]"] exI [of _ post]) simp
qed

section \<open>Start-up and GPIO as they are\<close>

text \<open>The span bits S3 to S0 of a span frame: the low half of its third byte.\<close>

definition frame_span :: "byte list \<Rightarrow> byte" where
  "frame_span f = and (f ! 2) 0x0F"

text \<open>initDAC leaves both DACs in span 0 (0 to 5 V) although it documents -10 V to 10 V: the span
  number is not shifted to the span bits, as the other span writes do, so the span bits of both frames are 0.\<close>

theorem initDAC_selects_span_0:
  "wire (initDAC X s) = wire s
      @ map (Pair (False, False, True)) (LTC2758_frame LTC2758_WRITE_SPAN_DAC ADDRESS_DAC_ALL 3 @ LTC2758_frame LTC2758_WRITE_CODE_UPDATE_DAC 0 0)
      @ map (Pair (False, True, False)) (LTC2758_frame LTC2758_WRITE_SPAN_DAC ADDRESS_DAC_ALL 3 @ LTC2758_frame LTC2758_WRITE_CODE_UPDATE_DAC 0 0x6666)
   \<and> frame_span (LTC2758_frame LTC2758_WRITE_SPAN_DAC ADDRESS_DAC_ALL 3) = 0
   \<and> frame_span (LTC2758_frame LTC2758_WRITE_SPAN_DAC 0 (push_bit 2 3)) = 3"
proof (intro conjI)
  show "frame_span (LTC2758_frame LTC2758_WRITE_SPAN_DAC ADDRESS_DAC_ALL 3) = 0"
    "frame_span (LTC2758_frame LTC2758_WRITE_SPAN_DAC 0 (push_bit 2 3)) = 3" by code_simp+
qed (simp add: initDAC_def)

text \<open>setGPIO does not keep the other bits of the GPIO register: the upper twelve bits it writes are
  those read from the ID register (table entry 6), whatever the GPIO register (entry 5) holds.\<close>

theorem setGPIO_writes_id_bits:
  assumes "rvalue (AD7176_regs (snd (AD7176_ReadRegister X 6 s)) ! 6) = ident"
  shows "\<exists>b pre. b \<in> {0xC, 0xD, 0xE, 0xF} \<and> wire (adc_setGPIO X nr on s) = wire s @ map (Pair (False, False, False))
     (pre @ reg_write_buf (useCRC s) (mk_reg 0x06 2 0 (and ident 0xfff0 + b) []))"
  unfolding setGPIO_wire assms by (auto simp: Let_def)

section \<open>A concrete unit\<close>

text \<open>The object before init, with the member initialisers of the headers.\<close>

definition smu717_initial :: "'d \<Rightarrow> 'd smu717" where
  "smu717_initial d = \<lparr>pins = (\<lambda>_. False), dev = d, wire = [], AD7176_spisettings = (0, MSBFIRST, SPI_MODE0),
     AD7176_regs = initial_regs, useCRC = disable, dataStatus = 0, s_setLimit_micro = 0, s_setValue_micro = 0,
     s_vref = Fin 0, s_VFSR = Fin 0, s_current_range = AMP1, s_samplingRate = 5, s_oldSamplingRate = 5,
     s_oldShortSetting = False, s_shortSetting = False, s_oldInternalRef = False, s_internalRef = False,
     s_voltageMeasurementEnabled = True, s_currentMeasurementEnabled = True, s_deviceTypeId = 0, s_operationType = SOURCE_VOLTAGE,
     s_DAC_RANGE_LOW = Fin 0, s_DAC_RANGE_HIGH = Fin 0, s_voltageMeasurementGainX2 = False, s_gpio0 = False, s_gpio1 = False\<rparr>"

definition env_sample :: "cal \<Rightarrow> f32 \<Rightarrow> env" where
  "env_sample c i = \<lparr>env_V = c, env_C = c, env_store = \<lparr>cs_eeprom = (\<lambda>_. 0), nullValueVol = [Fin 0, Fin 0], nullValueCur = [Fin 0, Fin 0]\<rparr>,
     env_rawCurrent = i, env_autoNull = False, env_millis = 0, env_micros = 0\<rparr>"

definition cal_unit :: cal where
  "cal_unit = cal_zero\<lparr>dacZeroComp := lit 0, dacGainCompPos := lit 1, dacGainCompPos2 := lit 1, dacGainCompNeg := lit 1, dacGainCompNeg2 := lit 1,
     adcGainCompPos := lit 1, adcGainCompNeg := lit 1, adcGainCompPos2 := lit 1, adcGainCompNeg2 := lit 1\<rparr>"

theorem setGPIO_writes_id_bits_witness:
  "\<exists>b pre. b \<in> {0xC, 0xD, 0xE, 0xF} \<and> wire (adc_setGPIO (\<lambda>_ d. (0xAB, d)) 1 True (smu717_initial ())) =
     map (Pair (False, False, False)) (pre @ reg_write_buf disable (mk_reg 0x06 2 0 (and 0xABAB 0xfff0 + b) []))"
proof -
  have "rvalue (AD7176_regs (snd (AD7176_ReadRegister (\<lambda>_ d. (0xAB, d)) 6 (smu717_initial ()))) ! 6) = 0xABAB" by code_simp
  from setGPIO_writes_id_bits [OF this, of 1 True] show ?thesis by (simp add: smu717_initial_def)
qed

theorem handleAutoCurrentRange_hysteresis_witness:
  "view (hal717 (\<lambda>_ d. (0, d))) (adc_handleAutoCurrentRange (\<lambda>_ d. (0, d)) (env_sample cal_unit (Fin 2)) True (smu717_initial ())) =
     (view (hal717 (\<lambda>_ d. (0, d))) (smu717_initial ()))\<lparr>crange := MILLIAMP10\<rparr>"
proof -
  have "auto_range \<bar>val (env_rawCurrent (env_sample cal_unit (Fin 2)))\<bar> (s_current_range (smu717_initial ())) = MILLIAMP10" by code_simp
  then show ?thesis
    using handleAutoCurrentRange_hysteresis [of "env_sample cal_unit (Fin 2)" "\<lambda>_ d. (0, d)" "smu717_initial ()", THEN conjunct1]
    by (simp add: env_sample_def cal_unit_def cal_zero_def)
qed

theorem voltage_source_accuracy_witness:
  "\<exists>ch lo hi c. volt_span True (volt_dac_voltage cal_unit 1500000) = (ch, lo, hi) \<and> span_ok lo hi
     \<and> wire (snd (adc_setVoltageSource (\<lambda>_ d. (0, d)) (env_sample cal_unit (Fin 0)) 1500000 True (smu717_initial ()))) = map (Pair (False, False, True))
         (LTC2758_frame LTC2758_WRITE_SPAN_DAC 0 (push_bit 2 ch) @ LTC2758_frame LTC2758_WRITE_CODE_UPDATE_DAC 0 c)
     \<and> \<bar>ideal_volts c lo hi + val lo + 1500000 / 1000000\<bar> \<le> 6 / 10 * val (conv (hi - lo) :: f64) / 262143 + 5 / 1000000"
proof -
  have "unit_voltage_cal (env_V (env_sample cal_unit (Fin 0)))" by (simp add: unit_voltage_cal_def cal_unit_def env_sample_def cal_zero_def)
  from voltage_source_accuracy [OF this, of 1500000 True "\<lambda>_ d. (0, d)" "smu717_initial ()"]
  show ?thesis by (simp add: env_sample_def smu717_initial_def)
qed

theorem current_reading_monotone_witness:
  "current_of_reading (env_sample cal_unit (Fin 0)) AMP1 (lit 5000) (lit 5.013) \<le> current_of_reading (env_sample cal_unit (Fin 0)) AMP1 (lit 6000) (lit 5.013)"
proof (rule current_reading_monotone)
  show "positive_current_gains (env_C (env_sample cal_unit (Fin 0)))" by (simp add: positive_current_gains_def env_sample_def cal_unit_def)
qed code_simp+

end
