(* ===== verification/HalDummy.thy ===== *)
theory HalDummy
  imports SmuHal
begin

text \<open>
  The simulator behind the hardware abstraction layer (src/src/SMU_HAL_dummy.cpp): a resistive
  load, simulated noise and compliance.  The random numbers are a stream in the state
  (\<open>rand_seq\<close>, the raw values of the generator, read at \<open>rand_pos\<close>); the clocks come from the
  environment.
\<close>

section \<open>State\<close>

record sim =
  d_lastSampleMilli :: u32
  d_volt_current :: int
  d_drift :: f32
  d_driftTimer :: u32
  d_driftDirection :: int
  d_compliance :: bool
  d_current_range :: CURRENT_RANGE
  d_samplingRate :: int
  d_simulatedLoad :: f32
  d_simulatedOffset :: f32
  d_voltageMeasurementEnabled :: bool
  d_currentMeasurementEnabled :: bool
  d_operationType :: OPERATION_TYPE
  d_DAC_RANGE_LOW :: f32
  d_setLimit_micro :: int
  d_setValue_micro :: int
  rand_seq :: "nat \<Rightarrow> nat"
  rand_pos :: nat

text \<open>\<open>random (n)\<close>: the next raw value modulo n.\<close>

definition random_below :: "nat \<Rightarrow> sim \<Rightarrow> int \<times> sim" where
  "random_below n s = (int (rand_seq s (rand_pos s) mod n), s\<lparr>rand_pos := rand_pos s + 1\<rparr>)"

section \<open>Methods\<close>

definition dummy_setVoltageSource :: "int \<Rightarrow> bool \<Rightarrow> sim \<Rightarrow> int \<times> sim" where
  "dummy_setVoltageSource voltage_uV dynamicRange s =
     (voltage_uV, s\<lparr>d_operationType := SOURCE_VOLTAGE, d_setValue_micro := voltage_uV\<rparr>)"

definition dummy_setCurrentRange :: "CURRENT_RANGE \<Rightarrow> OPERATION_TYPE \<Rightarrow> sim \<Rightarrow> sim" where
  "dummy_setCurrentRange r t s = s\<lparr>d_current_range := r\<rparr>"

definition dummy_setSamplingRate :: "int \<Rightarrow> sim \<Rightarrow> sim" where
  "dummy_setSamplingRate v s = s\<lparr>d_samplingRate := v\<rparr>"

definition dummy_setCurrentSource :: "int \<Rightarrow> sim \<Rightarrow> int \<times> sim" where
  "dummy_setCurrentSource current_uA s =
     (current_uA, s\<lparr>d_setValue_micro := current_uA, d_operationType := SOURCE_CURRENT\<rparr>)"

definition dummy_use100uVSetResolution :: "sim \<Rightarrow> bool" where
  "dummy_use100uVSetResolution s \<longleftrightarrow> \<not> feq (conv (d_DAC_RANGE_LOW s) :: f64) (lit (- 10))"

definition dummy_setCurrentLimit :: "int \<Rightarrow> sim \<Rightarrow> int \<times> sim" where
  "dummy_setCurrentLimit current_uA s = (current_uA, s\<lparr>d_setLimit_micro := current_uA\<rparr>)"

definition dummy_setVoltageLimit :: "int \<Rightarrow> sim \<Rightarrow> int \<times> sim" where
  "dummy_setVoltageLimit voltage_uV s = (voltage_uV, s\<lparr>d_setLimit_micro := voltage_uV\<rparr>)"

definition dummy_init :: "env \<Rightarrow> sim \<Rightarrow> int \<times> sim" where
  "dummy_init E s = (0, s\<lparr>d_lastSampleMilli := env_millis E\<rparr>)"

text \<open>
  The period \<open>1000000 / samplingRate\<close> is an integer division (0 for rate 0, as the processor
  gives); the time comparison is made in \<open>double\<close>.
\<close>

definition dummy_dataReady :: "env \<Rightarrow> sim \<Rightarrow> int \<times> sim" where
  "dummy_dataReady E s =
     (let r = d_samplingRate s;
          waitMicro = of_i (sgn r * (1000000 div \<bar>r\<bar>)) :: f64
      in if of_i (uint (d_lastSampleMilli s)) + waitMicro > of_i (uint (env_micros E)) then (- 1, s)
         else let v = (if d_volt_current s = 0 then 1 else 0)
              in (v, s\<lparr>d_lastSampleMilli := env_micros E, d_volt_current := v\<rparr>))"

definition beyond :: "int \<Rightarrow> f32 \<Rightarrow> bool" where
  "beyond lm v \<longleftrightarrow> (of_i \<bar>lm\<bar> :: f64) < \<bar>conv v * lit 1000\<bar>"

definition dummy_drift :: "env \<Rightarrow> sim \<Rightarrow> sim" where
  "dummy_drift E s =
     (if sint (d_driftTimer s + 10000) > sint (env_millis E)
      then let (r, s1) = random_below 2 s
           in s1\<lparr>d_driftDirection := (if r = 0 then - 1 else 1), d_driftTimer := env_millis E\<rparr>
      else s)"

definition dummy_measureMilliVoltage :: "env \<Rightarrow> sim \<Rightarrow> f64 \<times> sim" where
  "dummy_measureMilliVoltage E s0 =
     (let (rn, s1) = random_below 9 s0;
          inoise = 5 - rn;
          noise0 = conv ((conv (of_i inoise :: f32) :: f64) / lit 1000) :: f32;
          noise = conv ((conv noise0 :: f64) * (lit 1 + of_i (d_samplingRate s1) / lit 10)) :: f32;
          s = dummy_drift E s1;
          ms = (of_i (d_setValue_micro s) :: f64) / lit 1000;
          now_mV = (if d_operationType s = SOURCE_CURRENT then conv (conv (d_simulatedLoad s) * ms) else conv ms) :: f32;
          comp = (if d_operationType s = SOURCE_CURRENT then beyond (d_setLimit_micro s) now_mV else d_compliance s);
          tail = (\<lambda>v :: f64. v + conv noise + conv (d_simulatedOffset s) + conv (d_drift s));
          v = (if comp \<and> d_operationType s = SOURCE_VOLTAGE
               then tail (conv (d_simulatedLoad s * of_i (d_setLimit_micro s)) / lit 1000)
               else if comp \<and> d_operationType s = SOURCE_CURRENT then tail (of_i (d_setLimit_micro s) / lit 1000)
               else conv (now_mV + noise + d_simulatedOffset s + d_drift s))
      in (v, s\<lparr>d_compliance := comp\<rparr>))"

definition dummy_measureCurrent :: "env \<Rightarrow> CURRENT_RANGE \<Rightarrow> sim \<Rightarrow> f64 \<times> sim" where
  "dummy_measureCurrent E r s0 =
     (let (rn, s) = random_below 9 s0;
          noise0 = conv ((of_i (1 + rn) :: f64) / lit 1000) :: f32;
          noise = (if d_current_range s = MILLIAMP10 then conv ((conv noise0 :: f64) / lit 500) else noise0) :: f32;
          ms = (of_i (d_setValue_micro s) :: f64) / lit 1000;
          nowI = (if d_operationType s = SOURCE_VOLTAGE then conv (ms / conv (d_simulatedLoad s)) else conv ms) :: f32;
          comp = (if d_operationType s = SOURCE_VOLTAGE then beyond (d_setLimit_micro s) nowI else d_compliance s);
          v = (if comp \<and> d_operationType s = SOURCE_VOLTAGE then of_i (d_setLimit_micro s) / lit 1000 + conv noise
               else if comp \<and> d_operationType s = SOURCE_CURRENT
               then of_i (d_setLimit_micro s) / lit 1000 / conv (d_simulatedLoad s) + conv noise
               else conv (nowI + noise))
      in (v, s\<lparr>d_compliance := comp\<rparr>))"

section \<open>The method table and its contract\<close>

definition hal_dummy :: "sim hal" where
  "hal_dummy = \<lparr>fltSetCommitVoltageSource = (\<lambda>E. dummy_setVoltageSource), fltSetCommitCurrentSource = (\<lambda>E. dummy_setCurrentSource),
     fltSetCommitCurrentLimit = (\<lambda>E. dummy_setCurrentLimit), fltSetCommitVoltageLimit = (\<lambda>E. dummy_setVoltageLimit),
     getSetValue_micro = d_setValue_micro, getLimitValue_micro = d_setLimit_micro,
     measureMilliVoltage = dummy_measureMilliVoltage, measureCurrent = dummy_measureCurrent,
     updateSettings = (\<lambda>s. s), getCurrentRange = d_current_range, setCurrentRange = (\<lambda>E. dummy_setCurrentRange),
     setSamplingRate = dummy_setSamplingRate, getSamplingRate = d_samplingRate, hasCompliance = d_compliance,
     dataReady = dummy_dataReady, setGPIO = (\<lambda>nr on s. s), use100uVSetResolution = dummy_use100uVSetResolution,
     shortAdcInput = (\<lambda>b s. s), internalRefInput = (\<lambda>b s. s),
     enableVoltageMeasurement = (\<lambda>b s. s\<lparr>d_voltageMeasurementEnabled := b\<rparr>),
     enableCurrentMeasurement = (\<lambda>b s. s\<lparr>d_currentMeasurementEnabled := b\<rparr>),
     isVoltageMeasurementEnabled = d_voltageMeasurementEnabled, isCurrentMeasurementEnabled = d_currentMeasurementEnabled,
     handleAutoCurrentRange = (\<lambda>E b s. s), hal_operationType = d_operationType\<rparr>"

lemma drift_view [simp]:
  "d_setLimit_micro (dummy_drift E s) = d_setLimit_micro s" "d_setValue_micro (dummy_drift E s) = d_setValue_micro s"
  "d_current_range (dummy_drift E s) = d_current_range s" "d_samplingRate (dummy_drift E s) = d_samplingRate s"
  "d_operationType (dummy_drift E s) = d_operationType s"
  by (simp_all add: dummy_drift_def random_below_def)

lemma measure_view:
  "view hal_dummy (snd (dummy_measureMilliVoltage E s)) = view hal_dummy s"
  "view hal_dummy (snd (dummy_measureCurrent E r s)) = view hal_dummy s"
  by (simp_all add: view_def hal_dummy_def dummy_measureMilliVoltage_def dummy_measureCurrent_def Let_def random_below_def)

interpretation hdummy: smu_hal hal_dummy
  by unfold_locales (simp_all add: measure_view, simp_all add: view_def hal_dummy_def dummy_setVoltageSource_def dummy_setCurrentSource_def
    dummy_setCurrentLimit_def dummy_setVoltageLimit_def dummy_setCurrentRange_def dummy_setSamplingRate_def
    dummy_measureMilliVoltage_def dummy_measureCurrent_def Let_def random_below_def)

definition dummy_initial :: "(nat \<Rightarrow> nat) \<Rightarrow> u32 \<Rightarrow> sim" where
  "dummy_initial rs now = \<lparr>d_lastSampleMilli = 0, d_volt_current = 0, d_drift = Fin 0, d_driftTimer = now, d_driftDirection = 1,
     d_compliance = False, d_current_range = AMP1, d_samplingRate = 5, d_simulatedLoad = lit 100, d_simulatedOffset = lit 0.110,
     d_voltageMeasurementEnabled = True, d_currentMeasurementEnabled = True, d_operationType = SOURCE_VOLTAGE,
     d_DAC_RANGE_LOW = lit 10, d_setLimit_micro = 0, d_setValue_micro = 0, rand_seq = rs, rand_pos = 0\<rparr>"

text \<open>The simulator reports compliance exactly when the set voltage drives more than the limit through
  its load: a current measurement while sourcing voltage sets the flag to that comparison, then
  returns the limit (plus noise) when it is set and the load current (plus noise) otherwise, and no
  setting changes.\<close>

theorem dummy_compliance:
  assumes "d_operationType s = SOURCE_VOLTAGE"
  shows "let i = conv ((of_i (d_setValue_micro s) :: f64) / lit 1000 / conv (d_simulatedLoad s)) :: f32;
             (v, s') = dummy_measureCurrent E r s
         in d_compliance s' = beyond (d_setLimit_micro s) i
          \<and> (\<exists>noise. v = (if beyond (d_setLimit_micro s) i then of_i (d_setLimit_micro s) / lit 1000 + conv (noise :: f32) else conv (i + noise)))
          \<and> view hal_dummy s' = view hal_dummy s"
  unfolding Let_def case_prod_unfold measure_view(2)
  by (auto simp: assms dummy_measureCurrent_def random_below_def Let_def)

theorem dummy_compliance_witness:
  "d_compliance (snd (dummy_measureCurrent (\<lparr>env_V = cal_zero, env_C = cal_zero, env_store = \<lparr>cs_eeprom = (\<lambda>_. 0), nullValueVol = [], nullValueCur = []\<rparr>,
     env_rawCurrent = Fin 0, env_autoNull = False, env_millis = 0, env_micros = 0\<rparr>) AMP1 ((dummy_initial (\<lambda>_. 4) 0)\<lparr>d_setValue_micro := 5000000, d_setLimit_micro := 20000\<rparr>)))"
proof -
  have b: "beyond 20000 (conv ((of_i 5000000 :: f64) / lit 1000 / conv (lit 100 :: f32)) :: f32)" by code_simp
  define s where "s = (dummy_initial (\<lambda>_. 4) 0)\<lparr>d_setValue_micro := 5000000, d_setLimit_micro := 20000\<rparr>"
  have "d_operationType s = SOURCE_VOLTAGE" "d_setValue_micro s = 5000000" "d_setLimit_micro s = 20000" "d_simulatedLoad s = lit 100"
    by (simp_all add: s_def dummy_initial_def)
  with dummy_compliance [of s] b show ?thesis by (simp add: Let_def case_prod_unfold s_def)
qed

end
