(* ===== verification/Hals.thy ===== *)
theory Hals
  imports Hal717x HalDummy
begin

text \<open>
  The two implementations of the hardware abstraction layer against each other.  Both refine the
  same settings machine (theory SmuHal), so they agree on the settings for the requests that machine
  has: set value, limit, range and sampling rate.  handleAutoCurrentRange is not one of them, and there
  the two part: the hardware switches its range with the measured current, the simulator does nothing.
\<close>

text \<open>Started alike and given the same requests, both report the same settings, whatever their
  environments and chips do.\<close>

lemma same_requests_same_view:
  assumes "view (hal717 X) s = view hal_dummy d"
  shows "view (hal717 X) (fold (perform (hal717 X) E) qs s) = view hal_dummy (fold (perform hal_dummy E') qs d)"
  unfolding h717.run_refines hdummy.run_refines by (simp only: assms)

text \<open>The automatic range is outside that agreement: at 2 mA the hardware leaves the 1 A range it starts
  in, the simulator stays there.\<close>

theorem automatic_range_differs:
  "getCurrentRange (hal717 X) (handleAutoCurrentRange (hal717 X) (env_sample cal_unit (Fin 2)) True (smu717_initial d)) = MILLIAMP10
   \<and> getCurrentRange hal_dummy (handleAutoCurrentRange hal_dummy (env_sample cal_unit (Fin 2)) True (dummy_initial rs 0)) = AMP1"
proof -
  have "\<bar>Fin 2\<bar> < max_current_10mA_range - lit 0.5" "\<not> \<bar>Fin 2\<bar> > max_current_10mA_range" by code_simp+
  then show ?thesis
    by (simp add: hal717_def hal_dummy_def adc_handleAutoCurrentRange_def env_sample_def cal_unit_def cal_zero_def
        smu717_initial_def dummy_initial_def Let_def)
qed

end
