(* ===== verification/Filters.thy ===== *)
theory Filters
  imports Flt
begin

text \<open>
  The averaging filter of the measurements (src/src/Filters.cpp) and the minimum/maximum tracker
  of src/src/SimpleStats.cpp.  Arrays are lists of the declared length, updated in place; the float
  sums are accumulated in the order of the loops.
\<close>

section \<open>FiltersClass\<close>

definition FILTER_MAX_LENGTH :: int where "FILTER_MAX_LENGTH = 1000"

record filters =
  meanRaws :: "f32 list"
  mean_samples :: int
  filter_id :: int
  filterSize :: int
  fmean :: f32

definition filters_init :: "int \<Rightarrow> filters \<Rightarrow> filters" where
  "filters_init fid s = s\<lparr>filter_id := fid, filterSize := 5, meanRaws := replicate (nat FILTER_MAX_LENGTH) (lit 0)\<rparr>"

definition setFilterSize :: "int \<Rightarrow> filters \<Rightarrow> filters" where
  "setFilterSize sz s = (if sz < 1 then s\<lparr>filterSize := 1\<rparr>
     else if sz \<le> FILTER_MAX_LENGTH then s\<lparr>filterSize := sz\<rparr> else s)"

definition shift_raws :: "nat \<Rightarrow> f32 list \<Rightarrow> f32 list" where
  "shift_raws fz raws = fold (\<lambda>i r. r[i := r ! (i - 1)]) (rev [1 ..< fz]) raws"

definition sum_raws :: "nat \<Rightarrow> f32 list \<Rightarrow> f32" where
  "sum_raws fz raws = fold (\<lambda>i tot. tot + raws ! i) [0 ..< fz] (lit 0)"

definition updateMean :: "f32 \<Rightarrow> bool \<Rightarrow> filters \<Rightarrow> f32 \<times> filters" where
  "updateMean v moving s =
     (if \<not> moving \<and> mean_samples s < filterSize s
      then (fmean s, s\<lparr>meanRaws := (meanRaws s)[nat (mean_samples s) := v], mean_samples := mean_samples s + 1\<rparr>)
      else let fz = nat (filterSize s);
               raws = (shift_raws fz (meanRaws s))[0 := v];
               m = sum_raws fz raws / of_i (filterSize s)
           in (m, s\<lparr>mean_samples := (if moving then mean_samples s else 0), meanRaws := raws, fmean := m\<rparr>))"

subsection \<open>The array indices stay inside the buffer\<close>

definition filters_ok :: "filters \<Rightarrow> bool" where
  "filters_ok s \<longleftrightarrow> length (meanRaws s) = nat FILTER_MAX_LENGTH \<and> 1 \<le> filterSize s \<and> filterSize s \<le> FILTER_MAX_LENGTH
     \<and> 0 \<le> mean_samples s \<and> mean_samples s \<le> FILTER_MAX_LENGTH"

lemma shift_raws_length [simp]: "length (shift_raws fz raws) = length raws"
proof -
  have "length (fold (\<lambda>i r. r[i := r ! (i - 1)]) ks raws) = length raws" for ks
    by (induction ks arbitrary: raws) simp_all
  then show ?thesis by (simp add: shift_raws_def)
qed

lemma shift_fold_nth:
  "n \<le> length raws \<Longrightarrow> j < length raws \<Longrightarrow>
     fold (\<lambda>i r. r[i := r ! (i - 1)]) (rev [1 ..< n]) raws ! j = (if 1 \<le> j \<and> j < n then raws ! (j - 1) else raws ! j)"
proof (induction n arbitrary: raws)
  case (Suc n)
  show ?case
  proof (cases "n = 0")
    case False
    have "fold (\<lambda>i r. r[i := r ! (i - 1)]) (rev [1 ..< Suc n]) raws =
        fold (\<lambda>i r. r[i := r ! (i - 1)]) (rev [1 ..< n]) (raws[n := raws ! (n - 1)])"
      using False by simp
    then show ?thesis using Suc.IH [of "raws[n := raws ! (n - 1)]"] Suc.prems False
      by (auto simp: nth_list_update less_Suc_eq)
  qed simp
qed simp

lemma shift_raws_nth:
  "n \<le> length raws \<Longrightarrow> j < length raws \<Longrightarrow> shift_raws n raws ! j = (if 1 \<le> j \<and> j < n then raws ! (j - 1) else raws ! j)"
  unfolding shift_raws_def by (rule shift_fold_nth)

lemma shift_raws_eq:
  assumes "1 \<le> fz" "fz \<le> length raws"
  shows "(shift_raws fz raws)[0 := v] = v # take (fz - 1) raws @ drop fz raws"
proof (rule nth_equalityI)
  show "length ((shift_raws fz raws)[0 := v]) = length (v # take (fz - 1) raws @ drop fz raws)" using assms by simp
next
  fix j assume j: "j < length ((shift_raws fz raws)[0 := v])"
  show "(shift_raws fz raws)[0 := v] ! j = (v # take (fz - 1) raws @ drop fz raws) ! j"
    using assms j shift_raws_nth [OF assms(2), of j] by (cases j) (auto simp: nth_append)
qed

lemma sum_raws_fold: "fz \<le> length raws \<Longrightarrow> sum_raws fz raws = fold (\<lambda>x tot. tot + x) (take fz raws) (lit 0)"
proof -
  assume fz: "fz \<le> length raws"
  have "fold (\<lambda>i tot. tot + raws ! i) ks t = fold (\<lambda>x tot. tot + x) (map ((!) raws) ks) t" for ks t
    by (induction ks arbitrary: t) simp_all
  moreover have "map ((!) raws) [0 ..< fz] = take fz raws" using fz by (intro nth_equalityI) simp_all
  ultimately show ?thesis by (simp add: sum_raws_def)
qed

text \<open>Every operation of the filter keeps its invariant, so no index of updateMean or of its
  shift and sum loops ever leaves the 1000 element buffer, whatever sizes are requested.\<close>

theorem filters_invariant:
  assumes "filters_ok s"
  shows "filters_ok (filters_init k s) \<and> filters_ok (setFilterSize n s) \<and> filters_ok (snd (updateMean v moving s))"
  using assms by (auto simp: filters_ok_def filters_init_def setFilterSize_def updateMean_def FILTER_MAX_LENGTH_def Let_def)

subsection \<open>The moving window\<close>

definition window :: "filters \<Rightarrow> f32 list" where
  "window s = take (nat (filterSize s)) (meanRaws s)"

definition window_mean :: "filters \<Rightarrow> f32" where
  "window_mean s = fold (\<lambda>x tot. tot + x) (window s) (lit 0) / of_i (filterSize s)"

lemma updateMean_window:
  assumes "filters_ok s"
  shows "window (snd (updateMean v True s)) = take (nat (filterSize s)) (v # window s)"
    and "fst (updateMean v True s) = window_mean (snd (updateMean v True s))"
    and "fmean (snd (updateMean v True s)) = fst (updateMean v True s)"
    and "filterSize (snd (updateMean v True s)) = filterSize s"
proof -
  have n: "1 \<le> nat (filterSize s)" "nat (filterSize s) \<le> length (meanRaws s)"
    using assms by (auto simp: filters_ok_def)
  note e = shift_raws_eq [OF n]
  show w: "window (snd (updateMean v True s)) = take (nat (filterSize s)) (v # window s)"
  proof -
    define k where "k = nat (filterSize s)"
    have "window (snd (updateMean v True s)) = take k (v # take (k - 1) (meanRaws s) @ drop k (meanRaws s))"
      by (simp add: updateMean_def Let_def window_def e k_def)
    also have "\<dots> = take k (v # window s)"
      using n unfolding k_def [symmetric] window_def by (cases k) (auto simp: min_def)
    finally show ?thesis by (simp add: k_def)
  qed
  show "fst (updateMean v True s) = window_mean (snd (updateMean v True s))"
    using n by (simp add: updateMean_def Let_def window_mean_def window_def sum_raws_fold)
  show "fmean (snd (updateMean v True s)) = fst (updateMean v True s)" "filterSize (snd (updateMean v True s)) = filterSize s"
    by (simp_all add: updateMean_def Let_def)
qed

text \<open>C36: The shift loop of updateMean keeps the window in order of age: after any sequence of moving
  updates the window holds the newest filterSize values, newest first, continued with the old
  contents, and the returned mean is the sum of exactly that window divided by its size.\<close>

theorem updateMean_moving_window:
  assumes "filters_ok s" and "vs \<noteq> []"
  defines "s' \<equiv> fold (\<lambda>v t. snd (updateMean v True t)) vs s"
  shows "window s' = take (nat (filterSize s)) (rev vs @ window s) \<and> fmean s' = window_mean s'"
proof -
  have "filters_ok (fold (\<lambda>v t. snd (updateMean v True t)) vs s) \<and> filterSize (fold (\<lambda>v t. snd (updateMean v True t)) vs s) = filterSize s
     \<and> window (fold (\<lambda>v t. snd (updateMean v True t)) vs s) = take (nat (filterSize s)) (rev vs @ window s)
     \<and> (vs \<noteq> [] \<longrightarrow> fmean (fold (\<lambda>v t. snd (updateMean v True t)) vs s) = window_mean (fold (\<lambda>v t. snd (updateMean v True t)) vs s))" for vs
  proof (induction vs rule: rev_induct)
    case Nil then show ?case using assms(1) by (simp add: window_def)
  next
    case (snoc v vs)
    let ?t = "fold (\<lambda>v t. snd (updateMean v True t)) vs s"
    have ok: "filters_ok ?t" using snoc by simp
    have "filters_ok (snd (updateMean v True ?t))" using ok by (auto simp: filters_ok_def updateMean_def FILTER_MAX_LENGTH_def Let_def)
    moreover have "take n (v # take n (rev vs @ w)) = take n (v # rev vs @ w)" for n and w :: "f32 list"
      by (cases n) (simp_all add: take_take min_def)
    ultimately show ?case using snoc updateMean_window [OF ok, of v] by simp
  qed
  then show ?thesis using assms(2) unfolding s'_def by blast
qed

definition filters_sample :: filters where
  "filters_sample = setFilterSize 3 (filters_init 1 \<lparr>meanRaws = [], mean_samples = 0, filter_id = 0, filterSize = 0, fmean = Fin 0\<rparr>)"

lemma filters_sample_ok: "filters_ok filters_sample"
  by (simp add: filters_sample_def filters_ok_def setFilterSize_def filters_init_def FILTER_MAX_LENGTH_def)

theorem filters_invariant_witness:
  "filters_ok (filters_init 0 filters_sample) \<and> filters_ok (setFilterSize 2000 filters_sample) \<and> filters_ok (snd (updateMean (Fin 1) False filters_sample))"
  by (rule filters_invariant [OF filters_sample_ok])

theorem updateMean_moving_window_witness:
  "window (fold (\<lambda>v t. snd (updateMean v True t)) [Fin 1, Fin 2, Fin 3, Fin 4] filters_sample) =
     take (nat (filterSize filters_sample)) (rev [Fin 1, Fin 2, Fin 3, Fin 4] @ window filters_sample)"
  using updateMean_moving_window [OF filters_sample_ok, of "[Fin 1, Fin 2, Fin 3, Fin 4]"] by simp

section \<open>SimpleStatsClass\<close>

record simple_stats =
  ss_minimum :: f32
  ss_maximum :: f32
  ss_samples :: f32

definition undefinedValue :: f32 where "undefinedValue = lit 1000000"

definition simple_stats_init :: "simple_stats \<Rightarrow> simple_stats" where
  "simple_stats_init s = s\<lparr>ss_minimum := undefinedValue, ss_maximum := undefinedValue, ss_samples := of_i 0\<rparr>"

definition simple_stats_clear :: "simple_stats \<Rightarrow> simple_stats" where
  "simple_stats_clear s = s\<lparr>ss_minimum := undefinedValue, ss_maximum := undefinedValue, ss_samples := of_i 0\<rparr>"

definition simple_stats_register :: "f32 \<Rightarrow> simple_stats \<Rightarrow> simple_stats" where
  "simple_stats_register value s =
     (let s1 = s\<lparr>ss_samples := ss_samples s + lit 1\<rparr> in
      if (feq (ss_minimum s1) undefinedValue \<or> feq (ss_maximum s1) undefinedValue) \<and> ss_samples s1 > of_i 10
      then s1\<lparr>ss_minimum := value, ss_maximum := value\<rparr>
      else if value < ss_minimum s1 then s1\<lparr>ss_minimum := value\<rparr>
      else if value > ss_maximum s1 then s1\<lparr>ss_maximum := value\<rparr>
      else s1)"

abbreviation registered :: "f32 list \<Rightarrow> simple_stats \<Rightarrow> simple_stats" where
  "registered xs s \<equiv> fold simple_stats_register xs (simple_stats_init s)"

lemma stats_consts: "is_fin undefinedValue" "val undefinedValue = 1000000" "is_fin (lit 1 :: f32)" "val (lit 1 :: f32) = 1"
  "is_fin (of_i 10 :: f32)" "val (of_i 10 :: f32) = 10" "is_fin (of_i 0 :: f32)" "val (of_i 0 :: f32) = 0"
  unfolding undefinedValue_def by code_simp+

lemma fin_feq: "is_fin a \<Longrightarrow> is_fin b \<Longrightarrow> feq a b = (val a = val b)"
  by (cases a; cases b; simp)

lemma count_step:
  assumes "is_fin c" "val c = of_int n" "0 \<le> n" "n < 16777216"
  shows "is_fin (c + lit 1 :: f32) \<and> val (c + lit 1 :: f32) = of_int (n + 1)"
  using assms rnd_exact [OF repr_in_f32_int [of "n + 1"]] by (simp add: fin_add stats_consts)

definition tame :: "f32 \<Rightarrow> bool" where "tame x \<longleftrightarrow> is_fin x \<and> val x < 1000000"

lemma stats_first:
  assumes "\<forall>x \<in> set xs. tame x" "length xs \<le> 10"
  shows "is_fin (ss_samples (registered xs s)) \<and> val (ss_samples (registered xs s)) = of_int (int (length xs))
     \<and> ss_maximum (registered xs s) = undefinedValue \<and> is_fin (ss_minimum (registered xs s))"
  using assms
proof (induction xs rule: rev_induct)
  case Nil then show ?case by (simp add: simple_stats_init_def stats_consts)
next
  case (snoc x xs)
  let ?t = "registered xs s"
  have IH: "is_fin (ss_samples ?t)" "val (ss_samples ?t) = of_int (int (length xs))" "ss_maximum ?t = undefinedValue" "is_fin (ss_minimum ?t)"
    using snoc by simp_all
  have c: "is_fin (ss_samples ?t + lit 1)" "val (ss_samples ?t + lit 1) = of_int (int (length xs) + 1)"
    using count_step [OF IH(1,2)] snoc.prems(2) by simp_all
  have "(of_int (int (length xs) + 1) :: rat) \<le> of_int 10" using snoc.prems(2) by (subst of_int_le_iff) simp
  then have "\<not> ss_samples ?t + lit 1 > of_i 10" using c by (simp add: fin_less stats_consts)
  moreover have "\<not> x > undefinedValue" "is_fin x" using snoc.prems(1) by (auto simp: tame_def fin_less stats_consts)
  ultimately show ?case using IH c by (simp add: simple_stats_register_def [of x ?t] Let_def)
qed

text \<open>The tracker ignores the first ten samples after a clear, as its comment says, and from then
  on holds exactly the minimum and the maximum of the samples registered since, for all finite
  samples below the "undefined" marker of one million.\<close>

theorem simple_stats_after_ten:
  assumes "\<forall>x \<in> set xs. tame x" "length ys = 10" "\<forall>y \<in> set ys. tame y" "xs \<noteq> []" "length xs \<le> 16777206"
  shows "val (ss_minimum (registered (ys @ xs) s)) = Min (val ` set xs)
       \<and> val (ss_maximum (registered (ys @ xs) s)) = Max (val ` set xs)"
proof -
  have "is_fin (ss_samples (registered (ys @ xs) s)) \<and> val (ss_samples (registered (ys @ xs) s)) = of_int (10 + int (length xs))
     \<and> (xs \<noteq> [] \<longrightarrow> is_fin (ss_minimum (registered (ys @ xs) s)) \<and> is_fin (ss_maximum (registered (ys @ xs) s))
       \<and> val (ss_minimum (registered (ys @ xs) s)) = Min (val ` set xs)
       \<and> val (ss_maximum (registered (ys @ xs) s)) = Max (val ` set xs))"
    using assms(1,5)
  proof (induction xs rule: rev_induct)
    case Nil then show ?case using stats_first [of ys s] assms(2,3) by simp
  next
    case (snoc x xs)
    define t where "t = registered (ys @ xs) s"
    have step: "registered (ys @ xs @ [x]) s = simple_stats_register x t" by (simp add: t_def)
    have IH: "is_fin (ss_samples t)" "val (ss_samples t) = of_int (10 + int (length xs))" using snoc by (simp_all add: t_def)
    have c: "is_fin (ss_samples t + lit 1)" "val (ss_samples t + lit 1) = of_int (11 + int (length xs))"
      using count_step [OF IH] snoc.prems(2) by simp_all
    have "(of_int 10 :: rat) < of_int (11 + int (length xs))" by (subst of_int_less_iff) simp
    then have more: "ss_samples t + lit 1 > of_i 10" using c by (simp add: fin_less stats_consts)
    have x: "is_fin x" "val x < 1000000" using snoc.prems by (simp_all add: tame_def)
    show ?case
    proof (cases "xs = []")
      case True
      then have "ss_maximum t = undefinedValue" using stats_first [of ys s] assms(2,3) by (simp add: t_def)
      then show ?thesis unfolding step using more c x True by (simp add: simple_stats_register_def [of x t] Let_def fin_feq stats_consts)
    next
      case False
      have I: "is_fin (ss_minimum t)" "is_fin (ss_maximum t)" "val (ss_minimum t) = Min (val ` set xs)" "val (ss_maximum t) = Max (val ` set xs)"
        using snoc False by (simp_all add: t_def)
      have "\<forall>y \<in> val ` set xs. y < 1000000" using snoc.prems by (auto simp: tame_def)
      moreover have "Min (val ` set xs) \<in> val ` set xs" "Max (val ` set xs) \<in> val ` set xs"
        using False by (intro Min_in Max_in; simp)+
      ultimately have "Min (val ` set xs) < 1000000" "Max (val ` set xs) < 1000000" by blast+
      then have nu: "\<not> feq (ss_minimum t) undefinedValue" "\<not> feq (ss_maximum t) undefinedValue"
        using I by (simp_all add: fin_feq stats_consts)
      have le: "Min (val ` set xs) \<le> Max (val ` set xs)" using False by simp
      have mm: "Min (insert (val x) (val ` set xs)) = min (val x) (Min (val ` set xs))"
        "Max (insert (val x) (val ` set xs)) = max (val x) (Max (val ` set xs))" using False by simp_all
      show ?thesis unfolding step using nu I x c le mm
        by (auto simp: simple_stats_register_def [of x t] Let_def fin_less min_def max_def)
    qed
  qed
  with assms(4) show ?thesis by blast
qed

theorem simple_stats_after_ten_witness:
  "val (ss_minimum (registered (replicate 10 (Fin 9) @ [Fin 3, Fin 1, Fin 2]) \<lparr>ss_minimum = Fin 0, ss_maximum = Fin 0, ss_samples = Fin 0\<rparr>)) = Min (val ` set [Fin 3, Fin 1, Fin 2 :: f32])"
  by (rule simple_stats_after_ten [THEN conjunct1]) (auto simp: tame_def)

end
