(* ===== verification/Stats.thy ===== *)
theory Stats
  imports Filters
begin

text \<open>
  The trend statistics (src/src/Stats.cpp): samples are collected in a preliminary buffer; every
  maxSamplesBeforeStore samples their mean and extremes go into a ring of 75 trend points and the
  minima and maxima over the ring are recomputed.  What is shown of them is modelled in Trend.
\<close>

definition MAX_FULL_SAMPLES :: nat where "MAX_FULL_SAMPLES = 75"
definition MAX_PRELIMBUFFER_SIZE :: int where "MAX_PRELIMBUFFER_SIZE = 1000"

record stats =
  prelimBuffer :: "f32 list"
  maxSamplesBeforeStore :: int
  endPtr :: int
  st_value :: "f32 list"
  valueExt :: "(f32 \<times> f32) list"
  prelimSamplesCounter :: int
  st_type :: int
  rawValue :: f32
  st_minimum :: f32
  st_maximum :: f32
  minimumMean :: f32
  maximumMean :: f32
  span :: f32

definition stats_clearBuffer :: "stats \<Rightarrow> stats" where
  "stats_clearBuffer s = s\<lparr>st_value := replicate MAX_FULL_SAMPLES undefinedValue,
     valueExt := replicate MAX_FULL_SAMPLES (undefinedValue, undefinedValue)\<rparr>"

definition stats_init :: "int \<Rightarrow> stats \<Rightarrow> stats" where
  "stats_init t s = stats_clearBuffer (s\<lparr>st_type := t\<rparr>)"

definition fold_min :: "f32 list \<Rightarrow> f32 \<Rightarrow> f32" where
  "fold_min vs m = fold (\<lambda>v m. if v \<le> m \<and> \<not> feq v undefinedValue then v else m) vs m"

definition fold_max :: "f32 list \<Rightarrow> f32 \<Rightarrow> f32" where
  "fold_max vs m = fold (\<lambda>v m. if v \<ge> m \<and> \<not> feq v undefinedValue then v else m) vs m"

definition updateMinMax :: "stats \<Rightarrow> stats" where
  "updateMinMax s = s\<lparr>
     minimumMean := fold_min (st_value s) undefinedValue,
     maximumMean := fold_max (st_value s) (- undefinedValue),
     st_minimum := fold_min (map fst (valueExt s)) undefinedValue,
     st_maximum := fold_max (map snd (valueExt s)) (- undefinedValue)\<rparr>"

text \<open>The loop of addSample over the preliminary samples: total, smallest and largest.\<close>

definition prelim_step :: "f32 \<Rightarrow> f32 \<times> f32 \<times> f32 \<Rightarrow> f32 \<times> f32 \<times> f32" where
  "prelim_step x acc = (case acc of (tot, lo, hi) \<Rightarrow>
     (tot + x, if x \<le> lo then x else lo, if x > hi then x else hi))"

definition stats_addSample :: "f32 \<Rightarrow> stats \<Rightarrow> stats" where
  "stats_addSample raw s =
     (let s1 = s\<lparr>rawValue := raw, prelimBuffer := (prelimBuffer s)[nat (prelimSamplesCounter s) := raw],
                 prelimSamplesCounter := prelimSamplesCounter s + 1\<rparr>
      in if prelimSamplesCounter s1 < maxSamplesBeforeStore s1 then s1
         else let n = nat (maxSamplesBeforeStore s1); b = prelimBuffer s1; p = nat (endPtr s1);
                  (tot, lo, hi) = fold prelim_step (map ((!) b) [1 ..< n]) (b ! 0, b ! 0, b ! 0);
                  s2 = updateMinMax (s1\<lparr>valueExt := (valueExt s1)[p := (lo, hi)],
                         st_value := (st_value s1)[p := tot / of_i (maxSamplesBeforeStore s1)],
                         prelimSamplesCounter := 0\<rparr>);
                  s3 = s2\<lparr>span := st_maximum s2 - st_minimum s2, endPtr := endPtr s2 + 1\<rparr>
              in if endPtr s3 > int MAX_FULL_SAMPLES - 1 then s3\<lparr>endPtr := 0\<rparr> else s3)"

definition getNrOfSamplesBeforeStore :: "stats \<Rightarrow> int" where
  "getNrOfSamplesBeforeStore s = maxSamplesBeforeStore s"

definition setNrOfSamplesBeforeStore :: "int \<Rightarrow> stats \<Rightarrow> stats" where
  "setNrOfSamplesBeforeStore n s =
     (let n1 = (if n < 1 then 1 else n); n2 = (if n1 > MAX_PRELIMBUFFER_SIZE then MAX_PRELIMBUFFER_SIZE else n1)
      in s\<lparr>maxSamplesBeforeStore := n2\<rparr>)"

section \<open>Invariant\<close>

definition stats_ok :: "stats \<Rightarrow> bool" where
  "stats_ok s \<longleftrightarrow> length (prelimBuffer s) = nat MAX_PRELIMBUFFER_SIZE \<and> length (st_value s) = MAX_FULL_SAMPLES
     \<and> length (valueExt s) = MAX_FULL_SAMPLES \<and> 1 \<le> maxSamplesBeforeStore s \<and> maxSamplesBeforeStore s \<le> MAX_PRELIMBUFFER_SIZE
     \<and> 0 \<le> prelimSamplesCounter s \<and> prelimSamplesCounter s < MAX_PRELIMBUFFER_SIZE
     \<and> 0 \<le> endPtr s \<and> endPtr s < int MAX_FULL_SAMPLES"

lemma updateMinMax_simps [simp]:
  "prelimBuffer (updateMinMax s) = prelimBuffer s" "maxSamplesBeforeStore (updateMinMax s) = maxSamplesBeforeStore s"
  "endPtr (updateMinMax s) = endPtr s" "st_value (updateMinMax s) = st_value s" "valueExt (updateMinMax s) = valueExt s"
  "prelimSamplesCounter (updateMinMax s) = prelimSamplesCounter s"
  by (simp_all add: updateMinMax_def)

text \<open>Every operation of the statistics keeps the invariant that both write positions are inside
  their arrays (1000 preliminary samples, 75 trend points), even when the number of samples per
  trend point is lowered while a point is being collected.\<close>

theorem stats_invariant:
  assumes "stats_ok s"
  shows "stats_ok (stats_addSample v s) \<and> stats_ok (stats_clearBuffer s) \<and> stats_ok (setNrOfSamplesBeforeStore n s)"
  using assms
  by (auto simp: stats_ok_def stats_addSample_def stats_clearBuffer_def setNrOfSamplesBeforeStore_def Let_def
      MAX_PRELIMBUFFER_SIZE_def MAX_FULL_SAMPLES_def split: prod.splits)

section \<open>The extremes over the ring\<close>

lemma fold_min_le:
  assumes "\<forall>v \<in> set vs. is_fin v" "is_fin m"
  shows "is_fin (fold_min vs m) \<and> val (fold_min vs m) \<le> val m
     \<and> (\<forall>v \<in> set vs. \<not> feq v undefinedValue \<longrightarrow> val (fold_min vs m) \<le> val v)
     \<and> (fold_min vs m = m \<or> fold_min vs m \<in> set vs)"
  using assms
proof (induction vs arbitrary: m)
  case (Cons v vs)
  let ?m = "if v \<le> m \<and> \<not> feq v undefinedValue then v else m"
  have "is_fin ?m" "val ?m \<le> val m" "\<not> feq v undefinedValue \<longrightarrow> val ?m \<le> val v" using Cons.prems by (auto simp: fin_less_eq)
  with Cons.IH [of ?m] Cons.prems show ?case by (force simp: fold_min_def)
qed (simp add: fold_min_def)

lemma fold_max_ge:
  assumes "\<forall>v \<in> set vs. is_fin v" "is_fin m"
  shows "is_fin (fold_max vs m) \<and> val m \<le> val (fold_max vs m)
     \<and> (\<forall>v \<in> set vs. \<not> feq v undefinedValue \<longrightarrow> val v \<le> val (fold_max vs m))
     \<and> (fold_max vs m = m \<or> fold_max vs m \<in> set vs)"
  using assms
proof (induction vs arbitrary: m)
  case (Cons v vs)
  let ?m = "if m \<le> v \<and> \<not> feq v undefinedValue then v else m"
  have "is_fin ?m" "val m \<le> val ?m" "\<not> feq v undefinedValue \<longrightarrow> val v \<le> val ?m" using Cons.prems by (auto simp: fin_less_eq)
  with Cons.IH [of ?m] Cons.prems show ?case by (force simp: fold_max_def)
qed (simp add: fold_max_def)

text \<open>After updateMinMax the reported minimum and maximum bound the extremes of every trend point
  that is not marked undefined, and each of them is the extreme of some point or the initial marker.\<close>

theorem updateMinMax_bounds:
  assumes "\<forall>p \<in> set (valueExt s). is_fin (fst p) \<and> is_fin (snd p)"
  shows "(\<forall>p \<in> set (valueExt s). (\<not> feq (fst p) undefinedValue \<longrightarrow> val (st_minimum (updateMinMax s)) \<le> val (fst p))
       \<and> (\<not> feq (snd p) undefinedValue \<longrightarrow> val (snd p) \<le> val (st_maximum (updateMinMax s))))
     \<and> st_minimum (updateMinMax s) \<in> insert undefinedValue (fst ` set (valueExt s))
     \<and> st_maximum (updateMinMax s) \<in> insert (- undefinedValue) (snd ` set (valueExt s))"
  using fold_min_le [of "map fst (valueExt s)" undefinedValue] fold_max_ge [of "map snd (valueExt s)" "- undefinedValue"]
    assms stats_consts(1)
  by (auto simp: updateMinMax_def)

definition stats_sample :: stats where
  "stats_sample = \<lparr>prelimBuffer = replicate 1000 (Fin 0), maxSamplesBeforeStore = 5, endPtr = 74,
     st_value = replicate 75 undefinedValue, valueExt = (Fin 1, Fin 2) # replicate 74 (undefinedValue, undefinedValue),
     prelimSamplesCounter = 4, st_type = 0, rawValue = Fin 0, st_minimum = Fin 0, st_maximum = Fin 0,
     minimumMean = Fin 0, maximumMean = Fin 0, span = Fin 0\<rparr>"

theorem stats_invariant_witness:
  "stats_ok (stats_addSample (Fin 3) stats_sample) \<and> stats_ok (stats_clearBuffer stats_sample)
     \<and> stats_ok (setNrOfSamplesBeforeStore 2 stats_sample)"
  by (rule stats_invariant) (simp add: stats_sample_def stats_ok_def MAX_PRELIMBUFFER_SIZE_def MAX_FULL_SAMPLES_def)

lemma one_not_undefined: "\<not> feq (Fin 1) undefinedValue"
  by code_simp

theorem updateMinMax_bounds_witness:
  "val (st_minimum (updateMinMax stats_sample)) \<le> 1"
proof -
  have "\<forall>p \<in> set (valueExt stats_sample). is_fin (fst p) \<and> is_fin (snd p)"
    using stats_consts(1) by (simp add: stats_sample_def)
  from updateMinMax_bounds [OF this, THEN conjunct1, rule_format, of "(Fin 1, Fin 2)"]
  show ?thesis using one_not_undefined by (simp add: stats_sample_def)
qed

end
