(* ===== verification/World.thy ===== *)
theory World
  imports SmuHal Filters Stats
begin

text \<open>
  The objects the application shares between its components: the unit behind the hardware
  abstraction layer, the calibration objects, the filters and the statistics.  A component that
  runs against them takes the method table \<open>H\<close> of the unit and the time of the call (\<open>millis\<close>,
  a wrapping 32 bit counter that is read once per call).
\<close>

record 's world =
  smu :: 's
  V_CALIBRATION :: cal
  C_CALIBRATION :: cal
  cal_data :: cal_store
  V_FILTERS :: filters
  C_FILTERS :: filters
  V_STATS :: stats
  C_STATS :: stats
  autoNullStarted :: bool

text \<open>What the unit can read of them.\<close>

definition env_of :: "u32 \<Rightarrow> ('s, 'z) world_scheme \<Rightarrow> env" where
  "env_of now w = \<lparr>env_V = V_CALIBRATION w, env_C = C_CALIBRATION w, env_store = cal_data w,
     env_rawCurrent = rawValue (C_STATS w), env_autoNull = autoNullStarted w, env_millis = now, env_micros = now * 1000\<rparr>"

text \<open>The division of C, which truncates towards zero.\<close>

definition cdiv :: "int \<Rightarrow> int \<Rightarrow> int" where
  "cdiv a b = sgn a * sgn b * (\<bar>a\<bar> div \<bar>b\<bar>)"

lemma env_of_smu [simp]: "env_of now (w\<lparr>smu := s\<rparr>) = env_of now w"
  by (simp add: env_of_def)

end
