(* ===== verification/ZeroCal.thy ===== *)
theory ZeroCal
  imports World Hal717x
begin

text \<open>
  The null calibration (src/src/ZeroCalibration.cpp): a timed sequence that sources zero in both
  current ranges, takes the filtered readings as null values and restores what it changed.  It runs
  as a polled state machine: startNullCalibration resets the four step flags, handleAutoNull is
  called from the main loop and performs the steps whose time has come.
\<close>

section \<open>State\<close>

record 's zworld = "'s world" +
  z_operationType :: OPERATION_TYPE
  z_current_range :: CURRENT_RANGE
  zeroCalstartTime :: u32
  nullCalibrationDone0 :: bool
  nullCalibrationDone1 :: bool
  nullCalibrationDone2 :: bool
  nullCalibrationDone3 :: bool
  nullCalibrationReady :: bool
  samplingRateBeforeZeroCal :: int
  filterSizeBeforeZeroCalV :: int
  filterSizeBeforeZeroCalC :: int

section \<open>Operations\<close>

definition getProgress :: "u32 \<Rightarrow> ('s, 'z) zworld_scheme \<Rightarrow> int" where
  "getProgress now w = (let seconds = uint ((now - zeroCalstartTime w) div 1000) in 100 * seconds div 21)"

definition startNullCalibration :: "'s hal \<Rightarrow> u32 \<Rightarrow> OPERATION_TYPE \<Rightarrow> ('s, 'z) zworld_scheme \<Rightarrow> ('s, 'z) zworld_scheme" where
  "startNullCalibration H now t w =
     (let d = (if t = SOURCE_VOLTAGE
               then setNullValueVol (lit 0) AMP1 (V_CALIBRATION w) (setNullValueVol (lit 0) MILLIAMP10 (V_CALIBRATION w) (cal_data w))
               else setNullValueCur (lit 0) AMP1 (C_CALIBRATION w) (setNullValueCur (lit 0) MILLIAMP10 (C_CALIBRATION w) (cal_data w)))
      in w\<lparr>z_operationType := t, nullCalibrationDone0 := False, nullCalibrationDone1 := False, nullCalibrationDone2 := False,
           nullCalibrationDone3 := False, nullCalibrationReady := False, samplingRateBeforeZeroCal := getSamplingRate H (smu w),
           filterSizeBeforeZeroCalV := filterSize (V_FILTERS w), filterSizeBeforeZeroCalC := filterSize (C_FILTERS w),
           autoNullStarted := True, cal_data := d, zeroCalstartTime := now\<rparr>)"

definition source_zero :: "'s hal \<Rightarrow> u32 \<Rightarrow> int \<Rightarrow> ('s, 'z) zworld_scheme \<Rightarrow> ('s, 'z) zworld_scheme" where
  "source_zero H now i w =
     w\<lparr>smu := (if z_operationType w = SOURCE_VOLTAGE then snd (fltSetCommitVoltageSource H (env_of now w) 0 True (smu w))
               else snd (fltSetCommitCurrentSource H (env_of now w) i (smu w)))\<rparr>"

definition take_null :: "('s, 'z) zworld_scheme \<Rightarrow> ('s, 'z) zworld_scheme" where
  "take_null w =
     w\<lparr>cal_data := (if z_operationType w = SOURCE_VOLTAGE
          then setNullValueVol (fmean (V_FILTERS w)) (z_current_range w) (V_CALIBRATION w) (cal_data w)
          else setNullValueCur (fmean (C_FILTERS w)) (z_current_range w) (C_CALIBRATION w) (cal_data w))\<rparr>"

definition filters_20 :: "('s, 'z) zworld_scheme \<Rightarrow> ('s, 'z) zworld_scheme" where
  "filters_20 w = w\<lparr>V_FILTERS := setFilterSize 20 (V_FILTERS w), C_FILTERS := setFilterSize 20 (C_FILTERS w)\<rparr>"

definition null_step0 :: "'s hal \<Rightarrow> u32 \<Rightarrow> ('s, 'z) zworld_scheme \<Rightarrow> ('s, 'z) zworld_scheme" where
  "null_step0 H now w =
     (if autoNullStarted w \<and> \<not> nullCalibrationDone0 w
      then let w1 = w\<lparr>C_CALIBRATION := (C_CALIBRATION w)\<lparr>useCalibratedValues := False\<rparr>,
                      V_CALIBRATION := (V_CALIBRATION w)\<lparr>useCalibratedValues := False\<rparr>,
                      smu := setSamplingRate H 10 (smu w), z_current_range := MILLIAMP10\<rparr>;
               w2 = w1\<lparr>smu := setCurrentRange H (env_of now w1) MILLIAMP10 (z_operationType w1) (smu w1)\<rparr>
           in (filters_20 (source_zero H now 0 w2))\<lparr>nullCalibrationDone0 := True\<rparr>
      else w)"

definition null_step1 :: "u32 \<Rightarrow> ('s, 'z) zworld_scheme \<Rightarrow> ('s, 'z) zworld_scheme" where
  "null_step1 now w =
     (if autoNullStarted w \<and> \<not> nullCalibrationDone1 w \<and> zeroCalstartTime w + 10000 < now
      then (take_null w)\<lparr>nullCalibrationDone1 := True\<rparr> else w)"

text \<open>In current mode the second step sources \<open>current_range\<close> microampere, which is 0 for AMP1.\<close>

definition null_step2 :: "'s hal \<Rightarrow> u32 \<Rightarrow> ('s, 'z) zworld_scheme \<Rightarrow> ('s, 'z) zworld_scheme" where
  "null_step2 H now w =
     (if autoNullStarted w \<and> \<not> nullCalibrationDone2 w \<and> zeroCalstartTime w + 11000 < now
      then let w1 = w\<lparr>z_current_range := AMP1\<rparr>;
               w2 = w1\<lparr>smu := setCurrentRange H (env_of now w1) AMP1 (z_operationType w1) (smu w1)\<rparr>
           in (source_zero H now (int (range_index AMP1)) w2)\<lparr>nullCalibrationDone2 := True\<rparr>
      else w)"

definition null_step3 :: "'s hal \<Rightarrow> u32 \<Rightarrow> ('s, 'z) zworld_scheme \<Rightarrow> ('s, 'z) zworld_scheme" where
  "null_step3 H now w =
     (if autoNullStarted w \<and> \<not> nullCalibrationDone3 w \<and> zeroCalstartTime w + 21000 < now
      then let w1 = filters_20 (take_null w)
           in w1\<lparr>nullCalibrationDone3 := True, smu := setSamplingRate H (samplingRateBeforeZeroCal w1) (smu w1),
                 V_CALIBRATION := (V_CALIBRATION w1)\<lparr>useCalibratedValues := True\<rparr>,
                 C_CALIBRATION := (C_CALIBRATION w1)\<lparr>useCalibratedValues := True\<rparr>,
                 V_FILTERS := setFilterSize (filterSizeBeforeZeroCalV w1) (V_FILTERS w1),
                 C_FILTERS := setFilterSize (filterSizeBeforeZeroCalC w1) (C_FILTERS w1),
                 autoNullStarted := False, nullCalibrationReady := True\<rparr>
      else w)"

definition handleAutoNull :: "'s hal \<Rightarrow> u32 \<Rightarrow> ('s, 'z) zworld_scheme \<Rightarrow> ('s, 'z) zworld_scheme" where
  "handleAutoNull H now w = null_step3 H now (null_step2 H now (null_step1 now (null_step0 H now w)))"

section \<open>The run of a calibration\<close>

text \<open>What is saved at the start, and the two phases of a run.\<close>

record saved =
  sv_type :: OPERATION_TYPE
  sv_rate :: int
  sv_V :: int
  sv_C :: int
  sv_start :: u32

definition running :: "'s hal \<Rightarrow> saved \<Rightarrow> ('s, 'z) zworld_scheme \<Rightarrow> bool" where
  "running H k w \<longleftrightarrow> autoNullStarted w \<and> z_operationType w = sv_type k \<and> samplingRateBeforeZeroCal w = sv_rate k
     \<and> filterSizeBeforeZeroCalV w = sv_V k \<and> filterSizeBeforeZeroCalC w = sv_C k \<and> zeroCalstartTime w = sv_start k
     \<and> \<not> nullCalibrationDone3 w
     \<and> (nullCalibrationDone2 w \<longrightarrow> nullCalibrationDone0 w \<and> mode (view H (smu w)) = sv_type k \<and> set_micro (view H (smu w)) = 0
          \<and> crange (view H (smu w)) = AMP1)"

definition finished :: "'s hal \<Rightarrow> saved \<Rightarrow> ('s, 'z) zworld_scheme \<Rightarrow> bool" where
  "finished H k w \<longleftrightarrow> \<not> autoNullStarted w \<and> nullCalibrationReady w
     \<and> mode (view H (smu w)) = sv_type k \<and> set_micro (view H (smu w)) = 0 \<and> crange (view H (smu w)) = AMP1
     \<and> rate (view H (smu w)) = sv_rate k \<and> filterSize (V_FILTERS w) = sv_V k \<and> filterSize (C_FILTERS w) = sv_C k
     \<and> useCalibratedValues (V_CALIBRATION w) \<and> useCalibratedValues (C_CALIBRATION w)"

lemma setFilterSize_back: "1 \<le> n \<Longrightarrow> n \<le> FILTER_MAX_LENGTH \<Longrightarrow> filterSize (setFilterSize n f) = n"
  by (simp add: setFilterSize_def)

context smu_hal
begin

lemma source_zero_view:
  "z_operationType w = t \<Longrightarrow> view H (smu (source_zero H now 0 w)) = (view H (smu w))\<lparr>mode := t, set_micro := 0\<rparr>"
  by (cases t) (simp_all add: source_zero_def set_voltage set_current)

lemma step0_running: "running H k w \<Longrightarrow> running H k (null_step0 H now w)"
  by (auto simp: running_def null_step0_def Let_def filters_20_def source_zero_def)

lemma step0_done: "running H k w \<Longrightarrow> nullCalibrationDone0 (null_step0 H now w)"
  by (simp add: running_def null_step0_def Let_def)

lemma step1_running: "running H k w \<Longrightarrow> running H k (null_step1 now w)"
  by (auto simp: running_def null_step1_def take_null_def)

lemma step1_done0: "nullCalibrationDone0 (null_step1 now w) = nullCalibrationDone0 w"
  by (simp add: null_step1_def take_null_def)

lemma step2_running: "running H k w \<Longrightarrow> nullCalibrationDone0 w \<Longrightarrow> running H k (null_step2 H now w)"
proof (cases "autoNullStarted w \<and> \<not> nullCalibrationDone2 w \<and> zeroCalstartTime w + 11000 < now")
  case True
  assume r: "running H k w" "nullCalibrationDone0 w"
  define w2 where "w2 = w\<lparr>z_current_range := AMP1, smu := setCurrentRange H (env_of now w) AMP1 (z_operationType w) (smu w)\<rparr>"
  have e: "null_step2 H now w = (source_zero H now 0 w2)\<lparr>nullCalibrationDone2 := True\<rparr>"
    using True by (simp add: null_step2_def Let_def w2_def range_index_def env_of_def)
  have "z_operationType w2 = sv_type k" "crange (view H (smu w2)) = AMP1" using r by (simp_all add: w2_def running_def set_range_any)
  then show ?thesis using r source_zero_view [of w2 "sv_type k" now] unfolding e
    by (simp add: running_def source_zero_def w2_def)
next
  case False
  assume "running H k w"
  moreover have "null_step2 H now w = w" unfolding null_step2_def if_not_P [OF False] ..
  ultimately show ?thesis by simp
qed

lemma step2_done: "running H k w \<Longrightarrow> sv_start k + 11000 < now \<Longrightarrow> nullCalibrationDone2 (null_step2 H now w)"
  by (simp add: running_def null_step2_def Let_def)

lemma step3_done:
  assumes "running H k w" "nullCalibrationDone2 w" "sv_start k + 21000 < now"
    and "1 \<le> sv_V k" "sv_V k \<le> FILTER_MAX_LENGTH" "1 \<le> sv_C k" "sv_C k \<le> FILTER_MAX_LENGTH"
  shows "finished H k (null_step3 H now w)"
  using assms by (simp add: running_def finished_def null_step3_def Let_def filters_20_def take_null_def set_rate setFilterSize_back)

lemma step3_early: "running H k w \<Longrightarrow> \<not> sv_start k + 21000 < now \<Longrightarrow> null_step3 H now w = w"
  by (simp add: running_def null_step3_def)

lemma handle_finished: "finished H k w \<Longrightarrow> handleAutoNull H now w = w"
  by (simp add: handleAutoNull_def finished_def null_step0_def null_step1_def null_step2_def null_step3_def)

lemma steps_running: "running H k w \<Longrightarrow> running H k (null_step2 H now (null_step1 now (null_step0 H now w)))"
  by (intro step2_running step1_running step0_running) (simp_all add: step1_done0 step0_done)

lemma handle_before: "running H k w \<Longrightarrow> \<not> sv_start k + 21000 < now \<Longrightarrow> running H k (handleAutoNull H now w)"
  unfolding handleAutoNull_def using steps_running step3_early by metis

lemma handle_after:
  assumes r: "running H k w" and t: "sv_start k + 21000 < now" "sv_start k + 11000 < now"
    and "1 \<le> sv_V k" "sv_V k \<le> FILTER_MAX_LENGTH" "1 \<le> sv_C k" "sv_C k \<le> FILTER_MAX_LENGTH"
  shows "finished H k (handleAutoNull H now w)"
proof -
  have "running H k (null_step1 now (null_step0 H now w))" by (intro step1_running step0_running r)
  then have "nullCalibrationDone2 (null_step2 H now (null_step1 now (null_step0 H now w)))" by (rule step2_done) (rule t)
  with steps_running [OF r] show ?thesis unfolding handleAutoNull_def using assms by (intro step3_done)
qed

lemma start_running: "running H \<lparr>sv_type = t, sv_rate = rate (view H (smu w)), sv_V = filterSize (V_FILTERS w), sv_C = filterSize (C_FILTERS w), sv_start = now\<rparr>
    (startNullCalibration H now t w)"
  by (simp add: running_def startNullCalibration_def Let_def observed)

text \<open>A run: polls at arbitrary times keep it running or finish it; a poll after 21 seconds finishes it.\<close>

lemma polls_running:
  assumes b: "1 \<le> sv_V k" "sv_V k \<le> FILTER_MAX_LENGTH" "1 \<le> sv_C k" "sv_C k \<le> FILTER_MAX_LENGTH"
    and nw: "uint (sv_start k) + 21000 < 2 ^ 32" and r: "running H k w \<or> finished H k w"
  shows "running H k (fold (handleAutoNull H) ns w) \<or> finished H k (fold (handleAutoNull H) ns w)"
  using r
proof (induction ns arbitrary: w)
  case (Cons n ns)
  have u: "uint (sv_start k + 21000) = uint (sv_start k) + 21000" "uint (sv_start k + 11000) = uint (sv_start k) + 11000"
    using nw by (simp_all add: uint_word_ariths mod_pos_pos_trivial)
  then have "sv_start k + 21000 < n \<Longrightarrow> sv_start k + 11000 < n" by (simp add: word_less_def)
  then have "running H k (handleAutoNull H n w) \<or> finished H k (handleAutoNull H n w)"
    using Cons.prems handle_before handle_after [OF _ _ _ b] handle_finished by metis
  then show ?case using Cons.IH by simp
qed simp

lemma run_completes:
  assumes V: "1 \<le> filterSize (V_FILTERS w)" "filterSize (V_FILTERS w) \<le> FILTER_MAX_LENGTH"
    and C: "1 \<le> filterSize (C_FILTERS w)" "filterSize (C_FILTERS w) \<le> FILTER_MAX_LENGTH"
    and nw: "uint now + 21000 < 2 ^ 32" and late: "uint now + 21000 < uint n"
  shows "finished H \<lparr>sv_type = t, sv_rate = rate (view H (smu w)), sv_V = filterSize (V_FILTERS w), sv_C = filterSize (C_FILTERS w), sv_start = now\<rparr>
    (fold (handleAutoNull H) (ns @ [n]) (startNullCalibration H now t w))"
proof -
  let ?k = "\<lparr>sv_type = t, sv_rate = rate (view H (smu w)), sv_V = filterSize (V_FILTERS w), sv_C = filterSize (C_FILTERS w), sv_start = now\<rparr>"
  let ?w = "fold (handleAutoNull H) ns (startNullCalibration H now t w)"
  have b: "1 \<le> sv_V ?k" "sv_V ?k \<le> FILTER_MAX_LENGTH" "1 \<le> sv_C ?k" "sv_C ?k \<le> FILTER_MAX_LENGTH" using V C by simp_all
  have u: "uint (sv_start ?k + 21000) = uint (sv_start ?k) + 21000" "uint (sv_start ?k + 11000) = uint (sv_start ?k) + 11000"
    using nw by (simp_all add: uint_word_ariths mod_pos_pos_trivial)
  then have n: "sv_start ?k + 21000 < n" "sv_start ?k + 11000 < n" using late by (simp_all add: word_less_def)
  have "running H ?k ?w \<or> finished H ?k ?w"
    using polls_running [OF b, of "startNullCalibration H now t w" ns] start_running [of t w now] nw by simp
  then have "finished H ?k (handleAutoNull H n ?w)"
    using handle_after [OF _ n b] handle_finished [of ?k ?w n] by metis
  then show ?thesis by simp
qed

end

section \<open>Properties\<close>

text \<open>C24: A null calibration completes and cleans up: started at any time (before the counter wraps),
  polled at arbitrary times and once more than 21 seconds after the start, it has ended, whatever the
  chips answered; the unit sources zero in the requested mode in the 1 A range, the sampling rate and
  both filter sizes are back at their values before the start, and calibrated values are in use.\<close>

theorem null_calibration_completes:
  fixes w :: "(('d, 'y) smu717_scheme, 'z) zworld_scheme" and X :: "'d chips" and t ns
  assumes "filters_ok (V_FILTERS w)" "filters_ok (C_FILTERS w)"
    and "uint now + 21000 < 2 ^ 32" and "uint now + 21000 < uint n"
  defines "e \<equiv> fold (handleAutoNull (hal717 X)) (ns @ [n]) (startNullCalibration (hal717 X) now t w)"
  shows "\<not> autoNullStarted e \<and> nullCalibrationReady e
     \<and> view (hal717 X) (smu e) = \<lparr>mode = t, set_micro = 0, limit_micro = s_setLimit_micro (smu e), crange = AMP1, rate = s_samplingRate (smu w)\<rparr>
     \<and> filterSize (V_FILTERS e) = filterSize (V_FILTERS w) \<and> filterSize (C_FILTERS e) = filterSize (C_FILTERS w)
     \<and> useCalibratedValues (V_CALIBRATION e) \<and> useCalibratedValues (C_CALIBRATION e)"
  using h717.run_completes [of w now n X t ns] assms(1-4) unfolding e_def
  by (simp add: filters_ok_def finished_def view717)

definition zworld_sample :: "unit smu717 zworld" where
  "zworld_sample = \<lparr>smu = smu717_initial (), V_CALIBRATION = cal_unit, C_CALIBRATION = cal_unit,
     cal_data = \<lparr>cs_eeprom = (\<lambda>_. 0), nullValueVol = [Fin 0, Fin 0], nullValueCur = [Fin 0, Fin 0]\<rparr>,
     V_FILTERS = filters_sample, C_FILTERS = filters_sample, V_STATS = stats_sample, C_STATS = stats_sample, autoNullStarted = False,
     z_operationType = SOURCE_VOLTAGE, z_current_range = AMP1, zeroCalstartTime = 0, nullCalibrationDone0 = False,
     nullCalibrationDone1 = False, nullCalibrationDone2 = False, nullCalibrationDone3 = False, nullCalibrationReady = False,
     samplingRateBeforeZeroCal = 0, filterSizeBeforeZeroCalV = 0, filterSizeBeforeZeroCalC = 0\<rparr>"

theorem null_calibration_completes_witness:
  "nullCalibrationReady (fold (handleAutoNull (hal717 (\<lambda>_ d. (0, d)))) ([100, 10500, 12000] @ [22000])
     (startNullCalibration (hal717 (\<lambda>_ d. (0, d))) 50 SOURCE_VOLTAGE zworld_sample))"
proof -
  have "filters_ok (V_FILTERS zworld_sample)" "filters_ok (C_FILTERS zworld_sample)"
    by (simp_all add: zworld_sample_def filters_sample_ok)
  from null_calibration_completes [OF this, of 50 22000 "\<lambda>_ d. (0, d)" "[100, 10500, 12000]" SOURCE_VOLTAGE] show ?thesis by simp
qed

end
