(* ===== verification/Tags.thy ===== *)
theory Tags
  imports Prelude
begin

text \<open>The touch tags (src/src/tags.h): the numbers by which the display reports which area was touched.\<close>

definition KEYBOARD_1 :: int where "KEYBOARD_1 = 1"
definition KEYBOARD_2 :: int where "KEYBOARD_2 = 2"
definition KEYBOARD_3 :: int where "KEYBOARD_3 = 3"
definition KEYBOARD_4 :: int where "KEYBOARD_4 = 4"
definition KEYBOARD_5 :: int where "KEYBOARD_5 = 5"
definition KEYBOARD_6 :: int where "KEYBOARD_6 = 6"
definition KEYBOARD_7 :: int where "KEYBOARD_7 = 7"
definition KEYBOARD_8 :: int where "KEYBOARD_8 = 8"
definition KEYBOARD_9 :: int where "KEYBOARD_9 = 9"
definition KEYBOARD_0 :: int where "KEYBOARD_0 = 10"
definition KEYBOARD_COMMA :: int where "KEYBOARD_COMMA = 11"
definition KEYBOARD_UV :: int where "KEYBOARD_UV = 12"
definition KEYBOARD_MV :: int where "KEYBOARD_MV = 13"
definition KEYBOARD_V :: int where "KEYBOARD_V = 14"
definition KEYBOARD_BACK :: int where "KEYBOARD_BACK = 15"
definition KEYBOARD_CLR :: int where "KEYBOARD_CLR = 16"
definition KEYBOARD_PLUSMINUS :: int where "KEYBOARD_PLUSMINUS = 17"
definition KEYBOARD_DIVIDE10 :: int where "KEYBOARD_DIVIDE10 = 18"
definition KEYBOARD_TIMES10 :: int where "KEYBOARD_TIMES10 = 19"
definition KEYBOARD_PLUS_10MV :: int where "KEYBOARD_PLUS_10MV = 30"
definition KEYBOARD_MINUS_10MV :: int where "KEYBOARD_MINUS_10MV = 31"
definition KEYBOARD_OK :: int where "KEYBOARD_OK = 50"
definition KEYBOARD_CANCEL :: int where "KEYBOARD_CANCEL = 51"
definition BUTTON_ADC_GAIN_COMP_UP :: int where "BUTTON_ADC_GAIN_COMP_UP = 60"
definition BUTTON_ADC_GAIN_COMP_DOWN :: int where "BUTTON_ADC_GAIN_COMP_DOWN = 61"
definition BUTTON_DAC_GAIN_COMP_UP :: int where "BUTTON_DAC_GAIN_COMP_UP = 62"
definition BUTTON_DAC_GAIN_COMP_DOWN :: int where "BUTTON_DAC_GAIN_COMP_DOWN = 63"
definition BUTTON_DAC_GAIN_COMP_UP2 :: int where "BUTTON_DAC_GAIN_COMP_UP2 = 64"
definition BUTTON_DAC_GAIN_COMP_DOWN2 :: int where "BUTTON_DAC_GAIN_COMP_DOWN2 = 65"
definition BUTTON_ADC_GAIN_COMP_UP2 :: int where "BUTTON_ADC_GAIN_COMP_UP2 = 66"
definition BUTTON_ADC_GAIN_COMP_DOWN2 :: int where "BUTTON_ADC_GAIN_COMP_DOWN2 = 67"
definition BUTTON_DAC_GAIN_COMP_LIM_UP :: int where "BUTTON_DAC_GAIN_COMP_LIM_UP = 68"
definition BUTTON_DAC_GAIN_COMP_LIM_DOWN :: int where "BUTTON_DAC_GAIN_COMP_LIM_DOWN = 69"
definition BUTTON_DAC_ZERO_COMP_UP :: int where "BUTTON_DAC_ZERO_COMP_UP = 70"
definition BUTTON_DAC_ZERO_COMP_DOWN :: int where "BUTTON_DAC_ZERO_COMP_DOWN = 71"
definition BUTTON_DAC_ZERO_COMP_UP2 :: int where "BUTTON_DAC_ZERO_COMP_UP2 = 72"
definition BUTTON_DAC_ZERO_COMP_DOWN2 :: int where "BUTTON_DAC_ZERO_COMP_DOWN2 = 73"
definition BUTTON_SOURCE_SET :: int where "BUTTON_SOURCE_SET = 100"
definition BUTTON_LIM_SET :: int where "BUTTON_LIM_SET = 110"
definition BUTTON_VOLT_AUTO :: int where "BUTTON_VOLT_AUTO = 111"
definition BUTTON_CUR_AUTO :: int where "BUTTON_CUR_AUTO = 112"
definition BUTTON_CLEAR_BUFFER :: int where "BUTTON_CLEAR_BUFFER = 113"
definition BUTTON_REL :: int where "BUTTON_REL = 114"
definition BUTTON_UNCAL :: int where "BUTTON_UNCAL = 115"
definition BUTTON_DAC_NONLINEAR_CALIBRATE :: int where "BUTTON_DAC_NONLINEAR_CALIBRATE = 116"
definition BUTTON_DAC_ZERO_CALIBRATE :: int where "BUTTON_DAC_ZERO_CALIBRATE = 117"
definition TAG_FILTER_SLIDER_B :: int where "TAG_FILTER_SLIDER_B = 122"
definition TAG_FILTER_SLIDER :: int where "TAG_FILTER_SLIDER = 123"
definition BUTTON_SAMPLE_RATE_5 :: int where "BUTTON_SAMPLE_RATE_5 = 160"
definition BUTTON_SAMPLE_RATE_20 :: int where "BUTTON_SAMPLE_RATE_20 = 161"
definition BUTTON_SAMPLE_RATE_50 :: int where "BUTTON_SAMPLE_RATE_50 = 162"
definition BUTTON_SAMPLE_RATE_100 :: int where "BUTTON_SAMPLE_RATE_100 = 163"
definition MENU_BUTTON_SOURCE_PULSE :: int where "MENU_BUTTON_SOURCE_PULSE = 180"
definition MENU_BUTTON_SOURCE_DC_VOLTAGE :: int where "MENU_BUTTON_SOURCE_DC_VOLTAGE = 181"
definition MENU_BUTTON_SOURCE_DC_CURRENT :: int where "MENU_BUTTON_SOURCE_DC_CURRENT = 182"
definition MENU_BUTTON_SOURCE_SWEEP :: int where "MENU_BUTTON_SOURCE_SWEEP = 183"
definition MENU_BUTTON_DIGITIZE :: int where "MENU_BUTTON_DIGITIZE = 184"
definition MENU_BUTTON_GRAPH :: int where "MENU_BUTTON_GRAPH = 185"
definition MENU_BUTTON_LOGGER :: int where "MENU_BUTTON_LOGGER = 186"
definition MENU_BUTTON_RESISTANCE :: int where "MENU_BUTTON_RESISTANCE = 187"
definition MENU_SHOWSETTINGS :: int where "MENU_SHOWSETTINGS = 188"
definition PULSE_BUTTON_INC :: int where "PULSE_BUTTON_INC = 190"
definition PULSE_BUTTON_DEC :: int where "PULSE_BUTTON_DEC = 191"
definition PULSE_BUTTON_INC2 :: int where "PULSE_BUTTON_INC2 = 193"
definition PULSE_BUTTON_DEC2 :: int where "PULSE_BUTTON_DEC2 = 194"
definition PULSE_BUTTON_INC3 :: int where "PULSE_BUTTON_INC3 = 195"
definition PULSE_BUTTON_DEC3 :: int where "PULSE_BUTTON_DEC3 = 196"
definition SWEEP_BUTTON_INC :: int where "SWEEP_BUTTON_INC = 200"
definition SWEEP_BUTTON_DEC :: int where "SWEEP_BUTTON_DEC = 201"
definition SWEEP_BUTTON_STEP_INC :: int where "SWEEP_BUTTON_STEP_INC = 202"
definition SWEEP_BUTTON_STEP_DEC :: int where "SWEEP_BUTTON_STEP_DEC = 203"
definition SWEEP_BUTTON_VOLT_INC :: int where "SWEEP_BUTTON_VOLT_INC = 204"
definition SWEEP_BUTTON_VOLT_DEC :: int where "SWEEP_BUTTON_VOLT_DEC = 205"
definition SWEEP_BUTTON_CLEAR :: int where "SWEEP_BUTTON_CLEAR = 206"
definition MAIN_MENU_CLOSE :: int where "MAIN_MENU_CLOSE = 250"

lemmas tag_defs = KEYBOARD_1_def KEYBOARD_2_def KEYBOARD_3_def KEYBOARD_4_def
  KEYBOARD_5_def KEYBOARD_6_def KEYBOARD_7_def KEYBOARD_8_def
  KEYBOARD_9_def KEYBOARD_0_def KEYBOARD_COMMA_def KEYBOARD_UV_def
  KEYBOARD_MV_def KEYBOARD_V_def KEYBOARD_BACK_def KEYBOARD_CLR_def
  KEYBOARD_PLUSMINUS_def KEYBOARD_DIVIDE10_def KEYBOARD_TIMES10_def KEYBOARD_PLUS_10MV_def
  KEYBOARD_MINUS_10MV_def KEYBOARD_OK_def KEYBOARD_CANCEL_def BUTTON_ADC_GAIN_COMP_UP_def
  BUTTON_ADC_GAIN_COMP_DOWN_def BUTTON_DAC_GAIN_COMP_UP_def BUTTON_DAC_GAIN_COMP_DOWN_def BUTTON_DAC_GAIN_COMP_UP2_def
  BUTTON_DAC_GAIN_COMP_DOWN2_def BUTTON_ADC_GAIN_COMP_UP2_def BUTTON_ADC_GAIN_COMP_DOWN2_def BUTTON_DAC_GAIN_COMP_LIM_UP_def
  BUTTON_DAC_GAIN_COMP_LIM_DOWN_def BUTTON_DAC_ZERO_COMP_UP_def BUTTON_DAC_ZERO_COMP_DOWN_def BUTTON_DAC_ZERO_COMP_UP2_def
  BUTTON_DAC_ZERO_COMP_DOWN2_def BUTTON_SOURCE_SET_def BUTTON_LIM_SET_def BUTTON_VOLT_AUTO_def
  BUTTON_CUR_AUTO_def BUTTON_CLEAR_BUFFER_def BUTTON_REL_def BUTTON_UNCAL_def
  BUTTON_DAC_NONLINEAR_CALIBRATE_def BUTTON_DAC_ZERO_CALIBRATE_def TAG_FILTER_SLIDER_B_def TAG_FILTER_SLIDER_def
  BUTTON_SAMPLE_RATE_5_def BUTTON_SAMPLE_RATE_20_def BUTTON_SAMPLE_RATE_50_def BUTTON_SAMPLE_RATE_100_def
  MENU_BUTTON_SOURCE_PULSE_def MENU_BUTTON_SOURCE_DC_VOLTAGE_def MENU_BUTTON_SOURCE_DC_CURRENT_def MENU_BUTTON_SOURCE_SWEEP_def
  MENU_BUTTON_DIGITIZE_def MENU_BUTTON_GRAPH_def MENU_BUTTON_LOGGER_def MENU_BUTTON_RESISTANCE_def
  MENU_SHOWSETTINGS_def PULSE_BUTTON_INC_def PULSE_BUTTON_DEC_def PULSE_BUTTON_INC2_def
  PULSE_BUTTON_DEC2_def PULSE_BUTTON_INC3_def PULSE_BUTTON_DEC3_def SWEEP_BUTTON_INC_def
  SWEEP_BUTTON_DEC_def SWEEP_BUTTON_STEP_INC_def SWEEP_BUTTON_STEP_DEC_def SWEEP_BUTTON_VOLT_INC_def
  SWEEP_BUTTON_VOLT_DEC_def SWEEP_BUTTON_CLEAR_def MAIN_MENU_CLOSE_def

end
