(* ===== verification/Sweep.thy ===== *)
theory Sweep
  imports World Hal717x Tags
begin

text \<open>
  The sweep function (src/src/FunctionSweep.cpp): a triangular sweep of the source, advanced by the
  main loop, and its touch buttons.  The \<open>int\<close> times are the signed reading of the millisecond
  counter.  Drawing is left out.
\<close>

section \<open>State\<close>

record sweep =
  previousSweepValues :: "f32 list"
  currentSweepValue :: f32
  currentSweepDir :: int
  sw_operationType :: OPERATION_TYPE
  sw_pulseTimer :: int
  sw_duration :: f32
  sw_step :: f32
  sw_high :: f32
  sw_low :: f32
  sinceLastPress2 :: int
  lastButtonTag :: int
  pressDuration :: int
  pauseBetweenChanges :: int

definition sweep_initial :: "int \<Rightarrow> sweep" where
  "sweep_initial now = \<lparr>previousSweepValues = [Fin 0, Fin 0], currentSweepValue = lit 0, currentSweepDir = 1,
     sw_operationType = SOURCE_VOLTAGE, sw_pulseTimer = 0, sw_duration = lit 5000, sw_step = lit 100, sw_high = lit 1000,
     sw_low = lit (- 1000), sinceLastPress2 = now, lastButtonTag = 0, pressDuration = 0, pauseBetweenChanges = 500\<rparr>"

section \<open>Operations\<close>

definition sweep_init :: "sweep \<Rightarrow> sweep" where
  "sweep_init w = w\<lparr>currentSweepValue := lit 0, currentSweepDir := 1\<rparr>"

definition sweep_open :: "int \<Rightarrow> OPERATION_TYPE \<Rightarrow> sweep \<Rightarrow> sweep" where
  "sweep_open now t w = w\<lparr>sw_pulseTimer := now, sw_operationType := t, previousSweepValues := [lit 0, lit 0]\<rparr>"

definition sweep_button :: "int \<Rightarrow> sweep \<Rightarrow> sweep" where
  "sweep_button inputTag w =
     (if inputTag = SWEEP_BUTTON_INC then w\<lparr>sw_duration := sw_duration w + of_i 100\<rparr>
      else if inputTag = SWEEP_BUTTON_DEC then w\<lparr>sw_duration := sw_duration w - of_i 100\<rparr>
      else if inputTag = SWEEP_BUTTON_STEP_INC then w\<lparr>sw_step := sw_step w + of_i 10\<rparr>
      else if inputTag = SWEEP_BUTTON_STEP_DEC then w\<lparr>sw_step := sw_step w - of_i 10\<rparr>
      else if inputTag = SWEEP_BUTTON_VOLT_INC then w\<lparr>sw_high := sw_high w + of_i 100, sw_low := sw_low w - of_i 100\<rparr>
      else if inputTag = SWEEP_BUTTON_VOLT_DEC then w\<lparr>sw_high := sw_high w - of_i 100, sw_low := sw_low w + of_i 100\<rparr>
      else if inputTag = SWEEP_BUTTON_CLEAR then w\<lparr>currentSweepValue := lit 0, currentSweepDir := 1\<rparr>
      else w)"

definition sweep_handleButtonAction :: "int \<Rightarrow> int \<Rightarrow> sweep \<Rightarrow> sweep" where
  "sweep_handleButtonAction now inputTag w0 =
     (let w = (if inputTag = 0 then w0\<lparr>pressDuration := 0\<rparr> else w0) in
      if lastButtonTag w = inputTag \<and> sinceLastPress2 w + pauseBetweenChanges w > now then w
      else let d = pressDuration w + 1;
               w1 = w\<lparr>pressDuration := d, pauseBetweenChanges := (if d \<ge> 15 then 50 else if d \<ge> 5 then 125 else 250),
                      sinceLastPress2 := now, lastButtonTag := inputTag\<rparr>
           in sweep_button inputTag w1)"

definition sweep_turn :: "sweep \<Rightarrow> int" where
  "sweep_turn w =
     (if currentSweepDir w = 1 \<and> currentSweepValue w \<ge> sw_high w then - 1
      else if currentSweepDir w = - 1 \<and> currentSweepValue w \<le> sw_low w then 1
      else currentSweepDir w)"

text \<open>\<open>useBestRange\<close> is computed and then set to true.\<close>

definition operateSmuVoltage :: "'s hal \<Rightarrow> env \<Rightarrow> int \<Rightarrow> sweep \<Rightarrow> 's \<Rightarrow> sweep \<times> 's" where
  "operateSmuVoltage H E now w s =
     (if sw_pulseTimer w + cdiv (f2i32 (sw_duration w)) 2 < now
      then let dir = sweep_turn w;
               v = currentSweepValue w + sw_step w * of_i dir;
               w1 = w\<lparr>sw_pulseTimer := now, currentSweepDir := dir,
                      previousSweepValues := [currentSweepValue w, previousSweepValues w ! 0], currentSweepValue := v\<rparr>
           in (w1, snd (fltSetCommitVoltageSource H E (f2i64 ((conv v :: f64) * lit 1000)) True s))
      else (w, s))"

definition operateSmuCurrent :: "'s hal \<Rightarrow> env \<Rightarrow> int \<Rightarrow> sweep \<Rightarrow> 's \<Rightarrow> sweep \<times> 's" where
  "operateSmuCurrent H E now w s =
     (if sw_pulseTimer w + cdiv (f2i32 (sw_duration w)) 2 < now
      then let dir = sweep_turn w;
               v = currentSweepValue w + sw_step w * of_i dir;
               w1 = w\<lparr>sw_pulseTimer := now, currentSweepDir := dir, currentSweepValue := v\<rparr>
           in (w1, snd (fltSetCommitCurrentSource H E (f2i64 ((conv v :: f64) * lit 1000)) s))
      else (w, s))"

definition sweep_handle :: "'s hal \<Rightarrow> env \<Rightarrow> int \<Rightarrow> sweep \<times> 's \<Rightarrow> sweep \<times> 's" where
  "sweep_handle H E now p =
     (if sw_operationType (fst p) = SOURCE_VOLTAGE then operateSmuVoltage H E now (fst p) (snd p)
      else operateSmuCurrent H E now (fst p) (snd p))"

section \<open>The sweep stays in its band\<close>

definition sweep_ok :: "sweep \<Rightarrow> bool" where
  "sweep_ok w \<longleftrightarrow> currentSweepDir w \<in> {1, - 1}
     \<and> is_fin (currentSweepValue w) \<and> wf_flt (currentSweepValue w) \<and> is_fin (sw_high w) \<and> is_fin (sw_low w)
     \<and> is_fin (sw_step w) \<and> wf_flt (sw_step w) \<and> 0 \<le> val (sw_step w)
     \<and> is_fin (sw_high w + sw_step w) \<and> is_fin (sw_low w - sw_step w)
     \<and> sw_low w \<le> sw_high w
     \<and> currentSweepValue w \<le> sw_high w + sw_step w \<and> sw_low w - sw_step w \<le> currentSweepValue w"

lemma wf_rnd: "wf_flt (a :: f32) \<Longrightarrow> is_fin a \<Longrightarrow> val (rnd z (val a) :: f32) = val a \<and> is_fin (rnd z (val a) :: f32)"
  using rnd_exact [OF repr_in_f32_int [of 0], of z] by (cases a) (simp_all add: rnd_exact)

lemma rnd_sandwich:
  assumes "l \<le> q" "q \<le> u" "is_fin (rnd x l :: f32)" "is_fin (rnd y u :: f32)"
  shows "is_fin (rnd z q :: f32) \<and> val (rnd x l :: f32) \<le> val (rnd z q :: f32) \<and> val (rnd z q :: f32) \<le> val (rnd y u :: f32)"
proof -
  have a: "(rnd x l :: f32) \<le> rnd z q" and b: "(rnd z q :: f32) \<le> rnd y u" by (rule rnd_le [OF assms(1)], rule rnd_le [OF assms(2)])
  have f: "is_fin (rnd z q :: f32)"
    using a b assms(3,4) by (cases "rnd z q :: f32"; cases "rnd x l :: f32"; cases "rnd y u :: f32"; simp add: less_eq_flt_def)
  show ?thesis using a b f assms(3,4) by (simp add: fin_less_eq)
qed

lemma sign_step:
  assumes "is_fin s" "wf_flt (s :: f32)" "d \<in> {1, - 1 :: int}"
  shows "is_fin (s * of_i d) \<and> val (s * of_i d) = of_int d * val s"
proof -
  have w: "wf_flt (- s)" using assms(2) by (cases s) (use repr_in_f32_int [of 0] in \<open>auto simp: repr_in_uminus uminus_flt_def\<close>)
  have "s * of_i d = rnd (sgnb s \<noteq> sgnb (of_i d :: f32)) (val s * of_int d)" using assms by (auto simp: fin_mult)
  then show ?thesis using assms(3) wf_rnd [OF assms(2,1)] wf_rnd [OF w] assms(1) by auto
qed

lemma rnd_sign: "is_fin (rnd z q :: ('p::len) flt) = is_fin (rnd y q :: 'p flt)" "val (rnd z q :: 'p flt) = val (rnd y q :: 'p flt)"
  by (auto simp: rnd_def Let_def)

lemma sweep_advance:
  assumes ok: "sweep_ok w"
  defines "v \<equiv> currentSweepValue w + sw_step w * of_i (sweep_turn w)"
  shows "sweep_turn w \<in> {1, - 1} \<and> is_fin v \<and> wf_flt v \<and> v \<le> sw_high w + sw_step w \<and> sw_low w - sw_step w \<le> v"
proof -
  note o = ok [unfolded sweep_ok_def]
  define a s h l where "a = val (currentSweepValue w)" and "s = val (sw_step w)" and "h = val (sw_high w)" and "l = val (sw_low w)"
  have d: "sweep_turn w \<in> {1, - 1}" using o by (auto simp: sweep_turn_def)
  have H: "is_fin (rnd False (h + s) :: f32)" "val (sw_high w + sw_step w) = val (rnd False (h + s) :: f32)"
    and L: "is_fin (rnd False (l - s) :: f32)" "val (sw_low w - sw_step w) = val (rnd False (l - s) :: f32)"
    using fin_add [of "sw_high w" "sw_step w"] fin_sub [of "sw_low w" "sw_step w"] o
    unfolding h_def s_def l_def by (metis rnd_sign)+
  have A: "is_fin (rnd False a :: f32)" "val (rnd False a :: f32) = a" using o wf_rnd by (simp_all add: a_def)
  have st: "is_fin (sw_step w * of_i (sweep_turn w))" "val (sw_step w * of_i (sweep_turn w)) = of_int (sweep_turn w) * s"
    using sign_step [of "sw_step w" "sweep_turn w"] o d by (simp_all add: s_def)
  have "\<exists>z. v = rnd z (a + of_int (sweep_turn w) * s)" using o st by (auto simp: v_def fin_add a_def)
  then obtain z where v: "v = rnd z (a + of_int (sweep_turn w) * s)" ..
  have b: "a \<le> val (sw_high w + sw_step w)" "val (sw_low w - sw_step w) \<le> a" "0 \<le> s" "l \<le> h"
    using o by (auto simp: fin_less_eq a_def s_def h_def l_def)
  have "is_fin v \<and> val (sw_low w - sw_step w) \<le> val v \<and> val v \<le> val (sw_high w + sw_step w)"
  proof (cases "sweep_turn w = 1")
    case True
    then have "a \<le> h" using o b(4) by (auto simp: sweep_turn_def fin_less_eq a_def h_def l_def split: if_splits)
    then show ?thesis using rnd_sandwich [of a "a + s" "h + s" False False z] A H b(2,3) unfolding v True by auto
  next
    case False
    then have m: "sweep_turn w = - 1" using d by simp
    then have "l \<le> a" using o b(4) by (auto simp: sweep_turn_def fin_less_eq a_def h_def l_def split: if_splits)
    then show ?thesis using rnd_sandwich [of "l - s" "a - s" a False False z] A L b(1,3) unfolding v m by auto
  qed
  then show ?thesis using d o v by (auto simp: fin_less_eq rnd_wf)
qed

text \<open>When a poll makes a step, and the request it makes then.\<close>

definition sweep_due :: "int \<Rightarrow> sweep \<Rightarrow> bool" where
  "sweep_due now w = (sw_pulseTimer w + cdiv (f2i32 (sw_duration w)) 2 < now)"

definition sweep_micro :: "f32 \<Rightarrow> int" where "sweep_micro v = f2i64 ((conv v :: f64) * lit 1000)"

lemma f2i64_mono: "a \<le> b \<Longrightarrow> f2i64 a \<le> f2i64 (b :: ('p::len) flt)"
  using trunc_mono [of "val a" "val b"]
  by (cases a; cases b) (auto simp: f2i64_def f2i_def less_eq_flt_def max_def min_def split: if_splits)

lemma mult_commutes: "a * b = b * (a :: ('p::len) flt)"
proof -
  have 1: "(sgnb a \<noteq> sgnb b) = (sgnb b \<noteq> sgnb a)" by auto
  show ?thesis unfolding times_flt_def fmul_def 1 mult.commute [of "val a" "val b"] by auto
qed

lemma sweep_micro_mono: "a \<le> b \<Longrightarrow> sweep_micro a \<le> sweep_micro b"
proof -
  assume "a \<le> b"
  have k: "is_fin (lit 1000 :: f64)" "0 < val (lit 1000 :: f64)" by code_simp+
  show ?thesis unfolding sweep_micro_def mult_commutes [of _ "lit 1000"]
    by (intro f2i64_mono fmult_mono conv_mono \<open>a \<le> b\<close> k)
qed

text \<open>The band: what the polls keep, and what a step sources.\<close>

definition same_band :: "sweep \<Rightarrow> sweep \<Rightarrow> bool" where
  "same_band w v = (sweep_ok v \<and> sw_high v = sw_high w \<and> sw_low v = sw_low w \<and> sw_step v = sw_step w
     \<and> sw_duration v = sw_duration w \<and> sw_operationType v = sw_operationType w)"

lemma sweep_handle_band: "same_band w (fst p) \<Longrightarrow> same_band w (fst (sweep_handle H E now p))"
  using sweep_advance [of "fst p"]
  by (auto simp: sweep_handle_def operateSmuVoltage_def operateSmuCurrent_def same_band_def sweep_ok_def Let_def)

lemma sweep_polls_band: "same_band w (fst p) \<Longrightarrow> same_band w (fst (fold (\<lambda>(E, now). sweep_handle H E now) polls p))"
proof (induction polls arbitrary: p)
  case (Cons q qs)
  then show ?case by (cases q) (simp add: sweep_handle_band)
qed simp

text \<open>One poll: nothing before the step is due, one request when it is.\<close>

lemma sweep_poll:
  assumes "same_band w v"
  shows "(let (v1, s1) = sweep_handle (hal717 X) E now (v, s) in
    if sweep_due now v
    then view (hal717 X) s1 = (view (hal717 X) s)\<lparr>mode := sw_operationType w, set_micro := sweep_micro (currentSweepValue v1)\<rparr>
      \<and> sw_low w - sw_step w \<le> currentSweepValue v1 \<and> currentSweepValue v1 \<le> sw_high w + sw_step w
    else v1 = v \<and> s1 = s)"
proof -
  have ok: "sweep_ok v" and e: "sw_high v = sw_high w" "sw_low v = sw_low w" "sw_step v = sw_step w" "sw_operationType v = sw_operationType w"
    using assms by (simp_all add: same_band_def)
  note b = sweep_advance [OF ok, unfolded e]
  show ?thesis
  proof (cases "sw_operationType w")
    case SOURCE_VOLTAGE
    then show ?thesis using b e by (simp add: sweep_handle_def operateSmuVoltage_def sweep_due_def sweep_micro_def Let_def h717.set_voltage)
  next
    case SOURCE_CURRENT
    then show ?thesis using b e by (simp add: sweep_handle_def operateSmuCurrent_def sweep_due_def sweep_micro_def Let_def h717.set_current)
  qed
qed

text \<open>C27: the sweep sources only what is in its band: after any polls at any times a further poll sources nothing before half the duration has
  passed; from then on it makes one request, in the mode of the sweep, for the new sweep value in micro units, which lies, as a number of
  single precision and in micro units, between low - step and high + step of the settings the sweep started with; the
  settings do not change, and limit, range and rate of the unit stay.  This holds from any state of a sweep in its
  band (sweep_ok: finite settings, low not above high and a step that is not negative; the buttons can
  make the step negative and the band empty).\<close>

theorem sweep_stays_in_band:
  assumes "sweep_ok w"
  shows "(let (w1, s1) = fold (\<lambda>(E, now). sweep_handle (hal717 X) E now) polls (w, s);
      (w2, s2) = sweep_handle (hal717 X) E now (w1, s1) in
    (sw_high w2, sw_low w2, sw_step w2, sw_duration w2, sw_operationType w2) = (sw_high w, sw_low w, sw_step w, sw_duration w, sw_operationType w)
    \<and> sweep_ok w2
    \<and> (if sweep_due now w1
       then view (hal717 X) s2 = (view (hal717 X) s1)\<lparr>mode := sw_operationType w, set_micro := sweep_micro (currentSweepValue w2)\<rparr>
         \<and> sw_low w - sw_step w \<le> currentSweepValue w2 \<and> currentSweepValue w2 \<le> sw_high w + sw_step w
         \<and> sweep_micro (sw_low w - sw_step w) \<le> set_micro (view (hal717 X) s2) \<and> set_micro (view (hal717 X) s2) \<le> sweep_micro (sw_high w + sw_step w)
       else w2 = w1 \<and> s2 = s1))"
proof -
  obtain w1 s1 where p: "fold (\<lambda>(E, now). sweep_handle (hal717 X) E now) polls (w, s) = (w1, s1)" by fastforce
  obtain w2 s2 where q: "sweep_handle (hal717 X) E now (w1, s1) = (w2, s2)" by fastforce
  have "same_band w (fst (w, s))" using assms by (simp add: same_band_def)
  from sweep_polls_band [OF this, of "hal717 X" polls] have b: "same_band w w1" by (simp add: p)
  have c: "same_band w w2" using sweep_handle_band [of w "(w1, s1)" "hal717 X" E now] b by (simp add: q)
  show ?thesis unfolding p q prod.case Let_def
    using c sweep_poll [OF b, of X E now s1] unfolding q prod.case Let_def
    by (auto simp: same_band_def sweep_micro_mono)
qed

theorem sweep_stays_in_band_witness:
  "view (hal717 (\<lambda>_ d. (0, d))) (snd (sweep_handle (hal717 (\<lambda>_ d. (0, d))) (env_sample cal_unit (Fin 0)) 6000 (sweep_initial 0, smu717_initial ())))
     = (view (hal717 (\<lambda>_ d. (0, d))) (smu717_initial ()))\<lparr>mode := SOURCE_VOLTAGE, set_micro := 100000\<rparr>"
proof -
  have "repr_in TYPE(f32) 0" "repr_in TYPE(f32) 100" using repr_in_f32_int [of 0] repr_in_f32_int [of 100] by simp_all
  moreover have "(lit 0 :: f32) = Fin 0" "(lit 100 :: f32) = Fin 100" by code_simp+
  ultimately have "wf_flt (lit 0 :: f32)" "wf_flt (lit 100 :: f32)" by simp_all
  moreover have "is_fin (lit 1000 :: f32)" "is_fin (lit (- 1000) :: f32)" "is_fin (lit 100 :: f32)" "0 \<le> val (lit 100 :: f32)"
    "is_fin (lit 1000 + lit 100 :: f32)" "is_fin (lit (- 1000) - lit 100 :: f32)" "lit (- 1000) \<le> (lit 1000 :: f32)"
    "(lit 0 :: f32) \<le> lit 1000 + lit 100" "lit (- 1000) - lit 100 \<le> (lit 0 :: f32)" by code_simp+
  ultimately have ok: "sweep_ok (sweep_initial 0)" by (simp add: sweep_ok_def sweep_initial_def)
  have d: "sweep_due 6000 (sweep_initial 0)" "sw_operationType (sweep_initial 0) = SOURCE_VOLTAGE" by code_simp+
  have "fst (sweep_handle H E 6000 (sweep_initial 0, s)) = (sweep_initial 0)\<lparr>sw_pulseTimer := 6000, currentSweepDir := sweep_turn (sweep_initial 0),
      previousSweepValues := [currentSweepValue (sweep_initial 0), previousSweepValues (sweep_initial 0) ! 0],
      currentSweepValue := currentSweepValue (sweep_initial 0) + sw_step (sweep_initial 0) * of_i (sweep_turn (sweep_initial 0))\<rparr>" for H :: "unit smu717 hal" and E s
    using d by (simp add: sweep_handle_def operateSmuVoltage_def sweep_due_def Let_def)
  moreover have "sweep_micro (currentSweepValue (sweep_initial 0) + sw_step (sweep_initial 0) * of_i (sweep_turn (sweep_initial 0))) = 100000" by code_simp
  ultimately have v: "sweep_micro (currentSweepValue (fst (sweep_handle H E 6000 (sweep_initial 0, s)))) = 100000" for H :: "unit smu717 hal" and E s by simp
  show ?thesis using sweep_stays_in_band [OF ok, of "\<lambda>_ d. (0, d)" "[]" "smu717_initial ()" "env_sample cal_unit (Fin 0)" 6000] d v
    by (simp only: fold.simps id_apply case_prod_unfold Let_def fst_conv snd_conv if_True)
qed

end
