(* ===== verification/Pulse.thy ===== *)
theory Pulse
  imports World Hal717x Tags
begin

text \<open>
  The pulse function (src/src/FunctionPulse.cpp): a timer interrupt toggles the source between two
  levels; touch buttons and the knob change the frequency and the levels.  The interrupt timer is
  represented by the period it was last started with (microseconds).  The frequency is a 32-bit number.  \<open>off\<close> is the
  \<open>disable_ADC_DAC_SPI_units\<close> of the unit.  Drawing is left out.
\<close>

section \<open>State\<close>

record pulse =
  p_max :: f32
  p_min :: f32
  pulseHigh :: bool
  measuredHigh :: f32
  measuredLow :: f32
  p_hz :: int
  p_duration :: f32
  knobOperation :: int
  p_operationType :: OPERATION_TYPE
  p_sinceLastPress :: int
  p_timer_us :: "f32 option"

definition pulse_initial :: "int \<Rightarrow> pulse" where
  "pulse_initial now = \<lparr>p_max = Fin 0, p_min = Fin 0, pulseHigh = False, measuredHigh = Fin 0, measuredLow = Fin 0, p_hz = 0,
     p_duration = of_i 1000, knobOperation = 0, p_operationType = SOURCE_VOLTAGE, p_sinceLastPress = now, p_timer_us = None\<rparr>"

section \<open>Operations\<close>

definition pulse_init :: "pulse \<Rightarrow> pulse" where
  "pulse_init p = p\<lparr>p_min := lit (- 2000), p_max := lit 2000, p_hz := 5, knobOperation := 0\<rparr>"

definition updateSamplingPeriod :: "int \<Rightarrow> pulse \<Rightarrow> pulse" where
  "updateSamplingPeriod hz p =
     (let period = conv (lit 1 / conv (of_i hz :: f32) :: f64) :: f32;
          ms = conv ((conv period :: f64) * lit 1000) :: f32
      in p\<lparr>p_timer_us := Some (ms * of_i 1000)\<rparr>)"

definition pulse_open :: "('s \<Rightarrow> 's) \<Rightarrow> 's hal \<Rightarrow> env \<Rightarrow> OPERATION_TYPE \<Rightarrow> pulse \<Rightarrow> 's \<Rightarrow> pulse \<times> 's" where
  "pulse_open off H E t p s =
     (let p1 = p\<lparr>p_operationType := t\<rparr>;
          p2 = (if t = SOURCE_CURRENT then p1\<lparr>p_max := lit 20, p_min := lit (- 20)\<rparr> else p1)
      in (updateSamplingPeriod (p_hz p2) p2, off (setCurrentRange H E AMP1 t s)))"

definition pulse_close :: "pulse \<Rightarrow> pulse" where
  "pulse_close p = p\<lparr>p_timer_us := None\<rparr>"

definition int32 :: "int \<Rightarrow> int" where "int32 n = sint (word_of_int n :: 32 word)"

text \<open>The step of a level: finer near zero.  \<open>up\<close> decides which end of the fine band is included.\<close>

definition level_step :: "OPERATION_TYPE \<Rightarrow> bool \<Rightarrow> f32 \<Rightarrow> f32" where
  "level_step t up x =
     (let inside = (\<lambda>b :: rat. if up then (conv x :: f64) \<ge> lit (- b) \<and> (conv x :: f64) < lit b
                    else (conv x :: f64) > lit (- b) \<and> (conv x :: f64) \<le> lit b)
      in if t = SOURCE_CURRENT \<and> inside 1 then conv (lit 0.1 :: f64)
         else if t = SOURCE_VOLTAGE \<and> inside 100 then lit 10
         else if t = SOURCE_CURRENT then lit 1 else lit 100)"

definition pulse_handleButtonAction :: "int \<Rightarrow> int \<Rightarrow> pulse \<Rightarrow> pulse" where
  "pulse_handleButtonAction now inputTag p =
     (if p_sinceLastPress p + 100 < now then
        let p1 = p\<lparr>p_sinceLastPress := now\<rparr>; t = p_operationType p in
        if inputTag = PULSE_BUTTON_INC then
          (let hz = int32 (p_hz p + (if p_hz p < 10 then 1 else 10)) in updateSamplingPeriod hz (p1\<lparr>p_hz := hz\<rparr>))
        else if inputTag = PULSE_BUTTON_DEC then
          (let h = int32 (p_hz p - (if p_hz p \<le> 10 then 1 else 10)); hz = (if h < 1 then 1 else h) in updateSamplingPeriod hz (p1\<lparr>p_hz := hz\<rparr>))
        else if inputTag = PULSE_BUTTON_INC2 then p1\<lparr>p_min := p_min p + level_step t True (p_min p)\<rparr>
        else if inputTag = PULSE_BUTTON_DEC2 then p1\<lparr>p_min := p_min p - level_step t False (p_min p)\<rparr>
        else if inputTag = PULSE_BUTTON_INC3 then p1\<lparr>p_max := p_max p + level_step t True (p_max p)\<rparr>
        else if inputTag = PULSE_BUTTON_DEC3 then p1\<lparr>p_max := p_max p - level_step t False (p_max p)\<rparr>
        else p
      else p)"

definition to_micro :: "f32 \<Rightarrow> int" where
  "to_micro v = f2i64 ((conv v :: f64) * lit 1000)"

definition sourceVoltagePulse :: "'s hal \<Rightarrow> env \<Rightarrow> f32 \<Rightarrow> f32 \<Rightarrow> f32 \<Rightarrow> pulse \<Rightarrow> 's \<Rightarrow> pulse \<times> 's" where
  "sourceVoltagePulse H E high low raw p s =
     (let dyn = (\<bar>low\<bar> < of_i 4500 \<and> \<bar>high\<bar> < of_i 4500)
      in if pulseHigh p
         then (p\<lparr>pulseHigh := False, measuredLow := raw\<rparr>, snd (fltSetCommitVoltageSource H E (to_micro low) dyn s))
         else (p\<lparr>pulseHigh := True, measuredHigh := raw\<rparr>, snd (fltSetCommitVoltageSource H E (to_micro high) dyn s)))"

definition sourceCurrentPulse :: "'s hal \<Rightarrow> env \<Rightarrow> f32 \<Rightarrow> f32 \<Rightarrow> f32 \<Rightarrow> pulse \<Rightarrow> 's \<Rightarrow> pulse \<times> 's" where
  "sourceCurrentPulse H E high low raw p s =
     (if pulseHigh p
      then (p\<lparr>pulseHigh := False, measuredLow := raw\<rparr>, snd (fltSetCommitCurrentSource H E (to_micro low) s))
      else (p\<lparr>pulseHigh := True, measuredHigh := raw\<rparr>, snd (fltSetCommitCurrentSource H E (to_micro high) s)))"

text \<open>The interrupt handler.  It passes \<open>min\<close> for \<open>high\<close> and \<open>max\<close> for \<open>low\<close>.\<close>

definition sourcePulse :: "'s hal \<Rightarrow> env \<Rightarrow> f32 \<Rightarrow> f32 \<Rightarrow> pulse \<times> 's \<Rightarrow> pulse \<times> 's" where
  "sourcePulse H E rawV rawC q = (case q of (p, s) \<Rightarrow>
     if p_operationType p = SOURCE_CURRENT then sourceCurrentPulse H E (p_min p) (p_max p) rawC p s
     else sourceVoltagePulse H E (p_min p) (p_max p) rawV p s)"

definition pulse_rotaryEncChanged :: "f32 \<Rightarrow> pulse \<Rightarrow> pulse" where
  "pulse_rotaryEncChanged changeValue p =
     (if knobOperation p = 0 then
        let h = f2i32 (of_i (p_hz p) + changeValue * of_i 10); hz = (if h < 1 then 1 else h)
        in updateSamplingPeriod hz (p\<lparr>p_hz := hz\<rparr>)
      else if knobOperation p = 1 then p\<lparr>p_min := conv ((conv (p_min p) :: f64) + conv changeValue * lit 100)\<rparr>
      else if knobOperation p = 2 then p\<lparr>p_max := conv ((conv (p_max p) :: f64) + conv changeValue * lit 100)\<rparr>
      else p)"

definition pulse_rotaryEncButtonChanged :: "pulse \<Rightarrow> pulse" where
  "pulse_rotaryEncButtonChanged p = p\<lparr>knobOperation := (if knobOperation p > 2 then 0 else knobOperation p + 1)\<rparr>"

section \<open>Properties\<close>

text \<open>The events of the function while it is in use.\<close>

datatype pulse_event = Touch int int | Knob f32 | KnobPress

fun pulse_step :: "pulse_event \<Rightarrow> pulse \<Rightarrow> pulse" where
  "pulse_step (Touch now tag) p = pulse_handleButtonAction now tag p"
| "pulse_step (Knob v) p = pulse_rotaryEncChanged v p"
| "pulse_step KnobPress p = pulse_rotaryEncButtonChanged p"

definition small_turn :: "f32 \<Rightarrow> bool" where
  "small_turn v = (is_fin v \<and> \<bar>val v\<bar> \<le> 5)"

fun event_ok :: "pulse_event \<Rightarrow> bool" where
  "event_ok (Knob v) = small_turn v" | "event_ok _ = True"

text \<open>What the encoder reports, at most 42 tenths, is a small turn.\<close>

lemma encoder_reports_small:
  assumes "\<bar>n\<bar> \<le> 42"
  shows "small_turn (conv ((of_i n :: f64) / of_i 10))"
proof -
  have r: "repr_in TYPE(f64) 5" "repr_in TYPE(f64) (- 5)" "repr_in TYPE(f32) 5" "repr_in TYPE(f32) (- 5)"
    using repr_in_f64_int [of 5] repr_in_f64_int [of "- 5"] repr_in_f32_int [of 5] repr_in_f32_int [of "- 5"] by simp_all
  have n: "\<bar>of_int n / 10 :: rat\<bar> \<le> 5" using assms by (simp add: abs_le_iff)
  define d where "d = (of_i n :: f64) / of_i 10"
  have d: "is_fin d \<and> - 5 \<le> val d \<and> val d \<le> 5"
    using rnd_between [OF r(2,1), of "of_int n / 10"] n assms by (simp add: d_def fin_div abs_le_iff)
  then show ?thesis unfolding d_def [symmetric]
    using rnd_between [OF r(4,3), of "val d" "d = NegZero"] by (auto simp: small_turn_def fin_conv abs_le_iff)
qed

text \<open>The states after \<open>n\<close> events; the function may be closed and opened again, and its interrupt may come at any time.\<close>

inductive pulse_reach :: "('s \<Rightarrow> 's) \<Rightarrow> 's hal \<Rightarrow> nat \<Rightarrow> pulse \<Rightarrow> bool" for off H where
  start: "pulse_reach off H 0 (fst (pulse_open off H E t (pulse_init p) s))"
| step: "pulse_reach off H n p \<Longrightarrow> event_ok e \<Longrightarrow> pulse_reach off H (Suc n) (pulse_step e p)"
| reopen: "pulse_reach off H n p \<Longrightarrow> pulse_reach off H n (fst (pulse_open off H E t (pulse_close p) s))"
| interrupt: "pulse_reach off H n p \<Longrightarrow> pulse_reach off H n (fst (sourcePulse H E rv rc (p, s)))"

lemma int32_id: "- 2147483648 \<le> n \<Longrightarrow> n < 2147483648 \<Longrightarrow> int32 n = n"
  by (simp add: int32_def signed_of_int signed_take_bit_int_eq_self)

lemma timer_period [simp]: "p_timer_us (updateSamplingPeriod h p) = p_timer_us (updateSamplingPeriod h q)"
  by (simp add: updateSamplingPeriod_def Let_def)

lemma knob_frequency:
  assumes "1 \<le> h" "h \<le> 16000000" "small_turn v"
  shows "f2i32 (of_i h + v * of_i 10) \<le> h + 50"
proof -
  have v: "is_fin v" "\<bar>val v\<bar> \<le> 5" using assms(3) by (simp_all add: small_turn_def)
  have r: "repr_in TYPE(f32) (of_int k)" if "\<bar>k\<bar> \<le> 16777216" for k using that by (rule repr_in_f32_int)
  have m: "is_fin (v * of_i 10) \<and> - 50 \<le> val (v * of_i 10) \<and> val (v * of_i 10) \<le> 50"
    using rnd_between [of "- 50" 50 "val v * 10", where 'p = 24] r [of "- 50"] r [of 50] v by (auto simp: fin_mult abs_le_iff)
  have q: "is_fin (of_i h + v * of_i 10) \<and> of_int (h - 50) \<le> val (of_i h + v * of_i 10) \<and> val (of_i h + v * of_i 10) \<le> of_int (h + 50)"
    using rnd_between [of "of_int (h - 50)" "of_int (h + 50)" "of_int h + val (v * of_i 10)", where 'p = 24, OF r r] m assms(1,2) by (simp add: fin_add)
  have "trunc (val (of_i h + v * of_i 10)) \<le> trunc (of_int (h + 50))" by (rule trunc_mono) (use q in blast)
  then have "trunc (val (of_i h + v * of_i 10)) \<le> h + 50" by (simp only: trunc_of_int)
  then show ?thesis using q assms(1,2) by (cases "of_i h + v * of_i 10") (auto simp: f2i32_def f2i_def trunc_def)
qed

lemma pulse_step_bounds:
  assumes "1 \<le> p_hz p" "p_hz p \<le> 16000000" "event_ok e"
    and "p_timer_us p = p_timer_us (updateSamplingPeriod (p_hz p) p)" "0 \<le> knobOperation p" "knobOperation p \<le> 3"
  shows "1 \<le> p_hz (pulse_step e p) \<and> p_hz (pulse_step e p) \<le> p_hz p + 50
    \<and> p_timer_us (pulse_step e p) = p_timer_us (updateSamplingPeriod (p_hz (pulse_step e p)) p)
    \<and> 0 \<le> knobOperation (pulse_step e p) \<and> knobOperation (pulse_step e p) \<le> 3"
proof (cases e)
  case (Touch now tag)
  have i: "int32 (p_hz p + k) = p_hz p + k" if "\<bar>k\<bar> \<le> 10" for k using that assms(1,2) by (intro int32_id) auto
  show ?thesis unfolding Touch using assms i [of 1] i [of 10] i [of "- 1"] i [of "- 10"]
    by (auto simp: pulse_handleButtonAction_def Let_def updateSamplingPeriod_def)
next
  case (Knob v)
  have "f2i32 (of_i (p_hz p) + v * of_i 10) \<le> p_hz p + 50" using assms(1-3) Knob by (intro knob_frequency) simp_all
  then show ?thesis unfolding Knob using assms by (auto simp: pulse_rotaryEncChanged_def Let_def updateSamplingPeriod_def)
next
  case KnobPress
  then show ?thesis using assms by (auto simp: pulse_rotaryEncButtonChanged_def updateSamplingPeriod_def Let_def)
qed

lemma pulse_reach_bounds:
  "pulse_reach off H n p \<Longrightarrow> n \<le> 300000 \<Longrightarrow> 1 \<le> p_hz p \<and> p_hz p \<le> 5 + 50 * int n
    \<and> p_timer_us p = p_timer_us (updateSamplingPeriod (p_hz p) p) \<and> 0 \<le> knobOperation p \<and> knobOperation p \<le> 3"
proof (induction rule: pulse_reach.induct)
  case (step n p e)
  have h: "p_hz p \<le> 16000000" using step.IH step.prems by auto
  show ?case using pulse_step_bounds [of p e] step.IH step.prems step.hyps h timer_period [of "p_hz (pulse_step e p)" "pulse_step e p" p]
    by (auto simp del: timer_period)
next
  case (interrupt n p E rv rc s)
  then show ?case
    by (cases "p_operationType p") (auto simp: sourcePulse_def sourceCurrentPulse_def sourceVoltagePulse_def Let_def updateSamplingPeriod_def)
qed (auto simp: pulse_open_def pulse_close_def pulse_init_def updateSamplingPeriod_def Let_def)

text \<open>C29: while the function is used, the frequency stays at one hertz or more, so the period is never a division by zero, and
  the timer runs with the period of the present frequency: after any sequence of up to 300000 touches, turns of the
  knob (each of at most 5, the encoder reports up to 4.2) and presses, with interrupts and with closing and opening in between,
  the frequency is at most 50 hertz per event above the 5 it starts with, and the knob mode is between 0 and 3.  The
  source has no upper bound, so without the limit on the events the 32-bit frequency wraps to a negative one
  (frequency_wraps).\<close>

theorem pulse_frequency_invariant:
  assumes "pulse_reach off H n p" and "n \<le> 300000"
  shows "1 \<le> p_hz p \<and> p_hz p \<le> 5 + 50 * int n \<and> p_timer_us p = p_timer_us (updateSamplingPeriod (p_hz p) p)
    \<and> 0 \<le> knobOperation p \<and> knobOperation p \<le> 3"
  by (rule pulse_reach_bounds [OF assms])

theorem pulse_frequency_invariant_witness:
  "1 \<le> p_hz (pulse_step (Knob (lit (- 3))) (fst (pulse_open id (hal717 (\<lambda>_ d. (0, d))) (env_sample cal_unit (Fin 0))
     SOURCE_VOLTAGE (pulse_init (pulse_initial 0)) (smu717_initial ()))))"
proof -
  have "small_turn (lit (- 3))" by code_simp
  then have "pulse_reach (id :: unit smu717 \<Rightarrow> unit smu717) (hal717 (\<lambda>_ d. (0, d))) (Suc 0) (pulse_step (Knob (lit (- 3))) (fst (pulse_open id (hal717 (\<lambda>_ d. (0, d)))
     (env_sample cal_unit (Fin 0)) SOURCE_VOLTAGE (pulse_init (pulse_initial 0)) (smu717_initial ()))))"
    by (intro pulse_reach.step pulse_reach.start) simp_all
  from pulse_frequency_invariant [OF this] show ?thesis by simp
qed

text \<open>without the bound the invariant is false: the button adds 10 to the largest frequencies too.\<close>

theorem frequency_wraps:
  "p_hz (pulse_handleButtonAction 1000 PULSE_BUTTON_INC ((pulse_initial 0)\<lparr>p_hz := 2147483640\<rparr>)) = - 2147483646"
  by code_simp

text \<open>The interrupt alternates between the two levels, but with their roles exchanged: an interrupt
  that marks the pulse high sources the minimum, one that marks it low sources the maximum; two
  interrupts return to the same phase.\<close>

theorem pulse_alternates:
  fixes s :: "('d, 'z) smu717_scheme" and X :: "'d chips" and E rawV rawC
  defines "step \<equiv> (\<lambda>q. sourcePulse (hal717 X) E rawV rawC q)"
  shows "pulseHigh (fst (step (p, s))) = (\<not> pulseHigh p)
     \<and> s_setValue_micro (snd (step (p, s))) = to_micro (if pulseHigh (fst (step (p, s))) then p_min p else p_max p)
     \<and> s_operationType (snd (step (p, s))) = p_operationType p
     \<and> pulseHigh (fst (step (step (p, s)))) = pulseHigh p
     \<and> s_setValue_micro (snd (step (step (p, s)))) = to_micro (if pulseHigh p then p_min p else p_max p)"
  unfolding step_def
  by (cases "p_operationType p")
    (auto simp: sourcePulse_def sourceVoltagePulse_def sourceCurrentPulse_def Let_def hal717_def adc_setVoltageSource_def
       adc_setCurrentSource_def case_prod_unfold)

end
