(* ===== verification/Ring.thy ===== *)
theory Ring
  imports Main
begin

text \<open>
  Ring buffers.  Three parts of the firmware keep their last readings in an array written round and
  round: the digitizer, the log of RamClass.cpp and the logger.  Each has its own size and its own
  variables; what they share is the relation between the array and the values written.
\<close>

text \<open>\<open>N\<close> is the size, \<open>ptr\<close> the next slot to write, \<open>hist\<close> the values written, newest first.\<close>

definition ring_holds :: "int \<Rightarrow> int \<Rightarrow> 'a list \<Rightarrow> 'a list \<Rightarrow> bool" where
  "ring_holds N ptr arr hist \<longleftrightarrow> 0 \<le> ptr \<and> ptr < N \<and> nat N \<le> length arr
     \<and> (\<forall>k < min (nat N) (length hist). arr ! nat ((ptr - 1 - int k) mod N) = hist ! k)"

locale ring =
  fixes N :: int
  assumes N_pos: "0 < N"
begin

lemma holds_bounds: "ring_holds N ptr arr hist \<Longrightarrow> 0 \<le> ptr \<and> ptr < N \<and> nat ptr < length arr"
  using N_pos by (auto simp: ring_holds_def)

lemma holds_nth: "ring_holds N ptr arr hist \<Longrightarrow> k < length hist \<Longrightarrow> int k < N \<Longrightarrow> arr ! nat ((ptr - 1 - int k) mod N) = hist ! k"
  by (simp add: ring_holds_def)

lemma holds_Nil: "0 \<le> ptr \<Longrightarrow> ptr < N \<Longrightarrow> nat N \<le> length arr \<Longrightarrow> ring_holds N ptr arr []"
  by (simp add: ring_holds_def)

lemma step_mod: "0 \<le> ptr \<Longrightarrow> ptr < N \<Longrightarrow> (if ptr + 1 \<ge> N then 0 else ptr + 1) = (ptr + 1) mod N"
  by (cases "ptr + 1 = N") auto

lemma back_mod: "0 \<le> ptr \<Longrightarrow> ptr < N \<Longrightarrow> (if ptr - 1 < 0 then N - 1 else ptr - 1) = (ptr - 1) mod N"
proof (cases "ptr = 0")
  case True
  have "(- 1) mod N = N - 1" using N_pos by (simp add: zmod_minus1)
  then show ?thesis using True by simp
qed (use N_pos in simp)

lemma holds_push:
  assumes h: "ring_holds N ptr arr hist"
  shows "ring_holds N ((ptr + 1) mod N) (arr[nat ptr := v]) (v # hist)"
proof -
  have p: "0 \<le> ptr" "ptr < N" "nat ptr < length arr" "nat N \<le> length arr" using holds_bounds [OF h] h by (simp_all add: ring_holds_def)
  have "(arr[nat ptr := v]) ! nat (((ptr + 1) mod N - 1 - int k) mod N) = (v # hist) ! k" if k: "k < min (nat N) (length (v # hist))" for k
  proof -
    have i: "((ptr + 1) mod N - 1 - int k) mod N = (ptr - int k) mod N"
      unfolding diff_diff_eq by (simp add: mod_diff_left_eq)
    show ?thesis
    proof (cases k)
      case 0
      then show ?thesis unfolding i using p by simp
    next
      case (Suc j)
      have j: "j < length hist" "int j < N" "int k < N" "0 < int k" using k Suc by auto
      have "(ptr - int k) mod N \<noteq> ptr"
      proof
        assume "(ptr - int k) mod N = ptr"
        then have "(ptr - int k) mod N = ptr mod N" using p by simp
        then have "N dvd (ptr - int k - ptr)" by (simp only: mod_eq_dvd_iff)
        then have "N dvd int k" by simp
        with j show False using zdvd_not_zless by blast
      qed
      then have ne: "nat ptr \<noteq> nat ((ptr - int k) mod N)" using p pos_mod_sign [OF N_pos, of "ptr - int k"] by (simp add: eq_nat_nat_iff)
      have "ptr - int k = ptr - 1 - int j" using Suc by simp
      then have "arr ! nat ((ptr - int k) mod N) = hist ! j" by (simp only: holds_nth [OF h j(1,2)])
      then show ?thesis unfolding i using ne Suc by simp
    qed
  qed
  then show ?thesis using p N_pos by (simp add: ring_holds_def)
qed

text \<open>Walking back from the next slot visits the values newest first.\<close>

lemma holds_walk:
  assumes "ring_holds N ptr arr hist" "n \<le> length hist" "int n \<le> N"
  shows "map (\<lambda>k. arr ! nat ((ptr - 1 - int k) mod N)) [0 ..< n] = take n hist"
  using assms by (intro nth_equalityI) (simp_all add: holds_nth)

end

end
