(* ===== verification/Digitizer.thy ===== *)
theory Digitizer
  imports World Hal717x Ring
begin

text \<open>
  The digitizer (src/src/Digitizer.cpp): samples are written round a ring of 401 values until a
  trigger fires, then 200 more are kept apart, and both are copied to the 400 values shown.  The
  members follow Digitizer.h; the arrays \<open>mva\<close> and \<open>mia\<close> are adjacent members, so a write
  just past the end of the first goes to the second.  Drawing is left out; the touch buttons and
  the scale that renderGraph handles are modelled.
\<close>

section \<open>State\<close>

definition nrOfFloats :: int where "nrOfFloats = 400"

record digitizer =
  dg_v :: f32
  maxDigV :: f32
  minDigV :: f32
  ramAdrPtr :: int
  mva :: "f32 list"
  mia :: "f32 list"
  triggered :: bool
  lastVoltage :: f32
  lastVoltageOld :: f32
  lastVoltageOld2 :: f32
  lastVoltageOld3 :: f32
  waitForLower :: bool
  ramEmulator :: "f32 list"
  ramEmulator2 :: "f32 list"
  prevSamplingRate :: int
  zoomed :: bool
  adjustLevel :: int
  ampLevel :: int
  triggerLevel :: f32
  multiplyBy :: int
  triggerType :: int
  digitizeVoltage :: bool
  continuous :: bool
  bufferOverflow :: bool
  digitize :: bool
  samplesAfterTrigger :: int
  countSinceLastSample :: int
  adrAtTrigger :: int
  allowTrigger :: bool
  rendering :: bool
  digitizerCheckButtonTimer :: u32
  modulation :: f32
  ampDir :: f32
  modDir :: f32
  amplitude :: f32
  modulationTimer :: u32

definition digitizer_initial :: "u32 \<Rightarrow> digitizer" where
  "digitizer_initial now = \<lparr>dg_v = Fin 0, maxDigV = lit (- 100000), minDigV = lit 100000, ramAdrPtr = 0,
     mva = replicate 400 (Fin 0), mia = replicate 400 (Fin 0), triggered = False, lastVoltage = lit 0, lastVoltageOld = lit 0,
     lastVoltageOld2 = lit 0, lastVoltageOld3 = lit 0, waitForLower = False, ramEmulator = replicate 1000 (Fin 0),
     ramEmulator2 = replicate 1000 (Fin 0), prevSamplingRate = 0, zoomed = False, adjustLevel = 0, ampLevel = 1,
     triggerLevel = lit 1000, multiplyBy = 1, triggerType = 0, digitizeVoltage = True, continuous = True, bufferOverflow = False,
     digitize = False, samplesAfterTrigger = 0, countSinceLastSample = 0, adrAtTrigger = 0, allowTrigger = True, rendering = False,
     digitizerCheckButtonTimer = now, modulation = conv (lit 0.05 :: f64), ampDir = of_i 1, modDir = of_i 1, amplitude = of_i 2, modulationTimer = now\<rparr>"

section \<open>Opening, closing and the main loop\<close>

definition digitizer_init :: "digitizer \<Rightarrow> digitizer" where
  "digitizer_init d = (if \<not> digitizeVoltage d then d\<lparr>triggerLevel := lit 100\<rparr> else d)"

definition updateSmuWhenVoltageCurrentFocusChange :: "'s hal \<Rightarrow> digitizer \<Rightarrow> 's \<Rightarrow> 's" where
  "updateSmuWhenVoltageCurrentFocusChange H d s =
     updateSettings H (if digitizeVoltage d then enableCurrentMeasurement H False (enableVoltageMeasurement H True s)
       else enableCurrentMeasurement H True (enableVoltageMeasurement H False s))"

text \<open>\<open>off\<close> is the \<open>disable_ADC_DAC_SPI_units\<close> of the unit.\<close>

definition digitizer_open :: "('s \<Rightarrow> 's) \<Rightarrow> 's hal \<Rightarrow> digitizer \<Rightarrow> 's \<Rightarrow> digitizer \<times> 's" where
  "digitizer_open off H d s =
     (d\<lparr>prevSamplingRate := getSamplingRate H s\<rparr>, updateSmuWhenVoltageCurrentFocusChange H d (setSamplingRate H 31250 (off s)))"

definition digitizer_close :: "('s \<Rightarrow> 's) \<Rightarrow> 's hal \<Rightarrow> digitizer \<Rightarrow> 's \<Rightarrow> digitizer \<times> 's" where
  "digitizer_close off H d s =
     (d\<lparr>digitize := False, bufferOverflow := False\<rparr>,
      setSamplingRate H (prevSamplingRate d) (updateSettings H (enableCurrentMeasurement H True (enableVoltageMeasurement H True (off s)))))"

definition loopDigitize :: "'s hal \<Rightarrow> bool \<Rightarrow> digitizer \<Rightarrow> 's \<Rightarrow> digitizer \<times> 's" where
  "loopDigitize H menuActive d s =
     (let (d1, s1) = (if \<not> digitize d \<and> \<not> menuActive
             then (d\<lparr>digitize := True, bufferOverflow := False\<rparr>, updateSmuWhenVoltageCurrentFocusChange H d s) else (d, s))
      in ((if bufferOverflow d1 then d1\<lparr>digitize := False\<rparr> else d1), s1))"

definition digitizer_touch :: "u32 \<Rightarrow> int \<Rightarrow> digitizer \<Rightarrow> digitizer" where
  "digitizer_touch now tag d =
     (if digitizerCheckButtonTimer d + 500 < now then
        let d1 = d\<lparr>digitizerCheckButtonTimer := now\<rparr> in
        if tag = 171 then d1\<lparr>allowTrigger := \<not> allowTrigger d1\<rparr>
        else if tag = 172 then
          (let t = (if triggerType d1 + 1 > 2 then 0 else triggerType d1 + 1) in d1\<lparr>triggerType := t, continuous := (t = 0)\<rparr>)
        else if tag = 173 then
          (let v = \<not> digitizeVoltage d1 in d1\<lparr>digitizeVoltage := v, triggerLevel := (if \<not> v then lit 100 else lit 1000)\<rparr>)
        else d1
      else d)"

definition update_multiplyBy :: "digitizer \<Rightarrow> digitizer" where
  "update_multiplyBy d = (if ampLevel d = 2 then d\<lparr>multiplyBy := 2\<rparr> else if ampLevel d = 3 then d\<lparr>multiplyBy := 4\<rparr>
     else if ampLevel d = 4 then d\<lparr>multiplyBy := 10\<rparr> else d)"

section \<open>Capture\<close>

definition updateMaxMin :: "f32 \<Rightarrow> digitizer \<Rightarrow> digitizer" where
  "updateMaxMin v d = (let d1 = (if v > maxDigV d then d\<lparr>maxDigV := v\<rparr> else d) in if v < minDigV d1 then d1\<lparr>minDigV := v\<rparr> else d1)"

definition clearMaxMin :: "digitizer \<Rightarrow> digitizer" where
  "clearMaxMin d = d\<lparr>maxDigV := lit (- 100000), minDigV := lit 100000\<rparr>"

text \<open>A write to \<open>mva[i]\<close>: index 400 is the first element of the member that follows.\<close>

definition mva_write :: "int \<Rightarrow> f32 \<Rightarrow> digitizer \<Rightarrow> digitizer" where
  "mva_write i v d = (if i < 400 then d\<lparr>mva := (mva d)[nat i := v]\<rparr> else d\<lparr>mia := (mia d)[nat (i - 400) := v]\<rparr>)"

fun copy_before :: "nat list \<Rightarrow> digitizer \<Rightarrow> digitizer" where
  "copy_before [] d = d"
| "copy_before (x # xs) d =
     copy_before xs (updateMaxMin (ramEmulator2 d ! x) (mva_write (int x + cdiv nrOfFloats 2) (ramEmulator2 d ! x) d))"

fun copy_after :: "nat list \<Rightarrow> int \<Rightarrow> digitizer \<Rightarrow> digitizer" where
  "copy_after [] adr d = d"
| "copy_after (x # xs) adr d =
     copy_after xs (if adr - 1 < 0 then nrOfFloats else adr - 1)
       (updateMaxMin (ramEmulator d ! nat adr) (mva_write (int x) (ramEmulator d ! nat adr) d))"

definition copyDataBufferToDisplayBuffer :: "digitizer \<Rightarrow> digitizer" where
  "copyDataBufferToDisplayBuffer d =
     (let d1 = clearMaxMin (fold (\<lambda>x. mva_write (int x) (lit 0)) [0 ..< nat nrOfFloats + 1] d);
          d2 = copy_before [0 ..< nat (cdiv nrOfFloats 2) + 1] d1
      in copy_after (rev [0 ..< nat (cdiv nrOfFloats 2) + 1]) (adrAtTrigger d2) d2)"

definition updateModulation :: "u32 \<Rightarrow> digitizer \<Rightarrow> digitizer" where
  "updateModulation now d =
     (if modulationTimer d + 100 < now then
        let m = (conv (modulation d) :: f64);
            a = conv ((conv (amplitude d) :: f64) + lit 0.1 * conv (ampDir d)) :: f32
        in d\<lparr>modDir := (if m > lit 0.2 then of_i (- 1) else if m < lit 0.02 then of_i 1 else modDir d), modulationTimer := now,
             amplitude := a, ampDir := (if a > of_i 5 then of_i (- 1) else if a < of_i 1 then of_i 1 else ampDir d)\<rparr>
      else d)"

text \<open>The trigger decision: edge or level, with the new \<open>waitForLower\<close>.\<close>

definition trigger_decision :: "f32 \<Rightarrow> digitizer \<Rightarrow> bool \<times> bool" where
  "trigger_decision v d =
     (let l0 = lastVoltage d; l1 = lastVoltageOld d; l2 = lastVoltageOld2 d; l3 = lastVoltageOld3 d; lev = triggerLevel d in
      if triggerType d = 2
      then (v > l0 + lit 1 \<and> l0 > l1 + lit 1 \<and> l1 > l2 + lit 1 \<and> l2 > l3 + lit 1, waitForLower d)
      else let above = (l0 > lev \<and> l1 > lev \<and> l2 > lev \<and> l3 > lev);
               trigg = (above \<and> \<not> waitForLower d);
               wait = (above \<or> waitForLower d);
               low = lev - of_i (if digitizeVoltage d then 100 else 10);
               lower = (l0 < low \<and> l1 < low \<and> l2 < low \<and> l3 < low)
           in (trigg, if lower \<and> wait then False else wait))"

definition digitizer_sample :: "u32 \<Rightarrow> f32 \<Rightarrow> digitizer \<Rightarrow> digitizer" where
  "digitizer_sample now v d0 =
     (let (dec, wait) = trigger_decision v d0;
          count = countSinceLastSample d0 + 1;
          trigg = ((dec \<or> continuous d0) \<and> allowTrigger d0 \<and> \<not> count < nrOfFloats);
          d1 = d0\<lparr>dg_v := v, waitForLower := wait, countSinceLastSample := count\<rparr>;
          d2 = (if triggered d1 then d1\<lparr>ramEmulator2 := (ramEmulator2 d1)[nat (samplesAfterTrigger d1) := v],
                                        samplesAfterTrigger := samplesAfterTrigger d1 + 1\<rparr> else d1);
          d3 = (if \<not> triggered d2 \<and> trigg then d2\<lparr>triggered := True, adrAtTrigger := ramAdrPtr d2\<rparr> else d2);
          d4 = d3\<lparr>lastVoltageOld3 := lastVoltageOld2 d3, lastVoltageOld2 := lastVoltageOld d3, lastVoltageOld := lastVoltage d3,
                  lastVoltage := v, ramEmulator := (ramEmulator d3)[nat (ramAdrPtr d3) := v],
                  ramAdrPtr := (if ramAdrPtr d3 + 1 > nrOfFloats then 0 else ramAdrPtr d3 + 1)\<rparr>
      in if samplesAfterTrigger d4 = cdiv nrOfFloats 2
         then updateModulation now (copyDataBufferToDisplayBuffer (d4\<lparr>bufferOverflow := True, triggered := False, samplesAfterTrigger := 0,
                countSinceLastSample := 0, lastVoltage := lit 0, lastVoltageOld := lit 0, lastVoltageOld2 := lit 0, lastVoltageOld3 := lit 0\<rparr>))
         else d4)"

definition handleSamplingForDigitizer :: "'s hal \<Rightarrow> env \<Rightarrow> digitizer \<times> 's \<Rightarrow> digitizer \<times> 's" where
  "handleSamplingForDigitizer H E p =
     (let d = fst p; s = snd p in
      if rendering d then p
      else if bufferOverflow d then p
      else let (x, s1) = (if digitizeVoltage d then measureMilliVoltage H E s else measureCurrent H E (getCurrentRange H s) s)
           in (digitizer_sample (env_millis E) (conv x) d, s1))"

definition digitizer_rotaryEncChanged :: "f32 \<Rightarrow> digitizer \<Rightarrow> digitizer" where
  "digitizer_rotaryEncChanged changeValue d =
     (if adjustLevel d = 1 then d\<lparr>zoomed := \<not> zoomed d\<rparr>
      else if adjustLevel d = 0 then
        (if changeValue < lit 0 then d\<lparr>ampLevel := (if ampLevel d > 1 then ampLevel d - 1 else 1)\<rparr>
         else d\<lparr>ampLevel := (if ampLevel d < 4 then ampLevel d + 1 else 4)\<rparr>)
      else if adjustLevel d = 2 then
        (let k = lit 100 / of_i (multiplyBy d) :: f64; t = (conv (triggerLevel d) :: f64)
         in d\<lparr>triggerLevel := conv (if changeValue < lit 0 then t + k else t - k)\<rparr>)
      else d)"

definition digitizer_rotaryEncButtonChanged :: "digitizer \<Rightarrow> digitizer" where
  "digitizer_rotaryEncButtonChanged d = d\<lparr>adjustLevel := (if adjustLevel d + 1 > 2 then 0 else adjustLevel d + 1)\<rparr>"

section \<open>What a capture shows\<close>

lemma updateMaxMin_frame [simp]:
  "mva (updateMaxMin v d) = mva d" "mia (updateMaxMin v d) = mia d" "ramEmulator (updateMaxMin v d) = ramEmulator d"
  "ramEmulator2 (updateMaxMin v d) = ramEmulator2 d" "adrAtTrigger (updateMaxMin v d) = adrAtTrigger d"
  "bufferOverflow (updateMaxMin v d) = bufferOverflow d" "triggered (updateMaxMin v d) = triggered d"
  by (simp_all add: updateMaxMin_def Let_def)

lemma mva_write_frame [simp]:
  "ramEmulator (mva_write i v d) = ramEmulator d" "ramEmulator2 (mva_write i v d) = ramEmulator2 d"
  "adrAtTrigger (mva_write i v d) = adrAtTrigger d" "length (mva (mva_write i v d)) = length (mva d)"
  "bufferOverflow (mva_write i v d) = bufferOverflow d" "triggered (mva_write i v d) = triggered d"
  by (simp_all add: mva_write_def)

lemma half: "cdiv nrOfFloats 2 = 200" "nat nrOfFloats = 400" "nrOfFloats = 400" "cdiv 400 2 = 200"
  by code_simp+

lemma mva_write_nth: "length (mva d) = 400 \<Longrightarrow> i < 400 \<Longrightarrow> mva (mva_write (int x) v d) ! i = (if i = x then v else mva d ! i)"
  by (simp add: mva_write_def)

lemma copy_before_frame [simp]:
  "ramEmulator (copy_before xs d) = ramEmulator d" "ramEmulator2 (copy_before xs d) = ramEmulator2 d"
  "adrAtTrigger (copy_before xs d) = adrAtTrigger d" "length (mva (copy_before xs d)) = length (mva d)"
  "bufferOverflow (copy_before xs d) = bufferOverflow d" "triggered (copy_before xs d) = triggered d"
  by (induction xs arbitrary: d) simp_all

lemma copy_after_frame [simp]:
  "length (mva (copy_after xs adr d)) = length (mva d)"
  "bufferOverflow (copy_after xs adr d) = bufferOverflow d" "triggered (copy_after xs adr d) = triggered d"
  by (induction xs arbitrary: d adr) simp_all

lemma copy_before_nth: "length (mva d) = 400 \<Longrightarrow> i < 400 \<Longrightarrow>
    mva (copy_before xs d) ! i = (if 200 \<le> i \<and> i - 200 \<in> set xs then ramEmulator2 d ! (i - 200) else mva d ! i)"
proof (induction xs arbitrary: d)
  case (Cons x xs)
  have e: "int x + cdiv nrOfFloats 2 = int (x + 200)" by (simp add: half)
  show ?case using Cons mva_write_nth [of d i "x + 200"] by (auto simp: e)
qed simp

lemma ring_back: "0 \<le> adr \<Longrightarrow> adr \<le> 400 \<Longrightarrow> (if adr - 1 < 0 then nrOfFloats else adr - 1) = (adr - 1) mod (401 :: int)"
  by (cases "adr = 0") (simp_all add: nrOfFloats_def)

lemma copy_after_nth:
  "length (mva d) = 400 \<Longrightarrow> i < 400 \<Longrightarrow> n < 400 \<Longrightarrow> 0 \<le> adr \<Longrightarrow> adr \<le> 400 \<Longrightarrow>
    mva (copy_after (rev [0 ..< Suc n]) adr d) ! i = (if i \<le> n then ramEmulator d ! nat ((adr - int (n - i)) mod 401) else mva d ! i)"
proof (induction n arbitrary: d adr)
  case 0
  then show ?case using mva_write_nth [of d i 0] by (simp add: mod_pos_pos_trivial)
next
  case (Suc n)
  define d' where "d' = updateMaxMin (ramEmulator d ! nat adr) (mva_write (int (Suc n)) (ramEmulator d ! nat adr) d)"
  have "copy_after (rev [0 ..< Suc (Suc n)]) adr d = copy_after (rev [0 ..< Suc n]) ((adr - 1) mod 401) d'"
    using ring_back [of adr] Suc.prems by (simp add: d'_def)
  also have "mva \<dots> ! i = (if i \<le> n then ramEmulator d' ! nat (((adr - 1) mod 401 - int (n - i)) mod 401) else mva d' ! i)"
    using Suc.prems by (intro Suc.IH) (simp_all add: d'_def)
  also have "\<dots> = (if i \<le> Suc n then ramEmulator d ! nat ((adr - int (Suc n - i)) mod 401) else mva d ! i)"
  proof (cases "i \<le> n")
    case True
    then have "adr - 1 - int (n - i) = adr - int (Suc n - i)" by simp
    then have "((adr - 1) mod 401 - int (n - i)) mod 401 = (adr - int (Suc n - i)) mod 401" by (simp only: mod_diff_left_eq)
    moreover have "i \<le> Suc n" "ramEmulator d' = ramEmulator d" using True by (simp_all add: d'_def)
    ultimately show ?thesis using True by (simp only: if_True)
  next
    case False
    then show ?thesis using Suc.prems mva_write_nth [of d i "Suc n"] by (auto simp: d'_def mod_pos_pos_trivial le_Suc_eq)
  qed
  finally show ?case .
qed

lemma zero_fold [simp]:
  "ramEmulator (fold (\<lambda>x. mva_write (int x) v) xs d) = ramEmulator d" "ramEmulator2 (fold (\<lambda>x. mva_write (int x) v) xs d) = ramEmulator2 d"
  "adrAtTrigger (fold (\<lambda>x. mva_write (int x) v) xs d) = adrAtTrigger d" "length (mva (fold (\<lambda>x. mva_write (int x) v) xs d)) = length (mva d)"
  "bufferOverflow (fold (\<lambda>x. mva_write (int x) v) xs d) = bufferOverflow d" "triggered (fold (\<lambda>x. mva_write (int x) v) xs d) = triggered d"
  by (induction xs arbitrary: d) simp_all

lemma copy_nth:
  assumes "length (mva d) = 400" "0 \<le> adrAtTrigger d" "adrAtTrigger d \<le> 400" "i < 400"
  shows "mva (copyDataBufferToDisplayBuffer d) ! i =
    (if i \<le> 200 then ramEmulator d ! nat ((adrAtTrigger d - int (200 - i)) mod 401) else ramEmulator2 d ! (i - 200))"
proof -
  define d1 where "d1 = clearMaxMin (fold (\<lambda>x. mva_write (int x) (lit 0)) [0 ..< nat nrOfFloats + 1] d)"
  have f: "length (mva d1) = 400" "ramEmulator d1 = ramEmulator d" "ramEmulator2 d1 = ramEmulator2 d" "adrAtTrigger d1 = adrAtTrigger d"
    using assms by (simp_all add: d1_def clearMaxMin_def del: upt_Suc)
  have n: "nat (cdiv nrOfFloats 2) + 1 = Suc 200" by (simp add: half)
  show ?thesis
    unfolding copyDataBufferToDisplayBuffer_def Let_def d1_def [symmetric] n copy_before_frame f(4)
    using copy_after_nth [of "copy_before [0 ..< Suc 200] d1" i 200 "adrAtTrigger d"] copy_before_nth [of d1 i "[0 ..< Suc 200]"] f assms
    by (simp del: upt_Suc) auto
qed

lemma copy_flags [simp]:
  "bufferOverflow (copyDataBufferToDisplayBuffer d) = bufferOverflow d" "triggered (copyDataBufferToDisplayBuffer d) = triggered d"
  "length (mva (copyDataBufferToDisplayBuffer d)) = length (mva d)"
  by (simp_all add: copyDataBufferToDisplayBuffer_def Let_def clearMaxMin_def)

subsection \<open>The ring\<close>

interpretation dig: ring 401
  by unfold_locales simp

lemma ring_push:
  assumes "ring_holds 401 ptr ram hist"
  shows "ring_holds 401 (if ptr + 1 > nrOfFloats then 0 else ptr + 1) (ram[nat ptr := v]) (v # hist)"
proof -
  have "(if ptr + 1 > nrOfFloats then 0 else ptr + 1) = (ptr + 1) mod 401"
    using dig.step_mod [of ptr] dig.holds_bounds [OF assms] by (simp add: nrOfFloats_def)
  then show ?thesis using dig.holds_push [OF assms] by simp
qed

lemma ring_bounds: "ring_holds 401 ptr ram hist \<Longrightarrow> 0 \<le> ptr \<and> ptr \<le> 400"
  using dig.holds_bounds [of ptr ram hist] by simp

definition idle :: "f32 list \<Rightarrow> digitizer \<Rightarrow> bool" where
  "idle hist d \<longleftrightarrow> \<not> triggered d \<and> \<not> bufferOverflow d \<and> \<not> rendering d \<and> samplesAfterTrigger d = 0
     \<and> length (mva d) = 400 \<and> length (ramEmulator2 d) = 1000 \<and> countSinceLastSample d = int (length hist)
     \<and> ring_holds 401 (ramAdrPtr d) (ramEmulator d) hist"

definition capturing :: "f32 list \<Rightarrow> f32 \<Rightarrow> f32 list \<Rightarrow> digitizer \<Rightarrow> bool" where
  "capturing hist t post d \<longleftrightarrow> triggered d \<and> \<not> bufferOverflow d \<and> \<not> rendering d \<and> samplesAfterTrigger d = int (length post)
     \<and> length post < 200 \<and> 399 \<le> length hist \<and> length (mva d) = 400 \<and> length (ramEmulator2 d) = 1000
     \<and> (\<forall>j < length post. ramEmulator2 d ! j = post ! j)
     \<and> ring_holds 401 (ramAdrPtr d) (ramEmulator d) (rev post @ t # hist)
     \<and> adrAtTrigger d = (ramAdrPtr d - 1 - int (length post)) mod 401"

text \<open>Continuous acquisition with triggering allowed.\<close>

definition freerun :: "digitizer \<Rightarrow> bool" where "freerun d \<longleftrightarrow> continuous d \<and> allowTrigger d"

lemma sample_idle:
  assumes "idle hist d"
  shows "idle (v # hist) (digitizer_sample now v d) \<and> (if freerun d then length hist < 399 else True)
    \<or> capturing hist v [] (digitizer_sample now v d)"
proof -
  obtain dec wait where td: "trigger_decision v d = (dec, wait)" by fastforce
  have p: "0 \<le> ramAdrPtr d" "ramAdrPtr d \<le> 400" using assms ring_bounds by (auto simp: idle_def)
  have m: "ramAdrPtr d = ((if ramAdrPtr d + 1 > nrOfFloats then 0 else ramAdrPtr d + 1) - 1) mod 401"
    using p by (auto simp: nrOfFloats_def)
  show ?thesis
    using assms ring_push [of "ramAdrPtr d" "ramEmulator d" hist v] m
    by (auto simp: idle_def capturing_def digitizer_sample_def td Let_def half freerun_def)
qed

lemma sample_capturing:
  assumes c: "capturing hist t post d" and n: "length post < 199"
  shows "capturing hist t (post @ [v]) (digitizer_sample now v d)"
proof -
  obtain dec wait where td: "trigger_decision v d = (dec, wait)" by fastforce
  define q where "q = (if ramAdrPtr d + 1 > nrOfFloats then 0 else ramAdrPtr d + 1)"
  have p: "0 \<le> ramAdrPtr d" "ramAdrPtr d \<le> 400" using c ring_bounds by (auto simp: capturing_def)
  have q: "q = (ramAdrPtr d + 1) mod 401" using p by (auto simp: q_def nrOfFloats_def)
  have a: "(ramAdrPtr d - 1 - int (length post)) mod 401 = (q - 1 - int (length (post @ [v]))) mod 401"
    unfolding q diff_diff_eq by (simp add: mod_diff_left_eq algebra_simps)
  have r: "ring_holds 401 q ((ramEmulator d)[nat (ramAdrPtr d) := v]) (rev (post @ [v]) @ t # hist)"
    using ring_push [of "ramAdrPtr d" "ramEmulator d" "rev post @ t # hist" v] c by (simp add: capturing_def q_def)
  have b: "\<forall>j < length (post @ [v]). (ramEmulator2 d)[length post := v] ! j = (post @ [v]) ! j"
    using c n by (auto simp: capturing_def nth_append nth_list_update)
  have e: "digitizer_sample now v d =
    d\<lparr>dg_v := v, waitForLower := wait, countSinceLastSample := countSinceLastSample d + 1,
      ramEmulator2 := (ramEmulator2 d)[length post := v], samplesAfterTrigger := int (length (post @ [v])),
      lastVoltageOld3 := lastVoltageOld2 d, lastVoltageOld2 := lastVoltageOld d, lastVoltageOld := lastVoltage d,
      lastVoltage := v, ramEmulator := (ramEmulator d)[nat (ramAdrPtr d) := v], ramAdrPtr := q\<rparr>"
    using c n by (simp add: capturing_def digitizer_sample_def td Let_def half q_def)
  show ?thesis unfolding e using c n a r b by (simp add: capturing_def del: rev_append)
qed

text \<open>The sample that completes the capture.\<close>

lemma sample_completes:
  assumes c: "capturing hist t post d" and n: "length post = 199"
  shows "bufferOverflow (digitizer_sample now v d) \<and> \<not> triggered (digitizer_sample now v d)
     \<and> mva (digitizer_sample now v d) = rev (take 200 hist) @ t # tl (post @ [v])"
proof -
  obtain dec wait where td: "trigger_decision v d = (dec, wait)" by fastforce
  define q where "q = (if ramAdrPtr d + 1 > nrOfFloats then 0 else ramAdrPtr d + 1)"
  define ram ram2 where "ram = (ramEmulator d)[nat (ramAdrPtr d) := v]" and "ram2 = (ramEmulator2 d)[199 := v]"
  have p: "0 \<le> ramAdrPtr d" "ramAdrPtr d \<le> 400" using c ring_bounds by (auto simp: capturing_def)
  have q: "q = (ramAdrPtr d + 1) mod 401" using p by (auto simp: q_def nrOfFloats_def)
  have r: "ring_holds 401 q ram (rev (post @ [v]) @ t # hist)"
    using ring_push [of "ramAdrPtr d" "ramEmulator d" "rev post @ t # hist" v] c by (simp add: capturing_def q_def ram_def)
  have r2: "j < 200 \<Longrightarrow> ram2 ! j = (post @ [v]) ! j" for j
    using c n by (auto simp: capturing_def nth_append nth_list_update ram2_def)
  define d4 where "d4 = d\<lparr>dg_v := v, waitForLower := wait, countSinceLastSample := 0,
      ramEmulator2 := ram2, samplesAfterTrigger := 0, lastVoltageOld3 := lit 0, lastVoltageOld2 := lit 0, lastVoltageOld := lit 0,
      lastVoltage := lit 0, ramEmulator := ram, ramAdrPtr := q, bufferOverflow := True, triggered := False\<rparr>"
  have e: "digitizer_sample now v d = updateModulation now (copyDataBufferToDisplayBuffer d4)"
    unfolding digitizer_sample_def td Let_def prod.case
    using c n by (cases d) (simp add: capturing_def half q_def d4_def ram_def ram2_def)
  have um: "mva (updateModulation now x) = mva x" "bufferOverflow (updateModulation now x) = bufferOverflow x"
    "triggered (updateModulation now x) = triggered x" for x by (simp_all add: updateModulation_def Let_def)
  have adr: "adrAtTrigger d4 = (q - 1 - 200) mod 401" "0 \<le> adrAtTrigger d4" "adrAtTrigger d4 \<le> 400"
  proof -
    show a: "adrAtTrigger d4 = (q - 1 - 200) mod 401"
      using c n unfolding q diff_diff_eq by (simp add: mod_diff_left_eq d4_def capturing_def)
    show "0 \<le> adrAtTrigger d4" "adrAtTrigger d4 \<le> 400" unfolding a using pos_mod_bound [of 401 "q - 1 - 200"] by simp_all
  qed
  have len: "length (mva d4) = 400" "399 \<le> length hist" using c by (simp_all add: d4_def capturing_def)
  have "mva (copyDataBufferToDisplayBuffer d4) = rev (take 200 hist) @ t # tl (post @ [v])"
  proof (rule nth_equalityI)
    show "length (mva (copyDataBufferToDisplayBuffer d4)) = length (rev (take 200 hist) @ t # tl (post @ [v]))"
      using len n by simp
  next
    fix i assume "i < length (mva (copyDataBufferToDisplayBuffer d4))"
    then have i: "i < 400" using len by simp
    show "mva (copyDataBufferToDisplayBuffer d4) ! i = (rev (take 200 hist) @ t # tl (post @ [v])) ! i"
    proof (cases "i \<le> 200")
      case True
      have "(adrAtTrigger d4 - int (200 - i)) mod 401 = (q - 1 - int (400 - i)) mod 401"
        using True unfolding adr(1) mod_diff_left_eq by (simp add: of_nat_diff algebra_simps)
      then have "mva (copyDataBufferToDisplayBuffer d4) ! i = ram ! nat ((q - 1 - int (400 - i)) mod 401)"
        using copy_nth [OF len(1) adr(2,3) i] True by (simp add: d4_def)
      also have "\<dots> = (rev (post @ [v]) @ t # hist) ! (400 - i)"
      proof -
        have "400 - i < min 401 (length (rev (post @ [v]) @ t # hist))" using n len by simp
        then show ?thesis by (intro dig.holds_nth [OF r]) simp_all
      qed
      also have "\<dots> = (t # hist) ! (200 - i)"
      proof -
        have "400 - i - length (rev (post @ [v])) = 200 - i" "\<not> 400 - i < length (rev (post @ [v]))" using True n by simp_all
        then show ?thesis by (simp only: nth_append if_False)
      qed
      also have "\<dots> = (rev (take 200 hist) @ t # tl (post @ [v])) ! i"
        using True len by (cases "i = 200") (simp_all add: nth_append rev_nth nth_Cons')
      finally show ?thesis .
    next
      case False
      have "mva (copyDataBufferToDisplayBuffer d4) ! i = ram2 ! (i - 200)"
        using copy_nth [OF len(1) adr(2,3) i] False by (simp add: d4_def)
      also have "\<dots> = (post @ [v]) ! (i - 200)" using r2 i by simp
      also have "\<dots> = (rev (take 200 hist) @ t # tl (post @ [v])) ! i"
      proof -
        obtain k where k: "i = 201 + k" "k < 199" using that [of "i - 201"] False i by simp
        have "(rev (take 200 hist) @ t # tl (post @ [v])) ! (200 + Suc k) = tl (post @ [v]) ! k"
          using len by (simp add: nth_append)
        also have "\<dots> = (post @ [v]) ! Suc k" using k n by (intro nth_tl) simp
        finally show ?thesis using k by simp
      qed
      finally show ?thesis .
    qed
  qed
  then show ?thesis unfolding e um by (simp add: d4_def)
qed

section \<open>Runs of the sampling handler\<close>

definition sampling_run :: "'s hal \<Rightarrow> env list \<Rightarrow> digitizer \<times> 's \<Rightarrow> digitizer \<times> 's" where
  "sampling_run H Es p = fold (handleSamplingForDigitizer H) Es p"

text \<open>The values sampled during a run: what \<open>v\<close> holds after each call.\<close>

fun sampled :: "'s hal \<Rightarrow> env list \<Rightarrow> digitizer \<times> 's \<Rightarrow> f32 list" where
  "sampled H [] p = []"
| "sampled H (E # Es) p = (let q = handleSamplingForDigitizer H E p in dg_v (fst q) # sampled H Es q)"

lemma sampling_run_simps [simp]:
  "sampling_run H [] p = p"
  "sampling_run H (Es @ [E]) p = handleSamplingForDigitizer H E (sampling_run H Es p)"
  by (simp_all add: sampling_run_def)

lemma sampled_append:
  "sampled H (Es @ [E]) p = sampled H Es p @ [dg_v (fst (handleSamplingForDigitizer H E (sampling_run H Es p)))]"
  by (induction Es arbitrary: p) (simp_all add: Let_def sampling_run_def)

lemma copy_dg_v [simp]:
  "dg_v (copyDataBufferToDisplayBuffer d) = dg_v d" "rendering (copyDataBufferToDisplayBuffer d) = rendering d"
  "continuous (copyDataBufferToDisplayBuffer d) = continuous d" "allowTrigger (copyDataBufferToDisplayBuffer d) = allowTrigger d"
proof -
  have u: "dg_v (updateMaxMin v d) = dg_v d" "rendering (updateMaxMin v d) = rendering d"
    "continuous (updateMaxMin v d) = continuous d" "allowTrigger (updateMaxMin v d) = allowTrigger d" for v d
    by (simp_all add: updateMaxMin_def Let_def)
  have m: "dg_v (mva_write i v d) = dg_v d" "rendering (mva_write i v d) = rendering d"
    "continuous (mva_write i v d) = continuous d" "allowTrigger (mva_write i v d) = allowTrigger d" for i v d
    by (simp_all add: mva_write_def)
  have b: "dg_v (copy_before xs d) = dg_v d" "rendering (copy_before xs d) = rendering d"
    "continuous (copy_before xs d) = continuous d" "allowTrigger (copy_before xs d) = allowTrigger d" for xs d
    by (induction xs arbitrary: d) (simp_all add: u m)
  have a: "dg_v (copy_after xs k d) = dg_v d" "rendering (copy_after xs k d) = rendering d"
    "continuous (copy_after xs k d) = continuous d" "allowTrigger (copy_after xs k d) = allowTrigger d" for xs k d
    by (induction xs arbitrary: d k) (simp_all add: u m)
  have z: "dg_v (fold (\<lambda>x. mva_write (int x) v) xs d) = dg_v d" "rendering (fold (\<lambda>x. mva_write (int x) v) xs d) = rendering d"
    "continuous (fold (\<lambda>x. mva_write (int x) v) xs d) = continuous d" "allowTrigger (fold (\<lambda>x. mva_write (int x) v) xs d) = allowTrigger d" for v xs d
    by (induction xs arbitrary: d) (simp_all add: m)
  show "dg_v (copyDataBufferToDisplayBuffer d) = dg_v d" "rendering (copyDataBufferToDisplayBuffer d) = rendering d"
    "continuous (copyDataBufferToDisplayBuffer d) = continuous d" "allowTrigger (copyDataBufferToDisplayBuffer d) = allowTrigger d"
    unfolding copyDataBufferToDisplayBuffer_def Let_def a b clearMaxMin_def by (simp_all del: upt_Suc add: z)
qed

lemma sample_keeps:
  "dg_v (digitizer_sample now v d) = v" "rendering (digitizer_sample now v d) = rendering d"
  "continuous (digitizer_sample now v d) = continuous d" "allowTrigger (digitizer_sample now v d) = allowTrigger d"
  by (auto simp: digitizer_sample_def Let_def updateModulation_def split: prod.splits)

lemma handleSampling_samples:
  assumes "\<not> rendering (fst p)" "\<not> bufferOverflow (fst p)"
  obtains v s where "handleSamplingForDigitizer H E p = (digitizer_sample (env_millis E) v (fst p), s)"
    and "dg_v (fst (handleSamplingForDigitizer H E p)) = v"
proof -
  obtain x s1 where "(if digitizeVoltage (fst p) then measureMilliVoltage H E (snd p)
    else measureCurrent H E (getCurrentRange H (snd p)) (snd p)) = (x, s1)" by fastforce
  then show ?thesis using that [of "conv x" s1] assms by (simp add: handleSamplingForDigitizer_def Let_def sample_keeps)
qed

text \<open>A capture has been copied to the display.\<close>

definition captured :: "f32 list \<Rightarrow> digitizer \<Rightarrow> bool" where
  "captured vs d \<longleftrightarrow> (\<exists>pre t post more. vs = pre @ t # post @ more \<and> 399 \<le> length pre \<and> length post = 200
     \<and> mva d = drop (length pre - 200) pre @ t # tl post)"

lemma captured_more: "captured vs d \<Longrightarrow> captured (vs @ [v]) d"
  unfolding captured_def by (metis append.assoc append_Cons)

lemma run_shape:
  assumes "idle [] (fst p)"
  shows "let d = fst (sampling_run H Es p); vs = sampled H Es p in
    \<not> rendering d \<and> freerun d = freerun (fst p) \<and>
    (idle (rev vs) d \<and> (if freerun d then length vs < 400 else True)
     \<or> (\<exists>pre t post. vs = pre @ t # post \<and> capturing (rev pre) t post d \<and> (if freerun d then length pre < 400 else True))
     \<or> bufferOverflow d \<and> captured vs d)"
proof (induction Es rule: rev_induct)
  case Nil
  then show ?case using assms by (simp add: idle_def)
next
  case (snoc E Es)
  define q where "q = sampling_run H Es p"
  define vs where "vs = sampled H Es p"
  define d' where "d' = fst (handleSamplingForDigitizer H E q)"
  from snoc have keep: "\<not> rendering (fst q)" "freerun (fst q) = freerun (fst p)"
    unfolding Let_def q_def [symmetric] vs_def [symmetric] by blast+
  from snoc consider (idle) "idle (rev vs) (fst q)" "if freerun (fst q) then length vs < 400 else True"
    | (cap) pre t post where "vs = pre @ t # post" "capturing (rev pre) t post (fst q)" "if freerun (fst q) then length pre < 400 else True"
    | (full) "bufferOverflow (fst q)" "captured vs (fst q)"
    unfolding Let_def q_def [symmetric] vs_def [symmetric] by blast
  then have "\<not> rendering d' \<and> freerun d' = freerun (fst p) \<and>
      (idle (rev (vs @ [dg_v d'])) d' \<and> (if freerun d' then length (vs @ [dg_v d']) < 400 else True)
      \<or> (\<exists>pre t post. vs @ [dg_v d'] = pre @ t # post \<and> capturing (rev pre) t post d' \<and> (if freerun d' then length pre < 400 else True))
      \<or> bufferOverflow d' \<and> captured (vs @ [dg_v d']) d')"
  proof cases
    case idle
    then obtain v s where v: "handleSamplingForDigitizer H E q = (digitizer_sample (env_millis E) v (fst q), s)" "dg_v d' = v"
      using handleSampling_samples [of q H E] keep(1) unfolding d'_def idle_def by metis
    have k: "\<not> rendering d' \<and> freerun d' = freerun (fst q)" using v keep(1) by (simp add: d'_def sample_keeps freerun_def)
    have "idle (rev (vs @ [v])) d' \<and> (if freerun (fst q) then length vs < 399 else True) \<or> capturing (rev vs) v [] d'"
      using sample_idle [OF idle(1), of v "env_millis E"] v by (auto simp: d'_def)
    then show ?thesis using k keep(2) v(2) idle(2) by (fastforce split: if_splits)
  next
    case cap
    then obtain v s where v: "handleSamplingForDigitizer H E q = (digitizer_sample (env_millis E) v (fst q), s)" "dg_v d' = v"
      using handleSampling_samples [of q H E] keep(1) unfolding d'_def capturing_def by metis
    have r: "\<not> rendering d' \<and> freerun d' = freerun (fst q)" using v keep(1) by (simp add: d'_def sample_keeps freerun_def)
    show ?thesis
    proof (cases "length post < 199")
      case True
      then have "capturing (rev pre) t (post @ [v]) d'" using sample_capturing [OF cap(2)] v by (simp add: d'_def)
      then show ?thesis using r keep(2) cap(1,3) v(2) by auto
    next
      case False
      then have n: "length post = 199" using cap(2) by (simp add: capturing_def)
      have len: "399 \<le> length pre" using cap(2) by (simp add: capturing_def)
      have "mva d' = rev (take 200 (rev pre)) @ t # tl (post @ [v])" and b: "bufferOverflow d'"
        using sample_completes [OF cap(2) n, of "env_millis E" v] v by (simp_all add: d'_def)
      then have "mva d' = drop (length pre - 200) pre @ t # tl (post @ [v])" by (simp add: take_rev)
      then have "captured (vs @ [dg_v d']) d'"
        using len n unfolding captured_def cap(1) v(2) by (intro exI [of _ pre] exI [of _ t] exI [of _ "post @ [v]"] exI [of _ "[]"]) simp
      then show ?thesis using r keep(2) b by simp
    qed
  next
    case full
    then have "handleSamplingForDigitizer H E q = q" using keep(1) by (simp add: handleSamplingForDigitizer_def Let_def)
    then show ?thesis using full keep captured_more by (simp add: d'_def)
  qed
  then show ?case unfolding Let_def sampled_append sampling_run_simps q_def [symmetric] vs_def [symmetric] d'_def [symmetric] .
qed

lemma sampled_length [simp]: "length (sampled H Es p) = length Es"
  by (induction Es arbitrary: p) (simp_all add: Let_def)

lemma capture_completes:
  assumes "idle [] (fst p)" "freerun (fst p)" "length Es = 600"
  shows "bufferOverflow (fst (sampling_run H Es p))"
proof (rule ccontr)
  assume "\<not> bufferOverflow (fst (sampling_run H Es p))"
  with run_shape [OF assms(1), of H Es] assms(2,3)
  obtain pre t post where s: "sampled H Es p = pre @ t # post" and c: "length pre < 400" "length post < 200"
    by (auto simp: Let_def capturing_def dest: arg_cong [where f = length])
  have "length (sampled H Es p) = 600" using assms by simp
  then show False using s c by simp
qed

lemma initial_idle: "idle [] (digitizer_initial now)" "freerun (digitizer_initial now)"
  by (simp_all add: idle_def freerun_def digitizer_initial_def ring_holds_def)

text \<open>C7: whatever the trigger setting, when a capture that began with the counters reset is complete, the 400 values
  shown are 200 consecutive samples before the trigger sample, the trigger sample, and the 199 samples that ended the
  capture; at least 399 samples were taken before the trigger; the first sample after the trigger is not shown.\<close>

theorem digitizer_capture_window:
  assumes "idle [] (fst p)" "bufferOverflow (fst (sampling_run H Es p))"
  shows "\<exists>pre t post more. sampled H Es p = pre @ t # post @ more \<and> \<not> length pre < 399 \<and> length post = 200
     \<and> mva (fst (sampling_run H Es p)) = drop (length pre - 200) pre @ t # tl post"
  using run_shape [OF assms(1), of H Es] assms(2) by (auto simp: Let_def idle_def capturing_def captured_def not_less)

theorem digitizer_capture_window_witness:
  "\<exists>pre t post more. sampled (hal717 (\<lambda>_ d. (0, d))) (replicate 600 (env_sample cal_unit (Fin 0))) (digitizer_initial 0, smu717_initial ())
      = pre @ t # post @ more \<and> \<not> length pre < 399 \<and> length post = 200
     \<and> mva (fst (sampling_run (hal717 (\<lambda>_ d. (0, d))) (replicate 600 (env_sample cal_unit (Fin 0))) (digitizer_initial 0, smu717_initial ())))
      = drop (length pre - 200) pre @ t # tl post"
  by (rule digitizer_capture_window, simp add: initial_idle, rule capture_completes) (simp_all add: initial_idle)

text \<open>C28: in continuous mode with triggering allowed a capture is always complete after 600 calls of the sampling
  handler, whatever the converter returns: the acquisition never hangs.\<close>

theorem continuous_capture_completes:
  assumes "idle [] (fst p)" "freerun (fst p)" "length Es = 600"
  shows "bufferOverflow (fst (sampling_run H Es p)) \<and> \<not> rendering (fst (sampling_run H Es p))"
  using capture_completes [OF assms] run_shape [OF assms(1)] by (simp add: Let_def)

theorem continuous_capture_completes_witness:
  "bufferOverflow (fst (sampling_run (hal717 (\<lambda>_ d. (0, d))) (replicate 600 (env_sample cal_unit (Fin 0))) (digitizer_initial 7, smu717_initial ())))"
  by (rule continuous_capture_completes [THEN conjunct1]) (simp_all add: initial_idle)

text \<open>copying a capture to the display writes one element past the 400 of mva: the first element of the member
  mia that follows it is overwritten, by the 201st value of the buffer of samples after the trigger; no other is.\<close>

theorem display_copy_overruns:
  "mia (copyDataBufferToDisplayBuffer d) = (mia d)[0 := ramEmulator2 d ! 200]"
proof -
  have z: "mia (fold (\<lambda>x. mva_write (int x) v) [0 ..< n] d) = mia d" if "n \<le> 400" for n v d
    using that by (induction n) (simp_all add: mva_write_def)
  have b: "mia (copy_before [0 ..< n] d) = mia d" if "n \<le> 200" for n d
  proof -
    have "\<forall>x \<in> set xs. x < 200 \<Longrightarrow> mia (copy_before xs d) = mia d" for xs
      by (induction xs arbitrary: d) (simp_all add: mva_write_def half)
    then show ?thesis using that by simp
  qed
  have bs: "copy_before (xs @ [x]) d = updateMaxMin (ramEmulator2 d ! x) (mva_write (int x + 200) (ramEmulator2 d ! x) (copy_before xs d))" for xs x d
    by (induction xs arbitrary: d) (simp_all add: half)
  have a: "\<forall>x \<in> set xs. x < 400 \<Longrightarrow> mia (copy_after xs k d) = mia d" for xs k d
    by (induction xs arbitrary: d k) (simp_all add: mva_write_def)
  have f: "mia (fold (\<lambda>x. mva_write (int x) (lit 0)) [0 ..< Suc (nat nrOfFloats)] d) = (mia d)[0 := lit 0]"
  proof -
    have "[0 ..< Suc (nat nrOfFloats)] = [0 ..< 400] @ [400]" unfolding half(2) using upt_Suc_append [OF le0, of 400] by (simp only: Suc_eq_plus1)
    then show ?thesis using z [of 400] by (simp only: fold_append) (simp add: mva_write_def)
  qed
  have n: "nat (cdiv nrOfFloats 2) + 1 = Suc 200" by (simp add: half)
  show ?thesis
    unfolding copyDataBufferToDisplayBuffer_def Let_def n upt_Suc_append [OF le0] bs
    by (subst a) (simp_all add: b f mva_write_def clearMaxMin_def del: upt_Suc)
qed

end
