(* ===== verification/Ram.thy ===== *)
theory Ram
  imports Bus FltBits Ring
begin

text \<open>
  The log memory: the driver of the serial RAM chip (src/src/SerialRAM.cpp) and the class RamClass
  (src/src/RamClass.cpp), which keeps timed values in a ring, in two arrays of the processor or in
  the chip, and the graph that reads it back (the computation of src/src/TrendGraph.cpp).  The chip is
  behind the bus parameter, selected by pin 5.  Transfers carry the arguments of the code; SPI
  settings and debug prints are left out.
\<close>

section \<open>The serial RAM driver\<close>

definition RAM_CS :: nat where "RAM_CS = 5"
definition RAM_INSTR_READ :: byte where "RAM_INSTR_READ = 0x03"
definition RAM_INSTR_WRITE :: byte where "RAM_INSTR_WRITE = 0x02"
definition RAM_INSTR_RDMR :: byte where "RAM_INSTR_RDMR = 0x05"
definition RAM_INSTR_WRMR :: byte where "RAM_INSTR_WRMR = 0x01"
definition RAM_SEQUENTIALMODE :: byte where "RAM_SEQUENTIALMODE = 0x40"

definition ram_select :: "'d chips \<Rightarrow> byte list \<Rightarrow> ('d, 'z) board_scheme \<Rightarrow> byte list \<times> ('d, 'z) board_scheme" where
  "ram_select X bs s = (let (rs, s1) = spi_transfers X bs (digitalWrite X RAM_CS False s) in (rs, digitalWrite X RAM_CS True s1))"

definition ram_writeRDMR :: "'d chips \<Rightarrow> byte \<Rightarrow> ('d, 'z) board_scheme \<Rightarrow> ('d, 'z) board_scheme" where
  "ram_writeRDMR X mode s = snd (ram_select X [RAM_INSTR_WRMR, mode] s)"

definition ram_readRDMR :: "'d chips \<Rightarrow> ('d, 'z) board_scheme \<Rightarrow> byte \<times> ('d, 'z) board_scheme" where
  "ram_readRDMR X s = (let (rs, s1) = ram_select X [RAM_INSTR_RDMR, 0] s in (rs ! 1, s1))"

definition ram_init :: "'d chips \<Rightarrow> ('d, 'z) board_scheme \<Rightarrow> ('d, 'z) board_scheme" where
  "ram_init X s = ram_writeRDMR X RAM_SEQUENTIALMODE (digitalWrite X RAM_CS True s)"

definition ram_frame :: "byte \<Rightarrow> u32 \<Rightarrow> byte list" where
  "ram_frame instr addr = [instr, ucast (drop_bit 16 addr), ucast (drop_bit 8 addr), ucast addr]"

definition ram_read :: "'d chips \<Rightarrow> u32 \<Rightarrow> nat \<Rightarrow> ('d, 'z) board_scheme \<Rightarrow> byte list \<times> ('d, 'z) board_scheme" where
  "ram_read X addr len s = (let (rs, s1) = ram_select X (ram_frame RAM_INSTR_READ addr @ replicate len 0) s in (drop 4 rs, s1))"

definition ram_write :: "'d chips \<Rightarrow> byte list \<Rightarrow> u32 \<Rightarrow> ('d, 'z) board_scheme \<Rightarrow> ('d, 'z) board_scheme" where
  "ram_write X buf addr s = snd (ram_select X (ram_frame RAM_INSTR_WRITE addr @ buf) s)"

section \<open>The class\<close>

record 'd log_ram = "'d board" +
  currentLogAddress :: int
  ram_max :: f32
  ram_min :: f32
  ram_initFailure :: bool
  ram_full :: bool
  waitLogStart :: u32
  USE_NORMAL_RAM :: bool
  normalRamValue :: "f32 list"
  normalRamTime :: "u32 list"
  timeElapsed_zero :: u32
  logTotalSum :: f32
  nrOfLogEntriesForMean :: int
  oldestLogAddress :: int

definition maxLogAddress :: int where "maxLogAddress = 300"
definition logStartAddress :: u32 where "logStartAddress = 0"

definition log_ram_initial :: "'d \<Rightarrow> 'd log_ram" where
  "log_ram_initial d = \<lparr>pins = (\<lambda>_. False), dev = d, wire = [], currentLogAddress = 0, ram_max = lit (- 100000), ram_min = lit 100000,
     ram_initFailure = False, ram_full = False, waitLogStart = 5000, USE_NORMAL_RAM = True, normalRamValue = replicate 1000 (Fin 0),
     normalRamTime = replicate 1000 0, timeElapsed_zero = 0, logTotalSum = of_i 0, nrOfLogEntriesForMean = 0, oldestLogAddress = 0\<rparr>"

definition readRAMfloat :: "'d chips \<Rightarrow> u32 \<Rightarrow> ('d, 'z) board_scheme \<Rightarrow> f32 \<times> ('d, 'z) board_scheme" where
  "readRAMfloat X address s = (let (bs, s1) = ram_read X address 4 s in (float_of_bytes bs, s1))"

definition writeRAMfloat :: "'d chips \<Rightarrow> u32 \<Rightarrow> f32 \<Rightarrow> ('d, 'z) board_scheme \<Rightarrow> ('d, 'z) board_scheme" where
  "writeRAMfloat X address v s = ram_write X (float_bytes v) address s"

text \<open>The bytes of a \<open>uint32_t\<close> in the union \<open>tiu\<close>.\<close>

definition time_bytes :: "u32 \<Rightarrow> byte list" where "time_bytes t = le_bytes 4 (uint t)"
definition time_of_bytes :: "byte list \<Rightarrow> u32" where "time_of_bytes bs = word_of_int (le_value bs)"

definition readLogData :: "'d chips \<Rightarrow> u32 \<Rightarrow> ('d, 'z) log_ram_scheme \<Rightarrow> (f32 \<times> u32) \<times> ('d, 'z) log_ram_scheme" where
  "readLogData X address s =
     (if USE_NORMAL_RAM s then ((normalRamValue s ! unat address, normalRamTime s ! unat address), s)
      else let (tb, s1) = ram_read X (logStartAddress + address * 8) 4 s;
               (v, s2) = readRAMfloat X (logStartAddress + address * 8 + 4) s1
           in ((v, time_of_bytes tb), s2))"

definition writeLogData :: "'d chips \<Rightarrow> u32 \<Rightarrow> f32 \<Rightarrow> u32 \<Rightarrow> ('d, 'z) log_ram_scheme \<Rightarrow> ('d, 'z) log_ram_scheme" where
  "writeLogData X address v time s =
     (if USE_NORMAL_RAM s
      then s\<lparr>normalRamValue := (normalRamValue s)[unat address := v], normalRamTime := (normalRamTime s)[unat address := time]\<rparr>
      else writeRAMfloat X (logStartAddress + address * 8 + 4) v (ram_write X (time_bytes time) (address * 8) s))"

text \<open>\<open>timeElapsed\<close> counts milliseconds from its last assignment.\<close>

definition timeElapsed :: "u32 \<Rightarrow> ('d, 'z) log_ram_scheme \<Rightarrow> u32" where
  "timeElapsed now s = now - timeElapsed_zero s"

definition startLog :: "u32 \<Rightarrow> ('d, 'z) log_ram_scheme \<Rightarrow> ('d, 'z) log_ram_scheme" where
  "startLog now s = s\<lparr>timeElapsed_zero := now\<rparr>"

definition ram_logData :: "'d chips \<Rightarrow> u32 \<Rightarrow> f32 \<Rightarrow> ('d, 'z) log_ram_scheme \<Rightarrow> ('d, 'z) log_ram_scheme" where
  "ram_logData X now v s =
     (let s1 = writeLogData X (word_of_int (currentLogAddress s)) v (timeElapsed now s) s;
          s2 = s1\<lparr>currentLogAddress := currentLogAddress s1 + 1\<rparr>;
          s3 = (if currentLogAddress s2 > maxLogAddress then s2\<lparr>ram_full := True, currentLogAddress := 0\<rparr> else s2)
      in if ram_full s3
         then let oldest = currentLogAddress s3 - 1 in s3\<lparr>oldestLogAddress := (if oldest < 0 then maxLogAddress else oldest)\<rparr>
         else s3\<lparr>oldestLogAddress := 0\<rparr>)"

definition logDataCalculateMean :: "'d chips \<Rightarrow> u32 \<Rightarrow> f32 \<Rightarrow> int \<Rightarrow> ('d, 'z) log_ram_scheme \<Rightarrow> ('d, 'z) log_ram_scheme" where
  "logDataCalculateMean X now v nrOfValuesBeforeSave s =
     (if now < waitLogStart s then s
      else let s1 = s\<lparr>logTotalSum := logTotalSum s + v, nrOfLogEntriesForMean := nrOfLogEntriesForMean s + 1\<rparr> in
        if nrOfLogEntriesForMean s1 \<ge> nrOfValuesBeforeSave
        then let m = logTotalSum s1 / of_i nrOfValuesBeforeSave;
                 s2 = (if m > ram_max s1 then s1\<lparr>ram_max := m\<rparr> else s1);
                 s3 = (if m < ram_min s2 then s2\<lparr>ram_min := m\<rparr> else s2)
             in (ram_logData X now m s3)\<lparr>nrOfLogEntriesForMean := 0, logTotalSum := of_i 0\<rparr>
        else s1)"

definition nextAdr :: "f32 \<Rightarrow> ('d, 'z) log_ram_scheme \<Rightarrow> int" where
  "nextAdr adrf s = (let a = f2i32 adrf - 1; b = (if a < 0 \<and> ram_full s then maxLogAddress else a)
     in if b < 0 \<and> \<not> ram_full s then - 1 else b)"

subsection \<open>The tests at the start\<close>

text \<open>The time at the \<open>i\<close>-th record of testReadWriteLogData, which waits 20 ms between records.\<close>

definition test_records :: "'d chips \<Rightarrow> (nat \<Rightarrow> u32) \<Rightarrow> ('d, 'z) log_ram_scheme \<Rightarrow> ('d, 'z) log_ram_scheme" where
  "test_records X now s =
     snd (fold (\<lambda>i (v, s). (conv ((conv v :: f64) + lit 0.01), writeLogData X (of_nat i) v (timeElapsed (now i) s) s)) [0 ..< 10] (of_i 0, s))"

definition testReadWriteLogData :: "'d chips \<Rightarrow> (nat \<Rightarrow> u32) \<Rightarrow> ('d, 'z) log_ram_scheme \<Rightarrow> ('d, 'z) log_ram_scheme" where
  "testReadWriteLogData X now s = fold (\<lambda>i s. snd (readLogData X (of_nat i) s)) [0 ..< 10] (test_records X now s)"

definition ram_test_bytes :: "'d chips \<Rightarrow> ('d, 'z) board_scheme \<Rightarrow> int \<times> ('d, 'z) board_scheme" where
  "ram_test_bytes X s =
     fold (\<lambda>i (errors, s). let (r, s1) = ram_read X (of_nat i) 1 (ram_write X [of_nat i + 3] (of_nat i) s)
            in (if r ! 0 \<noteq> of_nat i + 3 then errors + 1 else errors, s1)) [0 ..< 10] (0, s)"

definition ram_fill :: "'d chips \<Rightarrow> nat list \<Rightarrow> ('d, 'z) board_scheme \<Rightarrow> ('d, 'z) board_scheme" where
  "ram_fill X as s = snd (fold (\<lambda>a (v, s). (conv ((conv v :: f64) + lit 0.01), writeRAMfloat X (of_nat a) v s)) as (of_i 0, s))"

text \<open>The read back stops at the first wrong value.\<close>

fun ram_verify :: "'d chips \<Rightarrow> nat list \<Rightarrow> f32 \<Rightarrow> ('d, 'z) board_scheme \<Rightarrow> bool \<times> ('d, 'z) board_scheme" where
  "ram_verify X [] v s = (True, s)"
| "ram_verify X (a # as) v s =
     (let (r, s1) = readRAMfloat X (of_nat a) s in
      if feq r v then ram_verify X as (conv ((conv v :: f64) + lit 0.01)) s1 else (False, s1))"

definition log_ram_init :: "'d chips \<Rightarrow> (nat \<Rightarrow> u32) \<Rightarrow> ('d, 'z) log_ram_scheme \<Rightarrow> ('d, 'z) log_ram_scheme" where
  "log_ram_init X now s =
     (if USE_NORMAL_RAM s then s\<lparr>normalRamValue := replicate 1000 (lit 99000)\<rparr>
      else let (errors, s1) = ram_test_bytes X (ram_init X s) in
        if errors > 0 then s1\<lparr>ram_initFailure := True\<rparr>
        else let as = map (\<lambda>i. 4 * i) [0 ..< 32000]
             in testReadWriteLogData X now (snd (ram_verify X as (of_i 0) (ram_fill X as s1))))"

section \<open>The graph of the log\<close>

text \<open>The extent of the values of up to 200 records, walking back from the next slot; with the
  processor's memory, values from 50000 count as unset.\<close>

fun trend_extent :: "'d chips \<Rightarrow> nat \<Rightarrow> int \<Rightarrow> f32 \<times> f32 \<Rightarrow> ('d, 'z) log_ram_scheme \<Rightarrow> (f32 \<times> f32) \<times> ('d, 'z) log_ram_scheme" where
  "trend_extent X 0 adr mm s = (mm, s)"
| "trend_extent X (Suc n) adr (maxV, minV) s =
     (let ((v, t), s1) = readLogData X (word_of_int adr) s;
          mm = (if USE_NORMAL_RAM s1
                then if v < lit 50000 then (if v > maxV then v else maxV, if v < minV then v else minV) else (maxV, minV)
                else (ram_max s1, ram_min s1));
          a = nextAdr (of_i adr) s1
      in if a = - 1 then (mm, s1) else trend_extent X n a mm s1)"

definition trend_margin :: "f32 \<times> f32 \<Rightarrow> f32 \<times> f32" where
  "trend_margin mm =
     (let (maxV, minV) = mm in
      if (conv (maxV - minV) :: f64) < lit 0.020
      then let left = conv (lit 0.020 - (conv (maxV - minV) :: f64)) :: f32
           in (conv ((conv maxV :: f64) + conv left / lit 2), conv ((conv minV :: f64) - conv left / lit 2))
      else mm)"

text \<open>The points of the curve: walking back, three pixels apart.\<close>

definition trend_y :: "f32 \<times> f32 \<Rightarrow> f32 \<Rightarrow> int" where
  "trend_y mm v =
     (let span = fst mm - snd mm;
          mid = conv ((conv (fst mm) :: f64) - conv span / lit 2) :: f32
      in f2i32 (conv ((conv (mid - v) :: f64) * lit 300 / conv span) :: f32))"

fun trend_points :: "'d chips \<Rightarrow> nat \<Rightarrow> int \<Rightarrow> int \<Rightarrow> f32 \<times> f32 \<Rightarrow> ('d, 'z) log_ram_scheme \<Rightarrow> (int \<times> int) list \<times> ('d, 'z) log_ram_scheme" where
  "trend_points X 0 adr x mm s = ([], s)"
| "trend_points X (Suc n) adr x mm s =
     (let a = nextAdr (of_i adr) s in
      if a = - 1 then trend_points X n a x mm s
      else let ((v, t), s1) = readLogData X (word_of_int a) s;
               (ps, s2) = trend_points X n a (x + 3) mm s1
           in ((150 + 600 - x, 240 + trend_y mm v) # ps, s2))"

section \<open>The log as a history\<close>

interpretation rlog: ring 301
  by unfold_locales simp

text \<open>With the processor's memory: \<open>hist\<close> is what was logged, newest first.\<close>

definition log_ok :: "(f32 \<times> u32) list \<Rightarrow> ('d, 'z) log_ram_scheme \<Rightarrow> bool" where
  "log_ok hist s \<longleftrightarrow> USE_NORMAL_RAM s \<and> length (normalRamValue s) = 1000 \<and> length (normalRamTime s) = 1000
     \<and> ring_holds 301 (currentLogAddress s) (zip (normalRamValue s) (normalRamTime s)) hist
     \<and> ram_full s = (301 \<le> length hist) \<and> (\<not> ram_full s \<longrightarrow> currentLogAddress s = int (length hist))"

lemma log_ok_bounds: "log_ok hist s \<Longrightarrow> 0 \<le> currentLogAddress s \<and> currentLogAddress s \<le> 300"
  using rlog.holds_bounds [of "currentLogAddress s" "zip (normalRamValue s) (normalRamTime s)" hist] by (simp add: log_ok_def)

lemma unat_address: "0 \<le> a \<Longrightarrow> a \<le> 300 \<Longrightarrow> unat (word_of_int a :: u32) = nat a"
  by (simp add: unat_eq_nat_uint uint_word_of_int)

lemma log_push:
  assumes ok: "log_ok hist s"
  shows "log_ok ((v, timeElapsed now s) # hist) (ram_logData X now v s)"
proof -
  define p where "p = currentLogAddress s"
  have p: "0 \<le> p" "p \<le> 300" using log_ok_bounds [OF ok] by (simp_all add: p_def)
  have nx: "(if p + 1 > maxLogAddress then 0 else p + 1) = (p + 1) mod 301"
    using rlog.step_mod [of p] p by (simp add: maxLogAddress_def)
  have z: "zip ((normalRamValue s)[nat p := v]) ((normalRamTime s)[nat p := t]) = (zip (normalRamValue s) (normalRamTime s))[nat p := (v, t)]" for t
    by (simp add: update_zip)
  have r: "ring_holds 301 ((p + 1) mod 301) (zip ((normalRamValue s)[nat p := v]) ((normalRamTime s)[nat p := t])) ((v, t) # hist)" for t
    unfolding z using ok by (intro rlog.holds_push) (simp add: log_ok_def p_def)
  show ?thesis
    using ok p r [of "timeElapsed now s"] unfolding nx [symmetric]
    by (auto simp: log_ok_def ram_logData_def Let_def writeLogData_def unat_address maxLogAddress_def p_def [symmetric])
qed

lemma f2i32_of_i: "\<bar>n\<bar> \<le> 16777216 \<Longrightarrow> f2i32 (of_i n :: f32) = n"
proof -
  assume n: "\<bar>n\<bar> \<le> 16777216"
  then have t: "trunc (of_int n) = n" by (simp add: trunc_def)
  from of_i_exact(1,2) [OF n] show ?thesis using n t by (cases "of_i n :: f32") (auto simp: f2i32_def f2i_def)
qed

lemma nextAdr_of_i: "0 \<le> a \<Longrightarrow> a \<le> 300 \<Longrightarrow> nextAdr (of_i a) s = (if a = 0 then (if ram_full s then 300 else - 1) else a - 1)"
proof -
  assume a: "0 \<le> a" "a \<le> 300"
  then have "f2i32 (of_i a :: f32) = a" by (simp add: f2i32_of_i)
  then show ?thesis using a by (auto simp: nextAdr_def Let_def maxLogAddress_def)
qed

lemma readLogData_normal: "USE_NORMAL_RAM s \<Longrightarrow> 0 \<le> a \<Longrightarrow> a \<le> 300 \<Longrightarrow>
    length (normalRamValue s) = 1000 \<Longrightarrow> length (normalRamTime s) = 1000 \<Longrightarrow>
    readLogData X (word_of_int a) s = (zip (normalRamValue s) (normalRamTime s) ! nat a, s)"
  by (simp add: readLogData_def unat_address)

text \<open>Walking back \<open>j\<close> slots, either the \<open>j\<close>-th newest record or the end of the log is met.\<close>

lemma nextAdr_back:
  assumes ok: "log_ok hist s" and j: "j \<le> length hist" "j < 301"
  shows "nextAdr (of_i ((currentLogAddress s - int j) mod 301)) s =
    (if j < length hist then (currentLogAddress s - 1 - int j) mod 301 else if ram_full s then 300 else - 1)"
proof -
  define p where "p = currentLogAddress s"
  have p: "0 \<le> p" "p \<le> 300" using log_ok_bounds [OF ok] by (simp_all add: p_def)
  define a where "a = (p - int j) mod 301"
  have a: "0 \<le> a" "a < 301" by (simp_all add: a_def)
  have b: "(if a - 1 < 0 then 300 else a - 1) = (p - 1 - int j) mod 301"
  proof -
    have "(a - 1) mod 301 = (p - 1 - int j) mod 301" unfolding a_def mod_diff_left_eq by (simp add: algebra_simps)
    then show ?thesis using rlog.back_mod [of a] a by (auto split: if_splits)
  qed
  show ?thesis
  proof (cases "ram_full s")
    case True
    then show ?thesis using nextAdr_of_i [of a s] a b ok j unfolding a_def p_def log_ok_def by (auto split: if_splits)
  next
    case False
    then have "p = int (length hist)" using ok by (simp add: log_ok_def p_def)
    then have "a = int (length hist - j)" using j p by (simp add: a_def of_nat_diff)
    then show ?thesis using nextAdr_of_i [of a s] a b j False unfolding a_def p_def by (auto split: if_splits)
  qed
qed

text \<open>At the end of the log the walk stays there.\<close>

lemma trend_points_end: "\<not> ram_full s \<Longrightarrow> a \<le> 0 \<Longrightarrow> - 300 \<le> a - int n \<Longrightarrow> fst (trend_points X n (if a < 0 then - 1 else 0) x mm s) = []"
proof (induction n arbitrary: a)
  case (Suc n)
  have "nextAdr (of_i (if a < 0 then - 1 else 0)) s = - 1"
  proof (cases "a < 0")
    case True
    have "f2i32 (of_i (- 1) :: f32) = - 1" by (rule f2i32_of_i) simp
    then show ?thesis using True Suc.prems by (simp add: nextAdr_def)
  next
    case False
    then show ?thesis using nextAdr_of_i [of 0 s] Suc.prems by simp
  qed
  moreover have "fst (trend_points X n (- 1) x mm s) = []" using Suc.IH [of "- 1"] Suc.prems by simp
  ultimately show ?case by (simp add: Let_def)
qed simp

lemma trend_points_walk:
  assumes ok: "log_ok hist s" and n: "n + j \<le> 300" "j \<le> length hist"
  shows "fst (trend_points X n ((currentLogAddress s - int j) mod 301) x mm s) =
    map (\<lambda>k. (750 - x - 3 * int k, 240 + trend_y mm (fst (hist ! (j + k))))) [0 ..< min n (length hist - j)]"
  using n
proof (induction n arbitrary: j x)
  case (Suc n)
  define p where "p = currentLogAddress s"
  show ?case
  proof (cases "j < length hist")
    case True
    define a where "a = (p - 1 - int j) mod 301"
    have a: "0 \<le> a" "a \<le> 300" "a \<noteq> - 1" using pos_mod_bound [of 301 "p - 1 - int j"] pos_mod_sign [of 301 "p - 1 - int j"] by (simp_all add: a_def)
    have nx: "nextAdr (of_i ((p - int j) mod 301)) s = a" using nextAdr_back [OF ok] True Suc.prems by (simp add: p_def a_def)
    have rd: "readLogData X (word_of_int a) s = (hist ! j, s)"
      using readLogData_normal [of s a X] rlog.holds_nth [of p "zip (normalRamValue s) (normalRamTime s)" hist j] ok a True Suc.prems
      by (simp add: log_ok_def p_def a_def)
    have aj: "a = (p - int (Suc j)) mod 301" by (simp add: a_def algebra_simps)
    have "fst (trend_points X (Suc n) ((p - int j) mod 301) x mm s) =
        (750 - x, 240 + trend_y mm (fst (hist ! j))) # fst (trend_points X n a (x + 3) mm s)"
      using a(3) by (simp add: nx rd case_prod_unfold Let_def)
    also have "fst (trend_points X n a (x + 3) mm s) =
        map (\<lambda>k. (750 - (x + 3) - 3 * int k, 240 + trend_y mm (fst (hist ! (Suc j + k))))) [0 ..< min n (length hist - Suc j)]"
      unfolding aj p_def using True Suc.prems by (intro Suc.IH) simp_all
    also have "(750 - x, 240 + trend_y mm (fst (hist ! j))) # \<dots> =
        map (\<lambda>k. (750 - x - 3 * int k, 240 + trend_y mm (fst (hist ! (j + k))))) [0 ..< Suc (min n (length hist - Suc j))]"
      unfolding upt_conv_Cons [OF zero_less_Suc] map_Suc_upt [symmetric] by (simp add: algebra_simps)
    also have "Suc (min n (length hist - Suc j)) = min (Suc n) (length hist - j)" using True by simp
    finally show ?thesis by (simp add: p_def)
  next
    case False
    then have j: "j = length hist" using Suc.prems by simp
    have nf: "\<not> ram_full s" using ok j Suc.prems by (simp add: log_ok_def)
    then have "currentLogAddress s = int j" using ok j by (simp add: log_ok_def)
    then show ?thesis using trend_points_end [of s 0 "Suc n" X x mm] nf j Suc.prems by simp
  qed
qed simp

text \<open>Logging, from the start of the program.\<close>

definition log_run :: "'d chips \<Rightarrow> (nat \<Rightarrow> u32) \<Rightarrow> 'd \<Rightarrow> (u32 \<times> f32) list \<Rightarrow> 'd log_ram" where
  "log_run X now d vs = fold (\<lambda>(t, v). ram_logData X t v) vs (log_ram_init X now (log_ram_initial d))"

lemma log_run_ok: "log_ok (map (\<lambda>(t, v). (v, t)) (rev vs)) (log_run X now d vs)" "timeElapsed_zero (log_run X now d vs) = 0"
proof (induction vs rule: rev_induct)
  case Nil
  { case 1 show ?case by (simp add: log_run_def log_ok_def log_ram_init_def log_ram_initial_def rlog.holds_Nil) }
  { case 2 show ?case by (simp add: log_run_def log_ram_init_def log_ram_initial_def) }
next
  case (snoc e vs)
  obtain t v where e: "e = (t, v)" by fastforce
  { case 1 show ?case using log_push [OF snoc(1), of v t X] snoc(2) by (simp add: e log_run_def timeElapsed_def) }
  { case 2 show ?case using snoc by (simp add: e log_run_def ram_logData_def Let_def writeLogData_def log_ok_def) }
qed

text \<open>the trend graph shows the newest readings: whatever was logged since the start, however often the ring of 301
  slots wrapped, the points drawn are the newest (at most 200) logged values in order, newest at the right edge and each
  three pixels to the left of the one after it.\<close>

theorem trend_graph_shows_newest:
  "fst (trend_points X 200 (currentLogAddress (log_run X now d vs)) 0 mm (log_run X now d vs)) =
     map (\<lambda>k. (750 - 3 * int k, 240 + trend_y mm (snd (rev vs ! k)))) [0 ..< min 200 (length vs)]"
proof -
  have "currentLogAddress (log_run X now d vs) mod 301 = currentLogAddress (log_run X now d vs)"
    using log_ok_bounds [OF log_run_ok(1) [of vs X now d]] by simp
  then show ?thesis
    using trend_points_walk [OF log_run_ok(1) [of vs X now d], of 200 0 X 0 mm] by (simp add: case_prod_unfold)
qed

section \<open>The log in the serial chip\<close>

text \<open>One selection of the chip, seen from the chip.\<close>

fun chip_run :: "'d chips \<Rightarrow> byte list \<Rightarrow> 'd \<Rightarrow> byte list \<times> 'd" where
  "chip_run X [] d = ([], d)"
| "chip_run X (b # bs) d = (let (r, d1) = X (SpiByte b) d; (rs, d2) = chip_run X bs d1 in (r # rs, d2))"

definition chip_select :: "'d chips \<Rightarrow> byte list \<Rightarrow> 'd \<Rightarrow> byte list \<times> 'd" where
  "chip_select X bs d = (let (rs, d1) = chip_run X bs (snd (X (PinWrite RAM_CS False) d)) in (rs, snd (X (PinWrite RAM_CS True) d1)))"

text \<open>
  What the data sheet of the 23LC1024 documents of the two instructions in sequential mode:
  in one selection, the bytes after instruction and 24 bit address are stored at, or fetched from,
  consecutive addresses, within its 128 Kbyte.
\<close>

definition serial_sram :: "'d chips \<Rightarrow> ('d \<Rightarrow> nat \<Rightarrow> byte) \<Rightarrow> bool" where
  "serial_sram X mem \<longleftrightarrow>
     (\<forall>d a bs. unat a + length bs \<le> 131072 \<longrightarrow> mem (snd (chip_select X (ram_frame RAM_INSTR_WRITE a @ bs) d)) =
        (\<lambda>i. if unat a \<le> i \<and> i < unat a + length bs then bs ! (i - unat a) else mem d i))
   \<and> (\<forall>d a n. unat a + n \<le> 131072 \<longrightarrow> drop 4 (fst (chip_select X (ram_frame RAM_INSTR_READ a @ replicate n 0) d)) = map (\<lambda>i. mem d (unat a + i)) [0 ..< n]
        \<and> mem (snd (chip_select X (ram_frame RAM_INSTR_READ a @ replicate n 0) d)) = mem d)"

lemma transfers_chip: "fst (spi_transfers X bs s) = fst (chip_run X bs (dev s))" "dev (snd (spi_transfers X bs s)) = snd (chip_run X bs (dev s))"
  by (induction bs arbitrary: s) (simp_all add: spi_transfer_def case_prod_unfold Let_def)

lemma select_chip: "fst (ram_select X bs s) = fst (chip_select X bs (dev s))" "dev (snd (ram_select X bs s)) = snd (chip_select X bs (dev s))"
  by (simp_all add: ram_select_def chip_select_def case_prod_unfold Let_def transfers_chip digitalWrite_def)

lemma ram_write_mem: "serial_sram X mem \<Longrightarrow> unat a + length bs \<le> 131072 \<Longrightarrow>
    mem (dev (ram_write X bs a s)) = (\<lambda>i. if unat a \<le> i \<and> i < unat a + length bs then bs ! (i - unat a) else mem (dev s) i)"
  by (simp add: ram_write_def select_chip serial_sram_def)

lemma ram_read_mem: "serial_sram X mem \<Longrightarrow> unat a + n \<le> 131072 \<Longrightarrow>
    fst (ram_read X a n s) = map (\<lambda>i. mem (dev s) (unat a + i)) [0 ..< n] \<and> mem (dev (snd (ram_read X a n s))) = mem (dev s)"
  by (simp add: ram_read_def case_prod_unfold Let_def select_chip serial_sram_def)

lemma ram_write_frame: "log_ram.USE_NORMAL_RAM (ram_write X bs a s) = log_ram.USE_NORMAL_RAM s"
  "log_ram.USE_NORMAL_RAM (snd (ram_read X a n s)) = log_ram.USE_NORMAL_RAM s"
proof -
  have t: "USE_NORMAL_RAM (snd (spi_transfers X bs s)) = USE_NORMAL_RAM s" for bs and s :: "('a, 'b) log_ram_scheme"
    by (induction bs arbitrary: s) (simp_all add: spi_transfer_def case_prod_unfold Let_def)
  then show "log_ram.USE_NORMAL_RAM (ram_write X bs a s) = log_ram.USE_NORMAL_RAM s"
    "log_ram.USE_NORMAL_RAM (snd (ram_read X a n s)) = log_ram.USE_NORMAL_RAM s"
    by (simp_all add: ram_write_def ram_read_def ram_select_def digitalWrite_def case_prod_unfold Let_def)
qed

lemma record_address: "unat a < 16384 \<Longrightarrow> unat (a * 8 :: u32) = unat a * 8" "unat a < 16384 \<Longrightarrow> unat (a * 8 + 4 :: u32) = unat a * 8 + 4"
proof -
  assume a: "unat a < 16384"
  show m: "unat (a * 8) = unat a * 8" using a by (simp add: unat_word_ariths)
  show "unat (a * 8 + 4) = unat a * 8 + 4" using a m by (subst unat_word_ariths) simp
qed

text \<open>A record as the chip holds it.\<close>

lemma readLogData_serial:
  assumes X: "serial_sram X mem" and s: "\<not> USE_NORMAL_RAM s" and a: "unat a < 16384"
  shows "fst (readLogData X a s) = (float_of_bytes (map (\<lambda>i. mem (dev s) (unat a * 8 + 4 + i)) [0 ..< 4]),
      time_of_bytes (map (\<lambda>i. mem (dev s) (unat a * 8 + i)) [0 ..< 4]))"
proof -
  have 1: "fst (ram_read X (a * 8) 4 s) = map (\<lambda>i. mem (dev s) (unat a * 8 + i)) [0 ..< 4]"
    "mem (dev (snd (ram_read X (a * 8) 4 s))) = mem (dev s)"
    using ram_read_mem [OF X, of "a * 8" 4 s] a by (simp_all add: record_address)
  have 2: "fst (ram_read X (a * 8 + 4) 4 s') = map (\<lambda>i. mem (dev s') (unat a * 8 + 4 + i)) [0 ..< 4]" for s' :: "('a, 'b) log_ram_scheme"
    using ram_read_mem [OF X, of "a * 8 + 4" 4 s'] a by (simp add: record_address)
  show ?thesis using s by (simp only: readLogData_def readRAMfloat_def logStartAddress_def case_prod_unfold Let_def if_False add_0 fst_conv snd_conv 1 2)
qed

lemma writeLogData_serial:
  assumes X: "serial_sram X mem" and s: "\<not> USE_NORMAL_RAM s" and a: "unat a < 16384"
  shows "mem (dev (writeLogData X a v t s)) i = (if unat a * 8 \<le> i \<and> i < unat a * 8 + 4 then time_bytes t ! (i - unat a * 8)
      else if unat a * 8 + 4 \<le> i \<and> i < unat a * 8 + 8 then float_bytes v ! (i - (unat a * 8 + 4)) else mem (dev s) i)"
  using s a ram_write_mem [OF X, of "a * 8" "time_bytes t" s] ram_write_mem [OF X, of "a * 8 + 4" "float_bytes v" "ram_write X (time_bytes t) (a * 8) s"]
  by (auto simp: writeLogData_def writeRAMfloat_def logStartAddress_def record_address time_bytes_def)

lemma time_of_bytes_inverse: "time_of_bytes (time_bytes t) = t"
proof -
  have "le_value (le_bytes 4 (uint t)) = uint t" by (rule le_value_le_bytes) (simp, use uint_bounded [of t] in simp)
  then show ?thesis by (simp add: time_of_bytes_def time_bytes_def)
qed

text \<open>C23: with the external chip, a record written to the log is read back as written, and writing it changes no other
  record: for any device that keeps the documented protocol of the chip, whatever the other contents.\<close>

theorem serial_log_roundtrip:
  assumes "serial_sram X mem" and "\<not> USE_NORMAL_RAM s" and "wf_flt v" and "unat a < 16384" and "unat b < 16384"
  shows "fst (readLogData X b (writeLogData X a v t s)) = (if b = a then (v, t) else fst (readLogData X b s))"
proof -
  note w = writeLogData_serial [OF assms(1,2,4), of v t]
  have n: "\<not> USE_NORMAL_RAM (writeLogData X a v t s)"
    using assms(2) by (simp add: writeLogData_def writeRAMfloat_def ram_write_frame)
  have r: "fst (readLogData X b (writeLogData X a v t s)) = (float_of_bytes (map (\<lambda>i. mem (dev (writeLogData X a v t s)) (unat b * 8 + 4 + i)) [0 ..< 4]),
      time_of_bytes (map (\<lambda>i. mem (dev (writeLogData X a v t s)) (unat b * 8 + i)) [0 ..< 4]))"
    by (rule readLogData_serial [OF assms(1) n assms(5)])
  show ?thesis
  proof (cases "b = a")
    case True
    have "map (\<lambda>i. mem (dev (writeLogData X a v t s)) (unat a * 8 + i)) [0 ..< 4] = time_bytes t"
      by (rule nth_equalityI) (simp_all add: w time_bytes_def)
    moreover have "map (\<lambda>i. mem (dev (writeLogData X a v t s)) (unat a * 8 + 4 + i)) [0 ..< 4] = float_bytes v"
      by (rule nth_equalityI) (simp_all add: w)
    ultimately show ?thesis using True r assms(3) by (simp add: time_of_bytes_inverse float_of_bytes_inverse)
  next
    case False
    then have ne: "unat b < unat a \<or> unat a < unat b" by (metis linorder_neqE_nat word_unat_eq_iff)
    have "map (\<lambda>i. mem (dev (writeLogData X a v t s)) (unat b * 8 + i)) [0 ..< 4] = map (\<lambda>i. mem (dev s) (unat b * 8 + i)) [0 ..< 4]"
      using ne by (intro map_cong) (auto simp: w)
    moreover have "map (\<lambda>i. mem (dev (writeLogData X a v t s)) (unat b * 8 + 4 + i)) [0 ..< 4] = map (\<lambda>i. mem (dev s) (unat b * 8 + 4 + i)) [0 ..< 4]"
      using ne by (intro map_cong) (auto simp: w)
    ultimately show ?thesis using False by (simp only: r readLogData_serial [OF assms(1,2,5)] if_False)
  qed
qed

text \<open>A device that keeps the protocol: the bytes of the present selection, and the memory.\<close>

definition sram_sample :: "(byte list \<times> (nat \<Rightarrow> byte)) chips" where
  "sram_sample e d = (let (fr, m) = d in case e of
     PinWrite p v \<Rightarrow> (0, (if p = RAM_CS \<and> \<not> v then [] else fr, m))
   | SpiByte b \<Rightarrow> let k = length fr; a = unat (fr ! 1) * 65536 + unat (fr ! 2) * 256 + unat (fr ! 3) + (k - 4) in
       if k < 4 then (0, (fr @ [b], m))
       else if fr ! 0 = RAM_INSTR_READ then (m a, (fr @ [b], m))
       else if fr ! 0 = RAM_INSTR_WRITE then (0, (fr @ [b], m(a := b)))
       else (0, (fr @ [b], m)))"

lemma frame_address: "unat a < 16777216 \<Longrightarrow> unat (ram_frame i a ! 1) * 65536 + unat (ram_frame i a ! 2) * 256 + unat (ram_frame i a ! 3) = unat a"
proof -
  assume a: "unat a < 16777216"
  then have d: "unat a div 65536 < 256" by (simp add: less_mult_imp_div_less)
  have "unat (ram_frame i a ! 1) = unat a div 65536" "unat (ram_frame i a ! 2) = unat a div 256 mod 256" "unat (ram_frame i a ! 3) = unat a mod 256"
    using d by (simp_all add: ram_frame_def unsigned_ucast_eq unsigned_drop_bit_eq take_bit_eq_mod drop_bit_eq_div unat_div_distrib d)
  moreover have "unat a div 65536 = unat a div 256 div 256" using div_mult2_eq [of "unat a" 256 256] by simp
  then have "unat a div 65536 * 65536 + unat a div 256 mod 256 * 256 + unat a mod 256 = unat a"
    using div_mult_mod_eq [of "unat a" 256] div_mult_mod_eq [of "unat a div 256" 256] by linarith
  ultimately show ?thesis by (simp only:)
qed

definition frame_base :: "byte list \<Rightarrow> nat" where
  "frame_base fr = unat (fr ! 1) * 65536 + unat (fr ! 2) * 256 + unat (fr ! 3)"

lemma frame_base_append: "length fr = 4 + k \<Longrightarrow> frame_base (fr @ bs) = frame_base fr" "length fr = 4 + k \<Longrightarrow> (fr @ bs) ! 0 = fr ! 0"
  by (auto simp: frame_base_def nth_append)

lemma sample_step_read: "length fr = 4 + k \<Longrightarrow> fr ! 0 = RAM_INSTR_READ \<Longrightarrow> sram_sample (SpiByte b) (fr, m) = (m (frame_base fr + k), (fr @ [b], m))"
  by (simp add: sram_sample_def frame_base_def Let_def)

lemma sample_step_write: "length fr = 4 + k \<Longrightarrow> fr ! 0 = RAM_INSTR_WRITE \<Longrightarrow> sram_sample (SpiByte b) (fr, m) = (0, (fr @ [b], m(frame_base fr + k := b)))"
  by (simp add: sram_sample_def frame_base_def Let_def RAM_INSTR_READ_def RAM_INSTR_WRITE_def)

lemma sample_read: "length fr = 4 + k \<Longrightarrow> fr ! 0 = RAM_INSTR_READ \<Longrightarrow>
    chip_run sram_sample (replicate n 0) (fr, m) = (map (\<lambda>i. m (frame_base fr + k + i)) [0 ..< n], (fr @ replicate n 0, m))"
proof (induction n arbitrary: fr k)
  case (Suc n)
  have "chip_run sram_sample (replicate n 0) (fr @ [0], m) = (map (\<lambda>i. m (frame_base fr + k + Suc i)) [0 ..< n], (fr @ 0 # replicate n 0, m))"
    using Suc.IH [of "fr @ [0]" "Suc k"] Suc.prems frame_base_append [of fr k] by simp
  then show ?case using Suc.prems by (simp add: sample_step_read Let_def upt_conv_Cons map_Suc_upt [symmetric] del: upt_Suc)
qed simp

lemma sample_write: "length fr = 4 + k \<Longrightarrow> fr ! 0 = RAM_INSTR_WRITE \<Longrightarrow>
    snd (chip_run sram_sample bs (fr, m)) = (fr @ bs, (\<lambda>i. if frame_base fr + k \<le> i \<and> i < frame_base fr + k + length bs then bs ! (i - (frame_base fr + k)) else m i))"
proof (induction bs arbitrary: fr k m)
  case (Cons b bs)
  define a where "a = frame_base fr + k"
  have "snd (chip_run sram_sample bs (fr @ [b], m(a := b))) = (fr @ b # bs, (\<lambda>i. if Suc a \<le> i \<and> i < Suc a + length bs then bs ! (i - Suc a) else (m(a := b)) i))"
    using Cons.IH [of "fr @ [b]" "Suc k" "m(a := b)"] Cons.prems frame_base_append [of fr k] by (simp add: a_def fun_upd_def cong: if_cong)
  then show ?case
    using Cons.prems by (auto simp: sample_step_write case_prod_unfold Let_def nth_Cons' fun_eq_iff a_def fun_upd_def)
qed (auto simp: fun_eq_iff)

lemma sample_prefix: "length bs = 4 \<Longrightarrow> chip_run sram_sample bs ([], m) = ([0, 0, 0, 0], (bs, m))"
proof -
  assume "length bs = 4"
  then obtain a b c d where "bs = [a, b, c, d]" by (auto simp: numeral_eq_Suc length_Suc_conv)
  then show ?thesis by (simp add: sram_sample_def Let_def)
qed

lemma chip_run_append: "chip_run X (as @ bs) d = (let (r1, d1) = chip_run X as d; (r2, d2) = chip_run X bs d1 in (r1 @ r2, d2))"
  by (induction as arbitrary: d) (simp_all add: case_prod_unfold Let_def)

lemma sram_sample_serial: "serial_sram sram_sample snd"
proof -
  have l: "length (ram_frame i a) = 4 + 0" "ram_frame i a ! 0 = i" for i a by (simp_all add: ram_frame_def)
  have base: "unat a \<le> 131072 \<Longrightarrow> frame_base (ram_frame i a) = unat a" for i a using frame_address [of a i] by (simp add: frame_base_def)
  have cs: "sram_sample (PinWrite RAM_CS False) (fr, m) = (0, ([], m))" "snd (snd (sram_sample (PinWrite RAM_CS True) (fr, m))) = m" for fr m
    by (simp_all add: sram_sample_def)
  have w: "snd (snd (chip_select sram_sample (ram_frame RAM_INSTR_WRITE a @ bs) d)) =
      (\<lambda>i. if unat a \<le> i \<and> i < unat a + length bs then bs ! (i - unat a) else snd d i)" if "unat a + length bs \<le> 131072" for d a bs
    using sample_write [where fr = "ram_frame RAM_INSTR_WRITE a" and k = 0 and bs = bs and m = "snd d"] base [of a] that sample_prefix [of "ram_frame RAM_INSTR_WRITE a" "snd d"]
    by (cases d) (simp add: chip_select_def chip_run_append case_prod_unfold Let_def cs l cong: if_cong)
  have r: "drop 4 (fst (chip_select sram_sample (ram_frame RAM_INSTR_READ a @ replicate n 0) d)) = map (\<lambda>i. snd d (unat a + i)) [0 ..< n]
      \<and> snd (snd (chip_select sram_sample (ram_frame RAM_INSTR_READ a @ replicate n 0) d)) = snd d" if "unat a + n \<le> 131072" for d a n
    using sample_read [where fr = "ram_frame RAM_INSTR_READ a" and k = 0 and n = n and m = "snd d"] base [of a] that sample_prefix [of "ram_frame RAM_INSTR_READ a" "snd d"]
    by (cases d) (simp add: chip_select_def chip_run_append case_prod_unfold Let_def cs l cong: if_cong)
  show ?thesis unfolding serial_sram_def using w r by simp
qed

theorem serial_log_roundtrip_witness:
  "fst (readLogData sram_sample 7 (writeLogData sram_sample 7 (Fin 3) 1234 ((log_ram_initial ([], \<lambda>_. 0))\<lparr>USE_NORMAL_RAM := False\<rparr>))) = (Fin 3, 1234)"
proof -
  have "wf_flt (Fin 3 :: f32)" using repr_in_f32_int [of 3] by simp
  from serial_log_roundtrip [OF sram_sample_serial _ this, of "(log_ram_initial ([], \<lambda>_. 0))\<lparr>USE_NORMAL_RAM := False\<rparr>" 7 7 1234]
  show ?thesis by simp
qed

end
