(* ===== verification/Logger.thy ===== *)
theory Logger
  imports Ram
begin

text \<open>
  The data logger (src/src/Logger.cpp): a ring of one million timed values in the external memory, and
  a window of 300 points on it that the rotary knob zooms or scrolls.  \<open>extmem\<close> is the array
  at \<open>memory_begin\<close>, indexed by 32 bit words.  Drawing and debug prints are left out.
\<close>

section \<open>State\<close>

definition MAX_SAMPLES_IN_DISPLAY_BUFFER :: nat where "MAX_SAMPLES_IN_DISPLAY_BUFFER = 300"

record logger =
  encButtonScroll :: bool
  encButtonZoom :: bool
  notAvailable :: bool
  lg_full :: bool
  lg_empty :: bool
  loggerMaxValue :: f32
  loggerMinValue :: f32
  samplesPrViewPoint :: int
  totalSamplesCounted :: int
  percentageFull :: f32
  lg_minimum :: f32
  lg_maximum :: f32
  lg_samples :: u32
  lg_address :: u32
  scrollAddress :: u32
  autoScrolling :: bool
  rotary :: int
  scrollRotary :: int
  oldRot :: int
  viewBuffer :: "(f32 \<times> u32) list"
  noViewBuffer :: bool
  extmem :: "u32 \<Rightarrow> f32 \<times> u32"

definition maxSize :: u32 where "maxSize = 1000000"
definition lg_undefinedValue :: f32 where "lg_undefinedValue = lit 999999999"
definition lg_waitLogStart :: u32 where "lg_waitLogStart = 5000"

definition logger_initial :: "(u32 \<Rightarrow> f32 \<times> u32) \<Rightarrow> logger" where
  "logger_initial m = \<lparr>encButtonScroll = True, encButtonZoom = False, notAvailable = True, lg_full = False, lg_empty = False,
     loggerMaxValue = lit (- 10000), loggerMinValue = lit 10000, samplesPrViewPoint = 1, totalSamplesCounted = 0,
     percentageFull = Fin 0, lg_minimum = Fin 0, lg_maximum = Fin 0, lg_samples = 0, lg_address = 0, scrollAddress = 0,
     autoScrolling = False, rotary = 1, scrollRotary = 0, oldRot = 0, viewBuffer = replicate 300 (Fin 0, 0), noViewBuffer = True, extmem = m\<rparr>"

definition logger_clear :: "logger \<Rightarrow> logger" where
  "logger_clear L = L\<lparr>lg_minimum := lg_undefinedValue, lg_maximum := lg_undefinedValue, lg_samples := 0, lg_address := 0, scrollAddress := 0,
     lg_full := False, lg_empty := True, percentageFull := lit 0, totalSamplesCounted := 0, autoScrolling := True, scrollRotary := 0\<rparr>"

text \<open>\<open>megabytes\<close> is the number of megabytes that the start-up code of the board has found.\<close>

definition logger_init :: "byte \<Rightarrow> logger \<Rightarrow> logger" where
  "logger_init megabytes L = (if megabytes = 0 then L\<lparr>notAvailable := True\<rparr> else logger_clear (L\<lparr>notAvailable := False\<rparr>))"

section \<open>Storing\<close>

definition registerValue :: "f32 \<times> u32 \<Rightarrow> logger \<Rightarrow> logger" where
  "registerValue logData L0 =
     (let v = fst logData;
          L1 = L0\<lparr>totalSamplesCounted := totalSamplesCounted L0 + 1\<rparr>;
          L2 = (if \<not> lg_empty L1 then L1\<lparr>lg_address := lg_address L1 + 1\<rparr> else L1);
          L3 = (if lg_address L2 \<ge> maxSize then L2\<lparr>lg_address := 0, lg_full := True\<rparr> else L2);
          L4 = (if \<not> lg_full L3 then L3\<lparr>lg_samples := lg_samples L3 + 1\<rparr> else L3);
          L5 = L4\<lparr>percentageFull := conv (lit 100 * conv ((of_i (uint (lg_samples L4)) :: f32) / of_i (uint maxSize)) :: f64)\<rparr>;
          L6 = L5\<lparr>extmem := (extmem L5)(lg_address L5 := logData), lg_address := lg_address L5 + 1\<rparr>
      in if (feq (lg_minimum L6) lg_undefinedValue \<or> feq (lg_maximum L6) lg_undefinedValue) \<and> lg_samples L6 > 10
         then L6\<lparr>lg_minimum := v, lg_maximum := v\<rparr>
         else if v < lg_minimum L6 then L6\<lparr>lg_minimum := v\<rparr>
         else if v > lg_maximum L6 then L6\<lparr>lg_maximum := v\<rparr>
         else L6)"

section \<open>The window\<close>

text \<open>One sample of a point: where it is read, the running sum, and whether the log is exhausted,
  in which case the point is marked unset.\<close>

definition group_step :: "logger \<Rightarrow> u32 \<times> f32 \<times> bool \<times> (f32 \<times> u32) \<Rightarrow> u32 \<times> f32 \<times> bool \<times> (f32 \<times> u32)" where
  "group_step L st =
     (let (adr, mean, fillEmpty, cell) = st;
          (adr1, fillEmpty1, cell1) =
            (if adr = 0 \<and> lg_full L then (maxSize - 1, fillEmpty, cell)
             else if adr = 0 \<and> \<not> lg_full L then (adr, True, (conv (lit (- 999999.99) :: f64), 0))
             else (adr - 1, fillEmpty, cell))
      in (adr1, mean + fst (extmem L adr1), fillEmpty1, cell1))"

definition window_step :: "nat \<Rightarrow> nat \<Rightarrow> u32 \<times> bool \<times> logger \<Rightarrow> u32 \<times> bool \<times> logger" where
  "window_step samplesPr i st =
     (let (adr, fillEmpty, L) = st;
          (adr1, mean, fillEmpty1, cell) = (group_step L ^^ samplesPr) (adr, lit 0, fillEmpty, viewBuffer L ! i);
          value = mean / of_i (int samplesPr)
      in if \<not> fillEmpty1
         then (adr1, fillEmpty1, L\<lparr>viewBuffer := (viewBuffer L)[i := (value, snd (extmem L adr1))],
                 loggerMaxValue := (if value > loggerMaxValue L then value else loggerMaxValue L),
                 loggerMinValue := (if value < loggerMinValue L then value else loggerMinValue L)\<rparr>)
         else (adr1, fillEmpty1, L\<lparr>viewBuffer := (viewBuffer L)[i := cell]\<rparr>))"

definition getLastSamples :: "nat \<Rightarrow> nat \<Rightarrow> logger \<Rightarrow> logger" where
  "getLastSamples bufferSize samplesPr L =
     (let (adr, fillEmpty, L1) = fold (window_step samplesPr) [0 ..< bufferSize]
            (scrollAddress L, False, L\<lparr>loggerMaxValue := lit (- 10000), loggerMinValue := lit 10000\<rparr>);
          (mx, mn) = trend_margin (loggerMaxValue L1, loggerMinValue L1)
      in L1\<lparr>loggerMaxValue := mx, loggerMinValue := mn\<rparr>)"

definition updateViewData :: "int \<Rightarrow> logger \<Rightarrow> logger" where
  "updateViewData samplesPr L = (getLastSamples MAX_SAMPLES_IN_DISPLAY_BUFFER (nat samplesPr) L)\<lparr>noViewBuffer := False\<rparr>"

section \<open>Registering a reading\<close>

definition zoom_view :: "logger \<Rightarrow> logger" where
  "zoom_view L0 =
     (let L = L0\<lparr>scrollAddress := lg_address L0\<rparr> in
      if oldRot L \<noteq> rotary L then (updateViewData (samplesPrViewPoint L) L)\<lparr>oldRot := rotary L\<rparr>
      else L\<lparr>samplesPrViewPoint := rotary L\<rparr>)"

definition scroll_view :: "logger \<Rightarrow> logger" where
  "scroll_view L0 =
     (let L = (if autoScrolling L0 then L0\<lparr>scrollAddress := lg_address L0\<rparr> else L0) in
      if oldRot L \<noteq> scrollRotary L then
        let L1 = (if autoScrolling L
                  then L\<lparr>scrollAddress := lg_address L - word_of_int (scrollRotary L), autoScrolling := False\<rparr>
                  else L\<lparr>scrollAddress := scrollAddress L - word_of_int (scrollRotary L - oldRot L)\<rparr>);
            future = (sint (lg_address L1) - sint (scrollAddress L1) \<le> 0);
            L2 = (if \<not> autoScrolling L1 \<and> future
                  then L1\<lparr>autoScrolling := True, scrollRotary := 0, scrollAddress := lg_address L1\<rparr> else L1)
        in L2\<lparr>oldRot := scrollRotary L2\<rparr>
      else L)"

definition registerValue2 :: "u32 \<Rightarrow> f32 \<Rightarrow> logger \<Rightarrow> logger" where
  "registerValue2 now v L =
     (if notAvailable L then L
      else if now < lg_waitLogStart then L
      else let L1 = registerValue (v, now) L;
               L2 = (if \<not> encButtonScroll L1 then zoom_view L1 else L1);
               L3 = (if encButtonScroll L2 then scroll_view L2 else L2)
           in if totalSamplesCounted L3 mod samplesPrViewPoint L3 = 0 then updateViewData (samplesPrViewPoint L3) L3 else L3)"

definition fillBuffer :: "nat \<Rightarrow> logger \<Rightarrow> logger" where
  "fillBuffer nrOfValues L = fold (\<lambda>i. registerValue (of_i (int i), of_nat (i * 100))) [0 ..< nrOfValues] L"

section \<open>The knob\<close>

definition logger_rotaryChangedFn :: "f32 \<Rightarrow> logger \<Rightarrow> logger" where
  "logger_rotaryChangedFn changeVal L =
     (if encButtonScroll L
      then let c = (if changeVal > of_i 10 then of_i 10 else changeVal)
           in L\<lparr>scrollRotary := f2i32 (of_i (scrollRotary L) + c * of_i 10)\<rparr>
      else let r = f2i32 (of_i (rotary L) + changeVal * of_i 10) in L\<lparr>rotary := (if r \<le> 1 then 1 else r)\<rparr>)"

definition logger_rotarySwitchFn :: "logger \<Rightarrow> logger" where
  "logger_rotarySwitchFn L =
     (if encButtonScroll L then L\<lparr>encButtonScroll := False, encButtonZoom := True\<rparr>
      else L\<lparr>encButtonScroll := True, encButtonZoom := False\<rparr>)"

section \<open>The window shows the newest samples\<close>

interpretation lring: ring 1000000
  by unfold_locales simp

text \<open>The slots of the ring, as a list.\<close>

definition slots :: "logger \<Rightarrow> (f32 \<times> u32) list" where
  "slots L = map (\<lambda>i. extmem L (of_nat i)) [0 ..< nat 1000000]"

lemma slots_length: "length (slots L) = nat 1000000"
  by (simp only: slots_def length_map length_upt diff_zero)

lemma slots_nth: "0 \<le> a \<Longrightarrow> a < 1000000 \<Longrightarrow> slots L ! nat a = extmem L (word_of_int a)"
proof -
  assume a: "0 \<le> a" "a < 1000000"
  then have "slots L ! nat a = extmem L (of_nat (nat a))" by (simp only: slots_def nth_map_upt nat_mono_iff diff_zero add_0)
  then show ?thesis using a by (simp add: of_nat_nat)
qed

lemma uint_small: "0 \<le> a \<Longrightarrow> a < 4294967296 \<Longrightarrow> uint (word_of_int a :: u32) = a"
  by (simp add: uint_word_of_int)

lemma slots_update: "0 \<le> a \<Longrightarrow> a < 1000000 \<Longrightarrow> extmem L' = (extmem L)(word_of_int a := x) \<Longrightarrow> slots L' = (slots L)[nat a := x]"
proof (rule nth_equalityI)
  assume a: "0 \<le> a" "a < 1000000" and L': "extmem L' = (extmem L)(word_of_int a := x)"
  show "length (slots L') = length ((slots L)[nat a := x])" by (simp only: slots_length length_list_update)
  fix i assume "i < length (slots L')"
  then have i: "i = nat (int i)" "0 \<le> int i" "int i < 1000000" unfolding slots_length by simp_all
  have "slots L' ! i = extmem L' (word_of_int (int i))" using slots_nth [of "int i" L'] i by simp
  also have "\<dots> = (if int i = a then x else extmem L (word_of_int (int i)))"
  proof -
    have "uint (word_of_int (int i) :: u32) = int i" "uint (word_of_int a :: u32) = a" using uint_small [of "int i"] uint_small [of a] i(2,3) a by linarith+
    then have "(word_of_int (int i) = (word_of_int a :: u32)) = (int i = a)" by metis
    then show ?thesis using L' by simp
  qed
  also have "\<dots> = (slots L)[nat a := x] ! i"
  proof (cases "int i = a")
    case True
    then have "i = nat a" "i < length (slots L)" using i by (simp_all add: slots_length)
    then show ?thesis using True by simp
  next
    case False
    then have "nat a \<noteq> i" using a by auto
    then show ?thesis using False slots_nth [of "int i" L] i by simp
  qed
  finally show "slots L' ! i = (slots L)[nat a := x] ! i" .
qed

text \<open>\<open>hist\<close> is what was stored, newest first.\<close>

definition logger_ok :: "(f32 \<times> u32) list \<Rightarrow> logger \<Rightarrow> bool" where
  "logger_ok hist L \<longleftrightarrow> lg_empty L \<and> uint (lg_address L) \<le> 1000000 \<and> length (viewBuffer L) = 300
     \<and> ring_holds 1000000 (uint (lg_address L) mod 1000000) (slots L) hist
     \<and> lg_full L = (1000000 < length hist) \<and> (\<not> lg_full L \<longrightarrow> uint (lg_address L) = int (length hist))"

lemma registerValue_ok:
  assumes ok: "logger_ok hist L"
  shows "logger_ok (x # hist) (registerValue x L)"
proof -
  define p where "p = uint (lg_address L)"
  have p: "0 \<le> p" "p \<le> 1000000" "lg_address L = word_of_int p" using ok by (simp_all add: logger_ok_def p_def)
  define q where "q = (if p \<ge> 1000000 then 0 else p)"
  have q: "0 \<le> q" "q < 1000000" "q = p mod 1000000" using p by (auto simp: q_def)
  have ge: "(lg_address L \<ge> maxSize) = (p \<ge> 1000000)" by (simp add: word_le_def p_def maxSize_def)
  define L' where "L' = registerValue x L"
  have m: "extmem L' = (extmem L)(word_of_int q := x)" and a: "lg_address L' = word_of_int (q + 1)"
    and f: "lg_full L' = (lg_full L \<or> p \<ge> 1000000)" and e: "lg_empty L'" and v: "viewBuffer L' = viewBuffer L"
    using ok p(3) ge by (simp_all add: L'_def registerValue_def Let_def q_def logger_ok_def)
  have a': "uint (lg_address L') = q + 1" using q a uint_small [of "q + 1"] by simp
  have "slots L' = (slots L)[nat q := x]" using slots_update [OF q(1,2) m] .
  moreover have "ring_holds 1000000 ((q + 1) mod 1000000) ((slots L)[nat q := x]) (x # hist)"
    using ok q by (intro lring.holds_push) (simp add: logger_ok_def p_def)
  moreover have "\<not> lg_full L \<Longrightarrow> p = int (length hist)" "lg_full L = (1000000 < length hist)" "length (viewBuffer L) = 300"
    using ok by (simp_all add: logger_ok_def p_def)
  ultimately show ?thesis
    using a' f e v q(1,2) p(1,2) unfolding L'_def [symmetric] by (auto simp: logger_ok_def q_def split: if_splits)
qed

text \<open>The address after \<open>k\<close> reads from \<open>p\<close>.\<close>

definition adr_back :: "int \<Rightarrow> nat \<Rightarrow> int" where
  "adr_back p k = (if k = 0 then p else (p - int k) mod 1000000)"

lemma back_bounds: "0 \<le> p \<Longrightarrow> p \<le> 1000000 \<Longrightarrow> 0 \<le> adr_back p k \<and> adr_back p k \<le> 1000000"
  unfolding adr_back_def by (auto intro: less_imp_le)

lemma back_Suc: "0 < adr_back p k \<Longrightarrow> p \<le> 1000000 \<Longrightarrow> adr_back p (Suc k) = adr_back p k - 1"
proof -
  assume b: "0 < adr_back p k" and p: "p \<le> 1000000"
  have "adr_back p k \<le> 1000000" using p unfolding adr_back_def by (auto intro: less_imp_le)
  then have "(adr_back p k - 1) mod 1000000 = adr_back p k - 1" using b by simp
  moreover have "(adr_back p k - 1) mod 1000000 = (p - int (Suc k)) mod 1000000" by (simp add: adr_back_def mod_diff_left_eq algebra_simps)
  ultimately show ?thesis by (simp add: adr_back_def)
qed

lemma back_wrap: "adr_back p k = 0 \<Longrightarrow> adr_back p (Suc k) = 999999"
proof -
  assume "adr_back p k = 0"
  then have "(p - int k) mod 1000000 = 0" by (auto simp: adr_back_def split: if_splits)
  then have "1000000 dvd (p - int k)" by presburger
  then obtain c where "p - int k = 1000000 * c" by blast
  then have "p - int (Suc k) = 999999 + 1000000 * (c - 1)" by simp
  then show ?thesis unfolding adr_back_def by (simp only: mod_mult_self2) simp
qed

lemma word_zero_iff: "0 \<le> a \<Longrightarrow> a \<le> 1000000 \<Longrightarrow> ((word_of_int a :: u32) = 0) = (a = 0)"
proof -
  assume "0 \<le> a" "a \<le> 1000000"
  then have "uint (word_of_int a :: u32) = a" by (intro uint_small) simp_all
  then show ?thesis by auto
qed

lemma read_newest:
  assumes ok: "logger_ok hist L" and k: "k < length hist" "int k < 1000000"
  defines "p \<equiv> uint (lg_address L)"
  shows "group_step L (word_of_int (adr_back p k), acc, False, cell) = (word_of_int (adr_back p (Suc k)), acc + fst (hist ! k), False, cell)"
    and "extmem L (word_of_int (adr_back p (Suc k))) = hist ! k"
proof -
  have p: "0 \<le> p" "p \<le> 1000000" using ok by (simp_all add: logger_ok_def p_def)
  have e: "(p mod 1000000 - 1 - int k) mod 1000000 = adr_back p (Suc k)" by (simp add: adr_back_def mod_diff_left_eq diff_diff_eq)
  have "slots L ! nat (adr_back p (Suc k)) = hist ! k"
  proof -
    have "ring_holds 1000000 (p mod 1000000) (slots L) hist" using ok by (simp only: logger_ok_def p_def)
    from lring.holds_nth [OF this k] show ?thesis unfolding e .
  qed
  moreover have "0 \<le> adr_back p (Suc k)" "adr_back p (Suc k) < 1000000" by (simp_all add: adr_back_def)
  ultimately show x: "extmem L (word_of_int (adr_back p (Suc k))) = hist ! k" by (simp add: slots_nth)
  have z: "((word_of_int (adr_back p k) :: u32) = 0) = (adr_back p k = 0)" using back_bounds [OF p] by (intro word_zero_iff) simp_all
  show "group_step L (word_of_int (adr_back p k), acc, False, cell) = (word_of_int (adr_back p (Suc k)), acc + fst (hist ! k), False, cell)"
  proof (cases "adr_back p k = 0")
    case True
    have "lg_full L"
    proof (rule ccontr)
      assume "\<not> lg_full L"
      then have "p = int (length hist)" using ok by (simp add: logger_ok_def p_def)
      then have "0 < p - int k" "p - int k \<le> 1000000" "k \<noteq> 0 \<Longrightarrow> p - int k < 1000000" using k p by auto
      with True show False by (simp add: adr_back_def split: if_splits)
    qed
    then show ?thesis using True x z back_wrap [OF True] by (simp add: group_step_def maxSize_def)
  next
    case False
    then have "adr_back p (Suc k) = adr_back p k - 1" using back_bounds [OF p, of k] p by (intro back_Suc) auto
    then have "(word_of_int (adr_back p k) :: u32) - 1 = word_of_int (adr_back p (Suc k))" by simp
    then show ?thesis using False x z by (simp add: group_step_def)
  qed
qed

lemma group_run:
  assumes ok: "logger_ok hist L" and k: "j + m \<le> length hist" "int (j + m) \<le> 1000000"
  defines "p \<equiv> uint (lg_address L)"
  shows "(group_step L ^^ m) (word_of_int (adr_back p j), acc, False, cell) =
    (word_of_int (adr_back p (j + m)), fold (\<lambda>x a. a + fst x) (take m (drop j hist)) acc, False, cell)"
  using k
proof (induction m)
  case (Suc m)
  have t: "take (Suc m) (drop j hist) = take m (drop j hist) @ [hist ! (j + m)]" using Suc.prems by (simp add: take_Suc_conv_app_nth)
  show ?case using Suc read_newest(1) [OF ok, of "j + m"] unfolding t by (simp add: p_def)
qed simp

definition unset_cell :: "f32 \<times> u32" where "unset_cell = (conv (lit (- 999999.99) :: f64), 0)"

lemma exhausted_stays: "\<not> lg_full L \<Longrightarrow> \<exists>acc'. (group_step L ^^ m) (0, acc, True, unset_cell) = (0, acc', True, unset_cell)"
  by (induction m) (auto simp: group_step_def unset_cell_def)

lemma group_exhausts:
  assumes "\<not> lg_full L" "0 \<le> a" "a < int m" "a \<le> 1000000"
  shows "\<exists>acc'. (group_step L ^^ m) (word_of_int a, acc, fe, cell) = (0, acc', True, unset_cell)"
  using assms
proof (induction m arbitrary: a acc fe cell)
  case (Suc m)
  show ?case
  proof (cases "a = 0")
    case True
    have "group_step L (0, acc, fe, cell) = (0, acc + fst (extmem L 0), True, unset_cell)"
      using Suc.prems(1) by (simp add: group_step_def unset_cell_def)
    then show ?thesis using True exhausted_stays [OF Suc.prems(1), of m] unfolding funpow_Suc_right comp_def by simp
  next
    case False
    then have "(word_of_int a :: u32) \<noteq> 0" "(word_of_int a :: u32) - 1 = word_of_int (a - 1)" using word_zero_iff [of a] Suc.prems by simp_all
    then have "group_step L (word_of_int a, acc, fe, cell) = (word_of_int (a - 1), acc + fst (extmem L (word_of_int (a - 1))), fe, cell)"
      by (simp add: group_step_def)
    then show ?thesis using Suc.IH [OF Suc.prems(1), of "a - 1"] Suc.prems False unfolding funpow_Suc_right comp_def by simp
  qed
qed simp

lemma group_step_cong: "lg_full L' = lg_full L \<Longrightarrow> extmem L' = extmem L \<Longrightarrow> group_step L' = group_step L"
  by (simp add: group_step_def fun_eq_iff)

text \<open>The \<open>i\<close>-th point of the window with \<open>m\<close> samples for each point.\<close>

definition point_of :: "nat \<Rightarrow> (f32 \<times> u32) list \<Rightarrow> nat \<Rightarrow> f32 \<times> u32" where
  "point_of m hist i =
     (if (i + 1) * m \<le> length hist
      then (fold (\<lambda>x a. a + fst x) (take m (drop (i * m) hist)) (lit 0) / of_i (int m), snd (hist ! ((i + 1) * m - 1)))
      else unset_cell)"

definition window_ok :: "(f32 \<times> u32) list \<Rightarrow> nat \<Rightarrow> logger \<Rightarrow> nat \<Rightarrow> u32 \<times> bool \<times> logger \<Rightarrow> bool" where
  "window_ok hist m L n st \<longleftrightarrow> (case st of (adr, fe, L') \<Rightarrow>
     lg_full L' = lg_full L \<and> extmem L' = extmem L \<and> length (viewBuffer L') = 300 \<and> (\<forall>i < n. viewBuffer L' ! i = point_of m hist i)
     \<and> fe = (length hist < n * m) \<and> adr = (if fe then 0 else word_of_int (adr_back (uint (lg_address L)) (n * m))))"

lemma window_step_ok:
  assumes ok: "logger_ok hist L" and w: "window_ok hist m L n st" and m: "0 < m" "(n + 1) * m \<le> 1000000" and n: "n < 300"
  shows "window_ok hist m L (Suc n) (window_step m n st)"
proof -
  obtain adr fe L' where st: "st = (adr, fe, L')" by (cases st)
  note W = w [unfolded st window_ok_def prod.case]
  have g: "group_step L' = group_step L" using W by (intro group_step_cong) simp_all
  define p where "p = uint (lg_address L)"
  define cell where "cell = viewBuffer L' ! n"
  have upd: "\<forall>i < Suc n. (viewBuffer L')[n := point_of m hist n] ! i = point_of m hist i"
    using W n by (auto simp: less_Suc_eq)
  have short: "length hist < (n + 1) * m \<Longrightarrow> \<not> lg_full L" using ok m by (simp add: logger_ok_def)
  show ?thesis
  proof (cases "(n + 1) * m \<le> length hist")
    case True
    then have fe: "\<not> fe" "n * m + m \<le> length hist" using W by simp_all
    have "n * m + m \<le> 1000000" using m by simp
    then have b: "int (n * m + m) \<le> 1000000" by (metis of_nat_le_iff of_nat_numeral)
    have run: "(group_step L' ^^ m) (adr, lit 0, fe, cell) =
        (word_of_int (adr_back p (n * m + m)), fold (\<lambda>x a. a + fst x) (take m (drop (n * m) hist)) (lit 0), False, cell)"
      using group_run [OF ok fe(2) b, of "lit 0" cell] fe(1) W unfolding g p_def by simp
    define k where "k = n * m + m - 1"
    have k: "Suc k = n * m + m" "k < length hist" using m fe by (simp_all add: k_def)
    then have "int k < int (n * m + m)" by (simp only: of_nat_less_iff)
    with b have k3: "int k < 1000000" by linarith
    have "extmem L' (word_of_int (adr_back p (n * m + m))) = hist ! k"
      using read_newest(2) [OF ok k(2) k3] W unfolding k(1) p_def by simp
    then have "window_step m n st = (word_of_int (adr_back p (n * m + m)), False,
        L'\<lparr>viewBuffer := (viewBuffer L')[n := point_of m hist n],
           loggerMaxValue := loggerMaxValue (snd (snd (window_step m n st))), loggerMinValue := loggerMinValue (snd (snd (window_step m n st)))\<rparr>)"
      using True by (simp add: window_step_def st run cell_def [symmetric] Let_def point_of_def k_def add.commute)
    then obtain mx mn where "window_step m n st = (word_of_int (adr_back p (n * m + m)), False,
        L'\<lparr>viewBuffer := (viewBuffer L')[n := point_of m hist n], loggerMaxValue := mx, loggerMinValue := mn\<rparr>)" by blast
    then show ?thesis using W True upd by (simp add: window_ok_def p_def add.commute)
  next
    case False
    then have nf: "\<not> lg_full L" using short by simp
    then have pl: "p = int (length hist)" using ok by (simp add: logger_ok_def p_def)
    define a where "a = (if fe then 0 else adr_back p (n * m))"
    have adr: "adr = word_of_int a" using W by (simp add: a_def p_def)
    have a: "0 \<le> a" "a < int m" "a \<le> 1000000"
    proof -
      have "0 \<le> a \<and> a < int m \<and> a \<le> 1000000"
      proof (cases fe)
        case fe: False
        then have le: "n * m \<le> length hist" using W by simp
        have lt: "length hist < n * m + m" "n * m + m \<le> 1000000" using False m by simp_all
        define x where "x = n * m"
        have i: "int x \<le> int (length hist)" "int (length hist) < int x + int m" "int x + int m \<le> 1000000"
          using le lt unfolding x_def [symmetric] by linarith+
        then have "adr_back p x = int (length hist) - int x" unfolding adr_back_def pl by (simp add: mod_pos_pos_trivial)
        then show ?thesis using i fe by (simp add: a_def x_def [symmetric])
      qed (use m in \<open>simp add: a_def\<close>)
      then show "0 \<le> a" "a < int m" "a \<le> 1000000" by simp_all
    qed
    obtain acc where run: "(group_step L' ^^ m) (adr, lit 0, fe, cell) = (0, acc, True, unset_cell)"
      using group_exhausts [OF nf a, of "lit 0" fe cell] unfolding g adr by blast
    have "window_step m n st = (0, True, L'\<lparr>viewBuffer := (viewBuffer L')[n := point_of m hist n]\<rparr>)"
      using False by (simp add: window_step_def st run cell_def [symmetric] Let_def point_of_def)
    then show ?thesis using W False upd by (simp add: window_ok_def)
  qed
qed

lemma window_fold_ok:
  assumes ok: "logger_ok hist L" and a: "scrollAddress L = lg_address L" and m: "0 < m" "300 * m \<le> 1000000" and n: "n \<le> 300"
  shows "window_ok hist m L n (fold (window_step m) [0 ..< n] (scrollAddress L, False, L\<lparr>loggerMaxValue := x, loggerMinValue := y\<rparr>))"
  using n
proof (induction n)
  case 0
  show ?case using ok a by (simp add: window_ok_def adr_back_def logger_ok_def)
next
  case (Suc n)
  have le: "(n + 1) * m \<le> 300 * m" using Suc.prems by (intro mult_le_mono1) simp
  have n: "n \<le> 300" "n < 300" using Suc.prems by simp_all
  show ?case using window_step_ok [OF ok Suc.IH [OF n(1)] m(1) order_trans [OF le m(2)] n(2)] by simp
qed

lemma updateViewData_points:
  assumes ok: "logger_ok hist L" and a: "scrollAddress L = lg_address L" and m: "0 < m" "300 * m \<le> 1000000" and i: "i < 300"
  shows "viewBuffer (updateViewData (int m) L) ! i = point_of m hist i"
proof -
  have "window_ok hist m L 300 (fold (window_step m) [0 ..< 300] (scrollAddress L, False, L\<lparr>loggerMaxValue := lit (- 10000), loggerMinValue := lit 10000\<rparr>))"
    using window_fold_ok [OF ok a m] by simp
  then show ?thesis using i
    by (simp add: updateViewData_def getLastSamples_def window_ok_def MAX_SAMPLES_IN_DISPLAY_BUFFER_def case_prod_unfold Let_def del: upt_Suc)
qed

section \<open>Reachable states\<close>

text \<open>Readings, the knob and clearing, from a start with external memory.  The list is what was logged
  since the last clear, newest first.\<close>

inductive logger_reach :: "(f32 \<times> u32) list \<Rightarrow> logger \<Rightarrow> bool" where
  start: "megabytes \<noteq> 0 \<Longrightarrow> logger_reach [] (logger_init megabytes (logger_initial m))"
| reading: "logger_reach hist L \<Longrightarrow> logger_reach (if now < lg_waitLogStart then hist else (v, now) # hist) (registerValue2 now v L)"
| turn: "logger_reach hist L \<Longrightarrow> logger_reach hist (logger_rotaryChangedFn c L)"
| press: "logger_reach hist L \<Longrightarrow> logger_reach hist (logger_rotarySwitchFn L)"
| clear: "logger_reach hist L \<Longrightarrow> logger_reach [] (logger_clear L)"

text \<open>What updating the view leaves alone.\<close>

lemma window_step_frame:
  assumes "window_step m n (adr, fe, L) = (adr', fe', L')"
  shows "\<exists>vb mx mn. L' = L\<lparr>viewBuffer := vb, loggerMaxValue := mx, loggerMinValue := mn\<rparr> \<and> length vb = length (viewBuffer L)"
proof -
  obtain a mean f cell where g: "(group_step L ^^ m) (adr, lit 0, fe, viewBuffer L ! n) = (a, mean, f, cell)" by (cases "(group_step L ^^ m) (adr, lit 0, fe, viewBuffer L ! n)")
  show ?thesis
  proof (cases f)
    case True
    then have "L' = L\<lparr>viewBuffer := (viewBuffer L)[n := cell], loggerMaxValue := loggerMaxValue L, loggerMinValue := loggerMinValue L\<rparr>"
      using assms g by (auto simp: window_step_def)
    then show ?thesis by (metis length_list_update)
  next
    case False
    then obtain mx mn where "L' = L\<lparr>viewBuffer := (viewBuffer L)[n := (mean / of_i (int m), snd (extmem L a))], loggerMaxValue := mx, loggerMinValue := mn\<rparr>"
      using assms g by (simp add: window_step_def Let_def) blast
    then show ?thesis by (metis length_list_update)
  qed
qed

lemma window_fold_frame:
  "\<exists>vb mx mn. snd (snd (fold (window_step m) ns (adr, fe, L))) = L\<lparr>viewBuffer := vb, loggerMaxValue := mx, loggerMinValue := mn\<rparr> \<and> length vb = length (viewBuffer L)"
proof (induction ns arbitrary: adr fe L)
  case Nil
  have "L = L\<lparr>viewBuffer := viewBuffer L, loggerMaxValue := loggerMaxValue L, loggerMinValue := loggerMinValue L\<rparr>" by simp
  then show ?case by (metis fold_simps(1) snd_conv)
next
  case (Cons n ns)
  obtain adr' fe' L' where w: "window_step m n (adr, fe, L) = (adr', fe', L')" by (cases "window_step m n (adr, fe, L)")
  then obtain vb mx mn where "L' = L\<lparr>viewBuffer := vb, loggerMaxValue := mx, loggerMinValue := mn\<rparr>" "length vb = length (viewBuffer L)"
    using window_step_frame by blast
  then show ?case using Cons.IH [of adr' fe' L'] w by (auto simp: ac_simps)
qed

lemma updateViewData_frame:
  "\<exists>vb mx mn. updateViewData k L = L\<lparr>viewBuffer := vb, loggerMaxValue := mx, loggerMinValue := mn, noViewBuffer := False\<rparr> \<and> length vb = length (viewBuffer L)"
proof -
  obtain adr fe L1 where f: "fold (window_step (nat k)) [0 ..< MAX_SAMPLES_IN_DISPLAY_BUFFER] (scrollAddress L, False, L\<lparr>loggerMaxValue := lit (- 10000), loggerMinValue := lit 10000\<rparr>) = (adr, fe, L1)"
    by (cases "fold (window_step (nat k)) [0 ..< MAX_SAMPLES_IN_DISPLAY_BUFFER] (scrollAddress L, False, L\<lparr>loggerMaxValue := lit (- 10000), loggerMinValue := lit 10000\<rparr>)")
  obtain vb mx mn where "L1 = L\<lparr>viewBuffer := vb, loggerMaxValue := mx, loggerMinValue := mn\<rparr>" "length vb = length (viewBuffer L)"
    using window_fold_frame [of "nat k" "[0 ..< MAX_SAMPLES_IN_DISPLAY_BUFFER]" "scrollAddress L" False "L\<lparr>loggerMaxValue := lit (- 10000), loggerMinValue := lit 10000\<rparr>"] f
    by auto
  then show ?thesis by (simp add: updateViewData_def getLastSamples_def f case_prod_unfold Let_def) blast
qed

lemma updateViewData_ok [simp]: "logger_ok hist (updateViewData k L) = logger_ok hist L"
proof -
  obtain vb mx mn where u: "updateViewData k L = L\<lparr>viewBuffer := vb, loggerMaxValue := mx, loggerMinValue := mn, noViewBuffer := False\<rparr>" "length vb = length (viewBuffer L)"
    using updateViewData_frame by blast
  show ?thesis by (simp add: u logger_ok_def slots_def)
qed

lemma updateViewData_keeps [simp]:
  "encButtonScroll (updateViewData k L) = encButtonScroll L" "encButtonZoom (updateViewData k L) = encButtonZoom L"
  "notAvailable (updateViewData k L) = notAvailable L" "samplesPrViewPoint (updateViewData k L) = samplesPrViewPoint L"
  "rotary (updateViewData k L) = rotary L" "scrollAddress (updateViewData k L) = scrollAddress L" "lg_address (updateViewData k L) = lg_address L"
proof -
  obtain vb mx mn where u: "updateViewData k L = L\<lparr>viewBuffer := vb, loggerMaxValue := mx, loggerMinValue := mn, noViewBuffer := False\<rparr>"
    using updateViewData_frame by blast
  show "encButtonScroll (updateViewData k L) = encButtonScroll L" "encButtonZoom (updateViewData k L) = encButtonZoom L"
    "notAvailable (updateViewData k L) = notAvailable L" "samplesPrViewPoint (updateViewData k L) = samplesPrViewPoint L"
    "rotary (updateViewData k L) = rotary L" "scrollAddress (updateViewData k L) = scrollAddress L" "lg_address (updateViewData k L) = lg_address L"
    by (simp_all add: u)
qed

text \<open>The invariant: the storage is the history, and the divisor of the view is positive.\<close>

definition logger_inv :: "(f32 \<times> u32) list \<Rightarrow> logger \<Rightarrow> bool" where
  "logger_inv hist L \<longleftrightarrow> logger_ok hist L \<and> \<not> notAvailable L \<and> 1 \<le> samplesPrViewPoint L \<and> 1 \<le> rotary L \<and> encButtonZoom L = (\<not> encButtonScroll L)"

lemma registerValue_keeps [simp]:
  "encButtonScroll (registerValue x L) = encButtonScroll L" "encButtonZoom (registerValue x L) = encButtonZoom L"
  "notAvailable (registerValue x L) = notAvailable L" "samplesPrViewPoint (registerValue x L) = samplesPrViewPoint L"
  "rotary (registerValue x L) = rotary L"
  by (simp_all add: registerValue_def Let_def)

lemma scroll_fields_ok [simp]:
  "logger_ok hist (L\<lparr>scrollAddress := a\<rparr>) = logger_ok hist L" "logger_ok hist (L\<lparr>oldRot := r\<rparr>) = logger_ok hist L"
  "logger_ok hist (L\<lparr>autoScrolling := b\<rparr>) = logger_ok hist L" "logger_ok hist (L\<lparr>scrollRotary := r\<rparr>) = logger_ok hist L"
  "logger_ok hist (L\<lparr>samplesPrViewPoint := r\<rparr>) = logger_ok hist L" "logger_ok hist (L\<lparr>rotary := r\<rparr>) = logger_ok hist L"
  "logger_ok hist (L\<lparr>encButtonScroll := b\<rparr>) = logger_ok hist L" "logger_ok hist (L\<lparr>encButtonZoom := b\<rparr>) = logger_ok hist L"
  by (simp_all add: logger_ok_def slots_def)

lemma zoom_view_inv: "logger_inv hist L \<Longrightarrow> logger_inv hist (zoom_view L)"
  by (simp add: logger_inv_def zoom_view_def Let_def)

lemma scroll_view_inv: "logger_inv hist L \<Longrightarrow> logger_inv hist (scroll_view L)"
  by (simp add: logger_inv_def scroll_view_def Let_def)

lemma logger_clear_ok: "length (viewBuffer L) = 300 \<Longrightarrow> logger_ok [] (logger_clear L)"
  by (simp add: logger_ok_def logger_clear_def lring.holds_Nil slots_length)

lemma logger_reach_inv: "logger_reach hist L \<Longrightarrow> logger_inv hist L"
proof (induction rule: logger_reach.induct)
  case (start megabytes m)
  have "length (viewBuffer (logger_initial m\<lparr>notAvailable := False\<rparr>)) = 300" by (simp add: logger_initial_def)
  from logger_clear_ok [OF this] show ?case using start by (simp add: logger_inv_def logger_init_def) (simp add: logger_clear_def logger_initial_def)
next
  case (reading hist L now v)
  then have "logger_inv ((v, now) # hist) (registerValue (v, now) L)" using registerValue_ok by (simp add: logger_inv_def)
  then have z: "logger_inv ((v, now) # hist) (if \<not> encButtonScroll (registerValue (v, now) L) then zoom_view (registerValue (v, now) L) else registerValue (v, now) L)"
    (is "logger_inv _ ?Z") using zoom_view_inv by simp
  then have s: "logger_inv ((v, now) # hist) (if encButtonScroll ?Z then scroll_view ?Z else ?Z)" (is "logger_inv _ ?S")
    using scroll_view_inv by simp
  moreover have "logger_inv ((v, now) # hist) (updateViewData (samplesPrViewPoint ?S) ?S)" using s by (simp add: logger_inv_def)
  ultimately show ?case using reading by (simp add: registerValue2_def Let_def logger_inv_def)
next
  case (clear hist L)
  then have "length (viewBuffer L) = 300" by (simp add: logger_inv_def logger_ok_def)
  from logger_clear_ok [OF this] clear show ?case by (simp add: logger_inv_def) (simp add: logger_clear_def)
qed (simp_all add: logger_inv_def logger_rotaryChangedFn_def logger_rotarySwitchFn_def Let_def)

text \<open>C14: the window of the logger shows the log: in every state that readings, the knob and clearing can reach, a view
  taken at the newest sample with m samples for each point has as i-th point the mean of the i-th group of m samples counted
  back from the newest, with the time of the oldest of them, and marks the points beyond the log as unset.\<close>

theorem logger_window:
  assumes "logger_reach hist L" and "scrollAddress L = lg_address L" and "0 < m" and "300 * m \<le> 1000000" and "i < 300"
  shows "viewBuffer (updateViewData (int m) L) ! i = point_of m hist i"
  using logger_reach_inv [OF assms(1)] by (intro updateViewData_points assms) (simp add: logger_inv_def)

theorem logger_window_witness:
  "viewBuffer (updateViewData (int 2) (logger_clear (logger_rotarySwitchFn (registerValue2 7000 (Fin 1) (logger_init 8 (logger_initial (\<lambda>_. (Fin 0, 0)))))))) ! 5
     = (conv (lit (- 999999.99) :: f64), 0)"
proof -
  have "logger_reach [] (logger_clear (logger_rotarySwitchFn (registerValue2 7000 (Fin 1) (logger_init 8 (logger_initial (\<lambda>_. (Fin 0, 0)))))))"
    by (rule logger_reach.clear, rule logger_reach.press, rule logger_reach.reading, rule logger_reach.start) simp
  from logger_window [OF this, of 2 5] show ?thesis by (simp add: logger_clear_def point_of_def unset_cell_def)
qed

text \<open>in every reachable state the next sample is stored inside the array of one million, the divisor of the view is
  at least one, so its remainder is defined, and exactly one of zoom and scroll is active.\<close>

theorem logger_invariant:
  assumes "logger_reach hist L"
  shows "uint (lg_address L) \<le> 1000000 \<and> 1 \<le> samplesPrViewPoint L \<and> encButtonZoom L = (\<not> encButtonScroll L)
    \<and> lg_full L = (1000000 < length hist)"
  using logger_reach_inv [OF assms] by (simp add: logger_inv_def logger_ok_def)

theorem logger_invariant_witness:
  "1 \<le> samplesPrViewPoint (logger_rotarySwitchFn (registerValue2 7000 (Fin 1) (logger_init 8 (logger_initial (\<lambda>_. (Fin 0, 0))))))"
proof -
  have "logger_reach (if 7000 < lg_waitLogStart then [] else [(Fin 1, 7000)]) (logger_rotarySwitchFn (registerValue2 7000 (Fin 1) (logger_init 8 (logger_initial (\<lambda>_. (Fin 0, 0))))))"
    by (rule logger_reach.press, rule logger_reach.reading, rule logger_reach.start) simp
  from logger_invariant [OF this] show ?thesis by blast
qed

text \<open>scrolling back past the oldest sample before the log is full is not stopped: the address the view reads from
  wraps round below zero, far beyond the memory.\<close>

theorem scroll_leaves_the_log:
  "\<exists>L. logger_reach [(Fin 1, 7000)] L \<and> \<not> lg_full L \<and> uint (scrollAddress L) = 4294967247"
proof -
  define L0 where "L0 = logger_init 8 (logger_initial (\<lambda>_. (Fin 0, 0)))"
  define L1 where "L1 = logger_rotaryChangedFn (lit 5) L0"
  define L2 where "L2 = registerValue2 7000 (Fin 1) L1"
  have c: "f2i32 (of_i 0 + lit 5 * of_i 10 :: f32) = 50" "(lit 5 :: f32) > of_i 10 \<longleftrightarrow> False" by code_simp+
  have r: "logger_reach (if (7000 :: u32) < lg_waitLogStart then [] else [(Fin 1, 7000)]) L2"
    unfolding L2_def L1_def L0_def by (intro logger_reach.intros) simp
  have 0: "encButtonScroll L0" "scrollRotary L0 = 0" "autoScrolling L0" "oldRot L0 = 0" "\<not> notAvailable L0" "lg_empty L0" "lg_address L0 = 0" "\<not> lg_full L0"
    by (simp_all add: L0_def logger_init_def logger_clear_def logger_initial_def)
  have L1: "L1 = L0\<lparr>scrollRotary := 50\<rparr>" using 0 c by (simp add: L1_def logger_rotaryChangedFn_def Let_def)
  define L where "L = registerValue (Fin 1, 7000) L1"
  have L: "encButtonScroll L" "scrollRotary L = 50" "autoScrolling L" "oldRot L = 0" "lg_address L = 1" "\<not> lg_full L"
    using 0 by (simp_all add: L_def L1 registerValue_def Let_def maxSize_def)
  have "scrollAddress (scroll_view L) = - 49" using L by (simp add: scroll_view_def Let_def)
  then have "scrollAddress L2 = - 49" using 0 L
    by (simp add: L2_def registerValue2_def L1 lg_waitLogStart_def Let_def L_def [symmetric, unfolded L1])
  moreover have "uint (- 49 :: u32) = 4294967247" by simp
  moreover have "\<not> lg_full L2" using logger_reach_inv [OF r] by (simp add: logger_inv_def logger_ok_def lg_waitLogStart_def)
  ultimately show ?thesis using r by (intro exI [of _ L2]) (simp add: lg_waitLogStart_def)
qed

end
