(* ===== verification/Fan.thy ===== *)
theory Fan
  imports Flt
begin

text \<open>
  The fan (src/src/Fan.cpp): its duty cycle, the automatic speed from the temperature, the tachometer
  interrupt and the filtered number of revolutions.  The pin level and the clocks are arguments.
\<close>

record fan =
  speedPercent :: int
  fan_duty :: int
  PWMFanWidth :: u32
  fan_timestamp :: u32
  fan_state :: byte
  lastTempChecked :: f32
  timeBetweenCheck :: f32
  timeSinceLastRPMReadout :: int
  storedPWMFanSpeed :: int

definition fan_initial :: "u32 \<Rightarrow> fan" where
  "fan_initial now = \<lparr>speedPercent = 0, fan_duty = 0, PWMFanWidth = 0, fan_timestamp = 0, fan_state = 0,
     lastTempChecked = of_i (uint now), timeBetweenCheck = of_i 10000, timeSinceLastRPMReadout = sint now, storedPWMFanSpeed = 0\<rparr>"

text \<open>The clamp tests the old speed; the duty written is that of the argument.\<close>

definition setSpeed :: "int \<Rightarrow> fan \<Rightarrow> fan" where
  "setSpeed percent f =
     (let f1 = (if speedPercent f > 100 then f\<lparr>speedPercent := 100\<rparr> else if speedPercent f < 0 then f\<lparr>speedPercent := 0\<rparr> else f);
          f2 = f1\<lparr>speedPercent := percent\<rparr>
      in f2\<lparr>fan_duty := sgn (speedPercent f2 * 255) * (\<bar>speedPercent f2 * 255\<bar> div 100)\<rparr>)"

definition fan_init :: "fan \<Rightarrow> fan" where
  "fan_init f = setSpeed 50 f"

definition getSpeed :: "fan \<Rightarrow> int" where "getSpeed f = speedPercent f"

definition setAutoSpeedBasedOnTemperature :: "u32 \<Rightarrow> f32 \<Rightarrow> fan \<Rightarrow> fan" where
  "setAutoSpeedBasedOnTemperature now temp f0 =
     (let f = f0\<lparr>timeBetweenCheck := (if temp > of_i 50 then of_i 2000 else of_i 10000)\<rparr> in
      if temp > of_i 80 then setSpeed 90 f
      else if lastTempChecked f + timeBetweenCheck f < of_i (uint now)
      then (if temp < of_i 35 then setSpeed 0 f else setSpeed (f2i32 ((conv (temp - of_i 10) :: f64) * lit 1.2)) f)\<lparr>lastTempChecked := of_i (uint now)\<rparr>
      else f)"

definition getFanWidth :: "fan \<Rightarrow> int" where "getFanWidth f = sint (PWMFanWidth f)"

definition getPWMFanRPM :: "fan \<Rightarrow> int" where
  "getPWMFanRPM f = (if PWMFanWidth f = 0 then 0 else uint (ucast (1000000 div PWMFanWidth f) :: u16) div 2)"

definition fanSpeedInterruptHandler :: "bool \<Rightarrow> u32 \<Rightarrow> fan \<Rightarrow> fan" where
  "fanSpeedInterruptHandler pin us f =
     (let current = (if pin then 1 else 0) in
      if fan_state f = current then f
      else let f1 = f\<lparr>fan_state := current\<rparr> in
        if fan_state f1 \<noteq> 0 then f1\<lparr>PWMFanWidth := us - fan_timestamp f1, fan_timestamp := us\<rparr> else f1)"

definition getRPMValueFiltered :: "u32 \<Rightarrow> fan \<Rightarrow> int \<times> fan" where
  "getRPMValueFiltered now f =
     (let f1 = (if timeSinceLastRPMReadout f + 1000 < sint now
                then f\<lparr>storedPWMFanSpeed := getPWMFanRPM f, timeSinceLastRPMReadout := sint now\<rparr> else f)
      in (storedPWMFanSpeed f1, f1))"

section \<open>Properties\<close>

lemma int_const32: "is_fin (of_i 10 :: f32)" "val (of_i 10 :: f32) = 10" "is_fin (of_i 35 :: f32)" "val (of_i 35 :: f32) = 35"
  "is_fin (of_i 80 :: f32)" "val (of_i 80 :: f32) = 80"
  by (simp_all add: of_i_exact)

lemma f2i32_between: "is_fin y \<and> 29 \<le> val y \<and> val y \<le> 84 \<Longrightarrow> 0 \<le> f2i32 y \<and> f2i32 y \<le> 84"
proof -
  assume y: "is_fin y \<and> 29 \<le> val y \<and> val y \<le> 84"
  then have "29 \<le> trunc (val y)" "trunc (val y) \<le> 84" by (simp_all add: trunc_def le_floor_iff floor_le_iff)
  then show ?thesis using y by (cases y) (auto simp: f2i32_def f2i_def)
qed

lemma auto_speed_range:
  fixes temp :: f32
  assumes "\<not> temp > of_i 80" "\<not> temp < of_i 35"
  shows "0 \<le> f2i32 ((conv (temp - of_i 10) :: f64) * lit 1.2) \<and> f2i32 ((conv (temp - of_i 10) :: f64) * lit 1.2) \<le> 84"
proof (cases "temp")
  case (Fin q)
  then have q: "35 \<le> q" "q \<le> 80" using assms by (simp_all add: fin_less int_const32 not_less)
  have c: "is_fin (lit 1.2 :: f64)" "119 / 100 \<le> val (lit 1.2 :: f64)" "val (lit 1.2 :: f64) \<le> 12 / 10" by code_simp+
  have "temp - of_i 10 = rnd (temp = NegZero \<and> - (of_i 10) = (NegZero :: f32)) (q - 10)" using Fin by (simp add: fin_sub int_const32)
  moreover have "repr_in TYPE(f32) (of_int 25)" "repr_in TYPE(f32) (of_int 70)" by (rule repr_in_f32_int, simp)+
  ultimately have d: "is_fin (temp - of_i 10)" "25 \<le> val (temp - of_i 10)" "val (temp - of_i 10) \<le> 70"
    using rnd_between [of 25 70 "q - 10", where 'p = 24] q by simp_all
  have "repr_in TYPE(f64) (of_int 25)" "repr_in TYPE(f64) (of_int 70)" by (rule repr_in_f64_int, simp)+
  then have e: "is_fin (conv (temp - of_i 10) :: f64)" "25 \<le> val (conv (temp - of_i 10) :: f64)" "val (conv (temp - of_i 10) :: f64) \<le> 70"
    using rnd_between [of 25 70 "val (temp - of_i 10)", where 'p = 53] d by (simp_all add: fin_conv)
  define x where "x = val (conv (temp - of_i 10) :: f64)"
  define k where "k = val (lit 1.2 :: f64)"
  have xk: "25 * (119 / 100) \<le> x * k" "x * k \<le> 70 * (12 / 10)"
    using e c unfolding x_def k_def by (intro mult_mono; simp)+
  have r: "(conv (temp - of_i 10) :: f64) * lit 1.2 = rnd (sgnb (conv (temp - of_i 10) :: f64) \<noteq> sgnb (lit 1.2 :: f64)) (x * k)"
    using e c by (simp add: fin_mult x_def k_def)
  have "repr_in TYPE(f64) (of_int 29)" "repr_in TYPE(f64) (of_int 84)" by (rule repr_in_f64_int, simp)+
  then have "is_fin (rnd z (x * k) :: f64) \<and> 29 \<le> val (rnd z (x * k) :: f64) \<and> val (rnd z (x * k) :: f64) \<le> 84" for z
    using rnd_between [of 29 84 "x * k" z, where 'p = 53] xk by simp
  then show ?thesis unfolding r by (rule f2i32_between)
next
  case (Inf b)
  have "(of_i 80 :: f32) = Fin 80" "(of_i 35 :: f32) = Fin 35" by code_simp+
  then show ?thesis using assms Inf by (simp add: less_flt_def)
next
  case NaN
  then have "(conv (temp - of_i 10) :: f64) * lit 1.2 = NaN"
    by (simp add: minus_flt_def fadd_def conv_def times_flt_def fmul_def)
  then show ?thesis by (simp add: f2i32_def f2i_def)
qed (use assms in \<open>simp_all add: fin_less int_const32\<close>)

lemma setSpeed_eq: "speedPercent (setSpeed p f) = p" "0 \<le> p \<Longrightarrow> fan_duty (setSpeed p f) = p * 255 div 100"
  by (auto simp: setSpeed_def Let_def sgn_if abs_mult)

text \<open>the automatic speed stays a percentage: whatever the temperature reading, infinite or not a number included, and
  whenever it is called, above 80 degrees the fan is set to 90 percent at once, and otherwise the speed and the duty are left
  alone or set to a speed between 0 and 84 percent with the duty that belongs to it.\<close>

theorem fan_auto_speed:
  "if temp > of_i 80 then speedPercent (setAutoSpeedBasedOnTemperature now temp f) = 90 \<and> fan_duty (setAutoSpeedBasedOnTemperature now temp f) = 229
   else speedPercent (setAutoSpeedBasedOnTemperature now temp f) = speedPercent f \<and> fan_duty (setAutoSpeedBasedOnTemperature now temp f) = fan_duty f
     \<or> 0 \<le> speedPercent (setAutoSpeedBasedOnTemperature now temp f) \<and> speedPercent (setAutoSpeedBasedOnTemperature now temp f) \<le> 84
       \<and> fan_duty (setAutoSpeedBasedOnTemperature now temp f) = speedPercent (setAutoSpeedBasedOnTemperature now temp f) * 255 div 100"
  using auto_speed_range [of temp] by (simp add: setAutoSpeedBasedOnTemperature_def Let_def setSpeed_eq)

text \<open>The clamp of setSpeed does not clamp: 300 percent is accepted.\<close>

lemma setSpeed_does_not_clamp: "speedPercent (setSpeed 300 f) = 300 \<and> fan_duty (setSpeed 300 f) = 765"
  by (simp add: setSpeed_eq)

end
