(* ===== verification/Knobs.thy ===== *)
theory Knobs
  imports Flt
begin

text \<open>
  The rotary encoder (src/src/RotaryEncoder.cpp) and the push buttons read through an analog pin
  (src/src/Pushbuttons.cpp).  The encoder library's counter, the analog readings and the clock are
  arguments; the callbacks the handlers make are their results.
\<close>

section \<open>The rotary encoder\<close>

record encoder =
  positionLeft :: int
  millisAtLastStep :: int
  millisAtLastVoltageCommit :: int
  stepless_dynamic :: bool

definition encoder_speed :: "bool \<Rightarrow> bool \<Rightarrow> int \<Rightarrow> int" where
  "encoder_speed stepless reduceResolution msSinceLast =
     (let s = (if stepless
               then (if of_i msSinceLast > (of_i 100 :: f32) then 1
                     else f2i32 (of_i 1 + (of_i 100 - of_i msSinceLast) / (of_i 5 :: f32)))
               else 1)
      in if reduceResolution then f2i32 (of_i s * of_i 2 :: f64) else s)"

text \<open>\<open>changed\<close> and \<open>newLeft\<close> are what the library reports; the result is the value passed to the
  callback, if it is called.\<close>

definition rotary_handle :: "bool \<Rightarrow> bool \<Rightarrow> int \<Rightarrow> u32 \<Rightarrow> encoder \<Rightarrow> f32 option \<times> encoder" where
  "rotary_handle reduceResolution changed newLeft now r =
     (if \<not> changed then (None, r)
      else if newLeft \<noteq> positionLeft r then
        let dir = (if newLeft < positionLeft r then - 1 else 1);
            speed = encoder_speed (stepless_dynamic r) reduceResolution (sint (now - word_of_int (millisAtLastStep r)))
        in (Some (conv ((of_i (speed * dir) :: f64) / of_i 10)),
            r\<lparr>millisAtLastStep := sint now, positionLeft := newLeft, millisAtLastVoltageCommit := sint now\<rparr>)
      else (None, r))"

lemma f2i32_range: "is_fin y \<and> of_int lo \<le> val y \<and> val y \<le> of_int hi \<Longrightarrow> 0 \<le> lo \<Longrightarrow> hi \<le> 1000 \<Longrightarrow> lo \<le> f2i32 y \<and> f2i32 y \<le> hi"
proof -
  assume y: "is_fin y \<and> of_int lo \<le> val y \<and> val y \<le> of_int hi" and b: "0 \<le> lo" "hi \<le> 1000"
  then have "0 \<le> val y" by (metis of_int_0_le_iff order_trans)
  then have "lo \<le> trunc (val y)" "trunc (val y) \<le> hi" using y by (simp_all add: trunc_def le_floor_iff floor_le_iff)
  then show ?thesis using y b by (cases y) (auto simp: f2i32_def f2i_def)
qed

lemma encoder_speed_short:
  assumes ms: "0 \<le> ms" "ms \<le> 100"
  shows "1 \<le> f2i32 (of_i 1 + (of_i 100 - of_i ms) / (of_i 5 :: f32)) \<and> f2i32 (of_i 1 + (of_i 100 - of_i ms) / (of_i 5 :: f32)) \<le> 21"
proof -
  have m: "is_fin (of_i ms :: f32)" "val (of_i ms :: f32) = of_int ms" using ms by (simp_all add: of_i_exact)
  have c: "is_fin (of_i n :: f32) \<and> val (of_i n :: f32) = of_int n" if "\<bar>n\<bar> \<le> 100" for n using that by (simp add: of_i_exact)
  have r: "repr_in TYPE(f32) (of_int n)" if "\<bar>n\<bar> \<le> 100" for n by (rule repr_in_f32_int) (use that in simp)
  have q: "0 \<le> (100 :: rat) - of_int ms" "(100 :: rat) - of_int ms \<le> 100" using ms by simp_all
  define d where "d = of_i 100 - (of_i ms :: f32)"
  have d: "is_fin d" "0 \<le> val d" "val d \<le> 100"
    using rnd_between [of 0 100 "100 - of_int ms", where 'p = 24] r [of 0] r [of 100] q c [of 100] m by (simp_all add: d_def fin_sub)
  define e where "e = d / of_i 5"
  have e: "is_fin e" "0 \<le> val e" "val e \<le> 20"
    using rnd_between [of 0 20 "val d / 5", where 'p = 24] r [of 0] r [of 20] d c [of 5] by (simp_all add: e_def fin_div)
  have "is_fin (of_i 1 + e) \<and> of_int 1 \<le> val (of_i 1 + e) \<and> val (of_i 1 + e) \<le> of_int 21"
    using rnd_between [of 1 21 "1 + val e", where 'p = 24] r [of 1] r [of 21] e c [of 1] by (simp add: fin_add)
  then show ?thesis unfolding d_def [symmetric] e_def [symmetric] by (intro f2i32_range) simp_all
qed

lemma encoder_speed_double: "list_all (\<lambda>s. f2i32 (of_i s * of_i 2 :: f64) = 2 * s) [1..21]"
  by code_simp

lemma encoder_speed_range:
  assumes "0 \<le> ms"
  shows "1 \<le> encoder_speed st rr ms \<and> encoder_speed st rr ms \<le> 42"
proof -
  have s: "1 \<le> encoder_speed st False ms \<and> encoder_speed st False ms \<le> 21"
  proof (cases "st \<and> ms \<le> 100")
    case True
    then show ?thesis using encoder_speed_short [OF assms] by (simp add: encoder_speed_def Let_def)
  next
    case False
    have "of_i ms > (of_i 100 :: f32)" if "101 \<le> ms"
    proof -
      have "(of_i 101 :: f32) \<le> of_i ms" unfolding of_i_def by (rule rnd_le) (use that in simp)
      moreover have "(of_i 100 :: f32) = Fin 100" "(of_i 101 :: f32) = Fin 101" by code_simp+
      ultimately show ?thesis by (cases "of_i ms :: f32") (auto simp: less_eq_flt_def less_flt_def)
    qed
    then show ?thesis using False assms by (auto simp: encoder_speed_def Let_def)
  qed
  then have "encoder_speed st False ms \<in> set [1..21]" by simp
  then have "f2i32 (of_i (encoder_speed st False ms) * of_i 2 :: f64) = 2 * encoder_speed st False ms"
    using encoder_speed_double unfolding list_all_iff by blast
  moreover have "encoder_speed st True ms = f2i32 (of_i (encoder_speed st False ms) * of_i 2 :: f64)"
    by (simp only: encoder_speed_def Let_def if_True if_False)
  ultimately show ?thesis using s by (cases rr) simp_all
qed

text \<open>a turn of the knob always moves the value in the direction of the turn, by a whole number of tenths between 1 and
  42, whatever the time since the last turn and the resolution, as long as the clock has not run backwards; without a turn
  nothing is called.\<close>

theorem rotary_step:
  assumes "0 \<le> sint (now - word_of_int (millisAtLastStep r))"
  shows "case fst (rotary_handle rr changed newLeft now r) of
      None \<Rightarrow> changed = False \<or> newLeft = positionLeft r
    | Some v \<Rightarrow> changed \<and> (\<exists>n. 1 \<le> n \<and> n \<le> 42 \<and> v = conv ((of_i (if newLeft < positionLeft r then - n else n) :: f64) / of_i 10))"
proof -
  define n where "n = encoder_speed (stepless_dynamic r) rr (sint (now - word_of_int (millisAtLastStep r)))"
  have "1 \<le> n \<and> n \<le> 42" unfolding n_def by (rule encoder_speed_range [OF assms])
  then show ?thesis
    by (auto simp: rotary_handle_def Let_def n_def [symmetric] intro!: exI [of _ n])
qed

theorem rotary_step_witness:
  "case fst (rotary_handle False True 4 1020 \<lparr>positionLeft = 3, millisAtLastStep = 1000, millisAtLastVoltageCommit = 1000, stepless_dynamic = True\<rparr>) of
      None \<Rightarrow> True = False \<or> (4 :: int) = positionLeft \<lparr>positionLeft = 3, millisAtLastStep = 1000, millisAtLastVoltageCommit = 1000, stepless_dynamic = True\<rparr>
    | Some v \<Rightarrow> True \<and> (\<exists>n. 1 \<le> n \<and> n \<le> 42 \<and> v = conv ((of_i (if 4 < positionLeft \<lparr>positionLeft = 3, millisAtLastStep = 1000,
        millisAtLastVoltageCommit = 1000, stepless_dynamic = True\<rparr> then - n else n) :: f64) / of_i 10))"
  by (rule rotary_step) simp

section \<open>The push buttons\<close>

record pushbuttons =
  keyHeldLong :: bool
  buttonDetected :: int
  buttonDetectedTimer :: int
  buttonFunction :: int
  buttonDepressed :: int
  prevButtonFunction :: int
  pb_color :: int
  keydownTimer :: int
  analogPin :: int
  holdPeriodms :: int

definition pushbuttons_initial :: "u32 \<Rightarrow> pushbuttons" where
  "pushbuttons_initial now = \<lparr>keyHeldLong = False, buttonDetected = 0, buttonDetectedTimer = sint now, buttonFunction = 0, buttonDepressed = 0,
     prevButtonFunction = 0, pb_color = 0x0000ff, keydownTimer = 0, analogPin = 0, holdPeriodms = 1000\<rparr>"

definition pushbuttons_init :: "int \<Rightarrow> int \<Rightarrow> pushbuttons \<Rightarrow> pushbuttons" where
  "pushbuttons_init pin hold b = b\<lparr>analogPin := pin, holdPeriodms := hold\<rparr>"

text \<open>A callback: the button, and the flags quick, held long, released after long.\<close>

datatype press = Quick int | Held int | ReleasedAfterHold int

text \<open>The button a reading stands for; a reading between the bands leaves the button as it was.\<close>

definition button_of :: "int \<Rightarrow> int \<Rightarrow> pushbuttons \<Rightarrow> pushbuttons" where
  "button_of read1 read2 b =
     (let buttonValue = read1 div 10 in
      if analogPin b = 16 then
        (if read2 < 3 then b\<lparr>buttonFunction := 1\<rparr> else b\<lparr>buttonFunction := 0, keyHeldLong := False\<rparr>)
      else if buttonValue > 95 \<and> buttonValue < 105 then b\<lparr>buttonFunction := 0, keyHeldLong := False\<rparr>
      else if buttonValue > 82 \<and> buttonValue < 94 then b\<lparr>buttonFunction := 1\<rparr>
      else if buttonValue > 70 \<and> buttonValue < 81 then b\<lparr>buttonFunction := 2\<rparr>
      else if buttonValue > 50 \<and> buttonValue < 70 then b\<lparr>buttonFunction := 3\<rparr>
      else if buttonValue < 10 then b\<lparr>buttonFunction := 4\<rparr>
      else b)"

definition button_edge :: "u32 \<Rightarrow> pushbuttons \<Rightarrow> press list \<times> pushbuttons" where
  "button_edge now b =
     (if buttonFunction b \<noteq> prevButtonFunction b then
        (if buttonFunction b \<noteq> 0
         then ([], b\<lparr>buttonDetected := buttonDetected b + 1, keydownTimer := sint now, prevButtonFunction := buttonFunction b\<rparr>)
         else ([if pb_color b = 0xff0000 then ReleasedAfterHold (prevButtonFunction b) else Quick (prevButtonFunction b)],
               b\<lparr>buttonDepressed := buttonDepressed b + 1, keydownTimer := 0, prevButtonFunction := buttonFunction b\<rparr>))
      else ([], b))"

definition button_hold :: "u32 \<Rightarrow> pushbuttons \<Rightarrow> press list \<times> pushbuttons" where
  "button_hold now b =
     (if keydownTimer b + holdPeriodms b < sint now \<and> buttonFunction b \<noteq> 0
      then let b1 = b\<lparr>pb_color := 0xff0000\<rparr> in
        (if \<not> keyHeldLong b1 then ([Held (buttonFunction b1)], b1\<lparr>keyHeldLong := True\<rparr>) else ([], b1))
      else ([], b\<lparr>pb_color := 0x00ff00\<rparr>))"

definition pushbuttons_handle :: "int \<Rightarrow> int \<Rightarrow> u32 \<Rightarrow> pushbuttons \<Rightarrow> press list \<times> pushbuttons" where
  "pushbuttons_handle read1 read2 now b =
     (if buttonDetectedTimer b + 50 < sint now
      then let b1 = button_of read1 read2 (b\<lparr>buttonDetectedTimer := sint now\<rparr>);
               (cs1, b2) = button_edge now b1;
               (cs2, b3) = button_hold now b2
           in (cs1 @ cs2, b3)
      else ([], b))"

fun pushbuttons_run :: "(int \<times> int \<times> u32) list \<Rightarrow> pushbuttons \<Rightarrow> press list \<times> pushbuttons" where
  "pushbuttons_run [] b = ([], b)"
| "pushbuttons_run ((r1, r2, now) # ins) b =
     (let (cs1, b1) = pushbuttons_handle r1 r2 now b; (cs2, b2) = pushbuttons_run ins b1 in (cs1 @ cs2, b2))"

text \<open>The protocol of the callbacks: no second hold without a release, and a release after a hold only
  when the hold was reported.  The flag says whether the last callback was a hold.\<close>

fun press_ok :: "bool \<Rightarrow> press list \<Rightarrow> bool" where
  "press_ok h [] = True"
| "press_ok h (Held _ # cs) = (\<not> h \<and> press_ok True cs)"
| "press_ok h (Quick _ # cs) = press_ok False cs"
| "press_ok h (ReleasedAfterHold _ # cs) = (h \<and> press_ok False cs)"

fun held_after :: "bool \<Rightarrow> press list \<Rightarrow> bool" where
  "held_after h [] = h"
| "held_after h (Held _ # cs) = held_after True cs"
| "held_after h (_ # cs) = held_after False cs"

lemma press_ok_append: "press_ok h (xs @ ys) = (press_ok h xs \<and> press_ok (held_after h xs) ys)"
  by (induction h xs rule: press_ok.induct) simp_all

lemma held_after_append: "held_after h (xs @ ys) = held_after (held_after h xs) ys"
  by (induction h xs rule: held_after.induct) simp_all

definition buttons_inv :: "bool \<Rightarrow> pushbuttons \<Rightarrow> bool" where
  "buttons_inv h b \<longleftrightarrow> (pb_color b = 0xff0000 \<longrightarrow> h) \<and> h = keyHeldLong b \<and> (h \<longrightarrow> prevButtonFunction b \<noteq> 0) \<and> buttonFunction b = prevButtonFunction b"

definition button_frame :: "pushbuttons \<Rightarrow> pushbuttons \<Rightarrow> bool" where
  "button_frame b b1 \<longleftrightarrow> pb_color b1 = pb_color b \<and> prevButtonFunction b1 = prevButtonFunction b
     \<and> (keyHeldLong b1 = keyHeldLong b \<and> (buttonFunction b1 \<noteq> 0 \<or> buttonFunction b = 0) \<or> \<not> keyHeldLong b1 \<and> buttonFunction b1 = 0)"

lemma if_both: "(c \<Longrightarrow> P x) \<Longrightarrow> (\<not> c \<Longrightarrow> P y) \<Longrightarrow> P (if c then x else y)"
  by simp

lemma button_of_frame: "button_frame b (button_of r1 r2 b)"
  unfolding button_of_def Let_def by (intro if_both [where P = "button_frame b"]; simp add: button_frame_def)

lemma handle_inv:
  assumes "buttons_inv h b" and "pushbuttons_handle r1 r2 now b = (cs, b')"
  shows "press_ok h cs \<and> buttons_inv (held_after h cs) b'"
proof (cases "buttonDetectedTimer b + 50 < sint now")
  case True
  define b1 where "b1 = button_of r1 r2 (b\<lparr>buttonDetectedTimer := sint now\<rparr>)"
  have b1: "button_frame b b1" using button_of_frame [of "b\<lparr>buttonDetectedTimer := sint now\<rparr>" r1 r2] by (simp add: b1_def button_frame_def)
  obtain cs1 b2 cs2 b3 where e: "button_edge now b1 = (cs1, b2)" "button_hold now b2 = (cs2, b3)" by fastforce
  have r: "cs = cs1 @ cs2" "b' = b3" using assms(2) True e by (simp_all add: pushbuttons_handle_def b1_def [symmetric])
  have edge: "press_ok h cs1 \<and> held_after h cs1 = keyHeldLong b2 \<and> (keyHeldLong b2 \<longrightarrow> prevButtonFunction b2 \<noteq> 0)
      \<and> (pb_color b2 = 0xff0000 \<and> buttonFunction b2 \<noteq> 0 \<longrightarrow> keyHeldLong b2) \<and> buttonFunction b2 = prevButtonFunction b2"
  proof (cases "buttonFunction b1 = 0")
    case True
    then show ?thesis using assms(1) b1 e(1)
      by (cases "prevButtonFunction b = 0"; cases "pb_color b = 0xff0000") (auto simp: buttons_inv_def button_edge_def button_frame_def)
  next
    case False
    then show ?thesis using assms(1) b1 e(1) by (cases "buttonFunction b1 = prevButtonFunction b") (auto simp: buttons_inv_def button_edge_def button_frame_def)
  qed
  then show ?thesis using e(2) unfolding r press_ok_append
    by (cases "keydownTimer b2 + holdPeriodms b2 < sint now \<and> buttonFunction b2 \<noteq> 0"; cases "keyHeldLong b2")
      (auto simp: buttons_inv_def button_hold_def held_after_append)
qed (use assms in \<open>auto simp: pushbuttons_handle_def\<close>)

lemma run_inv: "buttons_inv h b \<Longrightarrow> press_ok h (fst (pushbuttons_run ins b))"
proof (induction ins arbitrary: h b)
  case (Cons i ins)
  obtain r1 r2 now where i: "i = (r1, r2, now)" by (cases i)
  obtain cs1 b1 where e: "pushbuttons_handle r1 r2 now b = (cs1, b1)" by fastforce
  have "press_ok h cs1" "buttons_inv (held_after h cs1) b1" using handle_inv [OF Cons.prems e] by simp_all
  then show ?case using Cons.IH by (simp add: i e press_ok_append case_prod_unfold Let_def)
qed simp

text \<open>C33: the callbacks of the push buttons follow the protocol whatever the pin, the readings (noise between the bands
  included) and the times of the polls: a hold is reported at most once before a release, and a release after a hold only
  directly after a reported hold.\<close>

theorem pushbuttons_protocol:
  "press_ok False (fst (pushbuttons_run ins (pushbuttons_init pin hold (pushbuttons_initial t))))"
  by (rule run_inv) (simp add: buttons_inv_def pushbuttons_init_def pushbuttons_initial_def)

end
