(* ===== verification/UIButton.thy ===== *)
theory UIButton
  imports Prelude
begin

text \<open>
  The touch buttons (src/src/UIButton.cpp): the press state is static, shared by all buttons, and each
  button looks at the touched tag in every frame.  A callback's return value is the argument \<open>h\<close>,
  the callbacks made are the results.  Drawing and debug prints are left out.
\<close>

datatype PressType = InitialPress | ShortPressAfterRelease | ShortPressHolding | LongPressHolding | LongPressAfterRelease

record ui =
  noOfButtons :: int
  ui_pressed :: bool
  pressedId :: int
  ui_released :: bool
  hasBeenPressedLong :: bool
  needReleaseFirst :: bool
  current_pressed_color :: int
  statusTimerXX :: u32
  pressedAt :: u32
  debouceTimer :: u32
  debouceTimeoutButton :: u32

definition BUTTON_PRESSED_COLOR :: int where "BUTTON_PRESSED_COLOR = 0x889088"
definition BUTTON_PRESSED_COLOR_ALT :: int where "BUTTON_PRESSED_COLOR_ALT = 0x669066"
definition minimumPressTime :: u32 where "minimumPressTime = 0"

definition ui_initial :: "u32 \<Rightarrow> ui" where
  "ui_initial now = \<lparr>noOfButtons = 0, ui_pressed = False, pressedId = 999, ui_released = False, hasBeenPressedLong = False,
     needReleaseFirst = False, current_pressed_color = 0x0000ff, statusTimerXX = now, pressedAt = 0, debouceTimer = 0, debouceTimeoutButton = 0\<rparr>"

text \<open>What init stores of a button: its tag, and whether holding gives one callback.\<close>

record button =
  bt_id :: int
  singlePressMode :: bool

definition holding_timeout :: "u32 \<Rightarrow> ui \<Rightarrow> ui" where
  "holding_timeout now s =
     (if pressedAt s + 4000 < now then s\<lparr>debouceTimeoutButton := 10\<rparr>
      else if pressedAt s + 3000 < now then s\<lparr>debouceTimeoutButton := 50\<rparr>
      else if pressedAt s + 2000 < now then s\<lparr>debouceTimeoutButton := 100\<rparr>
      else if pressedAt s + 1000 < now then s\<lparr>debouceTimeoutButton := 150\<rparr>
      else s)"

definition checkPressType :: "(PressType \<Rightarrow> bool) \<Rightarrow> button \<Rightarrow> u32 \<Rightarrow> ui \<Rightarrow> PressType list \<times> ui" where
  "checkPressType h b now s =
     (if \<not> ui_pressed s then
        let s1 = s\<lparr>current_pressed_color := BUTTON_PRESSED_COLOR, debouceTimeoutButton := (if singlePressMode b then 50 else 250)\<rparr>;
            doResetOfButtons = (singlePressMode b \<and> h InitialPress)
        in ([InitialPress],
            if doResetOfButtons then s1\<lparr>ui_pressed := False, pressedId := 0, pressedAt := 0, ui_released := True\<rparr>
            else s1\<lparr>hasBeenPressedLong := False, ui_pressed := True, pressedId := bt_id b, ui_released := False, pressedAt := now, debouceTimer := now\<rparr>)
      else if debouceTimer s + debouceTimeoutButton s < now then
        let s1 = s\<lparr>debouceTimer := now\<rparr> in
        if \<not> singlePressMode b then
          ([ShortPressHolding],
           holding_timeout now (s1\<lparr>current_pressed_color := (if current_pressed_color s1 = BUTTON_PRESSED_COLOR then BUTTON_PRESSED_COLOR_ALT else BUTTON_PRESSED_COLOR)\<rparr>))
        else if pressedAt s1 + 1000 < now \<and> \<not> needReleaseFirst s1 then
          ([LongPressHolding], s1\<lparr>hasBeenPressedLong := True, needReleaseFirst := True\<rparr>)
        else ([], s1)
      else ([], s))"

definition ui_release :: "button \<Rightarrow> u32 \<Rightarrow> ui \<Rightarrow> PressType list \<times> ui" where
  "ui_release b now s =
     (let s1 = (if ui_pressed s \<and> pressedAt s + minimumPressTime > now
                then s\<lparr>ui_released := True, ui_pressed := False, debouceTimeoutButton := 5000, pressedAt := 0, debouceTimer := 0\<rparr> else s);
          s2 = s1\<lparr>needReleaseFirst := False\<rparr>;
          (cs, s3) =
            (if ui_pressed s2 \<and> singlePressMode b
             then ([if hasBeenPressedLong s2 then LongPressAfterRelease else ShortPressAfterRelease],
                   s2\<lparr>ui_released := True, ui_pressed := False, hasBeenPressedLong := False\<rparr>)
             else if ui_pressed s2 \<and> \<not> singlePressMode b
             then ([], s2\<lparr>ui_released := True, ui_pressed := False, debouceTimeoutButton := 5000\<rparr>)
             else ([], s2))
      in (cs, s3\<lparr>pressedAt := 0, debouceTimer := 0\<rparr>))"

definition ui_handle :: "(PressType \<Rightarrow> bool) \<Rightarrow> button \<Rightarrow> int \<Rightarrow> u32 \<Rightarrow> ui \<Rightarrow> PressType list \<times> ui" where
  "ui_handle h b tag now s0 =
     (let s = (if statusTimerXX s0 + 1000 < now then s0\<lparr>statusTimerXX := now\<rparr> else s0) in
      if tag = bt_id b then checkPressType h b now s
      else if tag = 0 \<and> pressedId s = bt_id b then ui_release b now s
      else ([], s))"

definition ui_init :: "(PressType \<Rightarrow> bool) \<Rightarrow> button \<Rightarrow> int \<Rightarrow> u32 \<Rightarrow> ui \<Rightarrow> PressType list \<times> ui" where
  "ui_init h b tag now s = ui_handle h b tag now (s\<lparr>noOfButtons := noOfButtons s + 1\<rparr>)"

section \<open>The life of a press\<close>

text \<open>A screen is the list of its buttons; every frame initialises all of them, in order, with the touched tag.  \<open>h i\<close> is the callback of
  button \<open>i\<close>; the result is the callbacks made, with the buttons they belong to.\<close>

fun ui_frame :: "(int \<Rightarrow> PressType \<Rightarrow> bool) \<Rightarrow> button list \<Rightarrow> int \<Rightarrow> u32 \<Rightarrow> ui \<Rightarrow> (int \<times> PressType) list \<times> ui" where
  "ui_frame h [] tag now s = ([], s)"
| "ui_frame h (b # bs) tag now s =
     (let (cs, s1) = ui_init (h (bt_id b)) b tag now s; (ds, s2) = ui_frame h bs tag now s1 in (map (Pair (bt_id b)) cs @ ds, s2))"

fun ui_screen :: "(int \<Rightarrow> PressType \<Rightarrow> bool) \<Rightarrow> button list \<Rightarrow> (int \<times> u32) list \<Rightarrow> ui \<Rightarrow> (int \<times> PressType) list \<times> ui" where
  "ui_screen h bs [] s = ([], s)"
| "ui_screen h bs ((tag, now) # fs) s = (let (es, s1) = ui_frame h bs tag now s; (ds, s2) = ui_screen h bs fs s1 in (es @ ds, s2))"

datatype cycle = Idle | Down | Long

text \<open>The callbacks of a button that reports single presses.\<close>

inductive press_cycle :: "cycle \<Rightarrow> PressType list \<Rightarrow> cycle \<Rightarrow> bool" where
  stop: "press_cycle c [] c"
| down: "press_cycle Down cs d \<Longrightarrow> press_cycle Idle (InitialPress # cs) d"
| long: "press_cycle Long cs d \<Longrightarrow> press_cycle Down (LongPressHolding # cs) d"
| short_up: "press_cycle Idle cs d \<Longrightarrow> press_cycle Down (ShortPressAfterRelease # cs) d"
| long_up: "press_cycle Idle cs d \<Longrightarrow> press_cycle Long (LongPressAfterRelease # cs) d"

code_pred press_cycle .

inductive_cases press_cycle_elims: "press_cycle c [] d" "press_cycle c (p # cs) d"

lemma press_cycle_append: "press_cycle c xs d \<Longrightarrow> press_cycle d ys e \<Longrightarrow> press_cycle c (xs @ ys) e"
  by (induction rule: press_cycle.induct) (auto intro: press_cycle.intros)

definition cycle_inv :: "int \<Rightarrow> u32 \<Rightarrow> cycle \<Rightarrow> ui \<Rightarrow> bool" where
  "cycle_inv i t0 c s \<longleftrightarrow>
     (case c of Idle \<Rightarrow> \<not> ui_pressed s \<and> \<not> needReleaseFirst s
      | Down \<Rightarrow> ui_pressed s \<and> pressedId s = i \<and> \<not> hasBeenPressedLong s \<and> \<not> needReleaseFirst s \<and> pressedAt s \<le> t0
      | Long \<Rightarrow> ui_pressed s \<and> pressedId s = i \<and> hasBeenPressedLong s \<and> needReleaseFirst s \<and> pressedAt s \<le> t0)"

lemma ui_init_cycle:
  assumes "cycle_inv (bt_id b) t0 c s" "t0 \<le> now" and "singlePressMode b" "\<not> h InitialPress"
  obtains d where "press_cycle c (fst (ui_init h b tag now s)) d" "cycle_inv (bt_id b) now d (snd (ui_init h b tag now s))"
proof -
  define s1 where "s1 = (let t = s\<lparr>noOfButtons := noOfButtons s + 1\<rparr> in if statusTimerXX t + 1000 < now then t\<lparr>statusTimerXX := now\<rparr> else t)"
  have s1: "ui_pressed s1 = ui_pressed s" "pressedId s1 = pressedId s" "hasBeenPressedLong s1 = hasBeenPressedLong s"
    "needReleaseFirst s1 = needReleaseFirst s" "pressedAt s1 = pressedAt s" by (simp_all add: s1_def Let_def)
  have e: "ui_init h b tag now s = (if tag = bt_id b then checkPressType h b now s1
      else if tag = 0 \<and> pressedId s1 = bt_id b then ui_release b now s1 else ([], s1))"
    by (simp add: ui_init_def ui_handle_def s1_def Let_def)
  have "\<exists>d. press_cycle c (fst (ui_init h b tag now s)) d \<and> cycle_inv (bt_id b) now d (snd (ui_init h b tag now s))"
  proof (cases c)
    case Idle
    then have i: "\<not> ui_pressed s1" "\<not> needReleaseFirst s1" using assms(1) s1 by (simp_all add: cycle_inv_def)
    show ?thesis
    proof (cases "tag = bt_id b")
      case True
      then show ?thesis unfolding e using i assms(3,4) Idle
        by (intro exI [of _ Down]) (simp add: checkPressType_def Let_def cycle_inv_def press_cycle.intros)
    next
      case False
      then show ?thesis unfolding e using i Idle
        by (intro exI [of _ Idle]) (simp add: ui_release_def Let_def cycle_inv_def press_cycle.intros)
    qed
  next
    case Down
    then have i: "ui_pressed s1" "pressedId s1 = bt_id b" "\<not> hasBeenPressedLong s1" "\<not> needReleaseFirst s1" "pressedAt s1 \<le> now"
      using assms(1,2) s1 by (auto simp: cycle_inv_def)
    consider (long) "tag = bt_id b" "debouceTimer s1 + debouceTimeoutButton s1 < now" "pressedAt s1 + 1000 < now"
      | (up) "tag \<noteq> bt_id b" "tag = 0" | (none) "tag \<noteq> bt_id b" "tag \<noteq> 0"
      | (early) "tag = bt_id b" "\<not> debouceTimer s1 + debouceTimeoutButton s1 < now"
      | (short) "tag = bt_id b" "debouceTimer s1 + debouceTimeoutButton s1 < now" "\<not> pressedAt s1 + 1000 < now" by blast
    then show ?thesis
    proof cases
      case long
      then show ?thesis unfolding e using i assms(3) Down
        by (intro exI [of _ Long]) (simp add: checkPressType_def Let_def cycle_inv_def press_cycle.intros)
    next
      case up
      then show ?thesis unfolding e using i assms(3) Down
        by (intro exI [of _ Idle]) (simp add: ui_release_def Let_def cycle_inv_def press_cycle.intros minimumPressTime_def leD)
    next
      case none
      then show ?thesis unfolding e using i Down by (intro exI [of _ Down]) (simp add: cycle_inv_def press_cycle.intros)
    next
      case early
      then show ?thesis unfolding e using i assms(3) Down
        by (intro exI [of _ Down]) (simp add: checkPressType_def cycle_inv_def press_cycle.intros)
    next
      case short
      then show ?thesis unfolding e using i assms(3) Down
        by (intro exI [of _ Down]) (simp add: checkPressType_def Let_def cycle_inv_def press_cycle.intros)
    qed
  next
    case Long
    then have i: "ui_pressed s1" "pressedId s1 = bt_id b" "hasBeenPressedLong s1" "needReleaseFirst s1" "pressedAt s1 \<le> now"
      using assms(1,2) s1 by (auto simp: cycle_inv_def)
    show ?thesis
    proof (cases "tag = 0 \<and> tag \<noteq> bt_id b")
      case True
      then show ?thesis unfolding e using i assms(3) Long
        by (intro exI [of _ Idle]) (simp add: ui_release_def Let_def cycle_inv_def press_cycle.intros minimumPressTime_def leD)
    next
      case False
      then show ?thesis using i assms(3) Long
        by (intro exI [of _ Long]) (auto simp: e checkPressType_def Let_def cycle_inv_def press_cycle.intros)
    qed
  qed
  then show ?thesis using that by blast
qed

text \<open>What the invariant depends on, and the buttons that a frame does not concern.\<close>

definition alike :: "ui \<Rightarrow> ui \<Rightarrow> bool" where
  "alike s s1 = (ui_pressed s1 = ui_pressed s \<and> pressedId s1 = pressedId s \<and> hasBeenPressedLong s1 = hasBeenPressedLong s
     \<and> needReleaseFirst s1 = needReleaseFirst s \<and> pressedAt s1 = pressedAt s)"

lemma alike_cycle: "alike s s1 \<Longrightarrow> cycle_inv i t0 c s1 = cycle_inv i t0 c s"
  by (cases c) (simp_all add: alike_def cycle_inv_def)

lemma alike_trans: "alike s u \<Longrightarrow> alike u v \<Longrightarrow> alike s v" and alike_refl [simp]: "alike s s"
  by (simp_all add: alike_def)

definition concerns :: "int \<Rightarrow> ui \<Rightarrow> button \<Rightarrow> bool" where
  "concerns tag s b = (tag = bt_id b \<or> tag = 0 \<and> pressedId s = bt_id b)"

lemma unconcerned_button: "\<not> concerns tag s b \<Longrightarrow> fst (ui_init h b tag now s) = [] \<and> alike s (snd (ui_init h b tag now s))"
  by (auto simp: ui_init_def ui_handle_def Let_def concerns_def alike_def)

lemma unconcerned_frame:
  "\<forall>b \<in> set bs. \<not> concerns tag s b \<Longrightarrow> fst (ui_frame h bs tag now s) = [] \<and> alike s (snd (ui_frame h bs tag now s))"
proof (induction bs arbitrary: s)
  case (Cons b bs)
  define s1 where "s1 = snd (ui_init (h (bt_id b)) b tag now s)"
  have s1: "fst (ui_init (h (bt_id b)) b tag now s) = []" "alike s s1" using unconcerned_button Cons.prems by (simp_all add: s1_def)
  then have "\<forall>b \<in> set bs. \<not> concerns tag s1 b" using Cons.prems by (simp add: concerns_def alike_def)
  from Cons.IH [OF this] show ?case using s1 alike_trans [of s s1] by (simp add: case_prod_unfold Let_def s1_def [symmetric])
qed simp

lemma frame_append:
  "ui_frame h (xs @ ys) tag now s = (let (es, s1) = ui_frame h xs tag now s; (ds, s2) = ui_frame h ys tag now s1 in (es @ ds, s2))"
  by (induction xs arbitrary: s) (simp_all add: case_prod_unfold Let_def)

lemma concerned_frame:
  assumes "distinct (map bt_id bs)" "b \<in> set bs" "concerns tag s b" "tag \<in> insert 0 (bt_id ` set bs)" "0 \<notin> bt_id ` set bs"
    and "pressedId (snd (ui_init (h (bt_id b)) b tag now (s1 :: ui))) = bt_id b \<or> tag \<noteq> 0" "s1 = snd (ui_frame h (takeWhile (\<lambda>x. x \<noteq> b) bs) tag now s)"
  shows "alike s s1 \<and> fst (ui_frame h bs tag now s) = map (Pair (bt_id b)) (fst (ui_init (h (bt_id b)) b tag now s1))
    \<and> alike (snd (ui_init (h (bt_id b)) b tag now s1)) (snd (ui_frame h bs tag now s))"
proof -
  obtain xs ys where bs: "bs = xs @ b # ys" "b \<notin> set xs" using split_list_first [OF assms(2)] by blast
  have tk: "takeWhile (\<lambda>x. x \<noteq> b) bs = xs" using bs by (simp add: takeWhile_append)
  have o: "bt_id x \<noteq> bt_id b" "bt_id b \<noteq> bt_id x" "bt_id x \<noteq> 0" "bt_id b \<noteq> 0" if "x \<in> set xs \<union> set ys" for x
    using assms(1,5) imageI [OF that, of bt_id] unfolding bs by auto
  have nx: "\<forall>x \<in> set xs. \<not> concerns tag s x"
    using assms(3) o by (auto simp: concerns_def)
  note x = unconcerned_frame [OF nx, of h now]
  have s1: "s1 = snd (ui_frame h xs tag now s)" using assms(7) tk by simp
  define s2 where "s2 = snd (ui_init (h (bt_id b)) b tag now s1)"
  have ny: "\<forall>y \<in> set ys. \<not> concerns tag s2 y"
    using assms(3,6) o by (auto simp: concerns_def s2_def)
  note y = unconcerned_frame [OF ny, of h now]
  show ?thesis using x y unfolding bs frame_append s1 [symmetric]
    by (simp add: case_prod_unfold Let_def s1 [symmetric] s2_def [symmetric])
qed

section \<open>A whole screen\<close>

text \<open>The callbacks of a screen: cycles of single buttons one after the other.\<close>

inductive screen_cycle :: "int \<times> cycle \<Rightarrow> (int \<times> PressType) list \<Rightarrow> int \<times> cycle \<Rightarrow> bool" where
  stop: "screen_cycle p [] p"
| button: "press_cycle c cs d \<Longrightarrow> screen_cycle (i, d) es p \<Longrightarrow> screen_cycle (i, c) (map (Pair i) cs @ es) p"
| change: "screen_cycle (j, Idle) es p \<Longrightarrow> screen_cycle (i, Idle) es p"

text \<open>The button touched last since the finger was off the screen, 0 for none; a finger does not slide when it does not come to a
  second button without leaving the screen.\<close>

definition touched :: "int set \<Rightarrow> int \<Rightarrow> int \<Rightarrow> int" where
  "touched ids k tag = (if tag = 0 then 0 else if tag \<in> ids then tag else k)"

fun no_slide :: "int set \<Rightarrow> int \<Rightarrow> int list \<Rightarrow> bool" where
  "no_slide ids k [] = True"
| "no_slide ids k (tag # tags) = ((tag \<in> ids \<longrightarrow> k = 0 \<or> k = tag) \<and> no_slide ids (touched ids k tag) tags)"

definition screen_inv :: "int set \<Rightarrow> u32 \<Rightarrow> int \<Rightarrow> int \<times> cycle \<Rightarrow> ui \<Rightarrow> bool" where
  "screen_inv ids t0 k p s = (cycle_inv (fst p) t0 (snd p) s \<and> (snd p = Idle) = (k = 0) \<and> (snd p \<noteq> Idle \<longrightarrow> fst p = k \<and> k \<in> ids))"

lemma cycle_pressed: "cycle_inv i t0 c s \<Longrightarrow> (c = Idle) = (\<not> ui_pressed s)"
  by (cases c) (simp_all add: cycle_inv_def)

lemma cycle_mono: "cycle_inv i t0 c s \<Longrightarrow> t0 \<le> t1 \<Longrightarrow> cycle_inv i t1 c s"
  by (cases c) (auto simp: cycle_inv_def)

lemma cycle_idle: "cycle_inv i t0 Idle s \<Longrightarrow> cycle_inv j t0 Idle s"
  by (simp add: cycle_inv_def)

lemma init_pressed:
  "tag = bt_id b \<Longrightarrow> \<not> h InitialPress \<Longrightarrow> ui_pressed (snd (ui_init h b tag now s))"
  "tag = 0 \<Longrightarrow> bt_id b \<noteq> 0 \<Longrightarrow> pressedId s = bt_id b \<Longrightarrow> \<not> ui_pressed (snd (ui_init h b tag now s)) \<and> pressedId (snd (ui_init h b tag now s)) = bt_id b"
  by (auto simp: ui_init_def ui_handle_def checkPressType_def ui_release_def holding_timeout_def Let_def)

lemma screen_frame:
  assumes "screen_inv (bt_id ` set bs) t0 k p s" "t0 \<le> now" "tag \<in> bt_id ` set bs \<longrightarrow> k = 0 \<or> k = tag"
    and "distinct (map bt_id bs)" "0 \<notin> bt_id ` set bs" "\<forall>b \<in> set bs. singlePressMode b \<and> \<not> h (bt_id b) InitialPress"
  obtains q es where "es = fst (ui_frame h bs tag now s)" "\<And>ds r. screen_cycle q ds r \<Longrightarrow> screen_cycle p (es @ ds) r"
    "screen_inv (bt_id ` set bs) now (touched (bt_id ` set bs) k tag) q (snd (ui_frame h bs tag now s))"
proof (cases "\<exists>b \<in> set bs. concerns tag s b")
  case True
  then obtain b where b: "b \<in> set bs" "concerns tag s b" by blast
  have b0: "bt_id b \<noteq> 0" "bt_id b \<in> bt_id ` set bs" "singlePressMode b" "\<not> h (bt_id b) InitialPress" using assms(5,6) b(1) by auto
  obtain i c where p: "p = (i, c)" by (cases p)
  have inv: "cycle_inv i t0 c s" "(c = Idle) = (k = 0)" "c \<noteq> Idle \<Longrightarrow> i = k" using assms(1) by (simp_all add: screen_inv_def p)
  have own: "i = bt_id b" if "c \<noteq> Idle"
  proof (cases "tag = bt_id b")
    case True
    then show ?thesis using inv(2,3) that assms(3) b0(2) by auto
  next
    case False
    then have "pressedId s = bt_id b" using b(2) by (simp add: concerns_def)
    then show ?thesis using inv(1) that by (cases c) (simp_all add: cycle_inv_def)
  qed
  have ci: "cycle_inv (bt_id b) t0 c s" using inv(1) own cycle_idle by (cases "c = Idle") auto
  define s1 where "s1 = snd (ui_frame h (takeWhile (\<lambda>x. x \<noteq> b) bs) tag now s)"
  define s2 where "s2 = snd (ui_init (h (bt_id b)) b tag now s1)"
  have tag: "tag \<in> insert 0 (bt_id ` set bs)" using b(2) b0(2) by (auto simp: concerns_def)
  have pre: "alike s s1"
  proof -
    have "\<forall>x \<in> set (takeWhile (\<lambda>x. x \<noteq> b) bs). \<not> concerns tag s x"
    proof (intro ballI notI)
      fix x assume x: "x \<in> set (takeWhile (\<lambda>x. x \<noteq> b) bs)" and cx: "concerns tag s x"
      then have "x \<in> set bs" "x \<noteq> b" by (auto dest: set_takeWhileD)
      moreover from this have "bt_id x \<noteq> bt_id b" using assms(4) b(1) by (auto simp: distinct_map dest: inj_onD)
      moreover have "bt_id x \<noteq> 0" using assms(5) \<open>x \<in> set bs\<close> by force
      ultimately show False using cx b(2) b0(1) by (auto simp: concerns_def)
    qed
    from unconcerned_frame [OF this] show ?thesis by (simp add: s1_def)
  qed
  have id2: "pressedId s2 = bt_id b \<or> tag \<noteq> 0"
    using init_pressed(2) [where h = "h (bt_id b)" and tag = tag and b = b and s = s1 and now = now] b(2) b0(1) pre by (auto simp: s2_def concerns_def alike_def)
  note f = concerned_frame [OF assms(4) b tag assms(5) id2 [unfolded s2_def] s1_def, folded s2_def]
  have c1: "cycle_inv (bt_id b) t0 c s1" using ci alike_cycle [OF pre] by simp
  obtain d where d: "press_cycle c (fst (ui_init (h (bt_id b)) b tag now s1)) d" "cycle_inv (bt_id b) now d s2"
    using ui_init_cycle [where h = "h (bt_id b)" and tag = tag, OF c1 assms(2) b0(3,4)] unfolding s2_def by blast
  have t: "(d = Idle) = (touched (bt_id ` set bs) k tag = 0)" "d \<noteq> Idle \<Longrightarrow> touched (bt_id ` set bs) k tag = bt_id b"
    using cycle_pressed [OF d(2)] init_pressed [where h = "h (bt_id b)" and tag = tag and b = b and s = s1 and now = now] b(2) b0 pre
    by (auto simp: touched_def concerns_def s2_def alike_def)
  show ?thesis
  proof (rule that [of _ "(bt_id b, d)"])
    show "screen_cycle (bt_id b, d) ds r \<Longrightarrow> screen_cycle p (fst (ui_frame h bs tag now s) @ ds) r" for ds r
      using screen_cycle.button [OF d(1), of "bt_id b" ds r] f own unfolding p by (cases "c = Idle") (auto intro: screen_cycle.change)
    show "screen_inv (bt_id ` set bs) now (touched (bt_id ` set bs) k tag) (bt_id b, d) (snd (ui_frame h bs tag now s))"
      using d(2) t b0(2) alike_cycle f by (auto simp: screen_inv_def)
  qed simp
next
  case False
  then have n: "\<forall>b \<in> set bs. \<not> concerns tag s b" by blast
  note u = unconcerned_frame [OF n, of h now]
  obtain i c where p: "p = (i, c)" by (cases p)
  have inv: "cycle_inv i t0 c s" "(c = Idle) = (k = 0)" "c \<noteq> Idle \<Longrightarrow> i = k \<and> k \<in> bt_id ` set bs" using assms(1) by (simp_all add: screen_inv_def p)
  have "c = Idle" if "tag = 0"
  proof (rule ccontr)
    assume nc: "c \<noteq> Idle"
    then have "pressedId s = k" using inv by (cases c) (simp_all add: cycle_inv_def)
    then show False using n inv(3) [OF nc] that by (auto simp: concerns_def)
  qed
  moreover have "tag \<notin> bt_id ` set bs" using n by (auto simp: concerns_def)
  ultimately have t: "(c = Idle) = (touched (bt_id ` set bs) k tag = 0)" "c \<noteq> Idle \<Longrightarrow> touched (bt_id ` set bs) k tag = k"
    using inv(2) by (auto simp: touched_def)
  show ?thesis
  proof (rule that [of _ p])
    show "screen_cycle p ds r \<Longrightarrow> screen_cycle p (fst (ui_frame h bs tag now s) @ ds) r" for ds r using u by simp
    show "screen_inv (bt_id ` set bs) now (touched (bt_id ` set bs) k tag) p (snd (ui_frame h bs tag now s))"
      using u t inv cycle_mono [OF inv(1) assms(2)] alike_cycle by (auto simp: screen_inv_def p)
  qed simp
qed

lemma screen_run:
  assumes "distinct (map bt_id bs)" "0 \<notin> bt_id ` set bs" "\<forall>b \<in> set bs. singlePressMode b \<and> \<not> h (bt_id b) InitialPress"
  shows "screen_inv (bt_id ` set bs) t0 k p s \<Longrightarrow> sorted (map snd fs) \<Longrightarrow> \<forall>f \<in> set fs. t0 \<le> snd f \<Longrightarrow> no_slide (bt_id ` set bs) k (map fst fs) \<Longrightarrow>
    \<exists>i c. screen_cycle p (fst (ui_screen h bs fs s)) (i, c) \<and> (c = Idle) = (fold (\<lambda>tag k. touched (bt_id ` set bs) k tag) (map fst fs) k = 0)"
proof (induction fs arbitrary: t0 k p s)
  case Nil
  then show ?case using screen_cycle.stop [of p] by (cases p) (auto simp: screen_inv_def)
next
  case (Cons f fs)
  obtain tag now where f: "f = (tag, now)" by (cases f)
  have le: "t0 \<le> now" and ns: "tag \<in> bt_id ` set bs \<longrightarrow> k = 0 \<or> k = tag" using Cons.prems(3,4) f by simp_all
  obtain q es where q: "es = fst (ui_frame h bs tag now s)" "\<And>ds r. screen_cycle q ds r \<Longrightarrow> screen_cycle p (es @ ds) r"
      "screen_inv (bt_id ` set bs) now (touched (bt_id ` set bs) k tag) q (snd (ui_frame h bs tag now s))"
    by (rule screen_frame [where h = h, OF Cons.prems(1) le ns assms]) (rule that)
  have m: "sorted (map snd fs)" "\<forall>g \<in> set fs. now \<le> snd g" "no_slide (bt_id ` set bs) (touched (bt_id ` set bs) k tag) (map fst fs)"
    using Cons.prems(2,4) f by auto
  from Cons.IH [OF q(3) m] obtain i c where ic: "screen_cycle q (fst (ui_screen h bs fs (snd (ui_frame h bs tag now s)))) (i, c)"
      "(c = Idle) = (fold (\<lambda>tag k. touched (bt_id ` set bs) k tag) (map fst fs) (touched (bt_id ` set bs) k tag) = 0)" by blast
  have "fst (ui_screen h bs (f # fs) s) = es @ fst (ui_screen h bs fs (snd (ui_frame h bs tag now s)))"
    by (simp add: f q(1) case_prod_unfold Let_def)
  then have "screen_cycle p (fst (ui_screen h bs (f # fs) s)) (i, c)" using q(2) [OF ic(1)] by simp
  moreover have "(c = Idle) = (fold (\<lambda>tag k. touched (bt_id ` set bs) k tag) (map fst (f # fs)) k = 0)" using ic(2) by (simp add: f)
  ultimately show ?case by blast
qed

text \<open>C30: on a screen of any number of single press buttons, the callbacks are whole press cycles of one button after another: an initial press, then
  at most one report of a long press, then a release that is reported as long exactly when the long press was; no callback of another
  button comes in between, and the cycle is complete whenever the finger is off the screen.  This is for frames with any touched tags
  whose clock does not run backwards, with distinct tags other than 0 for the buttons, and callbacks that return False on the initial
  press, as the comment on preCallbackFn demands of those that do not change the screen; and only while the finger does not slide from one button
  to another: the press state is shared by all buttons and a slide breaks the cycles (uibutton_slide).\<close>

theorem uibutton_press_cycle:
  assumes "sorted (map snd fs)" and "distinct (map bt_id bs)" and "0 \<notin> bt_id ` set bs"
    and "\<forall>b \<in> set bs. singlePressMode b \<and> \<not> h (bt_id b) InitialPress" and "no_slide (bt_id ` set bs) 0 (map fst fs)"
  shows "\<exists>i c. screen_cycle (0, Idle) (fst (ui_screen h bs fs (ui_initial t))) (i, c)
    \<and> (c = Idle) = (fold (\<lambda>tag k. touched (bt_id ` set bs) k tag) (map fst fs) 0 = 0)"
proof -
  have "screen_inv (bt_id ` set bs) 0 0 (0, Idle) (ui_initial t)" "\<forall>f \<in> set fs. 0 \<le> snd f" by (simp_all add: screen_inv_def cycle_inv_def ui_initial_def)
  from screen_run [where h = h, OF assms(2-4) this(1) assms(1) this(2) assms(5)] show ?thesis .
qed

theorem uibutton_press_cycle_witness:
  "\<exists>i. screen_cycle (0, Idle) (fst (ui_screen (\<lambda>_ _. False) [\<lparr>bt_id = 7, singlePressMode = True\<rparr>, \<lparr>bt_id = 8, singlePressMode = True\<rparr>]
     [(7, 100), (7, 1200), (0, 1300), (8, 1400), (5, 1420), (0, 1450)] (ui_initial 0))) (i, Idle)"
  using uibutton_press_cycle [of "[(7, 100), (7, 1200), (0, 1300), (8, 1400), (5, 1420), (0, 1450)]"
      "[\<lparr>bt_id = 7, singlePressMode = True\<rparr>, \<lparr>bt_id = 8, singlePressMode = True\<rparr>]" "\<lambda>_ _. False" 0]
  by (auto simp: touched_def)

text \<open>the press state is shared: a finger that presses one button and slides onto another reports a long press of the
  second button, which was never pressed, and a long release of the first, which was not held.\<close>

theorem uibutton_slide:
  defines "A \<equiv> \<lparr>bt_id = 1, singlePressMode = True\<rparr>" and "B \<equiv> \<lparr>bt_id = 2, singlePressMode = True\<rparr>"
  defines "frame \<equiv> (\<lambda>tag now s. let (ca, s1) = ui_init (\<lambda>_. False) A tag now s; (cb, s2) = ui_init (\<lambda>_. False) B tag now s1 in ((ca, cb), s2))"
  shows "fst (frame 1 1000 (ui_initial 0)) = ([InitialPress], [])
     \<and> fst (frame 2 2500 (snd (frame 1 1000 (ui_initial 0)))) = ([], [LongPressHolding])
     \<and> fst (frame 0 2600 (snd (frame 2 2500 (snd (frame 1 1000 (ui_initial 0)))))) = ([LongPressAfterRelease], [])"
  unfolding frame_def A_def B_def by (intro conjI) code_simp+

end
