(* ===== verification/Menu.thy ===== *)
theory Menu
  imports Tags Prelude
begin

text \<open>
  The main menu (src/src/Mainmenu.cpp): a panel that scrolls down when opened and up when closed, and
  reports the chosen function.  \<open>render\<close> carries the animation; drawing is left out but for the tags
  of the buttons.  The calls of \<open>closedMainMenuFn\<close> are the results.
\<close>

datatype FUNCTION_TYPE = SOURCE_DC_VOLTAGE | SOURCE_DC_CURRENT | SOURCE_PULSE | SOURCE_SWEEP | DIGITIZE | GRAPH
  | DATALOGGER | MEASURE_RESISTANCE | SHOWSETTINGS

record menu =
  keepActiveForAWhileTimer :: u32
  scrollMainMenu :: int
  functionType :: FUNCTION_TYPE
  toBeDisactive :: bool
  menu_active :: bool
  scrollMainMenuDir :: int

definition menu_initial :: menu where
  "menu_initial = \<lparr>keepActiveForAWhileTimer = 0, scrollMainMenu = 0, functionType = SOURCE_DC_VOLTAGE, toBeDisactive = False,
     menu_active = False, scrollMainMenuDir = 0\<rparr>"

definition menu_open :: "menu \<Rightarrow> menu" where
  "menu_open m = m\<lparr>menu_active := True, scrollMainMenuDir := 1\<rparr>"

definition menu_close :: "menu \<Rightarrow> FUNCTION_TYPE list \<times> menu" where
  "menu_close m = ((if menu_active m then [functionType m] else []), m\<lparr>scrollMainMenuDir := - 1\<rparr>)"

definition menu_choice :: "int \<Rightarrow> FUNCTION_TYPE option" where
  "menu_choice inputTag =
     (if inputTag = MENU_BUTTON_SOURCE_PULSE then Some SOURCE_PULSE
      else if inputTag = MENU_BUTTON_SOURCE_DC_VOLTAGE then Some SOURCE_DC_VOLTAGE
      else if inputTag = MENU_BUTTON_SOURCE_DC_CURRENT then Some SOURCE_DC_CURRENT
      else if inputTag = MENU_BUTTON_SOURCE_SWEEP then Some SOURCE_SWEEP
      else if inputTag = MENU_BUTTON_DIGITIZE then Some DIGITIZE
      else if inputTag = MENU_BUTTON_GRAPH then Some GRAPH
      else if inputTag = MENU_BUTTON_RESISTANCE then Some MEASURE_RESISTANCE
      else if inputTag = MENU_BUTTON_LOGGER then Some DATALOGGER
      else if inputTag = MENU_SHOWSETTINGS then Some SHOWSETTINGS
      else None)"

definition menu_handleButtonAction :: "int \<Rightarrow> menu \<Rightarrow> FUNCTION_TYPE list \<times> menu" where
  "menu_handleButtonAction inputTag m =
     (if scrollMainMenuDir m \<noteq> 0 then ([], m)
      else case menu_choice inputTag of None \<Rightarrow> ([], m) | Some f \<Rightarrow> menu_close (m\<lparr>functionType := f\<rparr>))"

text \<open>The tag drawn under the button in row \<open>y\<close> and column \<open>x\<close>, with its text; 0 is a disabled button.\<close>

definition menu_button_tag :: "int \<Rightarrow> int \<Rightarrow> int" where
  "menu_button_tag y x =
     (if y = 1 \<and> x = 2 then MENU_BUTTON_SOURCE_PULSE
      else if y = 0 \<and> x = 0 then MENU_BUTTON_SOURCE_DC_VOLTAGE
      else if y = 0 \<and> x = 1 then MENU_BUTTON_SOURCE_DC_CURRENT
      else if y = 0 \<and> x = 2 then MENU_BUTTON_LOGGER
      else if y = 2 \<and> x = 0 then MENU_BUTTON_SOURCE_SWEEP
      else if y = 2 \<and> x = 2 then MENU_BUTTON_DIGITIZE
      else if y = 2 \<and> x = 1 then MENU_BUTTON_GRAPH
      else if y = 3 \<and> x = 1 then MENU_SHOWSETTINGS
      else if y = 3 \<and> x = 2 then MENU_BUTTON_RESISTANCE
      else 0)"

definition menu_texts :: "string list list" where
  "menu_texts = [[''SOURCE VOLT'', ''SOURCE CURRENT'', ''LOGGER''], [''ELECTRONIC LOAD'', ''VOLTMETER'', ''PULSE GENERATOR''],
     [''SWEEP'', ''GRAPH'', ''DIGITIZE''], [''BATTERY SIM'', ''SETTINGS'', ''RESISTANCE'']]"

definition menu_render :: "int \<Rightarrow> u32 \<Rightarrow> menu \<Rightarrow> FUNCTION_TYPE list \<times> menu" where
  "menu_render tag now m0 =
     (let m1 = m0\<lparr>scrollMainMenu := scrollMainMenu m0 + scrollMainMenuDir m0 * 30\<rparr>;
          m2 = (if scrollMainMenu m1 > 350 then m1\<lparr>scrollMainMenu := 350, scrollMainMenuDir := 0\<rparr> else m1);
          (cs, m3) = (if tag = MAIN_MENU_CLOSE \<and> scrollMainMenuDir m2 = 0 then menu_close m2 else ([], m2));
          m4 = (if scrollMainMenuDir m3 = - 1
                then let m = m3\<lparr>scrollMainMenu := scrollMainMenu m3 + scrollMainMenuDir m3 * 15\<rparr> in
                  if scrollMainMenu m < 0
                  then m\<lparr>keepActiveForAWhileTimer := now, scrollMainMenu := 0, toBeDisactive := True, scrollMainMenuDir := 0\<rparr> else m
                else m3);
          m5 = (if toBeDisactive m4 \<and> keepActiveForAWhileTimer m4 + 50 < now then m4\<lparr>menu_active := False, toBeDisactive := False\<rparr> else m4)
      in (cs, m5))"

section \<open>Properties\<close>

text \<open>What a button text announces.\<close>

definition announced :: "string \<Rightarrow> FUNCTION_TYPE option" where
  "announced t = map_of [(''SOURCE VOLT'', SOURCE_DC_VOLTAGE), (''SOURCE CURRENT'', SOURCE_DC_CURRENT), (''LOGGER'', DATALOGGER),
     (''PULSE GENERATOR'', SOURCE_PULSE), (''SWEEP'', SOURCE_SWEEP), (''GRAPH'', GRAPH), (''DIGITIZE'', DIGITIZE), (''SETTINGS'', SHOWSETTINGS),
     (''RESISTANCE'', MEASURE_RESISTANCE)] t"

definition menu_ready :: "menu \<Rightarrow> bool" where
  "menu_ready m \<longleftrightarrow> menu_active m \<and> scrollMainMenuDir m = 0 \<and> scrollMainMenu m = 350 \<and> \<not> toBeDisactive m"

text \<open>What a pass of the main program does to the menu: \<open>handleButtonAction\<close> with a touched tag before it is drawn (the main function unless
  a gesture was detected, the digitizer) or after it (the graph and the logger), and \<open>render\<close> while it is active.  A pass is the
  tag before, the tag and the time of \<open>render\<close>, and the tag after.\<close>

type_synonym menu_input = "int option \<times> (int \<times> u32) \<times> int option"

definition menu_button :: "int option \<Rightarrow> menu \<Rightarrow> FUNCTION_TYPE list \<times> menu" where
  "menu_button tag m = (case tag of None \<Rightarrow> ([], m) | Some t \<Rightarrow> menu_handleButtonAction t m)"

definition menu_pass :: "menu_input \<Rightarrow> menu \<Rightarrow> FUNCTION_TYPE list \<times> menu" where
  "menu_pass i m = (case i of (before, (tag, now), after) \<Rightarrow>
     let (c1, m1) = menu_button before m;
         (c2, m2) = (if menu_active m1 then menu_render tag now m1 else ([], m1));
         (c3, m3) = menu_button after m2
     in (c1 @ c2 @ c3, m3))"

fun menu_passes :: "menu_input list \<Rightarrow> menu \<Rightarrow> FUNCTION_TYPE list \<times> menu" where
  "menu_passes [] m = ([], m)"
| "menu_passes (i # ps) m = (let (cs, m1) = menu_pass i m; (cs', m2) = menu_passes ps m1 in (cs @ cs', m2))"

text \<open>A pass in which nothing of the menu is touched.\<close>

definition no_choice :: "int option \<Rightarrow> bool" where "no_choice tag = pred_option (\<lambda>t. menu_choice t = None) tag"
definition untouched :: "menu_input \<Rightarrow> bool" where
  "untouched i = (case i of (before, (tag, now), after) \<Rightarrow> no_choice before \<and> tag \<noteq> MAIN_MENU_CLOSE \<and> no_choice after)"

text \<open>The button at each place of an open menu reports what its text announces.\<close>

lemma menu_choices: "list_all (\<lambda>y. list_all (\<lambda>x. menu_choice (menu_button_tag (int y) (int x)) = announced (menu_texts ! y ! x)) [0 ..< 3]) [0 ..< 4]"
  by code_simp

lemma menu_passes_append: "menu_passes (fs @ gs) m = (let (cs, m1) = menu_passes fs m; (cs', m2) = menu_passes gs m1 in (cs @ cs', m2))"
  by (induction fs arbitrary: m) (auto simp: case_prod_unfold Let_def)

text \<open>The animation of closing: eight frames of 45 pixels, then the wait.\<close>

definition closing :: "int \<Rightarrow> menu \<Rightarrow> bool" where
  "closing k m \<longleftrightarrow> menu_active m \<and> scrollMainMenuDir m = - 1 \<and> scrollMainMenu m = 350 - 45 * k \<and> \<not> toBeDisactive m \<and> 0 \<le> k"

definition waiting :: "u32 \<Rightarrow> menu \<Rightarrow> bool" where
  "waiting t m \<longleftrightarrow> scrollMainMenuDir m = 0 \<and> scrollMainMenu m = 0 \<and> keepActiveForAWhileTimer m = t \<and> (toBeDisactive m = menu_active m)"

lemma moving_button: "scrollMainMenuDir m \<noteq> 0 \<Longrightarrow> menu_button tag m = ([], m)"
  by (simp add: menu_button_def menu_handleButtonAction_def split: option.split)

lemma no_choice_button: "no_choice tag \<Longrightarrow> menu_button tag m = ([], m)"
  by (cases tag) (simp_all add: no_choice_def menu_button_def menu_handleButtonAction_def)

lemma closing_frame: "closing k m \<Longrightarrow> k < 7 \<Longrightarrow>
    fst (menu_render tag now m) = [] \<and> closing (k + 1) (snd (menu_render tag now m))"
  by (auto simp: closing_def menu_render_def Let_def)

lemma closing_last: "closing 7 m \<Longrightarrow> fst (menu_render tag now m) = [] \<and> waiting now (snd (menu_render tag now m))"
  by (auto simp: closing_def waiting_def menu_render_def Let_def)

lemma waiting_frame: "waiting t m \<Longrightarrow> tag \<noteq> MAIN_MENU_CLOSE \<Longrightarrow>
    fst (menu_render tag now m) = [] \<and> waiting t (snd (menu_render tag now m)) \<and> (t + 50 < now \<longrightarrow> \<not> menu_active (snd (menu_render tag now m)))"
  by (auto simp: waiting_def menu_render_def Let_def)

text \<open>The buttons are not looked at while the menu moves, so the tags of these passes do not matter.\<close>

lemma closing_pass: "closing k m \<Longrightarrow> k < 7 \<Longrightarrow> fst (menu_pass i m) = [] \<and> closing (k + 1) (snd (menu_pass i m))"
proof -
  assume c: "closing k m" "k < 7"
  obtain b tag now a where i: "i = (b, (tag, now), a)" by (cases i) auto
  note f = closing_frame [OF c, of tag now]
  have "scrollMainMenuDir m \<noteq> 0" "menu_active m" "scrollMainMenuDir (snd (menu_render tag now m)) \<noteq> 0" using c(1) f by (simp_all add: closing_def)
  then show ?thesis using f by (simp add: i menu_pass_def moving_button case_prod_unfold Let_def)
qed

lemma closing_passes: "closing k m \<Longrightarrow> k + int (length fs) = 7 \<Longrightarrow> fst (menu_passes fs m) = [] \<and> closing 7 (snd (menu_passes fs m))"
proof (induction fs arbitrary: k m)
  case (Cons f fs)
  have "fst (menu_pass f m) = [] \<and> closing (k + 1) (snd (menu_pass f m))"
    using Cons.prems by (intro closing_pass) simp_all
  then show ?case using Cons.IH [of "k + 1"] Cons.prems by (simp add: case_prod_unfold Let_def)
qed simp

lemma last_pass: "closing 7 m \<Longrightarrow> no_choice a \<Longrightarrow> fst (menu_pass (b, (tag, t), a) m) = [] \<and> waiting t (snd (menu_pass (b, (tag, t), a) m))"
  using closing_last [of m tag t] by (simp add: menu_pass_def moving_button no_choice_button closing_def case_prod_unfold Let_def)

lemma waiting_pass: "waiting t m \<Longrightarrow> untouched i \<Longrightarrow>
    fst (menu_pass i m) = [] \<and> waiting t (snd (menu_pass i m)) \<and> (t + 50 < snd (fst (snd i)) \<longrightarrow> \<not> menu_active (snd (menu_pass i m)))"
proof -
  assume w: "waiting t m" and u: "untouched i"
  obtain b tag now a where i: "i = (b, (tag, now), a)" by (cases i) auto
  have n: "no_choice b" "tag \<noteq> MAIN_MENU_CLOSE" "no_choice a" using u by (simp_all add: untouched_def i)
  show ?thesis using waiting_frame [OF w n(2), of now] w n(1,3) by (simp add: i menu_pass_def no_choice_button case_prod_unfold Let_def)
qed

lemma waiting_passes: "waiting t m \<Longrightarrow> list_all untouched fs \<Longrightarrow> fst (menu_passes fs m) = [] \<and> waiting t (snd (menu_passes fs m))"
proof (induction fs arbitrary: m)
  case (Cons f fs)
  then show ?case using waiting_pass [of t m f] by (simp add: case_prod_unfold Let_def)
qed simp

text \<open>C32: choosing a function in the open menu reports it once and closes the menu: the enabled button in row y and column x
  reports the function its text announces; then nothing more is reported over whole passes of the program: seven passes with any touched
  tags, so also while the button is held or the finger is on another one, the pass that brings the menu off the screen, at time t,
  any further passes, and one more than 50 ms after t, after which the menu is inactive and at rest.  Once the menu is off
  the screen none of its buttons may be touched; a finger on the last picture of its close button makes it report
  the choice again (menu_reports_twice).\<close>

theorem menu_choice_closes:
  fixes before after :: "int option" and tag :: int
  assumes "menu_ready m" and "y < 4" and "x < 3" and "announced (menu_texts ! y ! x) = Some f" and "length fs = 7"
    and "no_choice after" and "list_all untouched (gs @ [g])" and "t + 50 < snd (fst (snd g))"
  defines "p \<equiv> menu_handleButtonAction (menu_button_tag (int y) (int x)) m"
  defines "q \<equiv> menu_passes (fs @ (before, (tag, t), after) # gs @ [g]) (snd p)"
  shows "fst p = [f] \<and> fst q = [] \<and> \<not> menu_active (snd q) \<and> scrollMainMenuDir (snd q) = 0 \<and> scrollMainMenu (snd q) = 0 \<and> \<not> toBeDisactive (snd q)"
proof -
  have "menu_choice (menu_button_tag (int y) (int x)) = Some f"
    using menu_choices assms(2-4) by (auto simp: list_all_iff)
  then have p: "fst p = [f]" "closing 0 (snd p)" using assms(1) by (simp_all add: p_def menu_handleButtonAction_def menu_ready_def menu_close_def closing_def)
  have a: "fst (menu_passes fs (snd p)) = []" "closing 7 (snd (menu_passes fs (snd p)))" using closing_passes [OF p(2), of fs] assms(5) by simp_all
  define m2 where "m2 = snd (menu_pass (before, (tag, t), after) (snd (menu_passes fs (snd p))))"
  have b: "fst (menu_pass (before, (tag, t), after) (snd (menu_passes fs (snd p)))) = []" "waiting t m2"
    using last_pass [OF a(2) assms(6), of before tag t] by (simp_all add: m2_def)
  have c: "fst (menu_passes gs m2) = []" "waiting t (snd (menu_passes gs m2))" using waiting_passes [OF b(2), of gs] assms(7) by simp_all
  define m4 where "m4 = snd (menu_pass g (snd (menu_passes gs m2)))"
  have d: "fst (menu_pass g (snd (menu_passes gs m2))) = []" "waiting t m4" "\<not> menu_active m4"
    using waiting_pass [OF c(2), of g] assms(7,8) by (simp_all add: m4_def)
  have "fst q = []" "snd q = m4" using a(1) b(1) c(1) d(1) by (simp_all add: q_def menu_passes_append case_prod_unfold Let_def m2_def m4_def)
  then show ?thesis using p(1) d(2,3) by (simp add: waiting_def)
qed

theorem menu_choice_closes_witness:
  "\<not> menu_active (snd (menu_passes (replicate 7 (Some MENU_BUTTON_GRAPH, (MAIN_MENU_CLOSE, 100), Some MENU_BUTTON_GRAPH) @ (Some MENU_BUTTON_GRAPH, (0, 100), None) # [] @ [(Some 0, (0, 200), None)])
     (snd (menu_handleButtonAction (menu_button_tag (int 2) (int 1)) (menu_initial\<lparr>menu_active := True, scrollMainMenu := 350\<rparr>)))))"
proof (rule menu_choice_closes [where m = "menu_initial\<lparr>menu_active := True, scrollMainMenu := 350\<rparr>" and y = 2 and x = 1 and f = GRAPH
    and t = 100, THEN conjunct2, THEN conjunct2, THEN conjunct1])
  show "announced (menu_texts ! 2 ! 1) = Some GRAPH" by code_simp
  have "menu_choice 0 = None" by code_simp
  then show "list_all untouched ([] @ [(Some 0, (0, 200), None)])" by (simp add: untouched_def no_choice_def MAIN_MENU_CLOSE_def)
qed (simp_all add: menu_ready_def menu_initial_def no_choice_def)

text \<open>the menu can report twice: when a finger is on the close button, which the last picture before the menu is off the screen still
  shows, the next pass reports the chosen function again.\<close>

theorem menu_reports_twice:
  "(let m = snd (menu_handleButtonAction MENU_BUTTON_GRAPH (menu_initial\<lparr>menu_active := True, scrollMainMenu := 350\<rparr>))
    in fst (menu_passes (replicate 8 (None, (0, 100), None) @ [(None, (MAIN_MENU_CLOSE, 120), None)]) m)) = [GRAPH]"
  by code_simp

end
