(* ===== verification/Settings.thy ===== *)
theory Settings
  imports SmuHal Hal717x
begin

text \<open>
  The settings (src/src/Settings.cpp) and the temperature sensors (src/src/utils.cpp).  The clock, the
  analog reading and the reply of the I2C bus are arguments.
\<close>

definition getMaxTempAllowed :: int where "getMaxTempAllowed = 80"

text \<open>The result is the new \<open>lowBandWidth\<close> and the unit.\<close>

definition setLowBandWidth :: "'s hal \<Rightarrow> bool \<Rightarrow> 's \<Rightarrow> bool \<times> 's" where
  "setLowBandWidth H t s = (t, setGPIO H 1 t s)"

definition settings_init :: "'s hal \<Rightarrow> 's \<Rightarrow> bool \<times> 's" where
  "settings_init H s = setLowBandWidth H False s"

text \<open>\<open>reply\<close> is the byte the bus has available after the request, if any.\<close>

definition TC74_getTemperature :: "byte option \<Rightarrow> int" where
  "TC74_getTemperature reply = (case reply of None \<Rightarrow> - 1 | Some b \<Rightarrow> uint b)"

record utils =
  meanValueLM60 :: f32
  sampleTimer :: u32

definition LM60_getTemperature :: "int \<Rightarrow> u32 \<Rightarrow> utils \<Rightarrow> f32 \<times> utils" where
  "LM60_getTemperature sample10 now u =
     (if now < sampleTimer u + 5000 then (meanValueLM60 u, u)
      else let voltage = conv (lit 3.3 :: f64) * (of_i sample10 / of_i 1023) :: f32;
               temp = conv ((conv voltage - lit 0.424 :: f64) / lit 0.00625) :: f32;
               m = (if temp > of_i 200 \<or> (conv temp :: f64) < lit (- 10) then conv (lit 99.9 :: f64) else temp)
           in (m, u\<lparr>sampleTimer := now, meanValueLM60 := m\<rparr>))"

text \<open>Switching the bandwidth leaves the settings of the source alone.\<close>

lemma setLowBandWidth_view: "view (hal717 X) (snd (setLowBandWidth (hal717 X) t s)) = view (hal717 X) s"
  by (simp add: setLowBandWidth_def h717.gpio)

end
