(* ===== verification/Dial.thy ===== *)
theory Dial
  imports SmuHal Tags Settings
begin

text \<open>
  The keypad (src/src/dial.cpp, src/src/dial.h): the digits and the decimal point the user enters, the value
  they stand for, and its validation.  \<open>dialEntries\<close> is the C array of 15 entries; \<open>screenHeight\<close> is the
  member declared directly before it, so it is the memory at index - 1, which one branch of the code
  touches: reads and writes outside the array (undefined in C) have here the effect they have in that layout.  The unit is the C string \<open>voltDecade\<close>, updated with \<open>strncpy\<close> and tested with \<open>strncmp\<close>.  The
  conversion of a number to text is a function of the board's core library and a parameter.
\<close>

section \<open>State\<close>

definition DIAL_SET :: int where "DIAL_SET = 200"
definition DIAL_LIMIT :: int where "DIAL_LIMIT = 201"

record dial =
  screenHeight :: int
  dialEntries :: "int list"
  digits :: int
  d_error :: bool
  d_warning :: bool
  set_or_limit :: int
  keydepressed :: bool
  voltDecade :: string
  d_negative :: bool
  d_dialog :: bool
  d_mv :: f64
  vol_cur_type :: OPERATION_TYPE

definition dial_initial :: dial where
  "dial_initial = \<lparr>screenHeight = 480, dialEntries = replicate 15 0, digits = 1, d_error = False, d_warning = False,
     set_or_limit = 0, keydepressed = True, voltDecade = [CHR '' '', CHR '' '', CHR 0x00], d_negative = False,
     d_dialog = False, d_mv = 0, vol_cur_type = SOURCE_VOLTAGE\<rparr>"

definition ent :: "dial \<Rightarrow> int \<Rightarrow> int" where
  "ent d i = (if i = - 1 then screenHeight d else dialEntries d ! nat i)"

definition put :: "int \<Rightarrow> int \<Rightarrow> dial \<Rightarrow> dial" where
  "put i x d = (if i = - 1 then d\<lparr>screenHeight := x\<rparr> else d\<lparr>dialEntries := (dialEntries d)[nat i := x]\<rparr>)"

definition push_entry :: "int \<Rightarrow> dial \<Rightarrow> dial" where
  "push_entry x d = (put (digits d) x d)\<lparr>digits := digits d + 1\<rparr>"

definition strncpy :: "string \<Rightarrow> string \<Rightarrow> nat \<Rightarrow> string" where
  "strncpy dst src n = take n (src @ replicate n (CHR 0x00)) @ drop n dst"

fun strncmp_eq :: "string \<Rightarrow> string \<Rightarrow> nat \<Rightarrow> bool" where
  "strncmp_eq _ _ 0 = True"
| "strncmp_eq a b (Suc n) =
     (let x = (case a of [] \<Rightarrow> CHR 0x00 | c # _ \<Rightarrow> c); y = (case b of [] \<Rightarrow> CHR 0x00 | c # _ \<Rightarrow> c)
      in x = y \<and> (x = CHR 0x00 \<or> strncmp_eq (tl a) (tl b) n))"

definition set_decade :: "string \<Rightarrow> dial \<Rightarrow> dial" where
  "set_decade s d = d\<lparr>voltDecade := strncpy (voltDecade d) s 2\<rparr>"

section \<open>Opening and closing\<close>

definition dial_close :: "dial \<Rightarrow> dial" where "dial_close d = d\<lparr>d_dialog := False\<rparr>"

definition dial_clear :: "dial \<Rightarrow> dial" where
  "dial_clear d = set_decade (if vol_cur_type d = SOURCE_VOLTAGE then ''V'' else ''mV'')
     (d\<lparr>d_error := False, d_warning := False, digits := 0\<rparr>)"

definition dial_init :: "dial \<Rightarrow> dial" where
  "dial_init d = dial_clear (d\<lparr>d_negative := False, d_mv := 0\<rparr>)"

definition getMv :: "dial \<Rightarrow> f32" where
  "getMv d = conv (if d_negative d then - d_mv d else d_mv d)"

definition digits_before_comma :: "f32 \<Rightarrow> nat" where
  "digits_before_comma m = (if m > of_i 9999 then 5 else if m > of_i 999 then 4 else if m > of_i 99 then 3 else if m > of_i 9 then 2 else 1)"

definition show_digits :: "string \<Rightarrow> dial \<Rightarrow> dial" where
  "show_digits cs d = fold (\<lambda>c d. if c \<noteq> CHR '' '' \<and> c \<noteq> CHR ''-''
     then push_entry (if c = CHR ''.'' then KEYBOARD_COMMA else int (of_char c) - int (of_char (CHR ''0''))) d else d) cs (d\<lparr>digits := 0\<rparr>)"

text \<open>\<open>dtostrf\<close> is the library's conversion: value, width, decimals.\<close>

definition setMv :: "(f64 \<Rightarrow> nat \<Rightarrow> nat \<Rightarrow> string) \<Rightarrow> f32 \<Rightarrow> dial \<Rightarrow> dial" where
  "setMv dtostrf m0 d =
     (let m = \<bar>m0\<bar>; n = digits_before_comma m
      in set_decade ''mV'' (show_digits (take (n + 3) (dtostrf (conv m) (n + 2) 4)) (d\<lparr>d_negative := m0 < 0\<rparr>)))"

definition dial_open :: "(f64 \<Rightarrow> nat \<Rightarrow> nat \<Rightarrow> string) \<Rightarrow> OPERATION_TYPE \<Rightarrow> int \<Rightarrow> int \<Rightarrow> dial \<Rightarrow> dial" where
  "dial_open dtostrf type sl micro d =
     setMv dtostrf (conv (of_i micro / of_i 1000 :: f64)) (d\<lparr>vol_cur_type := type, set_or_limit := sl, d_dialog := True\<rparr>)"

section \<open>Keys\<close>

definition comma_at :: "dial \<Rightarrow> int option" where
  "comma_at d = List.find (\<lambda>i. ent d i = KEYBOARD_COMMA) [0..digits d - 1]"

definition times10 :: "dial \<Rightarrow> dial" where
  "times10 d = (case comma_at d of None \<Rightarrow> d
     | Some i \<Rightarrow> (let d1 = put i (ent d (i + 1)) d
        in if i < digits d - 2 then put (i + 1) KEYBOARD_COMMA d1 else d1\<lparr>digits := digits d - 1\<rparr>))"

definition shift_entries :: "dial \<Rightarrow> dial" where
  "shift_entries d = fold (\<lambda>j d. put j (ent d (j - 1)) d) (rev [0..digits d]) d"

definition divide10 :: "dial \<Rightarrow> dial" where
  "divide10 d = (case comma_at d of
       None \<Rightarrow> (put (digits d - 1) KEYBOARD_COMMA (put (digits d) (ent d (digits d - 1)) d))\<lparr>digits := digits d + 1\<rparr>
     | Some i \<Rightarrow> (let d1 = put (i - 1) KEYBOARD_COMMA (put i (ent d (i - 1)) d);
                      d2 = (if 1 < i then d1 else put 0 0 (shift_entries (d1\<lparr>digits := digits d + 1\<rparr>)))
         in if digits d2 > i + 2 then d2\<lparr>digits := digits d2 - 1\<rparr> else d2))"

definition maxDigits :: int where "maxDigits = 7"

definition enter_key :: "int \<Rightarrow> dial \<Rightarrow> dial" where
  "enter_key tag d =
     (let d = (if tag = KEYBOARD_TIMES10 then times10 d else d);
          d = (if tag = KEYBOARD_DIVIDE10 then divide10 d else d);
          d = (if digits d = 0 \<and> tag = KEYBOARD_COMMA then push_entry 0 d else d);
          d = (if tag = KEYBOARD_BACK \<and> 0 < digits d then d\<lparr>digits := digits d - 1\<rparr> else d);
          d = (if tag = KEYBOARD_COMMA \<and> comma_at d = None then push_entry tag d else d);
          d = (if KEYBOARD_1 \<le> tag \<and> tag \<le> KEYBOARD_9 \<and> digits d < maxDigits then push_entry tag d else d);
          d = (if tag = KEYBOARD_0 \<and> digits d < maxDigits then push_entry 0 d else d);
          d = (if tag = KEYBOARD_UV then set_decade ''uV'' d else d);
          d = (if tag = KEYBOARD_MV then set_decade ''mV'' d else d);
          d = (if tag = KEYBOARD_V then set_decade ''V'' d else d);
          d = (if tag = KEYBOARD_CLR then d\<lparr>digits := 0\<rparr> else d)
      in if set_or_limit d = DIAL_SET \<and> tag = KEYBOARD_PLUSMINUS then d\<lparr>d_negative := \<not> d_negative d\<rparr> else d)"

text \<open>The call of \<open>closedFn\<close>, if any, is its \<open>cancel\<close> argument.\<close>

definition checkKeypress :: "int \<Rightarrow> dial \<Rightarrow> bool option \<times> dial" where
  "checkKeypress tag d =
     (let (ev, d) = (if tag = KEYBOARD_CANCEL \<and> d_dialog d then (Some True, d\<lparr>d_dialog := False\<rparr>)
                     else if tag = KEYBOARD_OK \<and> d_dialog d \<and> \<not> d_error d then (Some False, d\<lparr>d_dialog := False\<rparr>)
                     else (None, d));
          d = (if tag \<noteq> 0 \<and> keydepressed d then enter_key tag (d\<lparr>keydepressed := False\<rparr>) else d)
      in (ev, if tag = 0 then d\<lparr>keydepressed := True\<rparr> else d))"

section \<open>The value and its validation\<close>

function to_mv :: "dial \<Rightarrow> int \<Rightarrow> int \<Rightarrow> f64 \<Rightarrow> f64" where
  "to_mv d i dec acc =
     (if digits d \<le> i then acc
      else let c = (ent d i = KEYBOARD_COMMA); i = (if c then i + 1 else i); dec = (if c then 1 else dec); e = of_i (ent d i)
           in if dec = 0 then to_mv d (i + 1) dec (if feq acc 0 then e else acc * of_i 10 + e)
              else to_mv d (i + 1) (dec + 1) (acc + e / of_i (10 ^ nat dec)))"
  by pat_completeness auto
termination by (relation "measure (\<lambda>(d, i, _). nat (digits d - i))") auto

declare to_mv.simps [simp del]

definition toMv :: "dial \<Rightarrow> f64" where
  "toMv d = (let sum = to_mv d 0 0 0;
                 sum = (if strncmp_eq (voltDecade d) ''V'' 1 then sum * of_i 1000 else sum)
             in if strncmp_eq (voltDecade d) ''uV'' 2 then sum / of_i 1000 else sum)"

definition showError :: "dial \<Rightarrow> dial" where "showError d = d\<lparr>d_error := True\<rparr>"
definition showWarning :: "dial \<Rightarrow> dial" where "showWarning d = d\<lparr>d_warning := True\<rparr>"
definition accept_value :: "dial \<Rightarrow> dial" where "accept_value d = d\<lparr>d_error := False, d_warning := False\<rparr>"

definition validateVoltage :: "f64 \<Rightarrow> int \<Rightarrow> int \<Rightarrow> int \<Rightarrow> dial \<Rightarrow> dial" where
  "validateVoltage m number decimal decs d =
     (if digits d < 1 then showWarning d
      else if decs = 0 then showWarning d
      else if strncmp_eq (voltDecade d) ''V'' 1 then
        (if \<bar>m\<bar> > of_i 30000 then showError d else if decs > 4 then showError d else accept_value d)
      else if strncmp_eq (voltDecade d) ''mV'' 2 then
        (if \<bar>m\<bar> > of_i 30000 then showError d else if decs > 2 then showError d else accept_value d)
      else if strncmp_eq (voltDecade d) ''uV'' 2 then
        (if number > 999 then showError d else if decimal < 100 then showError d
         else if decs > 0 then showError d else accept_value d)
      else accept_value d)"

definition validateVoltageLimit :: "f64 \<Rightarrow> int \<Rightarrow> int \<Rightarrow> int \<Rightarrow> dial \<Rightarrow> dial" where
  "validateVoltageLimit m number decimal decs d =
     (if digits d < 1 then showWarning d
      else if decs = 0 then showWarning d
      else if strncmp_eq (voltDecade d) ''V'' 1 then
        (if \<bar>m\<bar> > of_i 30000 then showError d else if decs > 4 then showError d else accept_value d)
      else if strncmp_eq (voltDecade d) ''mV'' 2 then
        (if \<bar>m\<bar> > of_i 30000 then showError d else if decs > 2 then showError d else accept_value d)
      else if strncmp_eq (voltDecade d) ''uV'' 2 then
        (if number > 999 then showError d else if decimal < 100 then showError d
         else if decs > 0 then showError d else accept_value d)
      else accept_value d)"

definition validateCurrent :: "f64 \<Rightarrow> int \<Rightarrow> int \<Rightarrow> int \<Rightarrow> dial \<Rightarrow> dial" where
  "validateCurrent m number decimal decs d =
     (if digits d < 1 then showWarning d
      else if decs = 0 then showWarning d
      else if strncmp_eq (voltDecade d) ''V'' 1 then
        (if \<bar>m\<bar> > conv max_current_1A_range then showError d else if decs > 4 then showError d else accept_value d)
      else if strncmp_eq (voltDecade d) ''mV'' 2 then
        (if \<bar>m\<bar> > conv max_current_1A_range then showError d
         else if decs > 4 \<and> m < of_i 10 then showError d
         else if decs > 2 \<and> m > of_i 10 then showError d else accept_value d)
      else if strncmp_eq (voltDecade d) ''uV'' 2 then
        (if number > 999 then showError d else if decs > 1 then showError d else accept_value d)
      else accept_value d)"

definition validateCurrentLimit :: "f64 \<Rightarrow> int \<Rightarrow> int \<Rightarrow> int \<Rightarrow> dial \<Rightarrow> dial" where
  "validateCurrentLimit m number decimal decs d =
     (if digits d < 1 then showWarning d
      else if decs = 0 then showWarning d
      else if strncmp_eq (voltDecade d) ''V'' 1 then
        (if \<bar>m\<bar> > conv max_current_1A_range then showError d else if decs > 4 then showError d else accept_value d)
      else if strncmp_eq (voltDecade d) ''mV'' 2 then
        (if \<bar>m\<bar> > conv max_current_1A_range then showError d else if decs > 2 then showError d else accept_value d)
      else if strncmp_eq (voltDecade d) ''uV'' 2 then
        (if number > 999 then showError d else if decs > 1 then showError d else accept_value d)
      else accept_value d)"

text \<open>\<open>sprintf\<close> with three decimals rounds to thousandths; \<open>sscanf\<close> reads the two parts back.  \<open>buf\<close> has 13
  bytes, one for the terminator, so the whole part may have eight digits; beyond that the text is
  written past the buffer, which is the value None.  The value is never negative here.\<close>

definition thousandths :: "f64 \<Rightarrow> int" where "thousandths m = rne (val m * 1000)"

definition decimalsAfterComma :: "dial \<Rightarrow> int" where
  "decimalsAfterComma d = (case comma_at d of None \<Rightarrow> - 1 | Some i \<Rightarrow> digits d - 1 - i)"

definition validate :: "f64 \<Rightarrow> dial \<Rightarrow> dial option" where
  "validate m d =
     (let number = thousandths m div 1000; decimal = thousandths m mod 1000; decs = decimalsAfterComma d
      in if \<not> is_fin m \<or> 100000000 \<le> number then None
         else Some (if vol_cur_type d = SOURCE_VOLTAGE \<and> set_or_limit d = DIAL_SET then validateVoltage m number decimal decs d
           else if vol_cur_type d = SOURCE_CURRENT \<and> set_or_limit d = DIAL_SET then validateCurrent m number decimal decs d
           else if vol_cur_type d = SOURCE_VOLTAGE \<and> set_or_limit d = DIAL_LIMIT then validateCurrentLimit m number decimal decs d
           else if vol_cur_type d = SOURCE_CURRENT \<and> set_or_limit d = DIAL_LIMIT then validateVoltageLimit m number decimal decs d
           else d))"

definition handleKeypadDialog :: "dial \<Rightarrow> dial option" where
  "handleKeypadDialog d = (if \<not> d_dialog d then Some d else validate (toMv d) (d\<lparr>d_mv := toMv d\<rparr>))"

text \<open>\<open>renderKeypad\<close> offers the OK key only without error and warning.\<close>

definition ok_shown :: "dial \<Rightarrow> bool" where "ok_shown d = (\<not> d_error d \<and> \<not> d_warning d)"

end
