(* ===== verification/DialLaws.thy ===== *)
theory DialLaws
  imports Dial
begin

text \<open>
  What holds of the keypad of Dial: in every reachable state the entries stay inside the array and the unit is one of the
  three; what the dial offers to accept is in range; a typed whole number is read exactly.  The last section has the
  two inputs on which the code leaves its arrays.
\<close>

section \<open>The array stays in bounds\<close>

lemma put_simps [simp]: "digits (put i x d) = digits d" "length (dialEntries (put i x d)) = length (dialEntries d)"
    "voltDecade (put i x d) = voltDecade d" "d_dialog (put i x d) = d_dialog d" "set_or_limit (put i x d) = set_or_limit d"
    "vol_cur_type (put i x d) = vol_cur_type d" "d_negative (put i x d) = d_negative d"
  by (simp_all add: put_def)

lemma ent_update [simp]: "ent (d\<lparr>digits := n\<rparr>) = ent d" "ent (d\<lparr>voltDecade := v\<rparr>) = ent d" "ent (d\<lparr>d_negative := b\<rparr>) = ent d"
    "ent (d\<lparr>keydepressed := b\<rparr>) = ent d" "ent (d\<lparr>d_dialog := b\<rparr>) = ent d" "ent (d\<lparr>d_mv := m\<rparr>) = ent d"
    "ent (d\<lparr>d_error := b\<rparr>) = ent d" "ent (d\<lparr>d_warning := b\<rparr>) = ent d" "ent (d\<lparr>vol_cur_type := ty\<rparr>) = ent d" "ent (d\<lparr>set_or_limit := n\<rparr>) = ent d"
  by (simp_all add: ent_def fun_eq_iff)

lemma ent_put:
  assumes "length (dialEntries d) = 15" and "- 1 \<le> i" and "i < 15" and "- 1 \<le> j"
  shows "ent (put i x d) j = (if i = j then x else ent d j)"
  using assms by (auto simp: ent_def put_def nth_list_update)

lemma comma_at_Some: "comma_at d = Some i \<Longrightarrow> 0 \<le> i \<and> i < digits d \<and> ent d i = KEYBOARD_COMMA \<and> (\<forall>j. 0 \<le> j \<and> j < i \<longrightarrow> ent d j \<noteq> KEYBOARD_COMMA)"
proof -
  assume a: "comma_at d = Some i"
  then obtain k where k: "k < length [0..digits d - 1]" "ent d ([0..digits d - 1] ! k) = KEYBOARD_COMMA" "i = [0..digits d - 1] ! k"
      "\<And>l. l < k \<Longrightarrow> ent d ([0..digits d - 1] ! l) \<noteq> KEYBOARD_COMMA"
    unfolding comma_at_def find_Some_iff by blast
  have "i = int k" "int k < digits d" using k(1,3) by simp_all
  moreover have "ent d j \<noteq> KEYBOARD_COMMA" if "0 \<le> j" "j < i" for j
    using k(4) [of "nat j"] that calculation by simp
  ultimately show ?thesis using k(2,3) by simp
qed

lemma comma_at_None: "comma_at d = None \<Longrightarrow> 0 \<le> i \<Longrightarrow> i < digits d \<Longrightarrow> ent d i \<noteq> KEYBOARD_COMMA"
  by (simp add: comma_at_def find_None_iff)

definition entries_inv :: "dial \<Rightarrow> bool" where
  "entries_inv d \<longleftrightarrow> length (dialEntries d) = 15 \<and> 0 \<le> digits d \<and> digits d \<le> 9
     \<and> (\<forall>i. - 1 \<le> i \<and> i < 15 \<longrightarrow> 0 \<le> ent d i)
     \<and> (digits d = 9 \<longrightarrow> ent d 0 \<noteq> KEYBOARD_COMMA \<and> (\<exists>i. 0 < i \<and> i < 9 \<and> ent d i = KEYBOARD_COMMA))"

lemma shift_list:
  assumes "length (dialEntries d) = 15" and "n \<le> 13"
  shows "length (dialEntries (fold (\<lambda>j d. put j (ent d (j - 1)) d) (rev (map int [0..<n])) d)) = 15
    \<and> (\<forall>j. - 1 \<le> j \<longrightarrow> ent (fold (\<lambda>j d. put j (ent d (j - 1)) d) (rev (map int [0..<n])) d) j = (if 0 \<le> j \<and> j < int n then ent d (j - 1) else ent d j))
    \<and> digits (fold (\<lambda>j d. put j (ent d (j - 1)) d) (rev (map int [0..<n])) d) = digits d"
  using assms
proof (induction n arbitrary: d)
  case (Suc n)
  have "length (dialEntries (put (int n) (ent d (int n - 1)) d)) = 15" using Suc.prems by simp
  from Suc.IH [OF this] Suc.prems show ?case by (auto simp: ent_put) (rule arg_cong [of _ _ "ent d"], simp)
qed simp

lemma upto_int: "0 \<le> n \<Longrightarrow> [0..n] = map int [0..<nat n + 1]"
  by (rule nth_equalityI) (auto simp del: upt_Suc)

lemma shift_ent:
  assumes "length (dialEntries d) = 15" and "0 \<le> digits d" and "digits d \<le> 12"
  shows "length (dialEntries (shift_entries d)) = 15" and "digits (shift_entries d) = digits d"
    and "- 1 \<le> j \<Longrightarrow> ent (shift_entries d) j = (if 0 \<le> j \<and> j \<le> digits d then ent d (j - 1) else ent d j)"
  using shift_list [OF assms(1), of "nat (digits d) + 1"] assms(2,3) unfolding shift_entries_def upto_int [OF assms(2)]
  by (auto simp del: upt_Suc)

lemma nonneg_put: "length (dialEntries d) = 15 \<Longrightarrow> - 1 \<le> i \<Longrightarrow> i < 15 \<Longrightarrow> 0 \<le> x \<Longrightarrow> (\<forall>i. - 1 \<le> i \<and> i < 15 \<longrightarrow> 0 \<le> ent d i) \<Longrightarrow>
    (\<forall>j. - 1 \<le> j \<and> j < 15 \<longrightarrow> 0 \<le> ent (put i x d) j)"
  by (auto simp: ent_put)

lemma comma_pos [simp]: "0 \<le> KEYBOARD_COMMA" by (simp add: KEYBOARD_COMMA_def)

lemma push_inv:
  assumes "entries_inv d" and "digits d \<le> 7 \<or> digits d = 8 \<and> x = KEYBOARD_COMMA \<and> comma_at d = None" and "0 \<le> x"
  shows "entries_inv (push_entry x d)"
  using assms comma_at_None [of d 0]
  by (auto simp: entries_inv_def push_entry_def ent_put intro!: exI [of _ "8::int"])

lemma no_comma_le8: assumes "entries_inv d" "comma_at d = None" shows "digits d \<le> 8"
proof -
  have "digits d \<noteq> 9" using assms(1) comma_at_None [OF assms(2)] by (auto simp: entries_inv_def)
  then show ?thesis using assms(1) by (simp add: entries_inv_def)
qed

lemma comma_push_inv: "entries_inv d \<Longrightarrow> comma_at d = None \<Longrightarrow> entries_inv (push_entry KEYBOARD_COMMA d)"
  using no_comma_le8 [of d] by (intro push_inv) auto

lemma times10_inv: "entries_inv d \<Longrightarrow> entries_inv (times10 d)"
proof (cases "comma_at d")
  case (Some i)
  assume a: "entries_inv d"
  note c = comma_at_Some [OF Some]
  have l: "length (dialEntries d) = 15" "digits d \<le> 9" and nn: "\<forall>i. - 1 \<le> i \<and> i < 15 \<longrightarrow> 0 \<le> ent d i" using a by (auto simp: entries_inv_def)
  have p: "ent (put i (ent d (i + 1)) d) j = (if i = j then ent d (i + 1) else ent d j)" if "- 1 \<le> j" for j
    using c l that by (intro ent_put) auto
  show ?thesis
  proof (cases "i < digits d - 2")
    case True
    have q: "ent (put (i + 1) KEYBOARD_COMMA (put i (ent d (i + 1)) d)) j = (if i + 1 = j then KEYBOARD_COMMA else if i = j then ent d (i + 1) else ent d j)"
      if "- 1 \<le> j" for j using p [OF that] c l that True by (subst ent_put) auto
    have "ent (put (i + 1) KEYBOARD_COMMA (put i (ent d (i + 1)) d)) 0 \<noteq> KEYBOARD_COMMA" if "digits d = 9"
    proof -
      have "0 < i" using a c that by (cases "i = 0") (auto simp: entries_inv_def)
      then show ?thesis using q [of 0] a that by (auto simp: entries_inv_def)
    qed
    then show ?thesis using True a c l nn q by (auto simp: times10_def Some entries_inv_def Let_def intro!: exI [of _ "i + 1"])
  next
    case False
    then show ?thesis using a c l nn p by (auto simp: times10_def Some entries_inv_def Let_def)
  qed
qed (simp add: times10_def)

lemma divide10_inv: "entries_inv d \<Longrightarrow> entries_inv (divide10 d)"
proof (cases "comma_at d")
  case None
  assume a: "entries_inv d"
  have l: "length (dialEntries d) = 15" "0 \<le> digits d" "digits d \<le> 8" and nn: "\<forall>i. - 1 \<le> i \<and> i < 15 \<longrightarrow> 0 \<le> ent d i"
    using a no_comma_le8 [OF a None] by (auto simp: entries_inv_def)
  have "ent d 0 \<noteq> KEYBOARD_COMMA" if "digits d = 8" using comma_at_None [OF None, of 0] that by simp
  then show ?thesis using l nn by (auto simp: divide10_def None entries_inv_def ent_put intro!: exI [of _ "7::int"])
next
  case (Some i)
  assume a: "entries_inv d"
  note c = comma_at_Some [OF Some]
  have l: "length (dialEntries d) = 15" "digits d \<le> 9" and nn: "\<forall>i. - 1 \<le> i \<and> i < 15 \<longrightarrow> 0 \<le> ent d i" using a by (auto simp: entries_inv_def)
  define d1 where "d1 = put (i - 1) KEYBOARD_COMMA (put i (ent d (i - 1)) d)"
  have d1: "length (dialEntries d1) = 15" "digits d1 = digits d" using l by (simp_all add: d1_def)
  have p: "ent d1 j = (if i - 1 = j then KEYBOARD_COMMA else if i = j then ent d (i - 1) else ent d j)" if "- 1 \<le> j" for j
    using c l that unfolding d1_def by (subst ent_put; simp add: ent_put)
  have nn1: "0 \<le> ent d1 j" if "- 1 \<le> j" "j < 15" for j using p [of j] nn that c l by auto
  show ?thesis
  proof (cases "1 < i")
    case True
    have "ent d 0 \<noteq> KEYBOARD_COMMA" using True c by auto
    moreover have "digits d = 9 \<Longrightarrow> 0 < i - 1 \<and> i - 1 < 9 \<and> ent d1 (i - 1) = KEYBOARD_COMMA" using True c p [of "i - 1"] by auto
    ultimately show ?thesis using True d1 c l nn1 p [of 0] by (auto simp: divide10_def Some d1_def [symmetric] entries_inv_def)
  next
    case False
    define d2 where "d2 = put 0 0 (shift_entries (d1\<lparr>digits := digits d + 1\<rparr>))"
    have s: "length (dialEntries (shift_entries (d1\<lparr>digits := digits d + 1\<rparr>))) = 15" "digits (shift_entries (d1\<lparr>digits := digits d + 1\<rparr>)) = digits d + 1"
      using shift_ent(1,2) [of "d1\<lparr>digits := digits d + 1\<rparr>"] d1 c l by auto
    have q: "ent d2 j = (if 0 = j then 0 else if 0 \<le> j \<and> j \<le> digits d + 1 then ent d1 (j - 1) else ent d1 j)" if "- 1 \<le> j" for j
      using shift_ent(3) [of "d1\<lparr>digits := digits d + 1\<rparr>" j] d1 c l that s unfolding d2_def by (subst ent_put) auto
    have d2: "length (dialEntries d2) = 15" "digits d2 = digits d + 1" using s by (simp_all add: d2_def)
    have nn2: "0 \<le> ent d2 j" if "- 1 \<le> j" "j < 15" for j using q [of j] nn1 [of j] nn1 [of "j - 1"] that by auto
    have "i = 0 \<Longrightarrow> digits d \<le> 8" using a c by (auto simp: entries_inv_def)
    moreover have "i = 1 \<Longrightarrow> ent d2 1 = KEYBOARD_COMMA" using q [of 1] p [of 0] c by auto
    moreover have "ent d2 0 \<noteq> KEYBOARD_COMMA" using q [of 0] by (simp add: KEYBOARD_COMMA_def)
    moreover have "i = 0 \<or> i = 1" using False c by auto
    ultimately show ?thesis using False d2 c l nn2 s(2)
      by (auto simp: divide10_def Some d1_def [symmetric] d2_def [symmetric] entries_inv_def intro!: exI [of _ "1::int"])
  qed
qed

text \<open>What an entry step leaves alone.\<close>

definition unit_V :: string where "unit_V = [CHR ''V'', CHR 0x00, CHR 0x00]"
definition unit_mV :: string where "unit_mV = [CHR ''m'', CHR ''V'', CHR 0x00]"
definition unit_uV :: string where "unit_uV = [CHR ''u'', CHR ''V'', CHR 0x00]"

definition decade_ok :: "string \<Rightarrow> bool" where
  "decade_ok s \<longleftrightarrow> s = unit_V \<or> s = unit_mV \<or> s = unit_uV"

lemma units: "drop 2 v = [CHR 0x00] \<Longrightarrow> strncpy v ''V'' 2 = unit_V" "drop 2 v = [CHR 0x00] \<Longrightarrow> strncpy v ''mV'' 2 = unit_mV"
    "drop 2 v = [CHR 0x00] \<Longrightarrow> strncpy v ''uV'' 2 = unit_uV"
  by (simp_all add: strncpy_def unit_V_def unit_mV_def unit_uV_def numeral_2_eq_2)

lemma decade_drop: "decade_ok v \<Longrightarrow> drop 2 v = [CHR 0x00]"
  unfolding decade_ok_def by (elim disjE) (simp_all only: unit_V_def unit_mV_def unit_uV_def drop_Suc_Cons drop_0 numeral_2_eq_2)

definition mode_of :: "dial \<Rightarrow> bool \<times> int \<times> OPERATION_TYPE" where "mode_of d = (d_dialog d, set_or_limit d, vol_cur_type d)"

lemma set_decade_simps [simp]: "ent (set_decade s d) = ent d" "digits (set_decade s d) = digits d"
    "dialEntries (set_decade s d) = dialEntries d" "mode_of (set_decade s d) = mode_of d"
  by (simp_all add: set_decade_def mode_of_def)

lemma mode_of_update [simp]: "mode_of (put i x d) = mode_of d" "mode_of (d\<lparr>digits := n\<rparr>) = mode_of d" "mode_of (push_entry x d) = mode_of d"
    "mode_of (d\<lparr>d_negative := b\<rparr>) = mode_of d" "mode_of (d\<lparr>keydepressed := b\<rparr>) = mode_of d"
  by (simp_all add: mode_of_def push_entry_def)

lemma entry_decade [simp]: "voltDecade (push_entry x d) = voltDecade d" "voltDecade (times10 d) = voltDecade d"
    "voltDecade (divide10 d) = voltDecade d" and entry_mode [simp]: "mode_of (times10 d) = mode_of d" "mode_of (divide10 d) = mode_of d"
proof -
  have f: "voltDecade (fold (\<lambda>j d. put j (ent d (j - 1)) d) js d) = voltDecade d \<and> mode_of (fold (\<lambda>j d. put j (ent d (j - 1)) d) js d) = mode_of d" for js d
    by (induction js arbitrary: d) simp_all
  show "voltDecade (push_entry x d) = voltDecade d" by (simp add: push_entry_def)
  show "voltDecade (times10 d) = voltDecade d" "mode_of (times10 d) = mode_of d" by (simp_all add: times10_def Let_def split: option.split)
  show "voltDecade (divide10 d) = voltDecade d" "mode_of (divide10 d) = mode_of d"
    by (simp_all add: divide10_def shift_entries_def f Let_def split: option.split)
qed

lemma entries_inv_fewer: "entries_inv d \<Longrightarrow> 0 \<le> n \<Longrightarrow> n < digits d \<or> n = 0 \<Longrightarrow> entries_inv (d\<lparr>digits := n\<rparr>)"
  by (auto simp: entries_inv_def)

lemma entries_inv_updates [simp]: "entries_inv (set_decade s d) = entries_inv d" "entries_inv (d\<lparr>d_negative := b\<rparr>) = entries_inv d"
    "entries_inv (d\<lparr>keydepressed := b\<rparr>) = entries_inv d" "entries_inv (d\<lparr>d_dialog := b\<rparr>) = entries_inv d"
    "entries_inv (d\<lparr>d_mv := m\<rparr>) = entries_inv d" "entries_inv (d\<lparr>d_error := b\<rparr>) = entries_inv d"
    "entries_inv (d\<lparr>d_warning := b\<rparr>) = entries_inv d" "entries_inv (d\<lparr>vol_cur_type := ty\<rparr>) = entries_inv d"
    "entries_inv (d\<lparr>set_or_limit := n\<rparr>) = entries_inv d"
  by (simp_all add: entries_inv_def set_decade_def)

lemma set_decade_ok: "drop 2 (voltDecade d) = [CHR 0x00] \<Longrightarrow> s = ''V'' \<or> s = ''mV'' \<or> s = ''uV'' \<Longrightarrow> decade_ok (voltDecade (set_decade s d))"
  unfolding decade_ok_def set_decade_def by (elim disjE) (simp_all add: units)

text \<open>Each key does one thing.\<close>

lemmas key_codes = KEYBOARD_1_def KEYBOARD_9_def KEYBOARD_0_def KEYBOARD_COMMA_def KEYBOARD_UV_def KEYBOARD_MV_def KEYBOARD_V_def
  KEYBOARD_BACK_def KEYBOARD_CLR_def KEYBOARD_PLUSMINUS_def KEYBOARD_DIVIDE10_def KEYBOARD_TIMES10_def KEYBOARD_OK_def KEYBOARD_CANCEL_def

lemma enter_key_comma: "enter_key KEYBOARD_COMMA d =
    (let d = (if digits d = 0 then push_entry 0 d else d) in if comma_at d = None then push_entry KEYBOARD_COMMA d else d)"
  by (simp add: enter_key_def key_codes maxDigits_def) (simp add: Let_def key_codes)

lemma enter_key_none: assumes "tag < 1 \<or> 19 < tag" shows "enter_key tag d = d"
  using assms by (elim disjE) (simp_all add: enter_key_def key_codes maxDigits_def)

lemma enter_key_simps:
  "enter_key KEYBOARD_TIMES10 d = times10 d"
  "enter_key KEYBOARD_DIVIDE10 d = divide10 d"
  "enter_key KEYBOARD_BACK d = (if 0 < digits d then d\<lparr>digits := digits d - 1\<rparr> else d)"
  "1 \<le> tag \<Longrightarrow> tag \<le> 9 \<Longrightarrow> enter_key tag d = (if digits d < 7 then push_entry tag d else d)"
  "enter_key KEYBOARD_0 d = (if digits d < 7 then push_entry 0 d else d)"
  "enter_key KEYBOARD_UV d = set_decade ''uV'' d"
  "enter_key KEYBOARD_MV d = set_decade ''mV'' d"
  "enter_key KEYBOARD_V d = set_decade ''V'' d"
  "enter_key KEYBOARD_CLR d = d\<lparr>digits := 0\<rparr>"
  "enter_key KEYBOARD_PLUSMINUS d = (if set_or_limit d = DIAL_SET then d\<lparr>d_negative := \<not> d_negative d\<rparr> else d)"
  by (simp_all add: enter_key_def key_codes maxDigits_def)

definition dial_ok :: "bool \<times> int \<times> OPERATION_TYPE \<Rightarrow> dial \<Rightarrow> bool" where
  "dial_ok m d \<longleftrightarrow> entries_inv d \<and> decade_ok (voltDecade d) \<and> mode_of d = m"

lemma tag_cases: "(tag < 1 \<or> 19 < tag) \<or> 1 \<le> tag \<and> tag \<le> 9 \<or> tag = KEYBOARD_0 \<or> tag = KEYBOARD_COMMA \<or> tag = KEYBOARD_UV
    \<or> tag = KEYBOARD_MV \<or> tag = KEYBOARD_V \<or> tag = KEYBOARD_BACK \<or> tag = KEYBOARD_CLR \<or> tag = KEYBOARD_PLUSMINUS
    \<or> tag = KEYBOARD_DIVIDE10 \<or> tag = KEYBOARD_TIMES10"
  unfolding key_codes by arith

lemma enter_key_ok:
  assumes d: "dial_ok m d"
  shows "dial_ok m (enter_key tag d)"
proof -
  have push: "dial_ok m (push_entry x d)" if "dial_ok m d" "digits d < 7" "0 \<le> x" for x d
    using that push_inv [of d x] by (auto simp: dial_ok_def)
  have comma: "dial_ok m (push_entry KEYBOARD_COMMA d)" if "dial_ok m d" "comma_at d = None" for d
    using that comma_push_inv [of d] by (auto simp: dial_ok_def)
  have deca: "dial_ok m (set_decade s d)" if "s = ''V'' \<or> s = ''mV'' \<or> s = ''uV''" for s
    using d that set_decade_ok [of d s] decade_drop by (auto simp only: dial_ok_def entries_inv_updates set_decade_simps)
  have zero: "dial_ok m (if digits d = 0 then push_entry 0 d else d)" using push [OF d, of 0] d by simp
  have fewer: "dial_ok m (d\<lparr>digits := n\<rparr>)" if "0 \<le> n" "n < digits d \<or> n = 0" for n
    using that d entries_inv_fewer [of d n] by (simp add: dial_ok_def)
  have ten: "dial_ok m (times10 d)" "dial_ok m (divide10 d)" using d by (simp_all add: dial_ok_def times10_inv divide10_inv)
  consider "tag < 1 \<or> 19 < tag" | "1 \<le> tag" "tag \<le> 9" | "tag = KEYBOARD_0" | "tag = KEYBOARD_COMMA" | "tag = KEYBOARD_UV"
    | "tag = KEYBOARD_MV" | "tag = KEYBOARD_V" | "tag = KEYBOARD_BACK" | "tag = KEYBOARD_CLR" | "tag = KEYBOARD_PLUSMINUS"
    | "tag = KEYBOARD_DIVIDE10" | "tag = KEYBOARD_TIMES10" using tag_cases [of tag] by blast
  then show ?thesis
  proof cases
    case 4
    then show ?thesis using comma [OF zero] zero by (simp add: enter_key_comma Let_def)
  next
    case 10
    then show ?thesis using d by (simp add: enter_key_simps dial_ok_def)
  qed (use d push [OF d] deca fewer ten in \<open>simp_all add: enter_key_simps enter_key_none\<close>)
qed

section \<open>The value is never negative\<close>

lemma zero_le_cases: "(0 \<le> (x :: ('p::len) flt)) = (x = Inf False \<or> is_fin x \<and> 0 \<le> val x)"
  by (cases x) (auto simp: less_eq_flt_def zero_flt_def)

lemma rnd_nonneg: "0 \<le> q \<Longrightarrow> 0 \<le> (rnd z q :: ('p::len) flt)"
proof -
  assume "0 \<le> q"
  then have "0 \<le> rndq (prec_of TYPE('p flt)) (emin_of TYPE('p flt)) q" by (rule rndq_nonneg)
  then show ?thesis by (auto simp: zero_le_cases rnd_def Let_def)
qed

lemma add_nonneg: "0 \<le> a \<Longrightarrow> 0 \<le> b \<Longrightarrow> 0 \<le> a + (b :: ('p::len) flt)"
  by (cases "is_fin a"; cases "is_fin b") (auto simp: zero_le_cases [of a] zero_le_cases [of b] fin_add rnd_nonneg, auto simp: zero_le_cases plus_flt_def fadd_def zero_flt_def)

lemma mult_pos_nonneg: "0 \<le> a \<Longrightarrow> is_fin c \<Longrightarrow> 0 < val c \<Longrightarrow> 0 \<le> a * (c :: ('p::len) flt)"
  by (cases "is_fin a") (auto simp: zero_le_cases [of a] fin_mult rnd_nonneg, cases c, auto simp: zero_le_cases times_flt_def fmul_def zero_flt_def)

lemma div_pos_nonneg: "0 \<le> a \<Longrightarrow> is_fin c \<Longrightarrow> 0 < val c \<Longrightarrow> 0 \<le> a / (c :: ('p::len) flt)"
  by (cases "is_fin a") (auto simp: zero_le_cases [of a] fin_div rnd_nonneg, cases c, auto simp: zero_le_cases divide_flt_def fdiv_def zero_flt_def)

lemma of_i_nonneg: "0 \<le> n \<Longrightarrow> 0 \<le> (of_i n :: ('p::len) flt)"
  by (simp add: of_i_def rnd_nonneg)

lemma ten_pow: "n \<le> 15 \<Longrightarrow> is_fin (of_i (10 ^ n) :: f64) \<and> 0 < val (of_i (10 ^ n) :: f64)"
proof -
  assume "n \<le> 15"
  then have "(10::int) ^ n \<le> 10 ^ 15" by (intro power_increasing) simp_all
  then have "\<bar>(10::int) ^ n\<bar> \<le> 9007199254740992" by simp
  then show ?thesis by (simp add: of_i_exact(3,4))
qed

lemma to_mv_nonneg:
  "0 \<le> acc \<Longrightarrow> entries_inv d \<Longrightarrow> 0 \<le> dec \<Longrightarrow> dec \<le> i \<Longrightarrow> 0 \<le> to_mv d i dec acc"
proof (induction d i dec acc rule: to_mv.induct)
  case (1 d i dec acc)
  define j where "j = (if ent d i = KEYBOARD_COMMA then i + 1 else i)"
  define k where "k = (if ent d i = KEYBOARD_COMMA then 1 else dec)"
  note IH = "1.IH" [of "ent d i = KEYBOARD_COMMA" j k "of_i (ent d j)", OF _ refl j_def k_def refl]
  show ?case
  proof (cases "digits d \<le> i")
    case False
    have i: "0 \<le> i" "i < 9" using "1.prems" False by (auto simp: entries_inv_def)
    then have j: "0 \<le> j" "j \<le> 9" "k \<le> j" "0 \<le> k" using "1.prems" by (auto simp: j_def k_def)
    have e: "0 \<le> (of_i (ent d j) :: f64)" using "1.prems"(2) j by (intro of_i_nonneg) (auto simp: entries_inv_def)
    have p: "is_fin (of_i 10 :: f64)" "0 < val (of_i 10 :: f64)" by simp_all
    have t: "is_fin (of_i (10 ^ nat k) :: f64)" "0 < val (of_i (10 ^ nat k) :: f64)" using ten_pow [of "nat k"] j by auto
    have m: "0 \<le> acc * of_i 10" using mult_pos_nonneg [OF "1.prems"(1) p] .
    have s: "to_mv d i dec acc = (if k = 0 then to_mv d (j + 1) k (if feq acc 0 then of_i (ent d j) else acc * of_i 10 + of_i (ent d j))
        else to_mv d (j + 1) (k + 1) (acc + of_i (ent d j) / of_i (10 ^ nat k)))"
      using False by (subst to_mv.simps) (simp add: Let_def j_def k_def)
    show ?thesis unfolding s using IH [OF False] "1.prems" j e add_nonneg [OF m e] add_nonneg [OF "1.prems"(1) div_pos_nonneg [OF e t]]
      by auto
  qed (use "1.prems" in \<open>simp add: to_mv.simps\<close>)
qed

lemma toMv_nonneg: "entries_inv d \<Longrightarrow> 0 \<le> toMv d"
proof -
  assume a: "entries_inv d"
  have "0 \<le> to_mv d 0 0 0" by (rule to_mv_nonneg [OF _ a]) (simp_all add: less_eq_flt_def zero_flt_def)
  then show ?thesis unfolding toMv_def Let_def
    using mult_pos_nonneg [of _ "of_i 1000 :: f64"] div_pos_nonneg [of _ "of_i 1000 :: f64"] by (simp del: strncmp_eq.simps One_nat_def)
qed

section \<open>Reachable states\<close>

text \<open>The characters the number formatting of the board's library writes.\<close>

definition dtostrf_text :: "(f64 \<Rightarrow> nat \<Rightarrow> nat \<Rightarrow> string) \<Rightarrow> bool" where
  "dtostrf_text F \<longleftrightarrow> (\<forall>v w p. is_fin v \<longrightarrow> set (F v w p) \<subseteq> set '' -.0123456789'')"

inductive dial_reach :: "(f64 \<Rightarrow> nat \<Rightarrow> nat \<Rightarrow> string) \<Rightarrow> dial \<Rightarrow> bool" for F where
  start: "dial_reach F (dial_init dial_initial)"
| opened: "dial_reach F d \<Longrightarrow> sl = DIAL_SET \<or> sl = DIAL_LIMIT \<Longrightarrow> \<bar>micro\<bar> < 2 ^ 63 \<Longrightarrow> dial_reach F (dial_open F ty sl micro d)"
| turned: "dial_reach F d \<Longrightarrow> \<bar>micro\<bar> < 2 ^ 63 \<Longrightarrow> dial_reach F (setMv F (conv (of_i micro / of_i 1000 :: f64)) d)"
| closed: "dial_reach F d \<Longrightarrow> dial_reach F (dial_close d)"
| key: "dial_reach F d \<Longrightarrow> dial_reach F (snd (checkKeypress tag d))"
| frame: "dial_reach F d \<Longrightarrow> handleKeypadDialog d = Some d' \<Longrightarrow> dial_reach F d'"

definition dial_inv :: "dial \<Rightarrow> bool" where
  "dial_inv d \<longleftrightarrow> entries_inv d \<and> decade_ok (voltDecade d) \<and> (d_dialog d \<longrightarrow> set_or_limit d = DIAL_SET \<or> set_or_limit d = DIAL_LIMIT)"

lemma dial_ok_inv: "dial_inv d = (dial_ok (mode_of d) d \<and> (d_dialog d \<longrightarrow> set_or_limit d = DIAL_SET \<or> set_or_limit d = DIAL_LIMIT))"
  by (auto simp: dial_inv_def dial_ok_def)

lemma enter_key_inv: "dial_inv d \<Longrightarrow> dial_inv (enter_key tag d)"
  using enter_key_ok [of "mode_of d" d tag] unfolding dial_ok_inv by (auto simp: dial_ok_def mode_of_def)

lemma dial_inv_updates [simp]: "dial_inv (d\<lparr>keydepressed := b\<rparr>) = dial_inv d" "dial_inv d \<Longrightarrow> dial_inv (d\<lparr>d_dialog := False\<rparr>)"
    "dial_inv (d\<lparr>d_mv := m\<rparr>) = dial_inv d" "dial_inv (d\<lparr>d_error := b\<rparr>) = dial_inv d" "dial_inv (d\<lparr>d_warning := b\<rparr>) = dial_inv d"
  by (simp_all add: dial_inv_def)

lemma checkKeypress_inv: "dial_inv d \<Longrightarrow> dial_inv (snd (checkKeypress tag d))"
  by (simp add: checkKeypress_def Let_def split_def enter_key_inv)

lemma validate_flags:
  assumes "validate m d = Some d'"
  obtains e w where "d' = d\<lparr>d_error := e, d_warning := w\<rparr>" "is_fin m"
proof -
  have s: "\<exists>e w. x = d\<lparr>d_error := e, d_warning := w\<rparr>" if "x = d \<or> x = showError d \<or> x = showWarning d \<or> x = accept_value d" for x
    using that by (cases d) (auto simp: showError_def showWarning_def accept_value_def)
  have v: "validateVoltage m a b c d \<in> {showError d, showWarning d, accept_value d}" "validateVoltageLimit m a b c d \<in> {showError d, showWarning d, accept_value d}"
      "validateCurrent m a b c d \<in> {showError d, showWarning d, accept_value d}" "validateCurrentLimit m a b c d \<in> {showError d, showWarning d, accept_value d}" for a b c
    by (simp_all add: validateVoltage_def validateVoltageLimit_def validateCurrent_def validateCurrentLimit_def)
  have "d' = d \<or> d' = showError d \<or> d' = showWarning d \<or> d' = accept_value d" "is_fin m"
    using assms v [of "thousandths m div 1000" "thousandths m mod 1000" "decimalsAfterComma d"] by (auto simp: validate_def Let_def split: if_splits)
  then show ?thesis using s [of d'] that by blast
qed

lemma handle_keypad_inv: "dial_inv d \<Longrightarrow> handleKeypadDialog d = Some d' \<Longrightarrow> dial_inv d'"
  by (auto simp: handleKeypadDialog_def split: if_splits elim!: validate_flags)

lemma push_chars:
  assumes "dial_ok m d" and "digits d + int (length cs) \<le> 8" and "\<And>c. c \<in> set cs \<Longrightarrow> P c \<Longrightarrow> 0 \<le> g c"
  shows "dial_ok m (fold (\<lambda>c d. if P c then push_entry (g c) d else d) cs d)"
  using assms
proof (induction cs arbitrary: d)
  case (Cons a cs)
  define e where "e = (if P a then push_entry (g a) d else d)"
  have "dial_ok m e \<and> digits e \<le> digits d + 1"
    using Cons.prems push_inv [of d "g a"] by (cases "P a") (simp_all add: e_def dial_ok_def, simp add: push_entry_def)
  then have "dial_ok m (fold (\<lambda>c d. if P c then push_entry (g c) d else d) cs e)"
    using Cons.prems by (intro Cons.IH) auto
  then show ?case by (simp add: e_def)
qed simp

lemma text_entries: "c \<in> set '' -.0123456789'' \<Longrightarrow> c \<noteq> CHR '' '' \<and> c \<noteq> CHR ''-'' \<Longrightarrow>
    0 \<le> (if c = CHR ''.'' then KEYBOARD_COMMA else int (of_char c) - int (of_char (CHR ''0'')))"
proof -
  have "list_all (\<lambda>c. c \<noteq> CHR '' '' \<and> c \<noteq> CHR ''-'' \<longrightarrow>
      0 \<le> (if c = CHR ''.'' then KEYBOARD_COMMA else int (of_char c) - int (of_char (CHR ''0'')))) '' -.0123456789''" by code_simp
  then show "c \<in> set '' -.0123456789'' \<Longrightarrow> c \<noteq> CHR '' '' \<and> c \<noteq> CHR ''-'' \<Longrightarrow>
    0 \<le> (if c = CHR ''.'' then KEYBOARD_COMMA else int (of_char c) - int (of_char (CHR ''0'')))" unfolding list_all_iff by blast
qed

lemma show_digits_inv:
  assumes "dial_inv d" and "length cs \<le> 8" and "set cs \<subseteq> set '' -.0123456789''"
  shows "dial_inv (show_digits cs d)"
proof -
  have "dial_ok (mode_of d) (show_digits cs d)" unfolding show_digits_def
  proof (rule push_chars)
    show "dial_ok (mode_of d) (d\<lparr>digits := 0\<rparr>)" using assms(1) entries_inv_fewer [of d 0] by (simp add: dial_ok_def dial_inv_def)
    show "0 \<le> (if c = CHR ''.'' then KEYBOARD_COMMA else int (of_char c) - int (of_char (CHR ''0'')))"
      if "c \<in> set cs" "c \<noteq> CHR '' '' \<and> c \<noteq> CHR ''-''" for c using text_entries [OF subsetD [OF assms(3) that(1)] that(2)] .
  qed (use assms(2) in simp)
  then show ?thesis using assms(1) by (auto simp: dial_ok_inv) (auto simp: dial_ok_def mode_of_def)
qed

lemma set_decade_inv: "dial_inv d \<Longrightarrow> s = ''V'' \<or> s = ''mV'' \<or> s = ''uV'' \<Longrightarrow> dial_inv (set_decade s d)"
  using set_decade_ok [of d s] decade_drop unfolding dial_inv_def by (simp only: entries_inv_updates) (simp add: set_decade_def)

lemma setMv_inv: "dtostrf_text F \<Longrightarrow> dial_inv d \<Longrightarrow> is_fin m \<Longrightarrow> \<bar>val m\<bar> < 2 powi 65 \<Longrightarrow> dial_inv (setMv F m d)"
proof -
  assume F: "dtostrf_text F" and d: "dial_inv d" and m: "is_fin m" "\<bar>val m\<bar> < 2 powi 65"
  define n where "n = digits_before_comma \<bar>m\<bar>"
  define cs where "cs = take (n + 3) (F (conv \<bar>m\<bar>) (n + 2) 4)"
  have "n \<le> 5" by (simp add: n_def digits_before_comma_def)
  then have l: "length cs \<le> 8" by (simp add: cs_def)
  have fin: "is_fin (conv \<bar>m\<bar> :: f64)" using m rnd64_err(1) [of "\<bar>val m\<bar>" 65] by (simp add: fin_conv)
  have s: "set cs \<subseteq> set '' -.0123456789''" using F fin set_take_subset [of "n + 3" "F (conv \<bar>m\<bar>) (n + 2) 4"]
    unfolding dtostrf_text_def cs_def by blast
  have "dial_inv (show_digits cs (d\<lparr>d_negative := m < 0\<rparr>))" by (rule show_digits_inv [OF _ l s]) (use d in \<open>simp add: dial_inv_def\<close>)
  then show ?thesis unfolding setMv_def Let_def n_def [symmetric] cs_def [symmetric] by (intro set_decade_inv) simp_all
qed

lemma milli_fin:
  assumes "\<bar>micro\<bar> < 2 ^ 63"
  shows "is_fin (conv (of_i micro / of_i 1000 :: f64) :: f32)" and "\<bar>val (conv (of_i micro / of_i 1000 :: f64) :: f32)\<bar> < 2 powi 65"
proof -
  have p: "(2::rat) powi k = 2 ^ nat k" if "0 \<le> k" for k using that by (simp add: power_int_def)
  have b: "\<bar>of_int micro :: rat\<bar> \<le> 2 powi 63" using assms by (simp add: p)
  have r: "repr_in TYPE(f64) (2 powi k)" "repr_in TYPE(f64) (- (2 powi k))" "repr_in TYPE(f32) (2 powi k)" "repr_in TYPE(f32) (- (2 powi k))"
    if "1 \<le> k" "k \<le> 100" for k using repr_in_powi [OF that] by (simp_all add: repr_in_uminus)
  have 1: "is_fin (of_i micro :: f64)" "\<bar>val (of_i micro :: f64)\<bar> \<le> 2 powi 63"
    using rnd_between [OF r(2) r(1), of 63 63 "of_int micro" False] b by (auto simp: of_i_def abs_le_iff)
  have 2: "is_fin (of_i micro / of_i 1000 :: f64)" "\<bar>val (of_i micro / of_i 1000 :: f64)\<bar> \<le> 2 powi 63"
    using rnd_between [OF r(2) r(1), of 63 63 "val (of_i micro :: f64) / 1000" "sgnb (of_i micro :: f64) \<noteq> sgnb (of_i 1000 :: f64)"] 1
    by (auto simp: fin_div abs_le_iff)
  show "is_fin (conv (of_i micro / of_i 1000 :: f64) :: f32)" "\<bar>val (conv (of_i micro / of_i 1000 :: f64) :: f32)\<bar> < 2 powi 65"
    using rnd_between [OF r(4) r(3), of 63 63 "val (of_i micro / of_i 1000 :: f64)" "(of_i micro / of_i 1000 :: f64) = NegZero"] 2 p [of 63] p [of 65]
    by (auto simp: fin_conv abs_le_iff abs_less_iff)
qed

lemma dial_open_inv: "dtostrf_text F \<Longrightarrow> dial_inv d \<Longrightarrow> sl = DIAL_SET \<or> sl = DIAL_LIMIT \<Longrightarrow> \<bar>micro\<bar> < 2 ^ 63 \<Longrightarrow> dial_inv (dial_open F ty sl micro d)"
  unfolding dial_open_def by (intro setMv_inv milli_fin) (simp_all add: dial_inv_def)

lemma dial_start_inv: "dial_inv (dial_init dial_initial)"
proof -
  have "ent (dial_init dial_initial) i \<ge> 0" if "- 1 \<le> i" "i < 15" for i
    using that nth_replicate [of "nat i" 15 "0::int"] unfolding dial_init_def dial_clear_def
    by (simp add: ent_def set_decade_def dial_initial_def)
  moreover have "decade_ok (voltDecade (dial_init dial_initial))" unfolding dial_init_def dial_clear_def dial_initial_def
    by (simp add: set_decade_def decade_ok_def units)
  ultimately show ?thesis unfolding dial_inv_def entries_inv_def
    by (simp add: dial_init_def dial_clear_def dial_initial_def set_decade_def)
qed

lemma dial_reach_inv: "dial_reach F d \<Longrightarrow> dtostrf_text F \<Longrightarrow> dial_inv d"
proof (induction rule: dial_reach.induct)
  case (closed d)
  then show ?case by (simp add: dial_close_def)
next
  case (turned d micro)
  then show ?case by (intro setMv_inv milli_fin)
qed (simp_all add: dial_start_inv dial_open_inv setMv_inv milli_fin checkKeypress_inv handle_keypad_inv)

section \<open>What the dial accepts\<close>

lemma units_cmp:
  "strncmp_eq unit_V ''V'' 1" "\<not> strncmp_eq unit_mV ''V'' 1" "\<not> strncmp_eq unit_uV ''V'' 1"
  "strncmp_eq unit_mV ''mV'' 2" "\<not> strncmp_eq unit_uV ''mV'' 2" "\<not> strncmp_eq unit_V ''uV'' 2" "\<not> strncmp_eq unit_mV ''uV'' 2" "strncmp_eq unit_uV ''uV'' 2"
  by code_simp+

lemma ok_flags [simp]: "\<not> ok_shown (showError d)" "\<not> ok_shown (showWarning d)" "ok_shown (accept_value d)"
  by (simp_all add: ok_shown_def showError_def showWarning_def accept_value_def)

definition dial_limit :: "OPERATION_TYPE \<Rightarrow> int \<Rightarrow> rat" where
  "dial_limit ty sl = (if (ty = SOURCE_VOLTAGE) = (sl = DIAL_SET) then 30000 else 3300)"

lemma below_limit:
  assumes "0 \<le> (m :: f64)" "is_fin m"
  shows "\<not> \<bar>m\<bar> > of_i 30000 \<Longrightarrow> val m \<le> 30000" and "\<not> \<bar>m\<bar> > conv max_current_1A_range \<Longrightarrow> val m \<le> 3300"
    and "\<not> 999 < thousandths m div 1000 \<Longrightarrow> val m \<le> 3300"
proof -
  have r: "is_fin (conv max_current_1A_range :: f64)" "val (conv max_current_1A_range :: f64) = 3300" by code_simp+
  have v: "val \<bar>m\<bar> = val m" "is_fin \<bar>m\<bar>" using assms by (simp_all add: zero_le_cases) auto
  show "\<not> \<bar>m\<bar> > of_i 30000 \<Longrightarrow> val m \<le> 30000" using v by (simp add: fin_less)
  show "\<not> \<bar>m\<bar> > conv max_current_1A_range \<Longrightarrow> val m \<le> 3300" using v r by (simp add: fin_less)
  assume "\<not> 999 < thousandths m div 1000"
  then have "rne (val m * 1000) < 1000000" by (simp add: thousandths_def)
  then have "rat_of_int (rne (val m * 1000)) < of_int 1000000" unfolding of_int_less_iff .
  then show "val m \<le> 3300" using rne_err [of "val m * 1000"] by linarith
qed

lemma validate_in_range:
  assumes d: "dial_inv d" "d_dialog d" and m: "0 \<le> m" and v: "validate m d = Some d1" "ok_shown d1"
  shows "val m \<le> dial_limit (vol_cur_type d) (set_or_limit d)"
proof -
  have fin: "is_fin m" using v(1) by (auto elim: validate_flags)
  have u: "voltDecade d = unit_V \<or> voltDecade d = unit_mV \<or> voltDecade d = unit_uV" using d(1) by (simp add: dial_inv_def decade_ok_def)
  note b = below_limit [OF m fin]
  have vv: "val m \<le> 30000" if "ok_shown (validateVoltage m (thousandths m div 1000) e n d)" for e n
    using u that b(1,3) by (elim disjE) (auto simp: validateVoltage_def units_cmp simp del: strncmp_eq.simps One_nat_def split: if_splits)
  have vl: "val m \<le> 30000" if "ok_shown (validateVoltageLimit m (thousandths m div 1000) e n d)" for e n
    using u that b(1,3) by (elim disjE) (auto simp: validateVoltageLimit_def units_cmp simp del: strncmp_eq.simps One_nat_def split: if_splits)
  have cc: "val m \<le> 3300" if "ok_shown (validateCurrent m (thousandths m div 1000) e n d)" for e n
    using u that b(2,3) by (elim disjE) (auto simp: validateCurrent_def units_cmp simp del: strncmp_eq.simps One_nat_def split: if_splits)
  have cl: "val m \<le> 3300" if "ok_shown (validateCurrentLimit m (thousandths m div 1000) e n d)" for e n
    using u that b(2,3) by (elim disjE) (auto simp: validateCurrentLimit_def units_cmp simp del: strncmp_eq.simps One_nat_def split: if_splits)
  have sl: "set_or_limit d = DIAL_SET \<or> set_or_limit d = DIAL_LIMIT" using d by (simp add: dial_inv_def)
  have ne: "DIAL_SET \<noteq> DIAL_LIMIT" by (simp add: DIAL_SET_def DIAL_LIMIT_def)
  show ?thesis using sl v ne vv vl cc cl unfolding validate_def Let_def dial_limit_def
    by (cases "vol_cur_type d") (auto split: if_splits)
qed

lemma getMv_bound:
  assumes "0 \<le> d_mv d" "is_fin (d_mv d)" "val (d_mv d) \<le> of_int n" "0 \<le> n" "n \<le> 16777216"
  shows "\<bar>val (getMv d)\<bar> \<le> of_int n"
proof -
  have r: "repr_in TYPE(f32) (of_int n)" "repr_in TYPE(f32) (- of_int n)" using repr_in_f32_int [of n] repr_in_f32_int [of "- n"] assms by simp_all
  have "\<bar>val x\<bar> \<le> of_int n" if "is_fin y" "\<bar>val y\<bar> \<le> of_int n" "x = (conv y :: f32)" for x and y :: f64
    using rnd_between [OF r(2) r(1), of "val y" "y = NegZero"] that by (auto simp: fin_conv abs_le_iff)
  moreover have "\<bar>val (d_mv d)\<bar> \<le> of_int n" using assms by (auto simp: zero_le_cases)
  ultimately show ?thesis using assms(2) by (simp add: getMv_def)
qed

lemma ok_key: "d_dialog d \<Longrightarrow> \<not> d_error d \<Longrightarrow> checkKeypress KEYBOARD_OK d = (Some False, d\<lparr>d_dialog := False, keydepressed := False\<rparr>)"
  by (cases d) (auto simp: checkKeypress_def Let_def KEYBOARD_OK_def KEYBOARD_CANCEL_def enter_key_none)

text \<open>What a frame accepts: the value is finite and within the limit, and the OK key reports it.\<close>

lemma accepted_value:
  assumes "dtostrf_text F" and "dial_reach F d" and "handleKeypadDialog d = Some d1" and "d_dialog d1" and "ok_shown d1"
  shows "is_fin (getMv d1)" and "\<bar>val (getMv d1)\<bar> \<le> dial_limit (vol_cur_type d) (set_or_limit d)"
    and "vol_cur_type d1 = vol_cur_type d" and "set_or_limit d1 = set_or_limit d"
    and "checkKeypress KEYBOARD_OK d1 = (Some False, d1\<lparr>d_dialog := False, keydepressed := False\<rparr>)"
proof -
  define e where "e = d\<lparr>d_mv := toMv d\<rparr>"
  have inv: "dial_inv d" using dial_reach_inv assms by blast
  then have pos: "0 \<le> toMv d" by (simp add: toMv_nonneg dial_inv_def)
  have dlg: "d_dialog d" using assms(3,4) by (auto simp: handleKeypadDialog_def split: if_splits)
  then have v: "validate (toMv d) e = Some d1" using assms(3) by (simp add: handleKeypadDialog_def e_def)
  obtain er w where d1: "d1 = e\<lparr>d_error := er, d_warning := w\<rparr>" and fin: "is_fin (toMv d)" by (rule validate_flags [OF v])
  have "dial_inv e" "d_dialog e" using inv dlg by (simp_all add: e_def)
  from validate_in_range [OF this pos v assms(5)] have m: "val (toMv d) \<le> dial_limit (vol_cur_type d) (set_or_limit d)" by (simp add: e_def)
  obtain n where n: "dial_limit (vol_cur_type d) (set_or_limit d) = of_int n" "0 \<le> n" "n \<le> 16777216"
    by (cases "(vol_cur_type d = SOURCE_VOLTAGE) = (set_or_limit d = DIAL_SET)") (simp_all add: dial_limit_def that [of 30000] that [of 3300])
  have b: "0 \<le> d_mv d1" "is_fin (d_mv d1)" "val (d_mv d1) \<le> of_int n" using pos fin m n by (simp_all add: d1 e_def)
  show "\<bar>val (getMv d1)\<bar> \<le> dial_limit (vol_cur_type d) (set_or_limit d)" using getMv_bound [OF b n(2,3)] n(1) by simp
  have "is_fin (conv y :: f32)" if "is_fin y" "\<bar>val y\<bar> \<le> of_int n" for y :: f64
    using rnd_between [OF repr_in_f32_int [of "- n"] repr_in_f32_int [of n], of "val y" "y = NegZero"] that n(2,3) by (auto simp: fin_conv abs_le_iff)
  moreover have "\<bar>val (d_mv d1)\<bar> \<le> of_int n" using b by (auto simp: zero_le_cases)
  ultimately show "is_fin (getMv d1)" using b(2) by (simp add: getMv_def)
  show "vol_cur_type d1 = vol_cur_type d" "set_or_limit d1 = set_or_limit d" by (simp_all add: d1 e_def)
  show "checkKeypress KEYBOARD_OK d1 = (Some False, d1\<lparr>d_dialog := False, keydepressed := False\<rparr>)"
    using ok_key [of d1] assms(4,5) by (simp add: ok_shown_def)
qed

lemma getMv_closed [simp]: "getMv (d\<lparr>d_dialog := b, keydepressed := c\<rparr>) = getMv d"
  by (simp add: getMv_def)

text \<open>C8: the dial hands on only values in range: in every state that opening, keys, knob turns and frames can produce, once a
  frame has offered the OK key, pressing it closes the dialog, reports acceptance, and the value it reports is at
  most 30 V for a voltage and 3.3 A for a current, whatever was typed, in every unit and with either sign.  3.3 A is what
  the validation tests (max_current_1A_range of src/src/Settings.h); the error texts of dial.cpp, Max current is 1.3A and
  Max current is 1300mA, promise less, and 2 A is accepted (two_amperes_accepted).\<close>

theorem dial_accepts_in_range:
  assumes "dtostrf_text F" and "dial_reach F d" and "handleKeypadDialog d = Some d1" and "d_dialog d1" and "ok_shown d1"
  shows "fst (checkKeypress KEYBOARD_OK d1) = Some False \<and> \<not> d_dialog (snd (checkKeypress KEYBOARD_OK d1))
    \<and> \<bar>val (getMv (snd (checkKeypress KEYBOARD_OK d1)))\<bar> \<le> (if (vol_cur_type d = SOURCE_VOLTAGE) = (set_or_limit d = DIAL_SET) then 30000 else 3300)"
  using accepted_value [OF assms] by (simp add: dial_limit_def)

lemma sample_text: "dtostrf_text (\<lambda>_ _ _. ''1.2345'')"
proof -
  have "list_all (\<lambda>c. c \<in> set '' -.0123456789'') ''1.2345''" by code_simp
  then show ?thesis unfolding dtostrf_text_def list_all_iff by blast
qed

theorem dial_accepts_in_range_witness:
  defines "d \<equiv> dial_open (\<lambda>_ _ _. ''1.2345'') SOURCE_VOLTAGE DIAL_SET 1234 (dial_init dial_initial)"
  shows "fst (checkKeypress KEYBOARD_OK (the (handleKeypadDialog d))) = Some False \<and> getMv (the (handleKeypadDialog d)) \<noteq> 0
    \<and> \<bar>val (getMv (snd (checkKeypress KEYBOARD_OK (the (handleKeypadDialog d)))))\<bar> \<le> 30000"
proof -
  have r: "dial_reach (\<lambda>_ _ _. ''1.2345'') d" unfolding d_def by (intro dial_reach.opened dial_reach.start) simp_all
  have h: "handleKeypadDialog d = Some (the (handleKeypadDialog d))" "d_dialog (the (handleKeypadDialog d))" "ok_shown (the (handleKeypadDialog d))"
      "getMv (the (handleKeypadDialog d)) \<noteq> 0" "vol_cur_type d = SOURCE_VOLTAGE" "set_or_limit d = DIAL_SET" unfolding d_def by code_simp+
  from dial_accepts_in_range [OF sample_text r h(1-3)] h(4-6) show ?thesis by simp
qed

text \<open>The state of a freshly opened dial, and a key pressed and released.\<close>

definition fresh_dial :: dial where
  "fresh_dial = (dial_init dial_initial)\<lparr>d_dialog := True, set_or_limit := DIAL_SET\<rparr>"

definition tap :: "int \<Rightarrow> dial \<Rightarrow> dial" where "tap k d = snd (checkKeypress 0 (snd (checkKeypress k d)))"

text \<open>the currents between 1.3 A and 3.3 A are accepted, as a set value and as a limit, although the error texts call 1.3 A the maximum; 4 A is refused.\<close>

theorem two_amperes_accepted:
  "map_option (\<lambda>d. (ok_shown d, getMv d)) (handleKeypadDialog (fold tap [KEYBOARD_2, KEYBOARD_V] (fresh_dial\<lparr>vol_cur_type := SOURCE_CURRENT\<rparr>))) = Some (True, of_i 2000)
    \<and> map_option (\<lambda>d. (ok_shown d, getMv d)) (handleKeypadDialog (fold tap [KEYBOARD_2, KEYBOARD_V] (fresh_dial\<lparr>set_or_limit := DIAL_LIMIT\<rparr>))) = Some (True, of_i 2000)
    \<and> map_option ok_shown (handleKeypadDialog (fold tap [KEYBOARD_4, KEYBOARD_V] (fresh_dial\<lparr>vol_cur_type := SOURCE_CURRENT\<rparr>))) = Some False"
  by (intro conjI; code_simp)

text \<open>dividing by ten twice loses the number: after typing 5 and pressing the key twice, the entries are 0 and 480, because
  the code reads the memory before the array, where the screen height is; the dial then shows and accepts 480 mV.  The
  same happens when the key is pressed with nothing entered.\<close>

theorem dial_divide_reads_before_array:
  "map_option (\<lambda>d. (ok_shown d, getMv d)) (handleKeypadDialog (fold tap [KEYBOARD_5, KEYBOARD_DIVIDE10, KEYBOARD_DIVIDE10, KEYBOARD_MV] fresh_dial)) = Some (True, of_i 480)
    \<and> map_option (\<lambda>d. (ok_shown d, getMv d)) (handleKeypadDialog (fold tap [KEYBOARD_DIVIDE10, KEYBOARD_MV] fresh_dial)) = Some (True, of_i 480)"
  by (intro conjI; code_simp)

text \<open>six digits with the unit V overrun the buffer of the validation: the text of 100000 V in millivolts needs fourteen
  bytes of the thirteen; five digits do not.\<close>

theorem dial_validation_overruns:
  "handleKeypadDialog (fold tap [KEYBOARD_1, KEYBOARD_0, KEYBOARD_0, KEYBOARD_0, KEYBOARD_0, KEYBOARD_0, KEYBOARD_V] fresh_dial) = None
    \<and> handleKeypadDialog (fold tap [KEYBOARD_9, KEYBOARD_9, KEYBOARD_9, KEYBOARD_9, KEYBOARD_9, KEYBOARD_V] fresh_dial) \<noteq> None"
  by (intro conjI; code_simp)

section \<open>Typing a whole number\<close>

definition digit_key :: "int \<Rightarrow> int" where "digit_key x = (if x = 0 then KEYBOARD_0 else x)"

lemma digit_tap:
  assumes "0 \<le> x" "x \<le> 9" "keydepressed d" "digits d < 7"
  shows "tap (digit_key x) d = push_entry x d"
proof -
  have k: "enter_key (digit_key x) d' = push_entry x d'" if "digits d' < 7" for d'
    using assms that enter_key_simps(4) [of x d'] enter_key_simps(5) [of d'] by (auto simp: digit_key_def)
  have c: "digit_key x \<noteq> KEYBOARD_CANCEL" "digit_key x \<noteq> KEYBOARD_OK" "digit_key x \<noteq> 0" "KEYBOARD_CANCEL \<noteq> 0" "KEYBOARD_OK \<noteq> 0"
    using assms by (simp_all add: digit_key_def key_codes)
  have "push_entry x (d\<lparr>keydepressed := False\<rparr>)\<lparr>keydepressed := True\<rparr> = push_entry x d"
    using assms(3) by (cases d) (simp add: push_entry_def put_def)
  then show ?thesis using assms c k [of "d\<lparr>keydepressed := False\<rparr>"] by (simp add: tap_def checkKeypress_def Let_def)
qed

lemma typed_entries:
  assumes "\<And>x. x \<in> set ds \<Longrightarrow> 0 \<le> x \<and> x \<le> 9" "keydepressed d" "0 \<le> digits d" "digits d + int (length ds) \<le> 7" "length (dialEntries d) = 15"
  shows "digits (fold tap (map digit_key ds) d) = digits d + int (length ds) \<and> voltDecade (fold tap (map digit_key ds) d) = voltDecade d
    \<and> (\<forall>k. 0 \<le> k \<and> k < digits d + int (length ds) \<longrightarrow> ent (fold tap (map digit_key ds) d) k = (if k < digits d then ent d k else ds ! nat (k - digits d)))"
  using assms
proof (induction ds arbitrary: d)
  case (Cons x ds)
  have t: "tap (digit_key x) d = push_entry x d" using Cons.prems by (intro digit_tap) auto
  define e where "e = push_entry x d"
  have e: "keydepressed e" "digits e = digits d + 1" "length (dialEntries e) = 15" "voltDecade e = voltDecade d"
      "\<And>k. 0 \<le> k \<Longrightarrow> ent e k = (if k = digits d then x else ent d k)"
    using Cons.prems by (simp_all add: e_def push_entry_def ent_put) (simp add: put_def)
  have "digits (fold tap (map digit_key ds) e) = digits e + int (length ds) \<and> voltDecade (fold tap (map digit_key ds) e) = voltDecade e
    \<and> (\<forall>k. 0 \<le> k \<and> k < digits e + int (length ds) \<longrightarrow> ent (fold tap (map digit_key ds) e) k = (if k < digits e then ent e k else ds ! nat (k - digits e)))"
    by (rule Cons.IH) (use Cons.prems e in auto)
  then show ?case using e Cons.prems by (auto simp: t e_def [symmetric] nth_Cons' nat_diff_distrib Suc_nat_eq_nat_zadd1 algebra_simps)
qed simp

lemma rnd_sgn: "q \<noteq> 0 \<Longrightarrow> rnd z q = rnd False q"
  by (simp add: rnd_def)

lemma of_i_step:
  assumes "0 < n" "n < 100000000" "0 \<le> x" "x \<le> 9"
  shows "of_i n * of_i 10 + of_i x = (of_i (n * 10 + x) :: f64)"
proof -
  have m: "(of_i n * of_i 10 :: f64) = rnd False (of_int (n * 10))"
    using assms by (simp add: fin_mult) (rule rnd_sgn, simp)
  then have "(of_i n * of_i 10 :: f64) = of_i (n * 10)" by (simp add: of_i_def)
  then show ?thesis using assms by (simp add: fin_add) (simp add: of_i_def, rule rnd_sgn, simp)
qed

lemma to_mv_digits:
  assumes "\<And>k. 0 \<le> k \<Longrightarrow> k < digits d \<Longrightarrow> 0 \<le> ent d k \<and> ent d k \<le> 9"
  shows "0 \<le> i \<Longrightarrow> 0 \<le> n \<Longrightarrow> (n + 1) * 10 ^ nat (digits d - i) \<le> 100000000 \<Longrightarrow>
    to_mv d i 0 (of_i n) = of_i (foldl (\<lambda>a k. a * 10 + ent d k) n [i..digits d - 1])"
proof (induction "nat (digits d - i)" arbitrary: i n)
  case (Suc m)
  have i: "i < digits d" using Suc(2) by simp
  have e: "0 \<le> ent d i" "ent d i \<le> 9" using assms [of i] i Suc.prems by auto
  have p: "nat (digits d - i) = Suc (nat (digits d - (i + 1)))" using i by simp
  then have le: "(n + 1) * 10 * 10 ^ nat (digits d - (i + 1)) \<le> 100000000" using Suc.prems(3) unfolding p by (simp only: power_Suc ac_simps)
  have "(n + 1) * 10 \<le> (n + 1) * 10 * 10 ^ nat (digits d - (i + 1))" using Suc.prems by (simp add: mult_le_cancel_left)
  then have "(n + 1) * 10 \<le> 100000000" using le by (rule order_trans)
  then have nb: "n < 100000000" using Suc.prems by simp
  have "(n * 10 + ent d i + 1) * 10 ^ nat (digits d - (i + 1)) \<le> (n + 1) * 10 * 10 ^ nat (digits d - (i + 1))"
    using e by (intro mult_right_mono) auto
  then have nx: "(n * 10 + ent d i + 1) * 10 ^ nat (digits d - (i + 1)) \<le> 100000000" using le by (rule order_trans)
  have st: "(if feq (of_i n :: f64) 0 then of_i (ent d i) else of_i n * of_i 10 + of_i (ent d i)) = (of_i (n * 10 + ent d i) :: f64)"
  proof (cases "n = 0")
    case True
    have "feq (of_i 0 :: f64) 0" by code_simp
    then show ?thesis using True by simp
  next
    case False
    then have "\<not> feq (of_i n :: f64) 0" using Suc.prems nb of_i_exact(3,4) [of n] by (cases "of_i n :: f64") (auto simp: zero_flt_def)
    then show ?thesis using of_i_step [of n "ent d i"] False Suc.prems nb e by simp
  qed
  have nc: "ent d i \<noteq> KEYBOARD_COMMA" using e by (simp add: KEYBOARD_COMMA_def)
  have "to_mv d i 0 (of_i n) = to_mv d (i + 1) 0 (of_i (n * 10 + ent d i))"
    using i nc unfolding st [symmetric] by (subst to_mv.simps) (simp add: Let_def)
  also have "\<dots> = of_i (foldl (\<lambda>a k. a * 10 + ent d k) (n * 10 + ent d i) [i + 1..digits d - 1])"
    by (rule Suc.hyps(1)) (use Suc(2) Suc.prems e nx in auto)
  also have "\<dots> = of_i (foldl (\<lambda>a k. a * 10 + ent d k) n [i..digits d - 1])" using i by (simp add: upto_rec1)
  finally show ?case .
qed (simp add: to_mv.simps)

text \<open>C10: what is typed is what is sourced: up to seven decimal digits typed into a cleared dial whose unit is mV stand for exactly
  the whole number of millivolts they spell.\<close>

theorem dial_typing_exact:
  assumes "set ds \<subseteq> {0..9}" and "length ds \<le> 7" and "dial_reach F d" and "dtostrf_text F" and "keydepressed d" and "digits d = 0" and "voltDecade d = unit_mV"
  shows "toMv (fold tap (map digit_key ds) d) = of_i (foldl (\<lambda>a x. a * 10 + x) 0 ds)"
proof -
  define e where "e = fold tap (map digit_key ds) d"
  have in9: "x \<in> set ds \<Longrightarrow> 0 \<le> x \<and> x \<le> 9" for x using assms(1) by auto
  have "length (dialEntries d) = 15" using dial_reach_inv [OF assms(3,4)] by (simp add: dial_inv_def entries_inv_def)
  then have e: "digits e = int (length ds)" "voltDecade e = unit_mV" "\<And>k. 0 \<le> k \<Longrightarrow> k < int (length ds) \<Longrightarrow> ent e k = ds ! nat k"
    using typed_entries [OF in9 assms(5), of ds] assms(2,6,7) unfolding e_def by auto
  have r: "0 \<le> ent e k \<and> ent e k \<le> 9" if "0 \<le> k" "k < digits e" for k
  proof -
    have "ds ! nat k \<in> set ds" using that e(1) by simp
    then show ?thesis using in9 [of "ds ! nat k"] e(3) [of k] that e(1) by simp
  qed
  have "(10::int) ^ length ds \<le> 10 ^ 7" using assms(2) by (intro power_increasing) simp_all
  then have "to_mv e 0 0 (of_i 0) = of_i (foldl (\<lambda>a k. a * 10 + ent e k) 0 [0..digits e - 1])"
    using e(1) by (intro to_mv_digits r) simp_all
  also have "foldl (\<lambda>a k. a * 10 + ent e k) 0 [0..digits e - 1] = foldl (\<lambda>a x. a * 10 + x) 0 (map (ent e) [0..digits e - 1])"
    by (simp add: foldl_map)
  also have "map (ent e) [0..digits e - 1] = ds"
    by (rule nth_equalityI) (use e in auto)
  finally have "to_mv e 0 0 0 = of_i (foldl (\<lambda>a x. a * 10 + x) 0 ds)" by (simp add: of_i_def rnd_def zero_flt_def rndq_def)
  then show ?thesis unfolding toMv_def e_def [symmetric] e(2) by (simp add: Let_def units_cmp del: strncmp_eq.simps One_nat_def)
qed

theorem dial_typing_exact_witness:
  "toMv (fold tap (map digit_key [1, 0, 5, 0]) (set_decade ''mV'' (dial_init dial_initial))) = Fin 1050"
proof -
  have r: "dial_reach (\<lambda>_ _ _. ''1.2345'') (tap KEYBOARD_MV (dial_init dial_initial))" unfolding tap_def by (intro dial_reach.key dial_reach.start)
  have t: "keydepressed (tap KEYBOARD_MV (dial_init dial_initial))" "digits (tap KEYBOARD_MV (dial_init dial_initial)) = 0"
      "voltDecade (tap KEYBOARD_MV (dial_init dial_initial)) = unit_mV" "tap KEYBOARD_MV (dial_init dial_initial) = set_decade ''mV'' (dial_init dial_initial)"
    by code_simp+
  have v: "of_i (foldl (\<lambda>a x. a * 10 + x) 0 [1, 0, 5, 0]) = (Fin 1050 :: f64)" by code_simp
  show ?thesis using dial_typing_exact [OF _ _ r sample_text t(1-3), of "[1, 0, 5, 0]"] unfolding v t(4) by simp
qed

end
