(* ===== verification/CalOps.thy ===== *)
theory CalOps
  imports ZeroCal Tags
begin


text \<open>
  The operations of the calibration that drive the unit (src/src/Calibration.cpp): the automatic linearity calibration,
  which sources a row of values and records what the converter reads, and the calibration buttons.  The two calibration
  objects are selected by the operation type they are for; the variables of the automatic calibration are globals of the
  source file, shared by both objects.  The pressed-button indicator of DIGIT_UTIL is part of the state.
\<close>

section \<open>State\<close>

record 's calworld = "'s zworld" +
  autoCalDacTimer :: int
  autoCalV :: f32
  autoCalDone1 :: bool
  autoCalArrayPointer :: int
  maxValueCal :: f32
  minValueCal :: f32
  stepValueCal :: f32
  du_currentTag :: int
  du_timeSinceIndicated :: u32

definition the_cal :: "OPERATION_TYPE \<Rightarrow> ('s, 'z) world_scheme \<Rightarrow> cal" where
  "the_cal k w = (case k of SOURCE_VOLTAGE \<Rightarrow> V_CALIBRATION w | SOURCE_CURRENT \<Rightarrow> C_CALIBRATION w)"

definition upd_cal :: "OPERATION_TYPE \<Rightarrow> (cal \<Rightarrow> cal) \<Rightarrow> ('s, 'z) world_scheme \<Rightarrow> ('s, 'z) world_scheme" where
  "upd_cal k f w = (case k of SOURCE_VOLTAGE \<Rightarrow> w\<lparr>V_CALIBRATION := f (V_CALIBRATION w)\<rparr> | SOURCE_CURRENT \<Rightarrow> w\<lparr>C_CALIBRATION := f (C_CALIBRATION w)\<rparr>)"

definition the_filters :: "OPERATION_TYPE \<Rightarrow> ('s, 'z) world_scheme \<Rightarrow> filters" where
  "the_filters k w = (case k of SOURCE_VOLTAGE \<Rightarrow> V_FILTERS w | SOURCE_CURRENT \<Rightarrow> C_FILTERS w)"

definition upd_filters :: "OPERATION_TYPE \<Rightarrow> (filters \<Rightarrow> filters) \<Rightarrow> ('s, 'z) world_scheme \<Rightarrow> ('s, 'z) world_scheme" where
  "upd_filters k f w = (case k of SOURCE_VOLTAGE \<Rightarrow> w\<lparr>V_FILTERS := f (V_FILTERS w)\<rparr> | SOURCE_CURRENT \<Rightarrow> w\<lparr>C_FILTERS := f (C_FILTERS w)\<rparr>)"

definition startIndicator :: "u32 \<Rightarrow> int \<Rightarrow> ('s, 'z) calworld_scheme \<Rightarrow> ('s, 'z) calworld_scheme" where
  "startIndicator now tag w = w\<lparr>du_currentTag := tag, du_timeSinceIndicated := now\<rparr>"

section \<open>The automatic calibration\<close>

text \<open>The loop that counts the points, bounded by the number of entries of the tables.\<close>

fun count_points :: "nat \<Rightarrow> f32 \<Rightarrow> f32 \<Rightarrow> f32 \<Rightarrow> int" where
  "count_points 0 v hi st = 0"
| "count_points (Suc n) v hi st = (if v \<le> hi then 1 + count_points n (v + st) hi st else 0)"

definition cal_limits :: "OPERATION_TYPE \<Rightarrow> ('s, 'z) calworld_scheme \<Rightarrow> ('s, 'z) calworld_scheme" where
  "cal_limits k w = (if operationType (the_cal k w) = SOURCE_CURRENT
     then w\<lparr>maxValueCal := lit 400, minValueCal := lit (- 400), stepValueCal := lit 25\<rparr> else w)"

definition startAutoCal :: "'s hal \<Rightarrow> u32 \<Rightarrow> OPERATION_TYPE \<Rightarrow> ('s, 'z) calworld_scheme \<Rightarrow> ('s, 'z) calworld_scheme" where
  "startAutoCal H now k w0 =
     (let w = cal_limits k w0
      in if autoCalInProgress (the_cal k w) then w
         else upd_filters k (setFilterSize 5) (upd_cal k (\<lambda>c. c\<lparr>autoCalInProgress := True, useCalibratedValues := False,
                  adc_cal_points := count_points 200 (minValueCal w) (maxValueCal w) (stepValueCal w)\<rparr>)
                (w\<lparr>autoCalDacTimer := sint now, autoCalV := minValueCal w, autoCalArrayPointer := 0, smu := setSamplingRate H 20 (smu w)\<rparr>)))"

definition cal_source :: "'s hal \<Rightarrow> u32 \<Rightarrow> OPERATION_TYPE \<Rightarrow> ('s, 'z) calworld_scheme \<Rightarrow> ('s, 'z) calworld_scheme" where
  "cal_source H now k w =
     (let x = f2i64 (conv (autoCalV w) * lit 1000 :: f64);
          s = (if operationType (the_cal k w) = SOURCE_VOLTAGE then snd (fltSetCommitVoltageSource H (env_of now w) x True (smu w))
               else snd (fltSetCommitCurrentSource H (env_of now w) x (smu w)))
      in upd_cal k (\<lambda>c. c\<lparr>set_adc := (set_adc c)[nat (autoCalArrayPointer w) := autoCalV w]\<rparr>) (w\<lparr>smu := s, autoCalDone1 := True\<rparr>))"

definition cal_finish :: "OPERATION_TYPE \<Rightarrow> ('s, 'z) calworld_scheme \<Rightarrow> ('s, 'z) calworld_scheme" where
  "cal_finish k w =
     (let w1 = upd_filters k (setFilterSize 5) (upd_cal k (\<lambda>c. c\<lparr>autoCalInProgress := False, autoCalDone := True, useCalibratedValues := True,
                  adc_cal_points := autoCalArrayPointer w\<rparr>) w)
      in w1\<lparr>cal_data := (cal_data w1)\<lparr>cs_eeprom := writeAdcCalToEeprom (autoCalArrayPointer w) (the_cal k w1) (cs_eeprom (cal_data w1))\<rparr>\<rparr>)"

definition cal_record :: "u32 \<Rightarrow> OPERATION_TYPE \<Rightarrow> ('s, 'z) calworld_scheme \<Rightarrow> ('s, 'z) calworld_scheme" where
  "cal_record now k w =
     (let w1 = upd_cal k (\<lambda>c. c\<lparr>meas_adc := (meas_adc c)[nat (autoCalArrayPointer w) := fmean (the_filters k w)]\<rparr>) w;
          w2 = w1\<lparr>autoCalV := autoCalV w1 + stepValueCal w1, autoCalArrayPointer := autoCalArrayPointer w1 + 1\<rparr>
      in if autoCalV w2 > maxValueCal w2 then cal_finish k w2 else w2\<lparr>autoCalDacTimer := sint now, autoCalDone1 := False\<rparr>)"

definition autoCalADCfromDAC :: "'s hal \<Rightarrow> u32 \<Rightarrow> OPERATION_TYPE \<Rightarrow> ('s, 'z) calworld_scheme \<Rightarrow> ('s, 'z) calworld_scheme" where
  "autoCalADCfromDAC H now k w =
     (if \<not> autoCalInProgress (the_cal k w) then w
      else let w1 = (if \<not> autoCalDone1 w \<and> autoCalDacTimer w + 500 < sint now then cal_source H now k w else w)
           in if autoCalDacTimer w1 + 5000 < sint now then cal_record now k w1 else w1)"

section \<open>The calibration buttons\<close>

definition adjust :: "OPERATION_TYPE \<Rightarrow> cal_op \<Rightarrow> f64 \<Rightarrow> ('s, 'z) world_scheme \<Rightarrow> ('s, 'z) world_scheme" where
  "adjust k f d w =
     (let (c, m) = f (conv d) (the_cal k w) (cs_eeprom (cal_data w))
      in (upd_cal k (\<lambda>_. c) w)\<lparr>cal_data := (cal_data w)\<lparr>cs_eeprom := m\<rparr>\<rparr>)"

definition set_milli :: "'s hal \<Rightarrow> ('s, 'z) world_scheme \<Rightarrow> f32" where
  "set_milli H w = conv (of_i (getSetValue_micro H (smu w)) / lit 1000 :: f64)"

definition recommit :: "'s hal \<Rightarrow> u32 \<Rightarrow> OPERATION_TYPE \<Rightarrow> int \<Rightarrow> ('s, 'z) world_scheme \<Rightarrow> ('s, 'z) world_scheme" where
  "recommit H now t x w = w\<lparr>smu := (if t = SOURCE_VOLTAGE then snd (fltSetCommitVoltageSource H (env_of now w) x True (smu w))
     else snd (fltSetCommitCurrentSource H (env_of now w) x (smu w)))\<rparr>"

text \<open>A gain of the set values: the adjustment for the sign of the set value, then the set value once more.\<close>

definition dac_gain :: "'s hal \<Rightarrow> u32 \<Rightarrow> OPERATION_TYPE \<Rightarrow> cal_op \<Rightarrow> cal_op \<Rightarrow> f64 \<Rightarrow> f64 \<Rightarrow> ('s, 'z) world_scheme \<Rightarrow> ('s, 'z) world_scheme" where
  "dac_gain H now t neg pos dv dc w =
     (let mv = set_milli H w
      in recommit H now t (f2i64 (mv * of_i 1000)) (adjust t (if mv < of_i 0 then neg else pos) (if t = SOURCE_VOLTAGE then dv else dc) w))"

text \<open>The branch for the lower gain in current mode multiplies in double precision.\<close>

definition dac_gain_down :: "'s hal \<Rightarrow> u32 \<Rightarrow> OPERATION_TYPE \<Rightarrow> ('s, 'z) world_scheme \<Rightarrow> ('s, 'z) world_scheme" where
  "dac_gain_down H now t w =
     (let mv = set_milli H w
      in if t = SOURCE_VOLTAGE then dac_gain H now t adjDacGainCompNeg adjDacGainCompPos (lit (- 0.000005)) 0 w
         else recommit H now t (f2i64 (conv mv * lit 1000 :: f64))
                (adjust t (if mv < of_i 0 then adjDacGainCompNeg else adjDacGainCompPos) (lit (- 0.00001)) w))"

definition limit_gain :: "'s hal \<Rightarrow> u32 \<Rightarrow> OPERATION_TYPE \<Rightarrow> f64 \<Rightarrow> ('s, 'z) world_scheme \<Rightarrow> ('s, 'z) world_scheme" where
  "limit_gain H now t d w =
     (let mv = (of_i (getLimitValue_micro H (smu w)) :: f32)
      in if t = SOURCE_VOLTAGE
         then let w1 = adjust SOURCE_VOLTAGE adjDacGainCompLim d w
              in w1\<lparr>smu := snd (fltSetCommitCurrentLimit H (env_of now w1) (f2i64 mv) (smu w1))\<rparr>
         else w)"

definition adc_gain :: "OPERATION_TYPE \<Rightarrow> cal_op \<Rightarrow> cal_op \<Rightarrow> f64 \<Rightarrow> f64 \<Rightarrow> f64 \<Rightarrow> ('s, 'z) world_scheme \<Rightarrow> ('s, 'z) world_scheme" where
  "adc_gain t neg pos dv dneg dpos w =
     (let mv = (if t = SOURCE_VOLTAGE then rawValue (V_STATS w) else rawValue (C_STATS w))
      in if mv < of_i 0 then adjust t neg (if t = SOURCE_VOLTAGE then dv else dneg) w
         else adjust t pos (if t = SOURCE_VOLTAGE then dv else dpos) w)"

definition dac_zero :: "'s hal \<Rightarrow> u32 \<Rightarrow> OPERATION_TYPE \<Rightarrow> cal_op \<Rightarrow> f64 \<Rightarrow> f64 \<Rightarrow> ('s, 'z) world_scheme \<Rightarrow> ('s, 'z) world_scheme" where
  "dac_zero H now t opc dv dc w =
     (let mv = set_milli H w
      in recommit H now t (f2i64 (mv * of_i 1000))
           (if t = SOURCE_VOLTAGE then adjust t adjDacZeroComp dv w else adjust t opc dc w))"

text \<open>The press is ignored, and reported as such, within \<open>delay\<close> of the last one.\<close>

definition cal_press :: "u32 \<Rightarrow> u32 \<Rightarrow> int \<Rightarrow> (('s, 'z) calworld_scheme \<Rightarrow> ('s, 'z) calworld_scheme) \<Rightarrow> ('s, 'z) calworld_scheme \<Rightarrow> bool \<times> ('s, 'z) calworld_scheme" where
  "cal_press delay now tag f w =
     (if timeSinceLastChange (V_CALIBRATION w) + delay > now then (False, w)
      else (True, f (startIndicator now tag (upd_cal SOURCE_VOLTAGE (\<lambda>c. c\<lparr>timeSinceLastChange := now\<rparr>) w))))"

definition cal_action :: "'s hal \<Rightarrow> u32 \<Rightarrow> int \<Rightarrow> OPERATION_TYPE \<Rightarrow> CURRENT_RANGE \<Rightarrow> (u32 \<times> (('s, 'z) calworld_scheme \<Rightarrow> ('s, 'z) calworld_scheme)) option" where
  "cal_action H now tag t r =
     (if tag = BUTTON_DAC_GAIN_COMP_UP then Some (50, dac_gain H now t adjDacGainCompNeg adjDacGainCompPos (lit 0.000005) (lit 0.00001))
      else if tag = BUTTON_DAC_GAIN_COMP_UP2 then Some (50, dac_gain H now t adjDacGainCompNeg2 adjDacGainCompPos2 (lit 0.000005) (lit 0.000005))
      else if tag = BUTTON_DAC_GAIN_COMP_DOWN then Some (50, dac_gain_down H now t)
      else if tag = BUTTON_DAC_GAIN_COMP_DOWN2 then Some (50, dac_gain H now t adjDacGainCompNeg2 adjDacGainCompPos2 (lit (- 0.000005)) (lit (- 0.000005)))
      else if tag = BUTTON_DAC_GAIN_COMP_LIM_UP then Some (50, limit_gain H now t (lit 0.000005 * lit 10))
      else if tag = BUTTON_DAC_GAIN_COMP_LIM_DOWN then Some (50, limit_gain H now t (lit (- 0.000005) * lit 10))
      else if tag = BUTTON_ADC_GAIN_COMP_UP then Some (50, adc_gain t adjAdcGainCompNeg adjAdcGainCompPos (lit 0.000002) (lit 0.000005 * lit 2) (lit 0.000005 * lit 2))
      else if tag = BUTTON_ADC_GAIN_COMP_DOWN then Some (50, adc_gain t adjAdcGainCompNeg adjAdcGainCompPos (lit (- 0.000001) * lit 10) (lit (- 0.000005) * lit 2) (lit (- 0.000005) * lit 2))
      else if tag = BUTTON_ADC_GAIN_COMP_UP2 then
        (let d = (if r = MILLIAMP10 then lit 0.000005 else lit 0.000002) in Some (50, adc_gain t adjAdcGainCompNeg2 adjAdcGainCompPos2 (lit 0.000001) d d))
      else if tag = BUTTON_ADC_GAIN_COMP_DOWN2 then Some (50, adc_gain t adjAdcGainCompNeg2 adjAdcGainCompPos2 (lit (- 0.000001))
          (if r = MILLIAMP10 then lit (- 0.000005) else lit (- 0.000002)) (if r = MILLIAMP10 then lit (- 0.000005) else lit (- 0.000001)))
      else if tag = BUTTON_DAC_ZERO_COMP_UP \<or> tag = BUTTON_DAC_ZERO_COMP_UP2 then
        Some (50, if tag = BUTTON_DAC_ZERO_COMP_UP then dac_zero H now t adjDacZeroComp (lit 0.000002) (lit 0.000001)
                  else dac_zero H now t adjDacZeroComp2 (lit 0.000002) (lit 0.000002))
      else if tag = BUTTON_DAC_ZERO_COMP_DOWN \<or> tag = BUTTON_DAC_ZERO_COMP_DOWN2 then
        Some (50, if tag = BUTTON_DAC_ZERO_COMP_DOWN then dac_zero H now t adjDacZeroComp (lit (- 0.000002)) (lit (- 0.000001))
                  else dac_zero H now t adjDacZeroComp2 (lit (- 0.000002)) (lit (- 0.000002)))
      else if tag = BUTTON_DAC_NONLINEAR_CALIBRATE then Some (1000, startAutoCal H now t)
      else None)"

definition handleCalibrationButtons :: "'s hal \<Rightarrow> u32 \<Rightarrow> int \<Rightarrow> OPERATION_TYPE \<Rightarrow> CURRENT_RANGE \<Rightarrow> ('s, 'z) calworld_scheme \<Rightarrow> bool \<times> ('s, 'z) calworld_scheme" where
  "handleCalibrationButtons H now tag t r w =
     (case cal_action H now tag t r of None \<Rightarrow> (True, w) | Some (delay, f) \<Rightarrow> cal_press delay now tag f w)"

section \<open>The automatic calibration completes\<close>

lemma cal_lens [simp]:
  "the_cal k (upd_cal k f w) = f (the_cal k w)" "the_filters k (upd_cal k f w) = the_filters k w"
  "the_cal k (upd_filters k g w) = the_cal k w" "the_filters k (upd_filters k g w) = g (the_filters k w)"
  "cal_data (upd_cal k f w) = cal_data w" "cal_data (upd_filters k g w) = cal_data w" "smu (upd_cal k f w) = smu w" "smu (upd_filters k g w) = smu w"
  by (cases k; simp add: the_cal_def upd_cal_def the_filters_def upd_filters_def)+

lemma cal_globals [simp]:
  fixes w :: "('s, 'z) calworld_scheme"
  shows "autoCalV (upd_cal k f w) = autoCalV w" "autoCalV (upd_filters k g w) = autoCalV w"
  "autoCalDone1 (upd_cal k f w) = autoCalDone1 w" "autoCalDone1 (upd_filters k g w) = autoCalDone1 w"
  "autoCalDacTimer (upd_cal k f w) = autoCalDacTimer w" "autoCalDacTimer (upd_filters k g w) = autoCalDacTimer w"
  "autoCalArrayPointer (upd_cal k f w) = autoCalArrayPointer w" "autoCalArrayPointer (upd_filters k g w) = autoCalArrayPointer w"
  "maxValueCal (upd_cal k f w) = maxValueCal w" "maxValueCal (upd_filters k g w) = maxValueCal w"
  "minValueCal (upd_cal k f w) = minValueCal w" "minValueCal (upd_filters k g w) = minValueCal w"
  "stepValueCal (upd_cal k f w) = stepValueCal w" "stepValueCal (upd_filters k g w) = stepValueCal w"
  by (cases k; simp add: upd_cal_def upd_filters_def)+

lemma cal_other [simp]:
  fixes w :: "('s, 'z) calworld_scheme"
  shows "the_cal k (w\<lparr>smu := s\<rparr>) = the_cal k w" "the_cal k (w\<lparr>cal_data := m\<rparr>) = the_cal k w" "the_cal k (w\<lparr>autoCalV := v\<rparr>) = the_cal k w"
  "the_cal k (w\<lparr>autoCalDone1 := b\<rparr>) = the_cal k w" "the_cal k (w\<lparr>autoCalDacTimer := t\<rparr>) = the_cal k w" "the_cal k (w\<lparr>autoCalArrayPointer := p\<rparr>) = the_cal k w"
  "the_cal k (w\<lparr>maxValueCal := v\<rparr>) = the_cal k w" "the_cal k (w\<lparr>minValueCal := v\<rparr>) = the_cal k w" "the_cal k (w\<lparr>stepValueCal := v\<rparr>) = the_cal k w"
  "the_filters k (w\<lparr>smu := s\<rparr>) = the_filters k w" "the_filters k (w\<lparr>autoCalDone1 := b\<rparr>) = the_filters k w"
  by (cases k; simp add: the_cal_def the_filters_def)+

definition cal_run :: "'s hal \<Rightarrow> OPERATION_TYPE \<Rightarrow> (u32 \<times> f32) list \<Rightarrow> ('s, 'z) calworld_scheme \<Rightarrow> ('s, 'z) calworld_scheme" where
  "cal_run H k calls w = fold (\<lambda>(now, v) w. autoCalADCfromDAC H now k (upd_filters k (\<lambda>f. f\<lparr>fmean := v\<rparr>) w)) calls w"

text \<open>The values read at the calls at which a point is due: more than five seconds after the last one.\<close>

fun due :: "int \<Rightarrow> (u32 \<times> f32) list \<Rightarrow> f32 list" where
  "due t [] = []"
| "due t ((now, v) # cs) = (if t + 5000 < sint now then v # due (sint now) cs else due t cs)"

definition cal_inv :: "OPERATION_TYPE \<Rightarrow> int \<Rightarrow> int \<Rightarrow> nat \<Rightarrow> eeprom \<Rightarrow> int \<Rightarrow> f32 list \<Rightarrow> ('s, 'z) calworld_scheme \<Rightarrow> bool" where
  "cal_inv k lo st n m t vs w \<longleftrightarrow> (let c = the_cal k w; i = length vs in
     autoCalInProgress c \<and> operationType c = k \<and> (autoCalDone1 w \<longrightarrow> set_adc c ! i = of_i (lo + st * int i)) \<and> autoCalDacTimer w = t \<and> autoCalArrayPointer w = int i
     \<and> autoCalV w = of_i (lo + st * int i) \<and> maxValueCal w = of_i (lo + st * int (n - 1)) \<and> stepValueCal w = of_i st
     \<and> length (set_adc c) = 200 \<and> length (meas_adc c) = 200 \<and> cs_eeprom (cal_data w) = m
     \<and> take i (set_adc c) = map (\<lambda>j. of_i (lo + st * int j)) [0..<i] \<and> take i (meas_adc c) = vs)"

definition cal_done :: "OPERATION_TYPE \<Rightarrow> int \<Rightarrow> int \<Rightarrow> nat \<Rightarrow> eeprom \<Rightarrow> f32 list \<Rightarrow> ('s, 'z) calworld_scheme \<Rightarrow> bool" where
  "cal_done k lo st n m vs w \<longleftrightarrow> (let c = the_cal k w in
     \<not> autoCalInProgress c \<and> autoCalDone c \<and> useCalibratedValues c \<and> adc_cal_points c = int n \<and> autoCalDone1 w
     \<and> take n (set_adc c) = map (\<lambda>j. of_i (lo + st * int j)) [0..<n] \<and> take n (meas_adc c) = vs
     \<and> cs_eeprom (cal_data w) = writeAdcCalToEeprom (int n) c m)"

definition points_ok :: "int \<Rightarrow> int \<Rightarrow> nat \<Rightarrow> bool" where
  "points_ok lo st n \<longleftrightarrow> 0 < st \<and> st \<le> 10000 \<and> \<bar>lo\<bar> \<le> 100000 \<and> 1 \<le> n \<and> n < 200"

lemma of_i_add:
  assumes "\<bar>a\<bar> \<le> 8000000" "\<bar>b\<bar> \<le> 8000000"
  shows "of_i a + of_i b = (of_i (a + b) :: f32)"
proof -
  have z: "of_i 0 = (Fin 0 :: f32)" by (simp add: of_i_def rnd_def rndq_def)
  have "of_i x \<noteq> (NegZero :: f32)" if "\<bar>x\<bar> \<le> 8000000" for x
  proof
    assume e: "of_i x = (NegZero :: f32)"
    then have "val (of_i x :: f32) = 0" by simp
    then have "x = 0" using that by (simp del: val.simps)
    then show False using e z by simp
  qed
  then show ?thesis using assms by (simp add: fin_add) (simp add: of_i_def)
qed

lemma of_i_less: "\<bar>a\<bar> \<le> 8000000 \<Longrightarrow> \<bar>b\<bar> \<le> 8000000 \<Longrightarrow> ((of_i a :: f32) < of_i b) = (a < b)"
  by (simp add: fin_less)

lemma upd_take: "i < length xs \<Longrightarrow> take (Suc i) (xs[i := x]) = take i xs @ [x]"
  by (simp add: take_Suc_conv_app_nth)

lemma cal_source_inv:
  fixes w :: "('s, 'z) calworld_scheme"
  assumes "cal_inv k lo st n m t vs w" and "length vs < 200"
  shows "cal_inv k lo st n m t vs (cal_source H now k w)" and "autoCalDone1 (cal_source H now k w)"
    and "the_filters k (cal_source H now k w) = the_filters k w"
  using assms by (simp_all add: cal_source_def cal_inv_def Let_def)

lemma cal_record_step:
  fixes w :: "('s, 'z) calworld_scheme"
  assumes "cal_inv k lo st n m t vs w" and "points_ok lo st n" and "length vs < n" and "autoCalDone1 w"
  shows "(length vs + 1 < n \<longrightarrow> cal_inv k lo st n m (sint now) (vs @ [fmean (the_filters k w)]) (cal_record now k w))
    \<and> (length vs + 1 = n \<longrightarrow> cal_done k lo st n m (vs @ [fmean (the_filters k w)]) (cal_record now k w))"
proof -
  let ?i = "length vs"
  have b: "st * int j \<le> 2000000" "0 \<le> st * int j" if "j \<le> 200" for j
  proof -
    have "st * int j \<le> 10000 * 200" using assms(2) that by (intro mult_mono) (auto simp: points_ok_def)
    then show "st * int j \<le> 2000000" by simp
    show "0 \<le> st * int j" using assms(2) by (simp add: points_ok_def)
  qed
  have j: "\<bar>lo + st * int j\<bar> \<le> 8000000" if "j \<le> 200" for j using b(1) [OF that] b(2) [OF that] assms(2) unfolding points_ok_def by linarith
  have nxt: "of_i (lo + st * int ?i) + of_i st = (of_i (lo + st * int (Suc ?i)) :: f32)"
    using j [of ?i] assms(2,3) by (subst of_i_add) (auto simp: points_ok_def algebra_simps)
  have gt: "((of_i (lo + st * int (Suc ?i)) :: f32) > of_i (lo + st * int (n - 1))) = (n - 1 < Suc ?i)"
  proof -
    have "((of_i (lo + st * int (Suc ?i)) :: f32) > of_i (lo + st * int (n - 1))) = (lo + st * int (n - 1) < lo + st * int (Suc ?i))"
      by (rule of_i_less [OF j j]) (use assms(2,3) in \<open>auto simp: points_ok_def\<close>)
    also have "\<dots> = (int (n - 1) < int (Suc ?i))" using assms(2) by (simp add: points_ok_def mult_less_cancel_left_pos del: of_nat_Suc of_nat_diff)
    finally show ?thesis by (simp only: of_nat_less_iff)
  qed
  have i: "?i < 200" using assms(2,3) by (simp add: points_ok_def)
  have s: "take (Suc ?i) (set_adc (the_cal k w)) = map (\<lambda>j. of_i (lo + st * int j)) [0..<Suc ?i]"
    using assms(1,4) i by (simp add: cal_inv_def Let_def take_Suc_conv_app_nth)
  show ?thesis
    using assms(1,3,4) i nxt gt s by (auto simp: cal_record_def cal_finish_def cal_inv_def cal_done_def Let_def upd_take add.commute)
qed

text \<open>One call of the main loop, with the present filtered reading \<open>v\<close>.\<close>

definition cal_call :: "'s hal \<Rightarrow> OPERATION_TYPE \<Rightarrow> u32 \<Rightarrow> f32 \<Rightarrow> ('s, 'z) calworld_scheme \<Rightarrow> ('s, 'z) calworld_scheme" where
  "cal_call H k now v w = autoCalADCfromDAC H now k (upd_filters k (\<lambda>f. f\<lparr>fmean := v\<rparr>) w)"

lemma cal_step:
  fixes w :: "('s, 'z) calworld_scheme"
  assumes "cal_inv k lo st n m t vs w" and "points_ok lo st n" and "length vs < n"
  shows "(t + 5000 < sint now \<longrightarrow> (length vs + 1 < n \<longrightarrow> cal_inv k lo st n m (sint now) (vs @ [v]) (cal_call H k now v w))
      \<and> (length vs + 1 = n \<longrightarrow> cal_done k lo st n m (vs @ [v]) (cal_call H k now v w)))
    \<and> (\<not> t + 5000 < sint now \<longrightarrow> cal_inv k lo st n m t vs (cal_call H k now v w))"
proof -
  define w0 where "w0 = upd_filters k (\<lambda>f. f\<lparr>fmean := v\<rparr>) w"
  define w1 where "w1 = (if \<not> autoCalDone1 w0 \<and> t + 500 < sint now then cal_source H now k w0 else w0)"
  have l: "length vs < 200" using assms(2,3) by (simp add: points_ok_def)
  have w0: "cal_inv k lo st n m t vs w0" "fmean (the_filters k w0) = v" using assms(1) by (simp_all add: w0_def cal_inv_def)
  have w1: "cal_inv k lo st n m t vs w1" "fmean (the_filters k w1) = v" "t + 5000 < sint now \<Longrightarrow> autoCalDone1 w1"
    using w0 cal_source_inv [OF w0(1) l] by (auto simp: w1_def)
  have "cal_call H k now v w = (if t + 5000 < sint now then cal_record now k w1 else w1)"
    using w0(1) w1(1) by (simp add: cal_call_def autoCalADCfromDAC_def cal_inv_def Let_def w0_def [symmetric] w1_def [symmetric])
  then show ?thesis using w1 cal_record_step [OF w1(1) assms(2,3)] by auto
qed

lemma cal_done_stays: "cal_done k lo st n m vs w \<Longrightarrow> cal_done k lo st n m vs (cal_run H k calls w)"
proof (induction calls arbitrary: w)
  case (Cons c calls)
  then show ?case by (cases c) (simp add: cal_run_def autoCalADCfromDAC_def cal_done_def Let_def)
qed (simp add: cal_run_def)

lemma cal_run_inv:
  assumes "points_ok lo st n"
  shows "cal_inv k lo st n m t vs w \<Longrightarrow> length vs < n \<Longrightarrow> n \<le> length vs + length (due t calls) \<Longrightarrow>
    cal_done k lo st n m (take n (vs @ due t calls)) (cal_run H k calls w)"
proof (induction calls arbitrary: t vs w)
  case (Cons c calls)
  obtain now v where c: "c = (now, v)" by (cases c)
  have r: "cal_run H k ((now, v) # calls) w = cal_run H k calls (cal_call H k now v w)" by (simp add: cal_run_def cal_call_def)
  note step = cal_step [OF Cons.prems(1) assms Cons.prems(2), of now v H]
  show ?case
  proof (cases "t + 5000 < sint now")
    case True
    show ?thesis
    proof (cases "length vs + 1 < n")
      case less: True
      then have "cal_inv k lo st n m (sint now) (vs @ [v]) (cal_call H k now v w)" using step True by simp
      from Cons.IH [OF this] show ?thesis using Cons.prems less True by (simp add: r c)
    next
      case False
      then have "cal_done k lo st n m (vs @ [v]) (cal_call H k now v w)" "n = length vs + 1" using step True Cons.prems(2) by simp_all
      then show ?thesis using cal_done_stays True by (simp add: r c)
    qed
  next
    case False
    then show ?thesis using Cons.IH [of t vs "cal_call H k now v w"] Cons.prems step by (simp add: r c)
  qed
qed simp


text \<open>C9: the automatic calibration completes and records its table: started with its default limits, and called as often as one
  likes with any readings, it ends after 21 recorded points in voltage mode and 33 in current mode; a point is recorded
  at the first call more than five seconds after the last one, the set values are the equidistant ones, the measured
  values are the filtered readings at those calls in order, and both are stored in the EEPROM, whatever the unit does.\<close>

theorem auto_calibration_completes:
  fixes w0 :: "('s, 'z) calworld_scheme"
  defines "n \<equiv> \<lambda>k. (if k = SOURCE_VOLTAGE then 21 else 33 :: nat)" and "lo \<equiv> \<lambda>k. (if k = SOURCE_VOLTAGE then - 10000 else - 400 :: int)"
    and "st \<equiv> \<lambda>k. (if k = SOURCE_VOLTAGE then 1000 else 25 :: int)"
  assumes "operationType (the_cal k w0) = k" "\<not> autoCalInProgress (the_cal k w0)" "\<not> autoCalDone1 w0"
    "length (set_adc (the_cal k w0)) = 200" "length (meas_adc (the_cal k w0)) = 200"
    "minValueCal w0 = lit (- 10000)" "maxValueCal w0 = lit 10000" "stepValueCal w0 = lit 1000"
    and "n k \<le> length (due (sint now) calls)"
  shows "(let w = cal_run H k calls (startAutoCal H now k w0); c = the_cal k w
    in \<not> autoCalInProgress c \<and> useCalibratedValues c \<and> adc_cal_points c = int (n k)
      \<and> take (n k) (set_adc c) = map (\<lambda>j. of_i (lo k + st k * int j)) [0..<n k] \<and> take (n k) (meas_adc c) = take (n k) (due (sint now) calls)
      \<and> cs_eeprom (cal_data w) = writeAdcCalToEeprom (int (n k)) c (cs_eeprom (cal_data w0)))"
proof -
  have l: "lit (- 10000) = (of_i (- 10000) :: f32)" "lit 10000 = (of_i 10000 :: f32)" "lit 1000 = (of_i 1000 :: f32)"
      "lit 400 = (of_i 400 :: f32)" "lit (- 400) = (of_i (- 400) :: f32)" "lit 25 = (of_i 25 :: f32)" by (simp_all add: lit_def of_i_def)
  have "cal_inv k (lo k) (st k) (n k) (cs_eeprom (cal_data w0)) (sint now) [] (startAutoCal H now k w0)"
    using assms by (cases k) (simp_all add: startAutoCal_def cal_limits_def cal_inv_def Let_def l)
  moreover have "points_ok (lo k) (st k) (n k)" by (simp add: points_ok_def n_def lo_def st_def)
  moreover have "0 < n k" by (simp add: n_def)
  ultimately have "cal_done k (lo k) (st k) (n k) (cs_eeprom (cal_data w0)) (take (n k) ([] @ due (sint now) calls)) (cal_run H k calls (startAutoCal H now k w0))"
    using assms(12) by (intro cal_run_inv) simp_all
  then show ?thesis by (simp add: cal_done_def Let_def)
qed

definition calworld_sample :: "unit smu717 calworld" where
  "calworld_sample = zworld.extend (zworld_sample\<lparr>C_CALIBRATION := cal_unit\<lparr>operationType := SOURCE_CURRENT\<rparr>\<rparr>)
     (calworld.fields 0 (lit (- 10000)) False 0 (lit 10000) (lit (- 10000)) (lit 1000) 0 0)"

lemma calworld_sample [simp]:
  "the_cal SOURCE_VOLTAGE calworld_sample = cal_unit" "the_cal SOURCE_CURRENT calworld_sample = cal_unit\<lparr>operationType := SOURCE_CURRENT\<rparr>"
  "maxValueCal calworld_sample = lit 10000" "minValueCal calworld_sample = lit (- 10000)" "stepValueCal calworld_sample = lit 1000"
  "\<not> autoCalDone1 calworld_sample" "cs_eeprom (cal_data calworld_sample) = cs_eeprom (cal_data zworld_sample)"
  by (simp_all add: the_cal_def calworld_sample_def calworld.defs zworld.defs zworld_sample_def)

lemma cal_unit_fields [simp]: "operationType cal_unit = SOURCE_VOLTAGE" "\<not> autoCalInProgress cal_unit" "length (set_adc cal_unit) = 200" "length (meas_adc cal_unit) = 200"
  by (simp_all add: cal_unit_def cal_zero_def)

definition calls_sample :: "(u32 \<times> f32) list" where
  "calls_sample = map (\<lambda>j. (word_of_int (2100 * j), of_i j)) [1..100]"

theorem auto_calibration_completes_witness:
  "(let c = the_cal SOURCE_CURRENT (cal_run (hal717 (\<lambda>_ d. (0, d))) SOURCE_CURRENT calls_sample (startAutoCal (hal717 (\<lambda>_ d. (0, d))) 0 SOURCE_CURRENT calworld_sample))
    in meas_adc c ! 3 = of_i 12 \<and> adc_cal_points c = 33)"
proof -
  let ?c = "the_cal SOURCE_CURRENT (cal_run (hal717 (\<lambda>_ d. (0, d))) SOURCE_CURRENT calls_sample (startAutoCal (hal717 (\<lambda>_ d. (0, d))) 0 SOURCE_CURRENT calworld_sample))"
  have d: "due (sint (0 :: u32)) calls_sample = map (\<lambda>j. of_i (3 * j)) [1..33]" unfolding calls_sample_def by code_simp
  have l: "(if SOURCE_CURRENT = SOURCE_VOLTAGE then 21 else 33) \<le> length (due (sint (0 :: u32)) calls_sample)" unfolding d by simp
  have s: "operationType (the_cal SOURCE_CURRENT calworld_sample) = SOURCE_CURRENT" "\<not> autoCalInProgress (the_cal SOURCE_CURRENT calworld_sample)"
      "length (set_adc (the_cal SOURCE_CURRENT calworld_sample)) = 200" "length (meas_adc (the_cal SOURCE_CURRENT calworld_sample)) = 200" by simp_all
  note q = auto_calibration_completes [OF s(1,2) calworld_sample(6) s(3,4) calworld_sample(4,3,5) l, of "hal717 (\<lambda>_ d. (0, d))", unfolded Let_def]
  have r: "take 33 (meas_adc ?c) = take 33 (due (sint (0 :: u32)) calls_sample)" "adc_cal_points ?c = 33"
    using q by (simp_all only: if_not_P [OF OPERATION_TYPE.distinct(2)] of_nat_numeral)
  have "meas_adc ?c ! 3 = take 33 (meas_adc ?c) ! 3" by simp
  also have "\<dots> = of_i 12" unfolding r(1) d by (simp add: upto_rec_numeral)
  finally show ?thesis using r(2) by (simp add: Let_def)
qed

text \<open>the second automatic calibration of a session misses its first point: the flag that the value has been sourced is left set by
  the end of the first one, so until the next point is due the unit is not given the first set value and the table
  entry for it is not written.\<close>

theorem second_calibration_skips_first_value:
  assumes "autoCalDone1 w" and "\<not> autoCalInProgress (the_cal k w)"
  shows "smu (autoCalADCfromDAC H t k (startAutoCal H now k w)) = setSamplingRate H 20 (smu w)
    \<and> set_adc (the_cal k (autoCalADCfromDAC H t k (startAutoCal H now k w))) = set_adc (the_cal k w)"
proof -
  have u: "the_cal k (cal_limits k w) = the_cal k w" "smu (cal_limits k w) = smu w" "autoCalDone1 (cal_limits k w)" using assms by (simp_all add: cal_limits_def)
  define w1 where "w1 = startAutoCal H now k w"
  have w1: "autoCalInProgress (the_cal k w1)" "autoCalDone1 w1" "smu w1 = setSamplingRate H 20 (smu w)" "set_adc (the_cal k w1) = set_adc (the_cal k w)"
    using assms u by (simp_all add: w1_def startAutoCal_def Let_def)
  have f: "smu (cal_record t k w1) = smu w1" "set_adc (the_cal k (cal_record t k w1)) = set_adc (the_cal k w1)"
    by (simp_all add: cal_record_def cal_finish_def Let_def)
  show ?thesis unfolding w1_def [symmetric] using w1 f by (simp add: autoCalADCfromDAC_def)
qed


theorem second_calibration_skips_first_value_witness:
  "set_adc (the_cal SOURCE_VOLTAGE (autoCalADCfromDAC (hal717 (\<lambda>_ d. (0, d))) 900 SOURCE_VOLTAGE
     (startAutoCal (hal717 (\<lambda>_ d. (0, d))) 0 SOURCE_VOLTAGE (calworld_sample\<lparr>autoCalDone1 := True\<rparr>)))) = set_adc cal_unit"
  using second_calibration_skips_first_value [of "calworld_sample\<lparr>autoCalDone1 := True\<rparr>" SOURCE_VOLTAGE "hal717 (\<lambda>_ d. (0, d))" 900 0] by simp


end
