(* ===== verification/Touch.thy ===== *)
theory Touch
  imports World Tags SmuHal
begin


text \<open>
  The touch input of the main program (src/src/Poormanssmu.cpp: ignoreGesture, detectGestures, checkButtons) and the state of the
  widgets it moves (src/src/widgets.cpp).  One poll of the touch screen is its tag, the tag of a tracked slider and the
  coordinates, - 32768 when nothing is touched.
\<close>

section \<open>Gestures\<close>

definition GEST_NONE :: int where "GEST_NONE = 0"
definition GEST_MOVE_LEFT :: int where "GEST_MOVE_LEFT = 1"
definition GEST_MOVE_RIGHT :: int where "GEST_MOVE_RIGHT = 2"
definition GEST_MOVE_DOWN :: int where "GEST_MOVE_DOWN = 3"
definition LOWER_WIDGET_Y_POS :: int where "LOWER_WIDGET_Y_POS = 250"

record gest =
  gestureDetected :: int
  gestOldX :: int
  gestOldY :: int
  gestDurationX :: int
  gestDurationY :: int
  trackingDetectedTimer :: u32
  trackingOngoing :: int

definition ignoreGesture :: "u32 \<Rightarrow> int \<Rightarrow> gest \<Rightarrow> bool \<times> gest" where
  "ignoreGesture now t g =
     (if trackingDetectedTimer g + 50 > now then (True, g)
      else if t mod 256 = TAG_FILTER_SLIDER \<or> t mod 256 = TAG_FILTER_SLIDER_B
      then (True, g\<lparr>trackingDetectedTimer := now, trackingOngoing := t mod 256\<rparr>)
      else (False, g\<lparr>trackingOngoing := 0\<rparr>))"

text \<open>\<open>dialog\<close>: the menu or a dial is open; \<open>scrolling\<close>: a widget is moving.\<close>

definition gesture_x :: "bool \<Rightarrow> bool \<Rightarrow> int \<Rightarrow> int \<Rightarrow> int \<Rightarrow> gest \<Rightarrow> gest" where
  "gesture_x dialog scrolling x y dx g =
     (if dialog then g
      else if x > 0 \<and> y > LOWER_WIDGET_Y_POS \<and> dx < - 20 \<and> \<not> scrolling
      then (if gestDurationX g + 1 \<ge> 3 then g\<lparr>gestureDetected := GEST_MOVE_LEFT, gestDurationX := 0\<rparr> else g\<lparr>gestDurationX := gestDurationX g + 1\<rparr>)
      else if x > 0 \<and> y > LOWER_WIDGET_Y_POS \<and> dx > 20 \<and> \<not> scrolling
      then (if gestDurationX g + 1 \<ge> 3 then g\<lparr>gestureDetected := GEST_MOVE_RIGHT, gestDurationX := 0\<rparr> else g\<lparr>gestDurationX := gestDurationX g + 1\<rparr>)
      else g)"

definition gesture_y :: "bool \<Rightarrow> int \<Rightarrow> int \<Rightarrow> int \<Rightarrow> gest \<Rightarrow> gest" where
  "gesture_y scrolling y dx dy g =
     (if y > 0 \<and> y < 150 \<and> dy > 10 \<and> \<not> scrolling \<and> dx < 20
      then (if gestDurationY g + 1 \<ge> 2 then g\<lparr>gestureDetected := GEST_MOVE_DOWN, gestDurationY := 0\<rparr> else g\<lparr>gestDurationY := gestDurationY g + 1\<rparr>)
      else g)"

definition detectGestures :: "u32 \<Rightarrow> bool \<Rightarrow> bool \<Rightarrow> int \<Rightarrow> int \<Rightarrow> int \<Rightarrow> gest \<Rightarrow> gest" where
  "detectGestures now dialog scrolling track_tag x y g0 =
     (let (ign, g) = ignoreGesture now track_tag g0
      in if ign then g
         else let none = (x = - 32768); dx = (if none then 0 else x - gestOldX g); dy = (if none then 0 else y - gestOldY g);
                  g1 = (if none then g\<lparr>gestDurationX := 0, gestDurationY := 0\<rparr> else g);
                  g2 = (if gestureDetected g1 = GEST_NONE then gesture_y scrolling y dx dy (gesture_x dialog scrolling x y dx g1)
                        else g1\<lparr>gestureDetected := GEST_NONE, gestDurationX := 0, gestDurationY := 0\<rparr>)
              in g2\<lparr>gestOldX := x, gestOldY := y\<rparr>)"

section \<open>The filter of the buttons\<close>

text \<open>\<open>touch_x\<close> and \<open>touch_y\<close> are the arrays x and y of ten coordinates.  A write past their end is the value None.\<close>

record touch =
  tagTimer :: int
  buttonPressed :: bool
  buttonPressedPeriod :: int
  prevButton :: int
  touch_x :: "int list"
  touch_y :: "int list"

definition touch_initial :: "int \<Rightarrow> touch" where
  "touch_initial t = \<lparr>tagTimer = t, buttonPressed = False, buttonPressedPeriod = 0, prevButton = 0, touch_x = replicate 10 0, touch_y = replicate 10 0\<rparr>"

definition accidental :: "touch \<Rightarrow> bool" where
  "accidental t = list_ex (\<lambda>i. touch_x t ! i > touch_x t ! (i + 1) + 10 \<or> touch_x t ! i < touch_x t ! (i + 1) - 10
      \<or> touch_y t ! i > touch_y t ! (i + 1) + 10 \<or> touch_y t ! i < touch_y t ! (i + 1) - 10) [0 ..< 2]"

definition register_touch :: "int \<Rightarrow> int \<Rightarrow> int \<Rightarrow> touch \<Rightarrow> touch option" where
  "register_touch tag tx ty t =
     (if tag > 0
      then if prevButton t = 1
           then if buttonPressedPeriod t \<ge> 10 then None
                else let i = nat (buttonPressedPeriod t) in Some (t\<lparr>buttonPressed := True, touch_x := (touch_x t)[i := tx], touch_y := (touch_y t)[i := ty],
                       buttonPressedPeriod := buttonPressedPeriod t + 1, prevButton := 1\<rparr>)
           else Some (t\<lparr>buttonPressed := True, prevButton := 1\<rparr>)
      else Some (t\<lparr>prevButton := 0, buttonPressed := False, buttonPressedPeriod := 0\<rparr>))"

definition filter_touch :: "u32 \<Rightarrow> int \<Rightarrow> int \<Rightarrow> int \<Rightarrow> touch \<Rightarrow> (int \<times> touch) option" where
  "filter_touch now tag tx ty t0 =
     (if tag > 0 \<and> tagTimer t0 + 20 > sint now then Some (0, t0)
      else case register_touch tag tx ty (t0\<lparr>tagTimer := sint now\<rparr>) of None \<Rightarrow> None
        | Some t \<Rightarrow> Some (if buttonPressedPeriod t < 3 then (0, t) else if accidental t then (0, t) else (tag, t\<lparr>buttonPressedPeriod := 0\<rparr>)))"

fun touch_run :: "(u32 \<times> int \<times> int \<times> int) list \<Rightarrow> touch \<Rightarrow> (int list \<times> touch) option" where
  "touch_run [] t = Some ([], t)"
| "touch_run ((now, tag, tx, ty) # ps) t = (case filter_touch now tag tx ty t of None \<Rightarrow> None
     | Some (b, t1) \<Rightarrow> map_option (\<lambda>(bs, t2). (b # bs, t2)) (touch_run ps t1))"

section \<open>Widgets\<close>

record widgets =
  settingsCurrentAutoRange :: int
  w_scroll :: int
  activeWidget :: int
  scrollDir :: int
  w_timeSinceLastChange :: u32

definition noOfWidgets :: int where "noOfWidgets = 7"
definition scrollSpeed :: int where "scrollSpeed = 70"

definition widgets_initial :: widgets where
  "widgets_initial = \<lparr>settingsCurrentAutoRange = 0, w_scroll = 0, activeWidget = 0, scrollDir = 0, w_timeSinceLastChange = 0\<rparr>"

definition isScrolling :: "widgets \<Rightarrow> bool" where "isScrolling w = (scrollDir w \<noteq> 0)"

definition handleWidgetScrollPosition :: "int \<Rightarrow> widgets \<Rightarrow> widgets" where
  "handleWidgetScrollPosition gesture w0 =
     (let w1 = (if gesture = GEST_MOVE_LEFT then w0\<lparr>scrollDir := - 1\<rparr> else if gesture = GEST_MOVE_RIGHT then w0\<lparr>scrollDir := 1\<rparr> else w0);
          w = w1\<lparr>w_scroll := w_scroll w1 + scrollDir w1 * scrollSpeed\<rparr>
      in if w_scroll w \<le> - 800 \<and> scrollDir w \<noteq> 0
         then w\<lparr>activeWidget := (if activeWidget w + 1 > noOfWidgets - 1 then 0 else activeWidget w + 1), scrollDir := 0, w_scroll := 0\<rparr>
         else if w_scroll w \<ge> 800 \<and> scrollDir w \<noteq> 0
         then w\<lparr>activeWidget := (if activeWidget w - 1 < 0 then noOfWidgets - 1 else activeWidget w - 1), scrollDir := 0, w_scroll := 0\<rparr>
         else w)"

text \<open>Which widgets are drawn where: number and horizontal position.\<close>

definition displayed_widgets :: "widgets \<Rightarrow> (int \<times> int) list" where
  "displayed_widgets w =
     (if activeWidget w \<ge> 0 then
        if scrollDir w = 0 then [(activeWidget w, 0)]
        else if scrollDir w = - 1 then [(activeWidget w, w_scroll w), (if activeWidget w = noOfWidgets - 1 then 0 else activeWidget w + 1, w_scroll w + 800)]
        else if scrollDir w = 1 then [(if activeWidget w = 0 then noOfWidgets - 1 else activeWidget w - 1, w_scroll w - 800), (activeWidget w, w_scroll w)]
        else []
      else [])"

text \<open>The sliders of the experimental widget.\<close>

definition slider_value :: "int \<Rightarrow> int \<Rightarrow> int" where
  "slider_value hi track_val = f2i32 (of_i (hi * track_val) / lit 65535 :: f64)"

definition handleSliders :: "int \<Rightarrow> int \<Rightarrow> ('s, 'z) world_scheme \<Rightarrow> ('s, 'z) world_scheme" where
  "handleSliders track_tag track_val w =
     (if track_tag mod 256 = TAG_FILTER_SLIDER
      then let n = slider_value 50 track_val in w\<lparr>V_FILTERS := setFilterSize n (V_FILTERS w), C_FILTERS := setFilterSize n (C_FILTERS w)\<rparr>
      else if track_tag mod 256 = TAG_FILTER_SLIDER_B
      then let n = slider_value 100 track_val in w\<lparr>V_STATS := setNrOfSamplesBeforeStore n (V_STATS w), C_STATS := setNrOfSamplesBeforeStore n (C_STATS w)\<rparr>
      else w)"

section \<open>A still press is accepted, a drag overruns the arrays\<close>

fun spaced :: "int \<Rightarrow> (u32 \<times> int \<times> int \<times> int) list \<Rightarrow> bool" where
  "spaced t [] = True"
| "spaced t ((now, _) # ps) = (t + 20 \<le> sint now \<and> spaced (sint now) ps)"

text \<open>All polls report the button \<open>tag\<close> with coordinates inside a square of ten pixels.\<close>

fun held_still :: "int \<Rightarrow> int \<Rightarrow> int \<Rightarrow> (u32 \<times> int \<times> int \<times> int) list \<Rightarrow> bool" where
  "held_still tag a b [] = True"
| "held_still tag a b ((_, tag', tx, ty) # ps) = (tag' = tag \<and> a \<le> tx \<and> tx \<le> a + 10 \<and> b \<le> ty \<and> ty \<le> b + 10 \<and> held_still tag a b ps)"

definition inside :: "int \<Rightarrow> int \<Rightarrow> touch \<Rightarrow> bool" where
  "inside a b t \<longleftrightarrow> length (touch_x t) = 10 \<and> length (touch_y t) = 10
     \<and> (\<forall>i. int i < buttonPressedPeriod t \<longrightarrow> a \<le> touch_x t ! i \<and> touch_x t ! i \<le> a + 10 \<and> b \<le> touch_y t ! i \<and> touch_y t ! i \<le> b + 10)"

lemma accidental_alt: "accidental t = (\<not> (\<bar>touch_x t ! 0 - touch_x t ! 1\<bar> \<le> 10 \<and> \<bar>touch_y t ! 0 - touch_y t ! 1\<bar> \<le> 10
    \<and> \<bar>touch_x t ! 1 - touch_x t ! 2\<bar> \<le> 10 \<and> \<bar>touch_y t ! 1 - touch_y t ! 2\<bar> \<le> 10))"
proof -
  have "[0 ..< 2] = [0, 1 :: nat]" by (simp add: upt_rec)
  moreover have "(u > v + 10 \<or> u < v - 10 \<or> R) = (\<not> \<bar>u - v\<bar> \<le> 10 \<or> R)" for u v :: int and R by arith
  moreover have "(u > v + 10 \<or> u < v - 10) = (\<not> \<bar>u - v\<bar> \<le> 10)" for u v :: int by arith
  ultimately show ?thesis by (simp add: accidental_def numeral_2_eq_2) blast
qed

lemma still_step:
  assumes "inside a b t" "prevButton t = 1" "0 \<le> buttonPressedPeriod t" "buttonPressedPeriod t < 3" "tag > 0"
    and "tagTimer t + 20 \<le> sint now" "a \<le> tx" "tx \<le> a + 10" "b \<le> ty" "ty \<le> b + 10"
  obtains t' where "filter_touch now tag tx ty t = Some (if buttonPressedPeriod t = 2 then tag else 0, t')" "inside a b t'" "prevButton t' = 1"
    "buttonPressedPeriod t' = (buttonPressedPeriod t + 1) mod 3" "tagTimer t' = sint now"
proof -
  let ?p = "buttonPressedPeriod t"
  define t1 where "t1 = t\<lparr>tagTimer := sint now, buttonPressed := True, touch_x := (touch_x t)[nat ?p := tx], touch_y := (touch_y t)[nat ?p := ty],
     buttonPressedPeriod := ?p + 1, prevButton := 1\<rparr>"
  have r: "register_touch tag tx ty (t\<lparr>tagTimer := sint now\<rparr>) = Some t1" using assms(2,4,5) by (simp add: register_touch_def t1_def Let_def)
  have ins: "inside a b t1" using assms(1,3,4,7-10) by (auto simp: inside_def t1_def nth_list_update)
  have p: "?p = 0 \<or> ?p = 1 \<or> ?p = 2" using assms(3,4) by linarith
  show thesis
  proof (cases "?p = 2")
    case True
    then have i: "a \<le> touch_x t1 ! i \<and> touch_x t1 ! i \<le> a + 10 \<and> b \<le> touch_y t1 ! i \<and> touch_y t1 ! i \<le> b + 10" if "i < 3" for i
      using ins that unfolding inside_def by (auto simp: t1_def)
    have "\<not> accidental t1" unfolding accidental_alt using i [of 0] i [of 1] i [of 2] by auto
    then have "filter_touch now tag tx ty t = Some (tag, t1\<lparr>buttonPressedPeriod := 0\<rparr>)"
      using r assms(6) True by (simp add: filter_touch_def) (simp add: t1_def)
    moreover have "inside a b (t1\<lparr>buttonPressedPeriod := 0\<rparr>)" using ins by (simp add: inside_def)
    ultimately show thesis using True by (intro that) (simp_all, simp_all add: t1_def)
  next
    case False
    then have "filter_touch now tag tx ty t = Some (0, t1)" using r assms(6) p by (auto simp: filter_touch_def t1_def)
    then show thesis using ins False p by (intro that) (auto simp: t1_def)
  qed
qed

lemma still_run:
  assumes "tag > 0"
  shows "inside a b t \<Longrightarrow> prevButton t = 1 \<Longrightarrow> 0 \<le> buttonPressedPeriod t \<Longrightarrow> buttonPressedPeriod t < 3 \<Longrightarrow>
    spaced (tagTimer t) ps \<Longrightarrow> held_still tag a b ps \<Longrightarrow>
    map_option fst (touch_run ps t) = Some (map (\<lambda>k. if (buttonPressedPeriod t + int k) mod 3 = 2 then tag else 0) [0..<length ps])"
proof (induction ps arbitrary: t)
  case (Cons q ps)
  obtain now g tx ty where q: "q = (now, g, tx, ty)" by (cases q)
  obtain t' where t': "filter_touch now tag tx ty t = Some (if buttonPressedPeriod t = 2 then tag else 0, t')" "inside a b t'" "prevButton t' = 1"
    "buttonPressedPeriod t' = (buttonPressedPeriod t + 1) mod 3" "tagTimer t' = sint now"
    by (rule still_step [OF Cons.prems(1-4) assms, of now tx ty]) (use Cons.prems(5,6) in \<open>auto simp: q\<close>)
  have "map_option fst (touch_run ps t') = Some (map (\<lambda>k. if (buttonPressedPeriod t' + int k) mod 3 = 2 then tag else 0) [0..<length ps])"
    by (rule Cons.IH) (use Cons.prems t' in \<open>auto simp: q\<close>)
  moreover have "(buttonPressedPeriod t' + int k) mod 3 = (buttonPressedPeriod t + int (Suc k)) mod 3" for k by (simp add: t'(4) mod_simps algebra_simps)
  moreover have "(buttonPressedPeriod t = 2) = (buttonPressedPeriod t mod 3 = 2)" using Cons.prems by simp
  ultimately show ?case using t'(1) Cons.prems(6) by (auto simp: q upt_conv_Cons map_Suc_upt [symmetric] comp_def option.map_comp split_def map_option_case simp del: upt_Suc split: option.splits)
qed simp

text \<open>C11: a button held still is accepted on every third poll: after the first poll, which only notes the touch, a touch that stays within ten
  pixels and is polled at the pace of the filter (every 20 ms or slower) reports the button at polls 3, 6, 9 and so on, and
  nothing in between, for however long it is held.\<close>

theorem still_press_accepted:
  assumes "tag > 0" and "length (touch_x t) = 10" and "length (touch_y t) = 10" and "prevButton t = 0" and "buttonPressedPeriod t = 0"
    and "spaced (tagTimer t) ps" and "held_still tag a b ps"
  shows "map_option fst (touch_run ps t) = Some (map (\<lambda>k. if 0 < k \<and> k mod 3 = 0 then tag else 0) [0..<length ps])"
proof (cases ps)
  case (Cons q qs)
  obtain now g tx ty where q: "q = (now, g, tx, ty)" by (cases q)
  define t1 where "t1 = t\<lparr>tagTimer := sint now, buttonPressed := True, prevButton := 1\<rparr>"
  have f: "filter_touch now tag tx ty t = Some (0, t1)"
    using assms(1,4,5,6) Cons by (simp add: filter_touch_def register_touch_def q t1_def)
  have "map_option fst (touch_run qs t1) = Some (map (\<lambda>k. if (buttonPressedPeriod t1 + int k) mod 3 = 2 then tag else 0) [0..<length qs])"
    by (rule still_run [OF assms(1), where a = a and b = b]) (use assms Cons in \<open>auto simp: q t1_def inside_def\<close>)
  moreover have "(int k mod 3 = 2) = (Suc k mod 3 = 0)" for k by presburger
  ultimately show ?thesis using f assms(5,7) Cons
    by (auto simp: q t1_def upt_conv_Cons map_Suc_upt [symmetric] comp_def option.map_comp split_def map_option_case simp del: upt_Suc split: option.splits)
qed simp

definition still_sample :: "(u32 \<times> int \<times> int \<times> int) list" where
  "still_sample = [(1030, 14, 100, 200), (1060, 14, 104, 201), (1090, 14, 108, 203), (1120, 14, 108, 203), (1150, 14, 109, 204)]"

theorem still_press_accepted_witness:
  "map_option fst (touch_run still_sample (touch_initial 1000)) = Some (map (\<lambda>k. if 0 < k \<and> k mod 3 = 0 then 14 else 0) [0..<5])"
proof -
  have "spaced (tagTimer (touch_initial 1000)) still_sample" "held_still 14 100 200 still_sample" "length still_sample = 5"
    by (simp_all add: still_sample_def touch_initial_def)
  then show ?thesis using still_press_accepted [of 14 "touch_initial 1000" still_sample 100 200] by (simp add: touch_initial_def)
qed

text \<open>The touches of a drag: any coordinates, a touch at every poll.\<close>

fun dragged :: "(u32 \<times> int \<times> int \<times> int) list \<Rightarrow> bool" where
  "dragged [] = True"
| "dragged ((_, tag, _, _) # ps) = (tag > 0 \<and> dragged ps)"

lemma drag_run:
  "dragged ps \<Longrightarrow> spaced (tagTimer t) ps \<Longrightarrow> prevButton t = 1 \<Longrightarrow> 2 \<le> buttonPressedPeriod t \<Longrightarrow> buttonPressedPeriod t \<le> 10 \<Longrightarrow> length (touch_x t) = 10 \<Longrightarrow>
    \<bar>touch_x t ! 0 - touch_x t ! 1\<bar> > 10 \<Longrightarrow> 10 - buttonPressedPeriod t < int (length ps) \<Longrightarrow> touch_run ps t = None"
proof (induction ps arbitrary: t)
  case (Cons q ps)
  obtain now tag tx ty where q: "q = (now, tag, tx, ty)" by (cases q)
  show ?case
  proof (cases "buttonPressedPeriod t = 10")
    case True
    then show ?thesis using Cons.prems by (simp add: q filter_touch_def register_touch_def)
  next
    case False
    let ?p = "buttonPressedPeriod t"
    define t1 where "t1 = t\<lparr>tagTimer := sint now, buttonPressed := True, touch_x := (touch_x t)[nat ?p := tx], touch_y := (touch_y t)[nat ?p := ty],
       buttonPressedPeriod := ?p + 1, prevButton := 1\<rparr>"
    have x: "touch_x t1 ! 0 = touch_x t ! 0" "touch_x t1 ! 1 = touch_x t ! 1" using Cons.prems(4) by (simp_all add: t1_def)
    then have "accidental t1" using Cons.prems(7) by (simp add: accidental_alt)
    moreover have "register_touch tag tx ty (t\<lparr>tagTimer := sint now\<rparr>) = Some t1" using Cons.prems False by (simp add: register_touch_def t1_def Let_def q)
    ultimately have f: "filter_touch now tag tx ty t = Some (0, t1)" using Cons.prems by (simp add: filter_touch_def q)
    have "touch_run ps t1 = None" by (rule Cons.IH) (use Cons.prems False x in \<open>auto simp: q t1_def\<close>)
    then show ?thesis by (simp add: q f)
  qed
qed simp

text \<open>a drag writes past the arrays of the filter: when the second and third poll of a touch are more than ten pixels apart and the finger
  stays down for twelve polls, the thirteenth coordinate is written outside the arrays of ten, because the count is not
  reset when the touch is found to be accidental.\<close>

theorem drag_overruns_arrays:
  assumes "\<bar>x1 - x2\<bar> > 10" and "length (touch_x t) = 10" and "prevButton t = 0" and "buttonPressedPeriod t = 0"
    and "spaced (tagTimer t) ((t0, g0, x0, y0) # (t1, g1, x1, y1) # (t2, g2, x2, y2) # ps)"
    and "dragged ((t0, g0, x0, y0) # (t1, g1, x1, y1) # (t2, g2, x2, y2) # ps)" and "9 \<le> length ps"
  shows "touch_run ((t0, g0, x0, y0) # (t1, g1, x1, y1) # (t2, g2, x2, y2) # ps) t = None"
proof -
  define a where "a = t\<lparr>tagTimer := sint t0, buttonPressed := True, prevButton := 1\<rparr>"
  define b where "b = a\<lparr>tagTimer := sint t1, touch_x := (touch_x t)[0 := x1], touch_y := (touch_y t)[0 := y1], buttonPressedPeriod := 1\<rparr>"
  define c where "c = b\<lparr>tagTimer := sint t2, touch_x := (touch_x t)[0 := x1, 1 := x2], touch_y := (touch_y t)[0 := y1, 1 := y2], buttonPressedPeriod := 2\<rparr>"
  have f: "filter_touch t0 g0 x0 y0 t = Some (0, a)" "filter_touch t1 g1 x1 y1 a = Some (0, b)" "filter_touch t2 g2 x2 y2 b = Some (0, c)"
    using assms(3-6) by (simp_all add: filter_touch_def register_touch_def Let_def a_def b_def c_def)
  have "touch_run ps c = None" by (rule drag_run) (use assms in \<open>auto simp: a_def b_def c_def\<close>)
  then show ?thesis by (simp add: f)
qed

theorem drag_overruns_arrays_witness:
  "touch_run ((1030, 9, 0, 0) # (1060, 9, 50, 0) # (1090, 9, 100, 0) # map (\<lambda>k. (word_of_int (1120 + 30 * k), 9, 150, 0)) [0..8]) (touch_initial 1000) = None"
proof -
  let ?ps = "map (\<lambda>k. (word_of_int (1120 + 30 * k) :: u32, 9 :: int, 150 :: int, 0 :: int)) [0..8]"
  have "spaced (tagTimer (touch_initial 1000)) ((1030, 9, 0, 0) # (1060, 9, 50, 0) # (1090, 9, 100, 0) # ?ps)" by code_simp
  moreover have "dragged ((1030, 9, 0, 0) # (1060, 9, 50, 0) # (1090, 9, 100, 0) # ?ps)" by code_simp
  ultimately show ?thesis by (intro drag_overruns_arrays) (simp_all add: touch_initial_def)
qed

section \<open>Swiping\<close>

lemma scroll_steps: "scrollDir w = dr \<Longrightarrow> \<bar>dr\<bar> = 1 \<Longrightarrow> w_scroll w = dr * 70 * int k \<Longrightarrow> k \<le> 10 \<Longrightarrow>
    handleWidgetScrollPosition GEST_NONE w = w\<lparr>w_scroll := dr * 70 * int (k + 1)\<rparr>"
  by (auto simp: handleWidgetScrollPosition_def GEST_NONE_def GEST_MOVE_LEFT_def GEST_MOVE_RIGHT_def scrollSpeed_def Let_def abs_if algebra_simps split: if_splits)

lemma scroll_many: "scrollDir w = dr \<Longrightarrow> \<bar>dr\<bar> = 1 \<Longrightarrow> w_scroll w = dr * 70 \<Longrightarrow> k \<le> 10 \<Longrightarrow>
    (handleWidgetScrollPosition GEST_NONE ^^ k) w = w\<lparr>w_scroll := dr * 70 * int (k + 1)\<rparr>"
proof (induction k)
  case (Suc k)
  have "(handleWidgetScrollPosition GEST_NONE ^^ k) w = w\<lparr>w_scroll := dr * 70 * int (k + 1)\<rparr>" using Suc by simp
  then show ?case using Suc.prems scroll_steps [of "w\<lparr>w_scroll := dr * 70 * int (k + 1)\<rparr>" dr "k + 1"] by simp
qed simp

text \<open>C31: a swipe moves to the neighbouring widget and stops: from rest, a gesture to the left or right ends after twelve passes on the next or
  previous of the seven widgets, round the ends, with the display at rest again; before that it has not moved on.\<close>

theorem swipe_completes:
  fixes w :: widgets
  assumes "scrollDir w = 0" and "w_scroll w = 0" and "0 \<le> activeWidget w" and "activeWidget w < 7"
  shows "(handleWidgetScrollPosition GEST_NONE ^^ 11) (handleWidgetScrollPosition GEST_MOVE_LEFT w) = w\<lparr>activeWidget := (activeWidget w + 1) mod 7\<rparr>
    \<and> (handleWidgetScrollPosition GEST_NONE ^^ 11) (handleWidgetScrollPosition GEST_MOVE_RIGHT w) = w\<lparr>activeWidget := (activeWidget w - 1) mod 7\<rparr>
    \<and> activeWidget ((handleWidgetScrollPosition GEST_NONE ^^ 10) (handleWidgetScrollPosition GEST_MOVE_LEFT w)) = activeWidget w"
proof -
  have s: "handleWidgetScrollPosition GEST_MOVE_LEFT w = w\<lparr>scrollDir := - 1, w_scroll := - 70\<rparr>" "handleWidgetScrollPosition GEST_MOVE_RIGHT w = w\<lparr>scrollDir := 1, w_scroll := 70\<rparr>"
    using assms by (simp_all add: handleWidgetScrollPosition_def GEST_MOVE_LEFT_def GEST_MOVE_RIGHT_def scrollSpeed_def)
  have l: "(handleWidgetScrollPosition GEST_NONE ^^ 10) (w\<lparr>scrollDir := - 1, w_scroll := - 70\<rparr>) = w\<lparr>scrollDir := - 1, w_scroll := - 770\<rparr>"
    using scroll_many [of "w\<lparr>scrollDir := - 1, w_scroll := - 70\<rparr>" "- 1" 10] by simp
  have r: "(handleWidgetScrollPosition GEST_NONE ^^ 10) (w\<lparr>scrollDir := 1, w_scroll := 70\<rparr>) = w\<lparr>scrollDir := 1, w_scroll := 770\<rparr>"
    using scroll_many [of "w\<lparr>scrollDir := 1, w_scroll := 70\<rparr>" 1 10] by simp
  have e: "(f ^^ 11) x = f ((f ^^ 10) x)" for f :: "widgets \<Rightarrow> widgets" and x by (simp add: eval_nat_numeral)
  have m: "(activeWidget w + 1) mod 7 = (if activeWidget w = 6 then 0 else activeWidget w + 1)" "(activeWidget w - 1) mod 7 = (if activeWidget w = 0 then 6 else activeWidget w - 1)"
    using assms(3,4) by (auto simp: zmod_minus1)
  have w: "w\<lparr>scrollDir := 0, w_scroll := 0\<rparr> = w" using assms(1,2) by (cases w) simp
  have w': "w\<lparr>scrollDir := 0, w_scroll := 0, activeWidget := a\<rparr> = w\<lparr>activeWidget := a\<rparr>" "w\<lparr>activeWidget := a, scrollDir := 0, w_scroll := 0\<rparr> = w\<lparr>activeWidget := a\<rparr>"
    "w\<lparr>scrollDir := 0, activeWidget := a, w_scroll := 0\<rparr> = w\<lparr>activeWidget := a\<rparr>" "w\<lparr>activeWidget := a, w_scroll := 0, scrollDir := 0\<rparr> = w\<lparr>activeWidget := a\<rparr>" for a using assms(1,2) by (cases w; simp)+
  show ?thesis unfolding s e l r m using assms
    by (auto simp: handleWidgetScrollPosition_def GEST_NONE_def GEST_MOVE_LEFT_def GEST_MOVE_RIGHT_def scrollSpeed_def noOfWidgets_def w' Let_def)
qed

theorem swipe_completes_witness:
  "activeWidget ((handleWidgetScrollPosition GEST_NONE ^^ 11) (handleWidgetScrollPosition GEST_MOVE_RIGHT widgets_initial)) = 6"
  using swipe_completes [of widgets_initial] by (simp add: widgets_initial_def)

end
