(* ===== verification/Scpi.thy ===== *)
theory Scpi
  imports Prelude
begin

text \<open>
  The SCPI parser (src/lib/scpi/src/Vrekrer_scpi_parser.cpp).  A C string is the list of its characters
  before the terminating zero.  A handler is a value of a type of its own, which \<open>call\<close> runs on
  the header and the parameters of a command.  Where the code looks before the first character of a
  string it reads memory that is not the string's; \<open>char_at\<close> gives the zero character there.
\<close>

section \<open>Characters and strings\<close>

definition ascii :: "char \<Rightarrow> nat" where "ascii c = of_char c"
definition isspace :: "char \<Rightarrow> bool" where "isspace c = (ascii c = 32 \<or> 9 \<le> ascii c \<and> ascii c \<le> 13)"
definition isdigit :: "char \<Rightarrow> bool" where "isdigit c = (48 \<le> ascii c \<and> ascii c \<le> 57)"
definition isupper :: "char \<Rightarrow> bool" where "isupper c = (65 \<le> ascii c \<and> ascii c \<le> 90)"
definition islower :: "char \<Rightarrow> bool" where "islower c = (97 \<le> ascii c \<and> ascii c \<le> 122)"
definition toupper :: "char \<Rightarrow> char" where "toupper c = (if islower c then char_of (ascii c - 32) else c)"

definition NUL :: char where "NUL = char_of (0 :: nat)"

text \<open>The character before position n.\<close>

definition char_at :: "string \<Rightarrow> nat \<Rightarrow> char" where
  "char_at s n = (if n = 0 \<or> length s < n then NUL else s ! (n - 1))"

text \<open>\<open>strpbrk\<close> followed by ending the string there: the part before and the part after the first of the characters.\<close>

fun cut_at :: "char list \<Rightarrow> string \<Rightarrow> string \<times> string option" where
  "cut_at cs [] = ([], None)"
| "cut_at cs (c # s) = (if c \<in> set cs then ([], Some s) else (let (a, r) = cut_at cs s in (c # a, r)))"

text \<open>All tokens that \<open>strtok\<close> gives; the first argument is the token read so far.\<close>

fun strtok_all :: "string \<Rightarrow> char \<Rightarrow> string \<Rightarrow> string list" where
  "strtok_all acc d [] = (if acc = [] then [] else [acc])"
| "strtok_all acc d (c # s) =
     (if c = d then (if acc = [] then strtok_all [] d s else acc # strtok_all [] d s) else strtok_all (acc @ [c]) d s)"

definition strncmp_equal :: "nat \<Rightarrow> string \<Rightarrow> string \<Rightarrow> bool" where
  "strncmp_equal n a b = (take n a = take n b)"

section \<open>Headers and parameters\<close>

definition SCPI_ARRAY_SYZE :: nat where "SCPI_ARRAY_SYZE = 6"
definition SCPI_MAX_TOKENS :: nat where "SCPI_MAX_TOKENS = 15"
definition scpi_buffer_length :: nat where "scpi_buffer_length = 64"

definition Append :: "string \<Rightarrow> string list \<Rightarrow> string list" where
  "Append v a = (if length a < SCPI_ARRAY_SYZE then a @ [v] else a)"

definition Pop :: "string list \<Rightarrow> string option \<times> string list" where
  "Pop a = (if a = [] then (None, a) else (Some (last a), butlast a))"

definition First :: "string list \<Rightarrow> string option" where "First a = (if a = [] then None else Some (hd a))"
definition Last :: "string list \<Rightarrow> string option" where "Last a = (if a = [] then None else Some (last a))"

text \<open>The header of a message and what is not processed.\<close>

definition SCPI_Commands :: "string \<Rightarrow> string list \<times> string option" where
  "SCPI_Commands message =
     (let (header, rest) = cut_at [CHR '' '', CHR 0x09] (dropWhile isspace message)
      in (fold Append (strtok_all [] (CHR '':'') header) [], rest))"

definition SCPI_Parameters :: "string option \<Rightarrow> string list" where
  "SCPI_Parameters message = (case message of
       None \<Rightarrow> []
     | Some s \<Rightarrow> fold (\<lambda>p. Append (dropWhile isspace p)) (strtok_all [] (CHR '','') s) [])"

section \<open>The parser\<close>

datatype ErrorCode = NoError | UnknownCommand | Timeout | BufferOverflow

record 'h scpi =
  hash_magic_number :: "8 word"
  tokens :: "string list"
  valid_codes :: "(8 word \<times> 'h) list"
  error_handler :: 'h
  tree_code :: "8 word"
  last_error :: ErrorCode
  message_read :: string
  time_checker :: "32 word"

definition SCPI_Parser :: "'h \<Rightarrow> 'h scpi" where
  "SCPI_Parser handler = \<lparr>hash_magic_number = 37, tokens = [], valid_codes = [], error_handler = handler, tree_code = 0,
     last_error = NoError, message_read = [], time_checker = 0\<rparr>"

text \<open>A token is new when an even number of the stored tokens has its text as a prefix.\<close>

definition AddToken :: "string \<Rightarrow> string list \<Rightarrow> string list" where
  "AddToken token ts =
     (let n = (if char_at token (length token) = CHR ''?'' then length token - 1 else length token);
          already = fold (\<lambda>t b. b \<noteq> strncmp_equal n token t) ts False
      in if \<not> already \<and> length ts < SCPI_MAX_TOKENS then ts @ [take n token] else ts)"

text \<open>Compares the first \<open>hl\<close> characters of a keyword with a token; a token that ends in \<open>#\<close> allows digits
  after the keyword, and the shorter length holds for the tokens that follow.\<close>

fun strip_digits :: "string \<Rightarrow> nat \<Rightarrow> nat" where
  "strip_digits s 0 = 0"
| "strip_digits s (Suc n) = (if isdigit (char_at s (Suc n)) then strip_digits s n else Suc n)"

definition match_token :: "string \<Rightarrow> nat \<Rightarrow> string \<Rightarrow> nat \<times> bool" where
  "match_token h hl token =
     (let short = length (takeWhile isupper token);
          numeric = (char_at token (length token) = CHR ''#'' \<and> char_at h hl \<noteq> CHR ''#'');
          long = (if numeric then length token - 1 else length token);
          hl1 = (if numeric then strip_digits h hl else hl)
      in (hl1, if hl1 = short then map toupper (take short h) = take short token
               else if hl1 = long then map toupper (take long h) = map toupper (take long token) else False))"

fun find_token :: "string \<Rightarrow> nat \<Rightarrow> 8 word \<Rightarrow> string list \<Rightarrow> 8 word option" where
  "find_token h hl j [] = None"
| "find_token h hl j (t # ts) = (let (hl1, m) = match_token h hl t in if m then Some j else find_token h hl1 (j + 1) ts)"

fun command_code :: "string list \<Rightarrow> 8 word \<Rightarrow> 8 word \<Rightarrow> string list \<Rightarrow> 8 word" where
  "command_code ts m code [] = code"
| "command_code ts m code (h # hs) =
     (let q = (hs = [] \<and> char_at h (length h) = CHR ''?''); hl = (if q then length h - 1 else length h)
      in case find_token h hl 0 ts of
           None \<Rightarrow> 255
         | Some j \<Rightarrow> (let c = code * m + j in if q then c * 37 - 1 else command_code ts m c hs))"

definition GetCommandCode :: "string list \<Rightarrow> 'h scpi \<Rightarrow> 8 word" where
  "GetCommandCode cmds p = command_code (tokens p) (hash_magic_number p) (if tree_code p \<noteq> 0 then tree_code p else 7) cmds"

definition AddTokens :: "string list \<Rightarrow> 'h scpi \<Rightarrow> 'h scpi" where
  "AddTokens cmds p = p\<lparr>tokens := fold AddToken cmds (tokens p)\<rparr>"

definition SetCommandTreeBase :: "string \<Rightarrow> 'h scpi \<Rightarrow> 'h scpi" where
  "SetCommandTreeBase base p =
     (if base \<noteq> [] then
        let cmds = fst (SCPI_Commands base); p1 = (AddTokens cmds p)\<lparr>tree_code := 0\<rparr>
        in p1\<lparr>tree_code := GetCommandCode cmds p1\<rparr>
      else p\<lparr>tree_code := 0\<rparr>)"

definition RegisterCommand :: "string \<Rightarrow> 'h \<Rightarrow> 'h scpi \<Rightarrow> 'h scpi" where
  "RegisterCommand command h p =
     (let cmds = fst (SCPI_Commands command); p1 = AddTokens cmds p
      in p1\<lparr>valid_codes := valid_codes p1 @ [(GetCommandCode cmds p1, h)]\<rparr>)"

definition SetErrorHandler :: "'h \<Rightarrow> 'h scpi \<Rightarrow> 'h scpi" where
  "SetErrorHandler h p = p\<lparr>error_handler := h\<rparr>"

text \<open>One command of a message: the code is computed without a tree base, and the first handler registered for it is called.\<close>

definition execute_command :: "('h \<Rightarrow> string list \<Rightarrow> string list \<Rightarrow> 'w \<Rightarrow> 'w) \<Rightarrow> string \<Rightarrow> 'h scpi \<times> 'w \<Rightarrow> 'h scpi \<times> 'w" where
  "execute_command call message pw =
     (let (p0, w) = pw; p = p0\<lparr>tree_code := 0\<rparr>; (cmds, rest) = SCPI_Commands message; params = SCPI_Parameters rest
      in case map_of (valid_codes p) (GetCommandCode cmds p) of
           Some h \<Rightarrow> (p, call h cmds params w)
         | None \<Rightarrow> (p\<lparr>last_error := UnknownCommand\<rparr>, call (error_handler p) cmds params w))"

fun split_commands :: "string \<Rightarrow> string \<Rightarrow> string list" where
  "split_commands acc [] = [acc]"
| "split_commands acc (c # s) = (if c = CHR '';'' then acc # split_commands [] s else split_commands (acc @ [c]) s)"

definition Execute :: "('h \<Rightarrow> string list \<Rightarrow> string list \<Rightarrow> 'w \<Rightarrow> 'w) \<Rightarrow> string \<Rightarrow> 'h scpi \<times> 'w \<Rightarrow> 'h scpi \<times> 'w" where
  "Execute call message pw = fold (execute_command call) (split_commands [] message) pw"

text \<open>Reading a message from a stream: \<open>rx\<close> is what the stream has available.\<close>

fun contains :: "string \<Rightarrow> string \<Rightarrow> bool" where
  "contains t [] = (t = [])"
| "contains t (c # s) = (take (length t) (c # s) = t \<or> contains t s)"

fun GetMessage :: "('h \<Rightarrow> string list \<Rightarrow> string list \<Rightarrow> 'w \<Rightarrow> 'w) \<Rightarrow> string \<Rightarrow> 32 word \<Rightarrow> string \<Rightarrow> 'h scpi \<times> 'w \<Rightarrow> string option \<times> string \<times> 'h scpi \<times> 'w" where
  "GetMessage call term_chars now [] (p, w) =
     (if message_read p \<noteq> [] \<and> 10 < now - time_checker p
      then (None, [], p\<lparr>last_error := Timeout, message_read := []\<rparr>, call (error_handler p) [] [] w)
      else (None, [], p, w))"
| "GetMessage call term_chars now (c # rx) (p, w) =
     (let m = message_read p @ [c]; p1 = p\<lparr>message_read := m, time_checker := now\<rparr>
      in if scpi_buffer_length \<le> length m
         then (None, rx, p1\<lparr>last_error := BufferOverflow, message_read := []\<rparr>, call (error_handler p) [] [] w)
         else if contains term_chars (takeWhile (\<lambda>x. x \<noteq> NUL) m)
         then (Some (takeWhile (\<lambda>x. x \<noteq> NUL) (take (length m - length term_chars) m)), rx, p1\<lparr>message_read := []\<rparr>, w)
         else GetMessage call term_chars now rx (p1, w))"

definition ProcessInput :: "('h \<Rightarrow> string list \<Rightarrow> string list \<Rightarrow> 'w \<Rightarrow> 'w) \<Rightarrow> string \<Rightarrow> 32 word \<Rightarrow> string \<Rightarrow> 'h scpi \<times> 'w \<Rightarrow> string \<times> 'h scpi \<times> 'w" where
  "ProcessInput call term_chars now rx pw =
     (let (m, rest, pw1) = GetMessage call term_chars now rx pw
      in (rest, case m of None \<Rightarrow> pw1 | Some s \<Rightarrow> Execute call s pw1))"

section \<open>Characters\<close>

lemma char_eq: "(c = d) = (ascii c = ascii d)"
  by (simp add: ascii_def)

lemma ascii_bound: "ascii c < 256"
  by (simp add: ascii_def)

lemma ascii_char_of [simp]: "n < 256 \<Longrightarrow> ascii (char_of n) = n"
  by (simp add: ascii_def)

lemma ascii_toupper: "ascii (toupper c) = (if islower c then ascii c - 32 else ascii c)"
  using ascii_bound [of c] by (simp add: toupper_def)

lemma ascii_chars: "ascii (CHR ''?'') = 63" "ascii (CHR ''#'') = 35" "ascii (CHR '':'') = 58" "ascii (CHR '' '') = 32" "ascii (CHR 0x09) = 9"
  "ascii (CHR '';'') = 59" "ascii (CHR '','') = 44" "ascii (CHR 0x0A) = 10" "ascii NUL = 0"
  by (simp_all add: ascii_def NUL_def)

text \<open>The same on the bits of a character, for evaluation.\<close>

lemma isspace_code [code]: "isspace (Char b0 b1 b2 b3 b4 b5 b6 b7) =
   (\<not> b7 \<and> \<not> b6 \<and> \<not> b4 \<and> (if b5 then \<not> b3 \<and> \<not> b2 \<and> \<not> b1 \<and> \<not> b0 else b3 \<and> (b0 \<or> b1 \<or> b2) \<and> \<not> (b1 \<and> b2)))"
  by (cases b0; cases b1; cases b2; cases b3; cases b4; cases b5; cases b6; cases b7; simp add: isspace_def ascii_def)

lemma isdigit_code [code]: "isdigit (Char b0 b1 b2 b3 b4 b5 b6 b7) = (\<not> b7 \<and> \<not> b6 \<and> b5 \<and> b4 \<and> \<not> (b3 \<and> (b1 \<or> b2)))"
  by (cases b0; cases b1; cases b2; cases b3; cases b4; cases b5; cases b6; cases b7; simp add: isdigit_def ascii_def)

lemma isupper_code [code]: "isupper (Char b0 b1 b2 b3 b4 b5 b6 b7) =
   (\<not> b7 \<and> b6 \<and> \<not> b5 \<and> (b0 \<or> b1 \<or> b2 \<or> b3 \<or> b4) \<and> \<not> (b4 \<and> b3 \<and> (b2 \<or> b1 \<and> b0)))"
  by (cases b0; cases b1; cases b2; cases b3; cases b4; cases b5; cases b6; cases b7; simp add: isupper_def ascii_def)

lemma toupper_code [code]: "toupper (Char b0 b1 b2 b3 b4 b5 b6 b7) =
   (if \<not> b7 \<and> b6 \<and> b5 \<and> (b0 \<or> b1 \<or> b2 \<or> b3 \<or> b4) \<and> \<not> (b4 \<and> b3 \<and> (b2 \<or> b1 \<and> b0)) then Char b0 b1 b2 b3 b4 False b6 b7 else Char b0 b1 b2 b3 b4 b5 b6 b7)"
  by (cases b0; cases b1; cases b2; cases b3; cases b4; cases b5; cases b6; cases b7; simp add: toupper_def islower_def ascii_def char_of_def bit_iff_odd_drop_bit)

lemma NUL_code [code]: "NUL = Char False False False False False False False False"
  by (simp add: NUL_def char_of_def)

lemmas char_class = isspace_def isdigit_def islower_def ascii_toupper ascii_chars char_eq

lemma toupper_simps [simp]:
  "toupper (toupper c) = toupper c" "toupper NUL = NUL" "isdigit (toupper c) = isdigit c" "isspace (toupper c) = isspace c"
  "(toupper c = CHR ''?'') = (c = CHR ''?'')" "(toupper c = CHR ''#'') = (c = CHR ''#'')" "(toupper c = CHR '':'') = (c = CHR '':'')"
  "(toupper c = CHR '' '') = (c = CHR '' '')" "(toupper c = CHR 0x09) = (c = CHR 0x09)" "(toupper c = CHR '';'') = (c = CHR '';'')"
  "(toupper c = CHR 0x0A) = (c = CHR 0x0A)" "(toupper c = NUL) = (c = NUL)"
  by (auto simp: char_class)

section \<open>Commands do not depend on the case of the letters\<close>

lemma toupper_comp [simp]: "toupper \<circ> toupper = toupper"
  by (simp add: fun_eq_iff)

lemma char_at_upper [simp]: "char_at (map toupper s) n = toupper (char_at s n)"
  by (auto simp: char_at_def)

lemma strip_digits_upper [simp]: "strip_digits (map toupper s) n = strip_digits s n"
  by (induction n) auto

lemma match_token_upper [simp]: "match_token (map toupper h) hl t = match_token h hl t"
  unfolding match_token_def Let_def by (simp only: take_map map_map toupper_comp char_at_upper toupper_simps strip_digits_upper)

lemma find_token_upper [simp]: "find_token (map toupper h) hl j ts = find_token h hl j ts"
  by (induction h hl j ts rule: find_token.induct) (simp add: split: prod.splits)+

lemma command_code_upper: "command_code ts m code (map (map toupper) hs) = command_code ts m code hs"
proof (induction hs arbitrary: code)
  case (Cons h hs)
  show ?case by (cases "hs = [] \<and> char_at h (length h) = CHR ''?''") (simp_all only: list.map command_code.simps char_at_upper length_map find_token_upper
    map_is_Nil_conv toupper_simps Let_def if_True if_False refl Cons cong: option.case_cong)
qed simp

lemma cut_at_upper: "cut_at [CHR '' '', CHR 0x09] (map toupper s) = map_prod (map toupper) (map_option (map toupper)) (cut_at [CHR '' '', CHR 0x09] s)"
  by (induction s) (simp_all split: prod.splits)

lemma strtok_upper: "strtok_all (map toupper acc) (CHR '':'') (map toupper s) = map (map toupper) (strtok_all acc (CHR '':'') s)"
proof (induction s arbitrary: acc)
  case (Cons c s)
  show ?case using Cons [of "[]"] Cons [of "acc @ [c]"] by simp
qed simp

lemma append_upper: "fold Append (map (map toupper) vs) (map (map toupper) a) = map (map toupper) (fold Append vs a)"
proof (induction vs arbitrary: a)
  case (Cons v vs)
  have "Append (map toupper v) (map (map toupper) a) = map (map toupper) (Append v a)" by (simp add: Append_def)
  then show ?case using Cons by simp
qed simp

lemma dropWhile_upper: "dropWhile isspace (map toupper s) = map toupper (dropWhile isspace s)"
  by (induction s) simp_all

lemma header_upper: "fst (SCPI_Commands (map toupper s)) = map (map toupper) (fst (SCPI_Commands s))"
  using strtok_upper [of "[]"] append_upper [of _ "[]"]
  by (simp add: SCPI_Commands_def dropWhile_upper cut_at_upper split: prod.splits)

lemma code_upper: "GetCommandCode (fst (SCPI_Commands (map toupper s))) p = GetCommandCode (fst (SCPI_Commands s)) p"
  by (simp add: header_upper GetCommandCode_def command_code_upper)

section \<open>Messages of one command\<close>

lemma split_one: "CHR '';'' \<notin> set s \<Longrightarrow> split_commands acc s = [acc @ s]"
  by (induction s arbitrary: acc) auto

lemma cut_at_none: "set cs \<inter> set s = {} \<Longrightarrow> cut_at cs s = (s, None)"
  by (induction s) auto

lemma cut_at_some: "set cs \<inter> set s = {} \<Longrightarrow> c \<in> set cs \<Longrightarrow> cut_at cs (s @ c # r) = (s, Some r)"
  by (induction s) auto

lemma strtok_none: "d \<notin> set s \<Longrightarrow> acc @ s \<noteq> [] \<Longrightarrow> strtok_all acc d s = [acc @ s]"
  by (induction s arbitrary: acc) auto

text \<open>A plain text has none of the characters that end or split a message, and does not start with a space.\<close>

definition plain :: "string \<Rightarrow> bool" where
  "plain s = (s \<noteq> [] \<and> list_all (\<lambda>c. \<not> isspace c \<and> c \<noteq> CHR '';'' \<and> c \<noteq> CHR '','' \<and> c \<noteq> NUL) s)"

lemma plain_upper: "list_all (\<lambda>c. \<not> isspace c \<and> c \<noteq> CHR '';'' \<and> c \<noteq> NUL) (map toupper s) = list_all (\<lambda>c. \<not> isspace c \<and> c \<noteq> CHR '';'' \<and> c \<noteq> NUL) s"
  by (simp add: list_all_iff)

definition message_of :: "string \<Rightarrow> string option \<Rightarrow> string" where
  "message_of cmd arg = (case arg of None \<Rightarrow> cmd | Some a \<Rightarrow> cmd @ CHR '' '' # a)"

lemma no_space: "\<not> isspace c \<Longrightarrow> c \<noteq> CHR '' '' \<and> c \<noteq> CHR 0x09 \<and> c \<noteq> CHR 0x0A"
  by (auto simp: isspace_def ascii_def)

lemma header_of_message:
  assumes "cmd \<noteq> []" "list_all (\<lambda>c. \<not> isspace c \<and> c \<noteq> CHR '';'' \<and> c \<noteq> NUL) cmd"
  shows "SCPI_Commands (message_of cmd arg) = (fst (SCPI_Commands cmd), arg)"
proof -
  have n: "set [CHR '' '', CHR 0x09] \<inter> set cmd = {}" using assms(2) no_space by (auto simp: list_all_iff)
  have d: "dropWhile isspace (cmd @ s) = cmd @ s" for s using assms by (cases cmd) simp_all
  show ?thesis using cut_at_none [OF n] cut_at_some [OF n, of "CHR '' ''"] d [of "[]"] d
    by (simp add: SCPI_Commands_def message_of_def split: option.splits)
qed

lemma parameters_plain: "plain a \<Longrightarrow> SCPI_Parameters (Some a) = [a]"
proof -
  assume p: "plain a"
  then have "strtok_all [] (CHR '','') a = [a]" by (intro strtok_none [where acc = "[]", simplified]) (auto simp: plain_def list_all_iff)
  moreover have "dropWhile isspace a = a" using p by (cases a) (simp_all add: plain_def)
  ultimately show ?thesis by (simp add: SCPI_Parameters_def Append_def SCPI_ARRAY_SYZE_def)
qed

lemma parameters_of: "pred_option plain arg \<Longrightarrow> SCPI_Parameters arg = (case arg of None \<Rightarrow> [] | Some a \<Rightarrow> [a])"
  by (cases arg) (simp_all add: parameters_plain SCPI_Parameters_def [of None])

lemma message_no_semicolon:
  "list_all (\<lambda>c. \<not> isspace c \<and> c \<noteq> CHR '';'' \<and> c \<noteq> NUL) cmd \<Longrightarrow> pred_option plain arg \<Longrightarrow> CHR '';'' \<notin> set (message_of cmd arg)"
  by (cases arg) (auto simp: message_of_def plain_def list_all_iff)

lemma execute_message:
  assumes "cmd \<noteq> []" "list_all (\<lambda>c. \<not> isspace c \<and> c \<noteq> CHR '';'' \<and> c \<noteq> NUL) cmd" "pred_option plain arg"
    and "map_of (valid_codes p) (command_code (tokens p) (hash_magic_number p) 7 (fst (SCPI_Commands cmd))) = Some h"
  shows "Execute call (message_of cmd arg) (p, w) = (p\<lparr>tree_code := 0\<rparr>, call h (fst (SCPI_Commands cmd)) (case arg of None \<Rightarrow> [] | Some a \<Rightarrow> [a]) w)"
proof -
  have s: "split_commands [] (message_of cmd arg) = [message_of cmd arg]" using split_one [OF message_no_semicolon [OF assms(2,3)], of "[]"] by simp
  have c: "GetCommandCode cs (p\<lparr>tree_code := 0\<rparr>) = command_code (tokens p) (hash_magic_number p) 7 cs" for cs by (simp add: GetCommandCode_def)
  show ?thesis unfolding Execute_def s
    by (simp add: execute_command_def header_of_message [OF assms(1,2)] parameters_of [OF assms(3)] c assms(4) Let_def del: command_code.simps)
qed

end
