(* ===== verification/App.thy ===== *)
theory App
  imports CalOps Dial Touch Menu Sweep Pulse Digitizer Logger Knobs Fan
begin

text \<open>
  The state of the main program and its callbacks (src/src/Poormanssmu.cpp): the knob, the keys, the dial and the menu.
  A function pointer is a datatype of the functions that are ever assigned to it.  \<open>unit_if\<close> is
  the object SMU[0]: its method table and the other members the program uses.  The sampling timer is a
  flag that says whether it runs.  Debug prints and drawing are left out.
\<close>

section \<open>State\<close>

record 's unit_if =
  vmt :: "'s hal"
  deviceTypeId :: "'s \<Rightarrow> int"
  disable_SPI :: "'s \<Rightarrow> 's"
  set_gainX2 :: "bool \<Rightarrow> 's \<Rightarrow> 's"
  unit_init :: "'s \<Rightarrow> 's"

definition unit717 :: "'d chips \<Rightarrow> ('d, 'z) smu717_scheme unit_if" where
  "unit717 X = \<lparr>vmt = hal717 X, deviceTypeId = s_deviceTypeId, disable_SPI = disable_ADC_DAC_SPI_units X,
     set_gainX2 = (\<lambda>b s. s\<lparr>s_voltageMeasurementGainX2 := b\<rparr>), unit_init = adc_init X\<rparr>"

datatype rotary_fn = RotaryVoltCurrent | RotaryDontCare | RotaryPulse | RotaryDigitizer | RotaryLogger
datatype encoder_fn = EncDigit | EncDontCare | EncPulse | EncDigitizer | EncLogger

record ('s, 'd) app = "'s calworld" +
  app_operationType :: OPERATION_TYPE
  app_functionType :: FUNCTION_TYPE
  app_timeSinceLastChange :: u32
  changeDigit :: f32
  changeDigitTimeout :: u32
  showSettings :: bool
  settingsShortAdc :: int
  settingsInternalADCRef :: int
  voltageMeasurementGainX2 :: int
  voltageOnly :: int
  normalSamplingTimer :: bool
  rotaryChangedFn :: rotary_fn
  encoderCallbackFn :: encoder_fn
  SOURCE_DIAL :: dial
  LIMIT_DIAL :: dial
  MAINMENU :: menu
  WIDGETS :: widgets
  GESTURES :: gest
  TOUCH :: touch
  ROTARY_ENCODER :: encoder
  PUSHBUTTONS :: pushbuttons
  PUSHBUTTON_ENC :: pushbuttons
  FUNCTION_PULSE :: pulse
  FUNCTION_SWEEP :: sweep
  DIGITIZER :: digitizer
  LOGGER :: logger
  SIMPLE_STATS :: simple_stats
  RAM :: "'d log_ram"
  FAN :: fan
  UTILS :: utils
  logTimer :: int
  simVolt :: bool
  lastSimMs :: u32
  samplesUpdateTimer :: int
  printed :: "int list"

definition PRINT_ERROR_VOLTAGE_SOURCE_SETTING :: int where "PRINT_ERROR_VOLTAGE_SOURCE_SETTING = 0"
definition PRINT_ERROR_CURRENT_SOURCE_SETTING :: int where "PRINT_ERROR_CURRENT_SOURCE_SETTING = 1"

text \<open>The start values of the settings, which nothing changes.\<close>

definition setMilliVoltage :: f32 where "setMilliVoltage = lit 1234.5"
definition setCurrentLimit :: f32 where "setCurrentLimit = lit 33"
definition setMilliAmpere :: f32 where "setMilliAmpere = lit 13"
definition setVoltageLimit :: f32 where "setVoltageLimit = lit 5432.1"

text \<open>A commit whose result is tested: a result other than 0 is printed as an error.\<close>

definition printError :: "int \<Rightarrow> ('s, 'd) app \<Rightarrow> ('s, 'd) app" where
  "printError n w = w\<lparr>printed := printed w @ [n]\<rparr>"

definition tested :: "int \<Rightarrow> int \<times> 's \<Rightarrow> ('s, 'd) app \<Rightarrow> ('s, 'd) app" where
  "tested n r w = (if fst r \<noteq> 0 then printError n (w\<lparr>smu := snd r\<rparr>) else w\<lparr>smu := snd r\<rparr>)"

definition with_smu :: "('s \<Rightarrow> 's) \<Rightarrow> ('s, 'd) app \<Rightarrow> ('s, 'd) app" where
  "with_smu f w = w\<lparr>smu := f (smu w)\<rparr>"

definition getOperationType :: "FUNCTION_TYPE \<Rightarrow> OPERATION_TYPE" where
  "getOperationType f = (if f = SOURCE_DC_CURRENT then SOURCE_CURRENT else SOURCE_VOLTAGE)"

text \<open>The name of the converter in the header; None leaves the text as it is.\<close>

definition SMU_HAL_DUMMY_DEVICE_TYPE_ID :: int where "SMU_HAL_DUMMY_DEVICE_TYPE_ID = 111"

definition deviceIdToText :: "int \<Rightarrow> string option" where
  "deviceIdToText n =
     (let k = and (word_of_int n :: u32) 0xfff0 in
      if k = 0x0C90 then Some ''AD7176'' else if k = 0x00D0 then Some ''AD7172'' else if k = 0x0CD0 then Some ''AD7175''
      else if k = 0x4FD0 then Some ''AD7177'' else if n = SMU_HAL_DUMMY_DEVICE_TYPE_ID then Some ''SIM'' else None)"

definition anyDialogOpen :: "('s, 'd) app \<Rightarrow> bool" where
  "anyDialogOpen w = (d_dialog (SOURCE_DIAL w) \<or> d_dialog (LIMIT_DIAL w))"

definition closeAllOpenDialogs :: "('s, 'd) app \<Rightarrow> ('s, 'd) app" where
  "closeAllOpenDialogs w =
     (let w1 = (if d_dialog (SOURCE_DIAL w) then w\<lparr>SOURCE_DIAL := dial_close (SOURCE_DIAL w)\<rparr> else w)
      in if d_dialog (LIMIT_DIAL w1) then w1\<lparr>LIMIT_DIAL := dial_close (LIMIT_DIAL w1)\<rparr> else w1)"

definition reduceDetails :: "('s, 'd) app \<Rightarrow> bool" where
  "reduceDetails w = (isScrolling (WIDGETS w) \<or> menu_active (MAINMENU w) \<or> anyDialogOpen w)"

definition openMainMenu :: "('s, 'd) app \<Rightarrow> ('s, 'd) app" where
  "openMainMenu w =
     (let w1 = (if anyDialogOpen w then closeAllOpenDialogs w else w) in w1\<lparr>MAINMENU := menu_open (MAINMENU w1)\<rparr>)"

section \<open>Sourcing\<close>

definition useVoltageFeedback :: "'s unit_if \<Rightarrow> ('s, 'd) app \<Rightarrow> ('s, 'd) app" where
  "useVoltageFeedback U = with_smu (setGPIO (vmt U) 0 False)"
definition useCurrentFeedback :: "'s unit_if \<Rightarrow> ('s, 'd) app \<Rightarrow> ('s, 'd) app" where
  "useCurrentFeedback U = with_smu (setGPIO (vmt U) 0 True)"

definition source_voltage :: "'s unit_if \<Rightarrow> u32 \<Rightarrow> int \<Rightarrow> ('s, 'd) app \<Rightarrow> ('s, 'd) app" where
  "source_voltage U now uV w =
     tested PRINT_ERROR_VOLTAGE_SOURCE_SETTING (fltSetCommitVoltageSource (vmt U) (env_of now w) uV True (smu w)) w"

definition limit_current :: "'s unit_if \<Rightarrow> u32 \<Rightarrow> int \<Rightarrow> int \<Rightarrow> ('s, 'd) app \<Rightarrow> ('s, 'd) app" where
  "limit_current U now err uA w = tested err (fltSetCommitCurrentLimit (vmt U) (env_of now w) uA (smu w)) w"

definition limit_voltage :: "'s unit_if \<Rightarrow> u32 \<Rightarrow> int \<Rightarrow> int \<Rightarrow> ('s, 'd) app \<Rightarrow> ('s, 'd) app" where
  "limit_voltage U now err uV w = tested err (fltSetCommitVoltageLimit (vmt U) (env_of now w) uV (smu w)) w"

definition fltCommitCurrentSourceAutoRange :: "'s unit_if \<Rightarrow> u32 \<Rightarrow> f32 \<Rightarrow> bool \<Rightarrow> ('s, 'd) app \<Rightarrow> ('s, 'd) app" where
  "fltCommitCurrentSourceAutoRange U now uV autoRange w0 =
     (let r = (if \<bar>uV\<bar> < of_i 8000 then MILLIAMP10 else AMP1);
          w = (if autoRange then with_smu (setCurrentRange (vmt U) (env_of now w0) r (app_operationType w0)) w0 else w0)
      in tested PRINT_ERROR_VOLTAGE_SOURCE_SETTING (fltSetCommitCurrentSource (vmt U) (env_of now w) (f2i64 uV) (smu w)) w)"

section \<open>The knob and the keys\<close>

definition turn_dial :: "(f64 \<Rightarrow> nat \<Rightarrow> nat \<Rightarrow> string) \<Rightarrow> f32 \<Rightarrow> dial \<Rightarrow> dial" where
  "turn_dial dtostrf changeVal d =
     (let change_uV = f2i64 (changeVal * of_i 1000); new_uV = f2i64 (getMv d * of_i 1000 + of_i change_uV)
      in setMv dtostrf (conv (of_i new_uV / lit 1000 :: f64)) d)"

definition rotaryChangedVoltCurrentFn :: "'s unit_if \<Rightarrow> (f64 \<Rightarrow> nat \<Rightarrow> nat \<Rightarrow> string) \<Rightarrow> u32 \<Rightarrow> f32 \<Rightarrow> ('s, 'd) app \<Rightarrow> ('s, 'd) app" where
  "rotaryChangedVoltCurrentFn U dtostrf now changeVal0 w0 =
     (let w = w0\<lparr>changeDigitTimeout := now\<rparr> in
      if feq (changeDigit w) (of_i 0) \<and> \<not> d_dialog (SOURCE_DIAL w) then w
      else if app_operationType w = SOURCE_VOLTAGE then
        (if d_dialog (LIMIT_DIAL w) then w
         else if d_dialog (SOURCE_DIAL w) then w\<lparr>SOURCE_DIAL := turn_dial dtostrf changeVal0 (SOURCE_DIAL w)\<rparr>
         else source_voltage U now (getSetValue_micro (vmt U) (smu w) + f2i64 (changeVal0 * changeDigit w)) w)
      else
        let changeVal = (if getCurrentRange (vmt U) (smu w) = MILLIAMP10 then conv (conv changeVal0 / lit 100 :: f64) else changeVal0) in
        (if d_dialog (LIMIT_DIAL w) then w
         else if d_dialog (SOURCE_DIAL w) then w\<lparr>SOURCE_DIAL := turn_dial dtostrf changeVal (SOURCE_DIAL w)\<rparr>
         else fltCommitCurrentSourceAutoRange U now (of_i (getSetValue_micro (vmt U) (smu w) + f2i64 (changeVal * changeDigit w))) False w))"

definition pushButtonEncInterrupt :: "u32 \<Rightarrow> ('s, 'd) app \<Rightarrow> ('s, 'd) app" where
  "pushButtonEncInterrupt now w0 =
     (let w = w0\<lparr>changeDigitTimeout := now, ROTARY_ENCODER := (ROTARY_ENCODER w0)\<lparr>stepless_dynamic := True\<rparr>\<rparr>;
          c = changeDigit w; fixed = (\<lambda>w. w\<lparr>ROTARY_ENCODER := (ROTARY_ENCODER w)\<lparr>stepless_dynamic := False\<rparr>\<rparr>) in
      if feq c (of_i 0) then fixed (w\<lparr>changeDigit := of_i 1000000\<rparr>)
      else if feq c (of_i 10000000) then fixed (w\<lparr>changeDigit := of_i 1000000\<rparr>)
      else if feq c (of_i 1000000) then w\<lparr>changeDigit := of_i 100000\<rparr>
      else if feq c (of_i 100000) then w\<lparr>changeDigit := of_i 10000\<rparr>
      else if feq c (of_i 10000) then w\<lparr>changeDigit := of_i 1000\<rparr>
      else if feq c (of_i 1000) then w\<lparr>changeDigit := of_i 0\<rparr>
      else w)"

definition pushButtonInterrupt :: "press \<Rightarrow> ('s, 'd) app \<Rightarrow> ('s, 'd) app" where
  "pushButtonInterrupt p w =
     (case p of Quick key \<Rightarrow> if key = 1 \<and> \<not> menu_active (MAINMENU w) then openMainMenu w
                else if key = 4 then w\<lparr>showSettings := \<not> showSettings w\<rparr> else w
      | _ \<Rightarrow> w)"

definition houseKeeping :: "u32 \<Rightarrow> ('s, 'd) app \<Rightarrow> ('s, 'd) app" where
  "houseKeeping now w = (if changeDigit w > of_i 0 \<and> changeDigitTimeout w + 5000 < now then w\<lparr>changeDigit := of_i 0\<rparr> else w)"

text \<open>The call through the two pointers.\<close>

definition rotary_changed :: "'s unit_if \<Rightarrow> (f64 \<Rightarrow> nat \<Rightarrow> nat \<Rightarrow> string) \<Rightarrow> u32 \<Rightarrow> f32 \<Rightarrow> ('s, 'd) app \<Rightarrow> ('s, 'd) app" where
  "rotary_changed U dtostrf now v w = (case rotaryChangedFn w of
       RotaryVoltCurrent \<Rightarrow> rotaryChangedVoltCurrentFn U dtostrf now v w
     | RotaryDontCare \<Rightarrow> w
     | RotaryPulse \<Rightarrow> w\<lparr>FUNCTION_PULSE := pulse_rotaryEncChanged v (FUNCTION_PULSE w)\<rparr>
     | RotaryDigitizer \<Rightarrow> w\<lparr>DIGITIZER := digitizer_rotaryEncChanged v (DIGITIZER w)\<rparr>
     | RotaryLogger \<Rightarrow> w\<lparr>LOGGER := logger_rotaryChangedFn v (LOGGER w)\<rparr>)"

definition encoder_pressed :: "u32 \<Rightarrow> ('s, 'd) app \<Rightarrow> ('s, 'd) app" where
  "encoder_pressed now w = (case encoderCallbackFn w of
       EncDigit \<Rightarrow> pushButtonEncInterrupt now w
     | EncDontCare \<Rightarrow> w
     | EncPulse \<Rightarrow> w\<lparr>FUNCTION_PULSE := pulse_rotaryEncButtonChanged (FUNCTION_PULSE w)\<rparr>
     | EncDigitizer \<Rightarrow> w\<lparr>DIGITIZER := digitizer_rotaryEncButtonChanged (DIGITIZER w)\<rparr>
     | EncLogger \<Rightarrow> w\<lparr>LOGGER := logger_rotarySwitchFn (LOGGER w)\<rparr>)"

section \<open>The dial and the menu report\<close>

definition closeSourceDCCallback :: "'s unit_if \<Rightarrow> u32 \<Rightarrow> int \<Rightarrow> bool \<Rightarrow> ('s, 'd) app \<Rightarrow> ('s, 'd) app" where
  "closeSourceDCCallback U now sl cancel w0 =
     (if cancel then w0
      else let w = with_smu (disable_SPI U) w0;
               w1 = (if sl = DIAL_SET
                     then let mv = getMv (SOURCE_DIAL w) in
                       if app_operationType w = SOURCE_VOLTAGE then source_voltage U now (f2i64 (mv * of_i 1000)) w
                       else fltCommitCurrentSourceAutoRange U now (mv * of_i 1000) False w
                     else w)
           in if sl = DIAL_LIMIT
              then let mv = getMv (LIMIT_DIAL w1) in
                if app_operationType w1 = SOURCE_VOLTAGE then limit_current U now PRINT_ERROR_CURRENT_SOURCE_SETTING (f2i64 (mv * of_i 1000)) w1
                else limit_voltage U now PRINT_ERROR_CURRENT_SOURCE_SETTING (f2i64 (mv * of_i 1000)) w1
              else w1)"

definition initDefaultSamplingIfByInterrupt :: "('s, 'd) app \<Rightarrow> ('s, 'd) app" where
  "initDefaultSamplingIfByInterrupt w = w\<lparr>normalSamplingTimer := True\<rparr>"

definition close_function :: "'s unit_if \<Rightarrow> ('s, 'd) app \<Rightarrow> ('s, 'd) app" where
  "close_function U w =
     (if app_functionType w = SOURCE_PULSE then initDefaultSamplingIfByInterrupt (w\<lparr>FUNCTION_PULSE := pulse_close (FUNCTION_PULSE w)\<rparr>)
      else if app_functionType w = SOURCE_SWEEP then w
      else if app_functionType w = DIGITIZE then
        (let (d, s) = digitizer_close (disable_SPI U) (vmt U) (DIGITIZER w) (smu w) in w\<lparr>DIGITIZER := d, smu := s\<rparr>)
      else if app_functionType w = SOURCE_DC_CURRENT then w\<lparr>changeDigit := of_i 0\<rparr>
      else if app_functionType w = SOURCE_DC_VOLTAGE then w\<lparr>changeDigit := of_i 0\<rparr>
      else w)"

definition open_dc_voltage :: "'s unit_if \<Rightarrow> u32 \<Rightarrow> ('s, 'd) app \<Rightarrow> ('s, 'd) app" where
  "open_dc_voltage U now w0 =
     (let w = useVoltageFeedback U (w0\<lparr>rotaryChangedFn := RotaryVoltCurrent, encoderCallbackFn := EncDigit\<rparr>);
          L = limit_current U now PRINT_ERROR_VOLTAGE_SOURCE_SETTING in
      if hal_operationType (vmt U) (smu w) = SOURCE_VOLTAGE
      then let w1 = source_voltage U now (getSetValue_micro (vmt U) (smu w)) w in L (getLimitValue_micro (vmt U) (smu w1)) w1
      else L (f2i64 (setCurrentLimit * of_i 1000)) (source_voltage U now (f2i64 (setMilliVoltage * of_i 1000)) w))"

definition open_dc_current :: "'s unit_if \<Rightarrow> u32 \<Rightarrow> ('s, 'd) app \<Rightarrow> ('s, 'd) app" where
  "open_dc_current U now w0 =
     (let w = useCurrentFeedback U (w0\<lparr>rotaryChangedFn := RotaryVoltCurrent, encoderCallbackFn := EncDigit\<rparr>);
          L = limit_voltage U now PRINT_ERROR_VOLTAGE_SOURCE_SETTING in
      if hal_operationType (vmt U) (smu w) = SOURCE_CURRENT
      then let w1 = fltCommitCurrentSourceAutoRange U now (of_i (getSetValue_micro (vmt U) (smu w))) True w in L (getLimitValue_micro (vmt U) (smu w1)) w1
      else L (f2i64 (setVoltageLimit * of_i 1000)) (fltCommitCurrentSourceAutoRange U now (setMilliAmpere * of_i 1000) True w))"

definition open_function :: "'s unit_if \<Rightarrow> u32 \<Rightarrow> FUNCTION_TYPE \<Rightarrow> ('s, 'd) app \<Rightarrow> ('s, 'd) app" where
  "open_function U now f w =
     (if f = SOURCE_PULSE then
        (let w1 = w\<lparr>rotaryChangedFn := RotaryPulse, encoderCallbackFn := EncPulse, normalSamplingTimer := False\<rparr>;
             (p, s) = pulse_open (disable_SPI U) (vmt U) (env_of now w1) (app_operationType w1) (FUNCTION_PULSE w1) (smu w1)
         in w1\<lparr>FUNCTION_PULSE := p, smu := s\<rparr>)
      else if f = SOURCE_SWEEP then w\<lparr>FUNCTION_SWEEP := sweep_open (sint now) (app_operationType w) (FUNCTION_SWEEP w)\<rparr>
      else if f = DIGITIZE then
        (let w1 = w\<lparr>rotaryChangedFn := RotaryDigitizer, encoderCallbackFn := EncDigitizer\<rparr>;
             (d, s) = digitizer_open (disable_SPI U) (vmt U) (DIGITIZER w1) (smu w1)
         in w1\<lparr>DIGITIZER := d, smu := s\<rparr>)
      else if f = SOURCE_DC_VOLTAGE then open_dc_voltage U now w
      else if f = SOURCE_DC_CURRENT then open_dc_current U now w
      else if f = DATALOGGER then w\<lparr>rotaryChangedFn := RotaryLogger, encoderCallbackFn := EncLogger\<rparr>
      else if f = SHOWSETTINGS then w\<lparr>showSettings := True\<rparr>
      else w)"

definition closeMainMenuCallback :: "'s unit_if \<Rightarrow> u32 \<Rightarrow> FUNCTION_TYPE \<Rightarrow> ('s, 'd) app \<Rightarrow> ('s, 'd) app" where
  "closeMainMenuCallback U now f w =
     (open_function U now f (close_function U (w\<lparr>rotaryChangedFn := RotaryDontCare, encoderCallbackFn := EncDontCare\<rparr>)))\<lparr>app_functionType := f\<rparr>"

text \<open>The globals before setup, built at time \<open>now\<close>; the two pointers are null until setup sets them.\<close>

definition app_initial :: "u32 \<Rightarrow> 's calworld \<Rightarrow> 'd \<Rightarrow> (u32 \<Rightarrow> f32 \<times> u32) \<Rightarrow> ('s, 'd) app" where
  "app_initial now cw d m = calworld.extend cw
     \<lparr>app_operationType = SOURCE_VOLTAGE, app_functionType = SOURCE_DC_VOLTAGE, app_timeSinceLastChange = 0, changeDigit = of_i 0,
      changeDigitTimeout = 0, showSettings = False, settingsShortAdc = 0, settingsInternalADCRef = 0, voltageMeasurementGainX2 = 0,
      voltageOnly = 0, normalSamplingTimer = False, rotaryChangedFn = RotaryDontCare, encoderCallbackFn = EncDontCare,
      SOURCE_DIAL = dial_initial, LIMIT_DIAL = dial_initial, MAINMENU = menu_initial, WIDGETS = widgets_initial,
      GESTURES = \<lparr>gestureDetected = GEST_NONE, gestOldX = 0, gestOldY = 0, gestDurationX = 0, gestDurationY = 0,
        trackingDetectedTimer = now, trackingOngoing = 0\<rparr>,
      TOUCH = touch_initial (sint now),
      ROTARY_ENCODER = \<lparr>positionLeft = 0, millisAtLastStep = sint now, millisAtLastVoltageCommit = sint now, stepless_dynamic = True\<rparr>,
      PUSHBUTTONS = pushbuttons_initial now, PUSHBUTTON_ENC = pushbuttons_initial now, FUNCTION_PULSE = pulse_initial (sint now),
      FUNCTION_SWEEP = sweep_initial (sint now), DIGITIZER = digitizer_initial now, LOGGER = logger_initial m,
      SIMPLE_STATS = \<lparr>ss_minimum = Fin 0, ss_maximum = Fin 0, ss_samples = Fin 0\<rparr>, RAM = log_ram_initial d, FAN = fan_initial now,
      UTILS = \<lparr>meanValueLM60 = Fin 0, sampleTimer = now\<rparr>, logTimer = sint now, simVolt = True, lastSimMs = now,
      samplesUpdateTimer = sint now, printed = []\<rparr>"

end
