(* ===== verification/Sampling.thy ===== *)
theory Sampling
  imports App
begin

text \<open>
  The sampling interrupt and the handlers of the command interface (src/src/Poormanssmu.cpp).  \<open>rand n\<close> is
  what \<open>random(0, n)\<close> of the board's core library returns, a command parameter is the number its
  \<open>toInt\<close> reads, and the reply is a value of \<open>scpi_reply\<close>.
\<close>

section \<open>The sampling interrupt\<close>

text \<open>Whether a reading is ready: 0 voltage, 1 current, 100 and 101 simulated, others none.\<close>

definition sample_ready :: "'s unit_if \<Rightarrow> u32 \<Rightarrow> ('s, 'd) app \<Rightarrow> int \<times> ('s, 'd) app" where
  "sample_ready U now w =
     (if deviceTypeId U (smu w) \<noteq> 0
      then let (r, s) = dataReady (vmt U) (env_of now w) (smu w) in (r, w\<lparr>smu := s\<rparr>)
      else if lastSimMs w + 100 < now
      then (if simVolt w then 100 else 101, w\<lparr>lastSimMs := now, simVolt := \<not> simVolt w\<rparr>)
      else (- 1, w))"

definition log_mean :: "'d chips \<Rightarrow> u32 \<Rightarrow> ('s, 'd) app \<Rightarrow> ('s, 'd) app" where
  "log_mean X now w =
     (if logTimer w + 1000 < sint now
      then w\<lparr>logTimer := sint now, RAM := logDataCalculateMean X now (fmean (V_FILTERS w)) 1 (RAM w)\<rparr> else w)"

definition current_sample :: "'s unit_if \<Rightarrow> u32 \<Rightarrow> ('s, 'd) app \<Rightarrow> ('s, 'd) app" where
  "current_sample U now w =
     (let (x, s) = measureCurrent (vmt U) (env_of now w) (getCurrentRange (vmt U) (smu w)) (smu w);
          c = conv x - relativeValue (C_CALIBRATION w) ! range_index (getCurrentRange (vmt U) s)
      in w\<lparr>smu := s, C_STATS := stats_addSample c (C_STATS w), C_FILTERS := snd (updateMean c True (C_FILTERS w))\<rparr>)"

definition voltage_sample :: "'s unit_if \<Rightarrow> 'd chips \<Rightarrow> u32 \<Rightarrow> ('s, 'd) app \<Rightarrow> ('s, 'd) app" where
  "voltage_sample U X now w =
     (let (x, s) = measureMilliVoltage (vmt U) (env_of now w) (smu w);
          v = conv x - relativeValue (V_CALIBRATION w) ! range_index (getCurrentRange (vmt U) s);
          w1 = w\<lparr>smu := s, V_STATS := stats_addSample v (V_STATS w), V_FILTERS := snd (updateMean v True (V_FILTERS w))\<rparr>
      in log_mean X now (w1\<lparr>SIMPLE_STATS := simple_stats_register (fmean (V_FILTERS w1)) (SIMPLE_STATS w1), LOGGER := registerValue2 now v (LOGGER w1)\<rparr>))"

text \<open>Without the analog board: the set value, scaled as if uncalibrated, with noise.\<close>

definition simulated_voltage :: "(int \<Rightarrow> int) \<Rightarrow> int \<Rightarrow> cal \<Rightarrow> f32" where
  "simulated_voltage rand uV c =
     (let scaled = (\<lambda>k :: f64. conv (conv (of_i uV :: f32) * k) :: f32);
          (noise, v1) = (if \<bar>uV\<bar> > 10000000 then (40, scaled (lit 1.001)) else if \<bar>uV\<bar> > 5000000 then (30, scaled (lit 1.0005)) else (20, scaled (lit 1.0003)));
          v2 = conv (conv (adc_nonlinear_compensation c (conv (conv v1 / lit 1000 :: f64))) * lit 1000 :: f64) :: f32;
          v3 = v2 + of_i (rand noise);
          v4 = conv (conv v3 - of_i noise / lit 2 :: f64) :: f32
      in conv (conv v4 / lit 1000 :: f64))"

definition simulated_sample :: "'s unit_if \<Rightarrow> 'd chips \<Rightarrow> (int \<Rightarrow> int) \<Rightarrow> u32 \<Rightarrow> int \<Rightarrow> ('s, 'd) app \<Rightarrow> ('s, 'd) app" where
  "simulated_sample U X rand now r w =
     (if r = 100 then
        let v = simulated_voltage rand (getSetValue_micro (vmt U) (smu w)) (V_CALIBRATION w);
            w1 = w\<lparr>V_STATS := stats_addSample v (V_STATS w), V_FILTERS := snd (updateMean v True (V_FILTERS w))\<rparr>
        in log_mean X now (w1\<lparr>SIMPLE_STATS := simple_stats_register (fmean (V_FILTERS w1)) (SIMPLE_STATS w1)\<rparr>)
      else
        let i = conv (conv (of_i 0 + of_i (rand 20) :: f32) / lit 1000 :: f64);
            w1 = w\<lparr>C_STATS := stats_addSample i (C_STATS w), C_FILTERS := snd (updateMean i True (C_FILTERS w))\<rparr>
        in w1\<lparr>SIMPLE_STATS := simple_stats_register (fmean (C_FILTERS w1)) (SIMPLE_STATS w1)\<rparr>)"

definition handleSampling :: "'s unit_if \<Rightarrow> 'd chips \<Rightarrow> (int \<Rightarrow> int) \<Rightarrow> u32 \<Rightarrow> ('s, 'd) app \<Rightarrow> ('s, 'd) app" where
  "handleSampling U X rand now w0 =
     (let (r, w) = sample_ready U now w0 in
      if digitize (DIGITIZER w) then
        (if r = 0 \<or> r = 1
         then let (d, s) = handleSamplingForDigitizer (vmt U) (env_of now w) (DIGITIZER w, smu w) in w\<lparr>DIGITIZER := d, smu := s\<rparr>
         else w)
      else if r = - 1 \<or> r = - 99 \<or> r = - 98 then w
      else if r = 1 then current_sample U now w
      else if r = 0 then voltage_sample U X now w
      else if r \<ge> 100 then simulated_sample U X rand now r w
      else w)"

section \<open>The command interface\<close>

datatype scpi_reply = ScpiOK | ScpiERROR | ScpiZero | ScpiIdentity | ScpiNumber f32 nat | ScpiGain f64

type_synonym ('s, 'd) scpi_handler = "u32 \<Rightarrow> int option \<Rightarrow> ('s, 'd) app \<Rightarrow> scpi_reply \<times> ('s, 'd) app"

text \<open>Millivolts times 1000 is computed with 32 bits.\<close>

definition sourceVoltageSCPI :: "'s unit_if \<Rightarrow> ('s, 'd) scpi_handler" where
  "sourceVoltageSCPI U now param w = (case param of
       Some mv \<Rightarrow> (ScpiOK, (with_smu (\<lambda>s. snd (fltSetCommitVoltageSource (vmt U) (env_of now w) (sint (word_of_int (mv * 1000) :: u32)) True s))
                             (useVoltageFeedback U w))\<lparr>app_functionType := SOURCE_DC_VOLTAGE\<rparr>)
     | None \<Rightarrow> (ScpiERROR, w\<lparr>app_functionType := SOURCE_DC_VOLTAGE\<rparr>))"

definition sourceCurrentSCPI :: "'s unit_if \<Rightarrow> ('s, 'd) scpi_handler" where
  "sourceCurrentSCPI U now param w = (case param of
       Some uA \<Rightarrow> (ScpiOK, (fltCommitCurrentSourceAutoRange U now (conv (of_i uA * lit 1000 :: f64)) True (useCurrentFeedback U w))\<lparr>app_functionType := SOURCE_DC_CURRENT\<rparr>)
     | None \<Rightarrow> (ScpiERROR, w\<lparr>app_functionType := SOURCE_DC_CURRENT\<rparr>))"

definition measureCurrentSCPI :: "('s, 'd) scpi_handler" where
  "measureCurrentSCPI now param w = (ScpiNumber (fmean (C_FILTERS w)) 3, w)"

definition measureVoltageSCPI :: "('s, 'd) scpi_handler" where
  "measureVoltageSCPI now param w = (ScpiNumber (fmean (V_FILTERS w)) 3, w)"

definition systemErrSCPI :: "('s, 'd) scpi_handler" where "systemErrSCPI now param w = (ScpiZero, w)"
definition IdentifySCPI :: "('s, 'd) scpi_handler" where "IdentifySCPI now param w = (ScpiIdentity, w)"

definition systemTemperatureSCPI :: "int \<Rightarrow> ('s, 'd) scpi_handler" where
  "systemTemperatureSCPI sample10 now param w =
     (let (t, u) = LM60_getTemperature sample10 now (UTILS w) in (ScpiNumber t 1, w\<lparr>UTILS := u\<rparr>))"

definition finTemperatureSCPI :: "byte option \<Rightarrow> ('s, 'd) scpi_handler" where
  "finTemperatureSCPI tc74 now param w = (ScpiNumber (of_i (TC74_getTemperature tc74)) 1, w)"

definition setGainSCPI :: "('s, 'd) scpi_handler" where
  "setGainSCPI now param w = (case param of
       Some g \<Rightarrow> (ScpiOK, w\<lparr>cal_data := (cal_data w)\<lparr>cs_eeprom := saveGain (of_i g) (cs_eeprom (cal_data w))\<rparr>\<rparr>)
     | None \<Rightarrow> (ScpiERROR, w))"

definition getGainSCPI :: "('s, 'd) scpi_handler" where
  "getGainSCPI now param w = (ScpiGain (fst (readGain (cs_eeprom (cal_data w)))), w)"

text \<open>The two limits pass the number on as micro units.\<close>

definition sourceVoltageILimitSCPI :: "'s unit_if \<Rightarrow> ('s, 'd) scpi_handler" where
  "sourceVoltageILimitSCPI U now param w = (case param of
       Some uA \<Rightarrow> (ScpiOK, with_smu (\<lambda>s. snd (fltSetCommitCurrentLimit (vmt U) (env_of now w) uA s)) w)
     | None \<Rightarrow> (ScpiERROR, w))"

definition sourceCurrentVLimitSCPI :: "'s unit_if \<Rightarrow> ('s, 'd) scpi_handler" where
  "sourceCurrentVLimitSCPI U now param w = (case param of
       Some mV \<Rightarrow> (ScpiOK, with_smu (\<lambda>s. snd (fltSetCommitVoltageLimit (vmt U) (env_of now w) mV s)) w)
     | None \<Rightarrow> (ScpiERROR, w))"

end
