(* ===== verification/Network.thy ===== *)
theory Network
  imports Scpi Sampling
begin

text \<open>
  The remote commands: the TCP server of src/src/Network2.cpp, the commands that \<open>scpi_setup\<close> registers
  and \<open>scpiCommandDetectionLoop\<close> (src/src/Poormanssmu.cpp).  The network library is not modelled: what it
  does is input.  A socket is the characters it has received and that were not read yet; whether it is
  connected and which client is accepted are inputs of a pass.  Characters that arrive during a
  pass count as received after it.  \<open>toInt\<close> is the conversion of the board's core library.
\<close>

section \<open>The commands\<close>

datatype scpi_command = DefaultErrorHandler | IdentifyFn | systemErrFn | finTemperatureFn | systemTemperatureFn
  | sourceVoltageFn | sourceCurrentFn | sourceCurrentVLimitFn | sourceVoltageILimitFn | setGainFn
  | measureVoltageFn | measureCurrentFn | getGainFn

definition scpi_setup :: "scpi_command scpi \<Rightarrow> scpi_command scpi" where
  "scpi_setup p0 =
     (let p = p0\<lparr>hash_magic_number := 16\<rparr>;
          p = RegisterCommand ''SYST:ERR?'' systemErrFn (RegisterCommand ''*IDN?'' IdentifyFn p);
          p = SetCommandTreeBase ''SYSTem:'' p;
          p = RegisterCommand '':TEMPerature:SYS?'' systemTemperatureFn (RegisterCommand '':TEMPerature:FIN?'' finTemperatureFn p);
          p = SetCommandTreeBase ''SOURce:'' p;
          p = RegisterCommand '':CURRent'' sourceCurrentFn (RegisterCommand '':VOLTage'' sourceVoltageFn p);
          p = RegisterCommand '':VOLTage:ILIMit'' sourceVoltageILimitFn (RegisterCommand '':CURRent:VLIMit'' sourceCurrentVLimitFn p);
          p = RegisterCommand '':SETGain'' setGainFn p;
          p = SetCommandTreeBase ''MEASure:'' p;
          p = RegisterCommand '':CURRent?'' measureCurrentFn (RegisterCommand '':VOLTage?'' measureVoltageFn p)
      in RegisterCommand '':GETGain?'' getGainFn p)"

definition my_instrument :: "scpi_command scpi" where
  "my_instrument = scpi_setup (SCPI_Parser DefaultErrorHandler)"

text \<open>What the handlers read besides the state: the temperature sensors and \<open>toInt\<close>.\<close>

record sensors =
  at_LM60 :: int
  at_TC74 :: "byte option"
  toInt :: "string \<Rightarrow> int"

definition scpi_handler_of :: "'s unit_if \<Rightarrow> sensors \<Rightarrow> scpi_command \<Rightarrow> ('s, 'd) scpi_handler option" where
  "scpi_handler_of U e h = (case h of
       DefaultErrorHandler \<Rightarrow> None
     | IdentifyFn \<Rightarrow> Some IdentifySCPI
     | systemErrFn \<Rightarrow> Some systemErrSCPI
     | finTemperatureFn \<Rightarrow> Some (finTemperatureSCPI (at_TC74 e))
     | systemTemperatureFn \<Rightarrow> Some (systemTemperatureSCPI (at_LM60 e))
     | sourceVoltageFn \<Rightarrow> Some (sourceVoltageSCPI U)
     | sourceCurrentFn \<Rightarrow> Some (sourceCurrentSCPI U)
     | sourceCurrentVLimitFn \<Rightarrow> Some (sourceCurrentVLimitSCPI U)
     | sourceVoltageILimitFn \<Rightarrow> Some (sourceVoltageILimitSCPI U)
     | setGainFn \<Rightarrow> Some setGainSCPI
     | measureVoltageFn \<Rightarrow> Some measureVoltageSCPI
     | measureCurrentFn \<Rightarrow> Some measureCurrentSCPI
     | getGainFn \<Rightarrow> Some getGainSCPI)"

text \<open>A call: the handlers read at most the first parameter; the reply is printed to the client \<open>c\<close>.\<close>

type_synonym ('s, 'd) replying = "(int \<times> scpi_reply) list \<times> ('s, 'd) app"

definition scpi_call :: "'s unit_if \<Rightarrow> sensors \<Rightarrow> u32 \<Rightarrow> int \<Rightarrow> scpi_command \<Rightarrow> string list \<Rightarrow> string list \<Rightarrow> ('s, 'd) replying \<Rightarrow> ('s, 'd) replying" where
  "scpi_call U e now c h cmds params rw =
     (case scpi_handler_of U e h of
        None \<Rightarrow> rw
      | Some f \<Rightarrow> let (reply, w) = f now (map_option (toInt e) (First params)) (snd rw) in (fst rw @ [(c, reply)], w))"

section \<open>The server\<close>

record client_state =
  client_id :: int
  closed :: bool
  lastRead :: u32
  closedTime :: u32
  outputClosed :: bool
  emptyLine :: bool

definition new_client :: "u32 \<Rightarrow> int \<Rightarrow> client_state" where
  "new_client now c = \<lparr>client_id = c, closed = False, lastRead = now, closedTime = 0, outputClosed = False, emptyLine = False\<rparr>"

record network =
  net_clients :: "client_state list"
  clientNow :: "int option"
  receivedMessages :: int
  net_buffer :: string
  ipAddressString :: string
  linkState :: bool
  hasIpx :: bool
  server_listening :: bool
  copyBuffer :: string
  SCPI_CommandBuffer :: string
  sockets :: "int \<Rightarrow> string"

definition network_initial :: network where
  "network_initial = \<lparr>net_clients = [], clientNow = None, receivedMessages = 0, net_buffer = [], ipAddressString = [], linkState = False,
     hasIpx = False, server_listening = False, copyBuffer = [], SCPI_CommandBuffer = [], sockets = (\<lambda>_. [])\<rparr>"

text \<open>The listeners: link changes, and address changes with the new address or without one.  \<open>begin\<close> and \<open>end\<close> of the server
  report whether they succeeded, which is only printed.\<close>

definition link_changed :: "bool \<Rightarrow> network \<Rightarrow> network" where
  "link_changed on n = n\<lparr>linkState := on\<rparr>"

definition tellServer :: "bool \<Rightarrow> network \<Rightarrow> network" where
  "tellServer hasIP n =
     (if hasIP then (if server_listening n then n else n\<lparr>server_listening := True\<rparr>)
      else if \<not> server_listening n then n else n\<lparr>server_listening := False\<rparr>)"

definition digit_char :: "nat \<Rightarrow> char" where "digit_char k = char_of (48 + k)"
definition three_digits :: "byte \<Rightarrow> string" where
  "three_digits b = [digit_char (unat b div 100), digit_char (unat b div 10 mod 10), digit_char (unat b mod 10)]"

definition address_changed :: "(byte \<times> byte \<times> byte \<times> byte) option \<Rightarrow> network \<Rightarrow> network" where
  "address_changed ip n =
     tellServer (ip \<noteq> None) (case ip of
       None \<Rightarrow> n\<lparr>hasIpx := False\<rparr>
     | Some (a, b, c, d) \<Rightarrow> n\<lparr>hasIpx := True, ipAddressString := three_digits a @ ''.'' @ three_digits b @ ''.'' @ three_digits c @ ''.'' @ three_digits d\<rparr>)"

text \<open>Reading a line: the first argument is the local buffer of 100 characters.  The result is None when the buffer overflows;
  else the line, if one is complete, and what is left in the socket.\<close>

definition LF :: char where "LF = CHR 0x0A"

fun read_line :: "string \<Rightarrow> string \<Rightarrow> (string option \<times> string) option" where
  "read_line buf [] = Some (None, [])"
| "read_line buf (c # q) =
     (if 100 \<le> length buf then None else if c = LF then Some (Some buf, q) else read_line (buf @ [c]) q)"

text \<open>\<open>strncpy\<close> of 30 characters into a buffer that holds \<open>stack\<close>: a message of 30 or more is not terminated.\<close>

definition command_copy :: "string \<Rightarrow> string \<Rightarrow> string" where
  "command_copy stack s = (if length s < 30 then s else take 30 s @ stack)"

type_synonym ('s, 'd) device = "scpi_command scpi \<times> (int \<times> scpi_reply) list \<times> ('s, 'd) app"

definition processClientData :: "'s unit_if \<Rightarrow> sensors \<Rightarrow> string \<Rightarrow> u32 \<Rightarrow> int \<Rightarrow> client_state \<Rightarrow> network \<Rightarrow> ('s, 'd) device \<Rightarrow>
    (client_state \<times> network \<times> ('s, 'd) device) option" where
  "processClientData U e stack now first c n dv =
     (let q = sockets n (client_id c); c1 = (if q = [] then c else c\<lparr>lastRead := now\<rparr>) in
      case read_line [] q of
        None \<Rightarrow> None
      | Some (None, rest) \<Rightarrow> Some (c1, n\<lparr>sockets := (sockets n)(client_id c := rest)\<rparr>, dv)
      | Some (Some line, rest) \<Rightarrow>
          let msg = takeWhile (\<lambda>x. x \<noteq> NUL) line;
              (p, rw) = Execute (scpi_call U e now first) (command_copy stack msg) dv
          in Some (c1\<lparr>closedTime := now\<rparr>, n\<lparr>net_buffer := msg, sockets := (sockets n)(client_id c := rest)\<rparr>, (p, rw)))"

text \<open>The loop over the clients; all replies go to the first client of the list.\<close>

fun process_clients :: "'s unit_if \<Rightarrow> sensors \<Rightarrow> string \<Rightarrow> u32 \<Rightarrow> (int \<Rightarrow> bool) \<Rightarrow> int \<Rightarrow> client_state list \<Rightarrow> network \<Rightarrow> ('s, 'd) device \<Rightarrow>
    (client_state list \<times> network \<times> ('s, 'd) device) option" where
  "process_clients U e stack now conn first [] n dv = Some ([], n, dv)"
| "process_clients U e stack now conn first (c # cs) n dv =
     (if \<not> conn (client_id c)
      then map_option (\<lambda>(cs1, r). (c\<lparr>closed := True\<rparr> # cs1, r)) (process_clients U e stack now conn first cs n dv)
      else Option.bind (processClientData U e stack now first c (n\<lparr>clientNow := Some first\<rparr>) dv)
        (\<lambda>(c1, n1, dv1). map_option (\<lambda>(cs1, r). (c1 # cs1, r)) (process_clients U e stack now conn first cs n1 dv1)))"

record net_inputs =
  ni_accept :: "int option"
  ni_received :: "int \<Rightarrow> string"
  ni_connected :: "int \<Rightarrow> bool"
  ni_stack :: string
  ni_sensors :: sensors

definition network_loop :: "'s unit_if \<Rightarrow> u32 \<Rightarrow> net_inputs \<Rightarrow> network \<Rightarrow> ('s, 'd) device \<Rightarrow> (network \<times> ('s, 'd) device) option" where
  "network_loop U now i n0 dv =
     (let n = n0\<lparr>sockets := (\<lambda>c. sockets n0 c @ ni_received i c)\<rparr>;
          cs = (case ni_accept i of None \<Rightarrow> net_clients n | Some c \<Rightarrow> net_clients n @ [new_client now c])
      in map_option (\<lambda>(cs1, n1, dv1). (n1\<lparr>net_clients := filter (\<lambda>c. \<not> closed c) cs1\<rparr>, dv1))
           (process_clients U (ni_sensors i) (ni_stack i) now (ni_connected i) (case cs of [] \<Rightarrow> 0 | c # _ \<Rightarrow> client_id c) cs n dv))"

text \<open>The buffers of the messages shown in the header.\<close>

definition GetEthMsg :: "network \<Rightarrow> string \<times> network" where
  "GetEthMsg n = (let s = take 40 (net_buffer n) in (s, n\<lparr>copyBuffer := s\<rparr>))"
definition net_clearBuffer :: "network \<Rightarrow> network" where
  "net_clearBuffer n = n\<lparr>receivedMessages := receivedMessages n + 1, net_buffer := []\<rparr>"
definition newMessageReady :: "network \<Rightarrow> bool" where "newMessageReady n = (net_buffer n \<noteq> [])"

definition scpiCommandDetectionLoop :: "'s unit_if \<Rightarrow> u32 \<Rightarrow> net_inputs \<Rightarrow> network \<Rightarrow> ('s, 'd) device \<Rightarrow> (network \<times> ('s, 'd) device) option" where
  "scpiCommandDetectionLoop U now i n dv =
     map_option (\<lambda>(n1, dv1).
       (if linkState n1 \<and> newMessageReady n1
        then let (s, n2) = GetEthMsg n1 in net_clearBuffer (n2\<lparr>SCPI_CommandBuffer := s\<rparr>) else n1, dv1)) (network_loop U now i n dv)"

end
