(* ===== verification/MainLoop.thy ===== *)
theory MainLoop
  imports Network
begin

text \<open>
  The main loop (src/src/Poormanssmu.cpp: checkButtons, loopMain, loop, renderSetingsPage, setup) with the
  buttons of the widgets (src/src/widgets.cpp).  One pass reads its inputs from a record: \<open>in_touch\<close> as
  \<open>detectGestures\<close> reads them, \<open>in_later\<close> as the later parts of the pass do.  A pass is None when it
  writes outside the arrays of the touch filter or past the buffer of the dial.
\<close>

section \<open>Inputs of a pass\<close>

record touch_inputs =
  in_tag :: int
  in_x :: int
  in_y :: int
  in_track_tag :: int
  in_track_val :: int

record inputs =
  in_touch :: touch_inputs
  in_later :: touch_inputs
  in_buttons :: "int \<times> int"
  in_encoder_button :: "int \<times> int"
  in_knob :: "bool \<times> int"
  in_TC74 :: "byte option"
  in_LM60 :: int

section \<open>Buttons\<close>

definition widgets_checkButtons :: "'s unit_if \<Rightarrow> u32 \<Rightarrow> int \<Rightarrow> ('s, 'd) app \<Rightarrow> ('s, 'd) app" where
  "widgets_checkButtons U now tag w =
     (if tag = BUTTON_SAMPLE_RATE_5 \<or> tag = BUTTON_SAMPLE_RATE_20 \<or> tag = BUTTON_SAMPLE_RATE_50 \<or> tag = BUTTON_SAMPLE_RATE_100 then
        let w1 = (if w_timeSinceLastChange (WIDGETS w) + 500 < now then w\<lparr>WIDGETS := (WIDGETS w)\<lparr>w_timeSinceLastChange := now\<rparr>\<rparr> else w);
            rate = (if tag = BUTTON_SAMPLE_RATE_5 then 5 else if tag = BUTTON_SAMPLE_RATE_20 then 20 else if tag = BUTTON_SAMPLE_RATE_50 then 50 else 100)
        in with_smu (setSamplingRate (vmt U) rate) w1
      else if tag = BUTTON_REL then
        w\<lparr>V_CALIBRATION := toggleRelativeValue now (rawValue (V_STATS w)) (getCurrentRange (vmt U) (smu w)) (V_CALIBRATION w),
          C_CALIBRATION := toggleRelativeValue now (rawValue (C_STATS w)) (getCurrentRange (vmt U) (smu w)) (C_CALIBRATION w)\<rparr>
      else if tag = BUTTON_UNCAL then
        w\<lparr>V_CALIBRATION := snd (toggleCalibratedValues now (V_CALIBRATION w)), C_CALIBRATION := snd (toggleCalibratedValues now (C_CALIBRATION w))\<rparr>
      else if tag = BUTTON_CLEAR_BUFFER then
        startIndicator now tag (w\<lparr>SIMPLE_STATS := simple_stats_clear (SIMPLE_STATS w), V_STATS := stats_clearBuffer (V_STATS w),
          C_STATS := stats_clearBuffer (C_STATS w)\<rparr>)
      else w)"

definition other_range :: "CURRENT_RANGE \<Rightarrow> CURRENT_RANGE" where
  "other_range r = (if r = AMP1 then MILLIAMP10 else AMP1)"

definition main_button :: "'s unit_if \<Rightarrow> (f64 \<Rightarrow> nat \<Rightarrow> nat \<Rightarrow> string) \<Rightarrow> u32 \<Rightarrow> int \<Rightarrow> ('s, 'd) app \<Rightarrow> ('s, 'd) app" where
  "main_button U dtostrf now tag w =
     (if tag = BUTTON_SOURCE_SET
      then w\<lparr>SOURCE_DIAL := dial_open dtostrf (app_operationType w) DIAL_SET (getSetValue_micro (vmt U) (smu w)) (SOURCE_DIAL w)\<rparr>
      else if tag = BUTTON_LIM_SET
      then w\<lparr>LIMIT_DIAL := dial_open dtostrf (app_operationType w) DIAL_LIMIT (getLimitValue_micro (vmt U) (smu w)) (LIMIT_DIAL w)\<rparr>
      else if tag = BUTTON_CUR_AUTO then
        (if app_timeSinceLastChange w + 500 < now
         then let r = other_range (getCurrentRange (vmt U) (smu w)); w1 = with_smu (disable_SPI U) (w\<lparr>app_timeSinceLastChange := now\<rparr>)
              in with_smu (setCurrentRange (vmt U) (env_of now w1) r (app_operationType w1)) w1
         else w)
      else widgets_checkButtons U now tag w)"

text \<open>What an accepted tag does; the result is the tag, or 0 when it came too fast.\<close>

definition button_action :: "'s unit_if \<Rightarrow> (f64 \<Rightarrow> nat \<Rightarrow> nat \<Rightarrow> string) \<Rightarrow> u32 \<Rightarrow> int \<Rightarrow> ('s, 'd) app \<Rightarrow> int \<times> ('s, 'd) app" where
  "button_action U dtostrf now tag w0 =
     (let w1 = main_button U dtostrf now tag w0;
          (ok, w2) = handleCalibrationButtons (vmt U) now tag (app_operationType w1) (getCurrentRange (vmt U) (smu w1)) w1
      in if \<not> ok then (0, w2)
         else if tag = BUTTON_DAC_ZERO_CALIBRATE then
           (if app_timeSinceLastChange w2 + 1000 > now then (0, w2)
            else (tag, startNullCalibration (vmt U) now (app_operationType w2) ((startIndicator now tag w2)\<lparr>app_timeSinceLastChange := now\<rparr>)))
         else (tag, w2))"

definition checkButtons :: "'s unit_if \<Rightarrow> (f64 \<Rightarrow> nat \<Rightarrow> nat \<Rightarrow> string) \<Rightarrow> u32 \<Rightarrow> touch_inputs \<Rightarrow> ('s, 'd) app \<Rightarrow> (int \<times> ('s, 'd) app) option" where
  "checkButtons U dtostrf now i w =
     (if menu_active (MAINMENU w) then Some (0, w)
      else if in_track_tag i mod 256 \<noteq> 0 \<and> trackingOngoing (GESTURES w) \<noteq> 0 then Some (0, w)
      else case filter_touch now (in_tag i) (in_x i) (in_y i) (TOUCH w) of
          None \<Rightarrow> None
        | Some (tag, t) \<Rightarrow> Some (if tag = 0 then (0, w\<lparr>TOUCH := t\<rparr>) else button_action U dtostrf now tag (w\<lparr>TOUCH := t\<rparr>)))"

definition handleFunctionSpecifcButtonAction :: "u32 \<Rightarrow> FUNCTION_TYPE \<Rightarrow> int \<Rightarrow> int \<Rightarrow> ('s, 'd) app \<Rightarrow> ('s, 'd) app" where
  "handleFunctionSpecifcButtonAction now f tag tag2 w =
     (if f = SOURCE_PULSE then w\<lparr>FUNCTION_PULSE := pulse_handleButtonAction (sint now) tag (FUNCTION_PULSE w)\<rparr>
      else if f = SOURCE_SWEEP then w\<lparr>FUNCTION_SWEEP := sweep_handleButtonAction (sint now) tag2 (FUNCTION_SWEEP w)\<rparr>
      else w)"

text \<open>The settings page: a toggle above 30000 is on.\<close>

definition toggled :: "int \<Rightarrow> bool" where "toggled v = (v > 30000)"
definition toggle_value :: "int \<Rightarrow> int" where "toggle_value v = (if toggled v then 65535 else 0)"

definition renderSetingsPage :: "'s unit_if \<Rightarrow> touch_inputs \<Rightarrow> ('s, 'd) app \<Rightarrow> ('s, 'd) app" where
  "renderSetingsPage U i w =
     (let t = in_tag i mod 256; v = in_track_val i; on = toggled v in
      if t = 42 then with_smu (shortAdcInput (vmt U) on) (w\<lparr>settingsShortAdc := toggle_value v\<rparr>)
      else if t = 43 then w\<lparr>WIDGETS := (WIDGETS w)\<lparr>settingsCurrentAutoRange := toggle_value v\<rparr>\<rparr>
      else if t = 44 then with_smu (internalRefInput (vmt U) on) (w\<lparr>settingsInternalADCRef := toggle_value v\<rparr>)
      else if t = 45 then with_smu (set_gainX2 U on) (w\<lparr>voltageMeasurementGainX2 := toggle_value v\<rparr>)
      else if t = 46 then with_smu (\<lambda>s. enableVoltageMeasurement (vmt U) True (enableCurrentMeasurement (vmt U) (\<not> on) s)) (w\<lparr>voltageOnly := toggle_value v\<rparr>)
      else if t = 244 then w\<lparr>showSettings := False\<rparr>
      else w)"

section \<open>The parts of a pass\<close>

definition menu_reports :: "'s unit_if \<Rightarrow> u32 \<Rightarrow> FUNCTION_TYPE list \<times> menu \<Rightarrow> ('s, 'd) app \<Rightarrow> ('s, 'd) app" where
  "menu_reports U now r w = fold (closeMainMenuCallback U now) (fst r) (w\<lparr>MAINMENU := snd r\<rparr>)"

definition handleMenuScrolldown :: "'s unit_if \<Rightarrow> u32 \<Rightarrow> int \<Rightarrow> ('s, 'd) app \<Rightarrow> ('s, 'd) app" where
  "handleMenuScrolldown U now tag w =
     (if gestureDetected (GESTURES w) = GEST_MOVE_DOWN \<and> \<not> menu_active (MAINMENU w) then openMainMenu w
      else if menu_active (MAINMENU w) then menu_reports U now (menu_render tag now (MAINMENU w)) w
      else w)"

definition app_gestures :: "u32 \<Rightarrow> touch_inputs \<Rightarrow> ('s, 'd) app \<Rightarrow> ('s, 'd) app" where
  "app_gestures now i w = w\<lparr>GESTURES := detectGestures now (menu_active (MAINMENU w) \<or> anyDialogOpen w) (isScrolling (WIDGETS w))
     (in_track_tag i) (in_x i) (in_y i) (GESTURES w)\<rparr>"

text \<open>The header shows the temperatures, and sets the fan.\<close>

definition renderMainHeader :: "u32 \<Rightarrow> inputs \<Rightarrow> ('s, 'd) app \<Rightarrow> ('s, 'd) app" where
  "renderMainHeader now i w =
     (if menu_active (MAINMENU w) \<or> anyDialogOpen w then w
      else w\<lparr>FAN := setAutoSpeedBasedOnTemperature now (of_i (TC74_getTemperature (in_TC74 i))) (FAN w),
             UTILS := snd (LM60_getTemperature (in_LM60 i) now (UTILS w))\<rparr>)"

text \<open>Widget 4 holds the sliders, which are read when it is drawn in detail.\<close>

definition displayWidget :: "touch_inputs \<Rightarrow> ('s, 'd) app \<Rightarrow> ('s, 'd) app" where
  "displayWidget i w =
     (if \<not> reduceDetails w \<and> 4 \<in> fst ` set (displayed_widgets (WIDGETS w)) then handleSliders (in_track_tag i) (in_track_val i) w else w)"

definition handle_push_buttons :: "'s unit_if \<Rightarrow> u32 \<Rightarrow> inputs \<Rightarrow> ('s, 'd) app \<Rightarrow> ('s, 'd) app" where
  "handle_push_buttons U now i w =
     (let (ps, b) = pushbuttons_handle (fst (in_buttons i)) (snd (in_buttons i)) now (PUSHBUTTONS w);
          w1 = fold pushButtonInterrupt ps (w\<lparr>PUSHBUTTONS := b\<rparr>);
          (qs, e) = pushbuttons_handle (fst (in_encoder_button i)) (snd (in_encoder_button i)) now (PUSHBUTTON_ENC w1)
      in fold (\<lambda>_. encoder_pressed now) qs (w1\<lparr>PUSHBUTTON_ENC := e\<rparr>))"

definition use_source_dial :: "'s unit_if \<Rightarrow> u32 \<Rightarrow> int \<Rightarrow> ('s, 'd) app \<Rightarrow> ('s, 'd) app option" where
  "use_source_dial U now tag w0 =
     (let (ev, d) = checkKeypress tag (SOURCE_DIAL w0);
          w1 = w0\<lparr>SOURCE_DIAL := d\<rparr>;
          w2 = (case ev of None \<Rightarrow> w1 | Some cancel \<Rightarrow> closeSourceDCCallback U now (set_or_limit d) cancel w1)
      in map_option (\<lambda>d1. w2\<lparr>SOURCE_DIAL := d1\<rparr>) (handleKeypadDialog (SOURCE_DIAL w2)))"

definition use_limit_dial :: "'s unit_if \<Rightarrow> u32 \<Rightarrow> int \<Rightarrow> ('s, 'd) app \<Rightarrow> ('s, 'd) app option" where
  "use_limit_dial U now tag w0 =
     (let (ev, d) = checkKeypress tag (LIMIT_DIAL w0);
          w1 = w0\<lparr>LIMIT_DIAL := d\<rparr>;
          w2 = (case ev of None \<Rightarrow> w1 | Some cancel \<Rightarrow> closeSourceDCCallback U now (set_or_limit d) cancel w1)
      in map_option (\<lambda>d1. w2\<lparr>LIMIT_DIAL := d1\<rparr>) (handleKeypadDialog (LIMIT_DIAL w2)))"

definition use_dials :: "'s unit_if \<Rightarrow> u32 \<Rightarrow> int \<Rightarrow> ('s, 'd) app \<Rightarrow> ('s, 'd) app option" where
  "use_dials U now tag w =
     (if d_dialog (SOURCE_DIAL w) then use_source_dial U now tag w
      else if d_dialog (LIMIT_DIAL w) then use_limit_dial U now tag w
      else Some w)"

section \<open>A pass of the main function\<close>

definition main_operation :: "'s unit_if \<Rightarrow> 'd chips \<Rightarrow> (int \<Rightarrow> int) \<Rightarrow> u32 \<Rightarrow> ('s, 'd) app \<Rightarrow> ('s, 'd) app" where
  "main_operation U X rand now w0 =
     (let w1 = handleAutoNull (vmt U) now w0;
          w2 = houseKeeping now (w1\<lparr>app_operationType := getOperationType (app_functionType w1)\<rparr>);
          w3 = with_smu (handleAutoCurrentRange (vmt U) (env_of now w2) (settingsCurrentAutoRange (WIDGETS w2) \<ge> 10000)) w2;
          w4 = (if app_functionType w3 = SOURCE_PULSE then handleSampling U X rand now w3 else w3);
          w5 = (if app_functionType w4 = SOURCE_SWEEP
                then let (f, s) = sweep_handle (vmt U) (env_of now w4) (sint now) (FUNCTION_SWEEP w4, smu w4) in w4\<lparr>FUNCTION_SWEEP := f, smu := s\<rparr>
                else w4)
      in with_smu (disable_SPI U) w5)"

definition main_touch :: "'s unit_if \<Rightarrow> (f64 \<Rightarrow> nat \<Rightarrow> nat \<Rightarrow> string) \<Rightarrow> u32 \<Rightarrow> touch_inputs \<Rightarrow> ('s, 'd) app \<Rightarrow> ('s, 'd) app option" where
  "main_touch U dtostrf now i w =
     (if gestureDetected (GESTURES w) \<noteq> 0 then Some w
      else case checkButtons U dtostrf now i w of
          None \<Rightarrow> None
        | Some (tag, w1) \<Rightarrow>
            let w2 = menu_reports U now (menu_handleButtonAction (in_tag i) (MAINMENU w1)) w1
            in Some (handleFunctionSpecifcButtonAction now (app_functionType w2) tag (in_tag i) w2))"

definition main_screen :: "'s unit_if \<Rightarrow> (f64 \<Rightarrow> nat \<Rightarrow> nat \<Rightarrow> string) \<Rightarrow> u32 \<Rightarrow> inputs \<Rightarrow> ('s, 'd) app \<Rightarrow> ('s, 'd) app option" where
  "main_screen U dtostrf now i w =
     (if showSettings w then Some (renderSetingsPage U (in_later i) (renderMainHeader now i w))
      else map_option (\<lambda>w1.
          let w2 = w1\<lparr>WIDGETS := handleWidgetScrollPosition (gestureDetected (GESTURES w1)) (WIDGETS w1)\<rparr>
          in renderMainHeader now i (handleMenuScrolldown U now (in_tag (in_later i)) (displayWidget (in_later i) w2)))
        (main_touch U dtostrf now (in_touch i) (app_gestures now (in_touch i) w)))"

definition loopMain :: "'s unit_if \<Rightarrow> 'd chips \<Rightarrow> (int \<Rightarrow> int) \<Rightarrow> (f64 \<Rightarrow> nat \<Rightarrow> nat \<Rightarrow> string) \<Rightarrow> u32 \<Rightarrow> inputs \<Rightarrow> ('s, 'd) app \<Rightarrow> ('s, 'd) app option" where
  "loopMain U X rand dtostrf now i w =
     Option.bind (main_screen U dtostrf now i (main_operation U X rand now w))
       (\<lambda>w1. use_dials U now (in_tag (in_later i)) (handle_push_buttons U now i w1))"

section \<open>The other functions and the loop\<close>

definition loop_digitizer :: "'s unit_if \<Rightarrow> u32 \<Rightarrow> inputs \<Rightarrow> ('s, 'd) app \<Rightarrow> ('s, 'd) app" where
  "loop_digitizer U now i w0 =
     (let (d, s) = loopDigitize (vmt U) (menu_active (MAINMENU w0)) (DIGITIZER w0)
                     (if \<not> digitize (DIGITIZER w0) \<and> \<not> menu_active (MAINMENU w0) then disable_SPI U (smu w0) else smu w0);
          w1 = w0\<lparr>DIGITIZER := d, smu := s\<rparr> in
      if (\<not> digitize d \<or> \<not> allowTrigger d \<or> \<not> continuous d) \<and> (sint now > samplesUpdateTimer w1 + 100 \<or> menu_active (MAINMENU w1)) then
        let w2 = app_gestures now (in_touch i) (with_smu (disable_SPI U) (w1\<lparr>DIGITIZER := d\<lparr>rendering := True\<rparr>, samplesUpdateTimer := sint now\<rparr>));
            w3 = (if menu_active (MAINMENU w2) then menu_reports U now (menu_handleButtonAction (in_tag (in_touch i)) (MAINMENU w2)) w2 else w2);
            w4 = renderMainHeader now i (handleMenuScrolldown U now (in_tag (in_touch i)) (handle_push_buttons U now i w3));
            g = (if menu_active (MAINMENU w4) then DIGITIZER w4 else update_multiplyBy (digitizer_touch now (in_tag (in_touch i)) (DIGITIZER w4)))
        in w4\<lparr>DIGITIZER := g\<lparr>rendering := False\<rparr>\<rparr>
      else w1)"

text \<open>The trend graph and the data logger: drawing apart, both passes are the same.\<close>

definition loop_graph :: "'s unit_if \<Rightarrow> u32 \<Rightarrow> inputs \<Rightarrow> ('s, 'd) app \<Rightarrow> ('s, 'd) app" where
  "loop_graph U now i w0 =
     (let w1 = renderMainHeader now i (app_gestures now (in_touch i) (with_smu (disable_SPI U) w0));
          w2 = handleMenuScrolldown U now (in_tag (in_touch i)) w1;
          w3 = menu_reports U now (menu_handleButtonAction (in_tag (in_touch i)) (MAINMENU w2)) w2
      in handle_push_buttons U now i w3)"

definition knob_turned :: "'s unit_if \<Rightarrow> (f64 \<Rightarrow> nat \<Rightarrow> nat \<Rightarrow> string) \<Rightarrow> u32 \<Rightarrow> bool \<times> int \<Rightarrow> ('s, 'd) app \<Rightarrow> ('s, 'd) app" where
  "knob_turned U dtostrf now k w =
     (let reduceResolution = (\<not> use100uVSetResolution (vmt U) (smu w) \<and> feq (changeDigit w) (of_i 1000));
          (v, e) = rotary_handle reduceResolution (fst k) (snd k) now (ROTARY_ENCODER w); w1 = w\<lparr>ROTARY_ENCODER := e\<rparr>
      in case v of None \<Rightarrow> w1 | Some x \<Rightarrow> rotary_changed U dtostrf now x w1)"

text \<open>The loop after the commands; it is the whole loop of the build without a network (the Teensy 3.1).\<close>

definition loop_pass :: "'s unit_if \<Rightarrow> 'd chips \<Rightarrow> (int \<Rightarrow> int) \<Rightarrow> (f64 \<Rightarrow> nat \<Rightarrow> nat \<Rightarrow> string) \<Rightarrow> u32 \<Rightarrow> inputs \<Rightarrow> ('s, 'd) app \<Rightarrow> ('s, 'd) app option" where
  "loop_pass U X rand dtostrf now i w0 =
     (let w1 = autoCalADCfromDAC (vmt U) now SOURCE_CURRENT (autoCalADCfromDAC (vmt U) now SOURCE_VOLTAGE w0);
          w2 = knob_turned U dtostrf now (in_knob i) w1
      in if app_functionType w2 = DIGITIZE then Some (loop_digitizer U now i w2)
         else if app_functionType w2 = GRAPH \<or> app_functionType w2 = DATALOGGER then Some (loop_graph U now i w2)
         else loopMain U X rand dtostrf now i w2)"

text \<open>The loop: the commands that clients have sent first, then the rest of the pass.\<close>

definition app_loop :: "'s unit_if \<Rightarrow> 'd chips \<Rightarrow> (int \<Rightarrow> int) \<Rightarrow> (f64 \<Rightarrow> nat \<Rightarrow> nat \<Rightarrow> string) \<Rightarrow> u32 \<Rightarrow> inputs \<Rightarrow> net_inputs \<Rightarrow>
    network \<times> ('s, 'd) device \<Rightarrow> (network \<times> ('s, 'd) device) option" where
  "app_loop U X rand dtostrf now i ni nd =
     Option.bind (scpiCommandDetectionLoop U now ni (fst nd) (snd nd))
       (\<lambda>(n, p, rs, w). map_option (\<lambda>w1. (n, p, rs, w1)) (loop_pass U X rand dtostrf now i w))"

section \<open>Start-up\<close>

text \<open>\<open>setup\<close>: the objects in the order it initialises them.  \<open>mb\<close> is the external memory found, in megabytes.\<close>

definition setup_unit :: "'s unit_if \<Rightarrow> u32 \<Rightarrow> ('s, 'd) app \<Rightarrow> ('s, 'd) app" where
  "setup_unit U now w0 =
     (let w1 = with_smu (\<lambda>s. setSamplingRate (vmt U) 20 (snd (settings_init (vmt U) (unit_init U (disable_SPI U s))))) w0;
          w2 = w1\<lparr>app_operationType := getOperationType (app_functionType w1)\<rparr>;
          (cv, st) = cal_init now SOURCE_VOLTAGE (V_CALIBRATION w2) (cal_data w2);
          (cc, st') = cal_init now SOURCE_CURRENT (C_CALIBRATION w2) st;
          w3 = w2\<lparr>V_CALIBRATION := cv, C_CALIBRATION := cc, cal_data := st'\<rparr>
      in if app_operationType w3 = SOURCE_VOLTAGE then
           let E = env_of now w3 in
           with_smu (\<lambda>s. snd (fltSetCommitCurrentLimit (vmt U) E (f2i64 (setCurrentLimit * of_i 1000))
             (setCurrentRange (vmt U) E AMP1 SOURCE_VOLTAGE (snd (fltSetCommitVoltageSource (vmt U) E (f2i64 (setMilliVoltage * of_i 1000)) True s))))) w3
         else w3)"

definition app_setup :: "'s unit_if \<Rightarrow> 'd chips \<Rightarrow> byte \<Rightarrow> (nat \<Rightarrow> u32) \<Rightarrow> u32 \<Rightarrow> ('s, 'd) app \<Rightarrow> ('s, 'd) app" where
  "app_setup U X mb clock now w0 =
     (let w1 = setup_unit U now (w0\<lparr>LOGGER := logger_init mb (LOGGER w0), SIMPLE_STATS := simple_stats_init (SIMPLE_STATS w0),
            PUSHBUTTONS := pushbuttons_init 3 1000 (PUSHBUTTONS w0), PUSHBUTTON_ENC := pushbuttons_init 16 1000 (PUSHBUTTON_ENC w0),
            encoderCallbackFn := EncDigit, FAN := fan_init (FAN w0)\<rparr>)
      in initDefaultSamplingIfByInterrupt (w1\<lparr>V_STATS := stats_init 1 (V_STATS w1), C_STATS := stats_init 2 (C_STATS w1),
           V_FILTERS := filters_init 1234 (V_FILTERS w1), C_FILTERS := filters_init 5678 (C_FILTERS w1),
           SOURCE_DIAL := dial_init (SOURCE_DIAL w1), LIMIT_DIAL := dial_init (LIMIT_DIAL w1),
           FUNCTION_PULSE := pulse_init (FUNCTION_PULSE w1), FUNCTION_SWEEP := sweep_init (FUNCTION_SWEEP w1),
           RAM := startLog now (log_ram_init X clock (RAM w1)), rotaryChangedFn := RotaryVoltCurrent,
           DIGITIZER := digitizer_init (DIGITIZER w1)\<rparr>))"

end
