(* ===== verification/AppLaws.thy ===== *)
theory AppLaws
  imports MainLoop DialLaws
begin

text \<open>
  What the main program does to the unit.  The contract of the abstraction layer is extended by the two calls
  outside it; the locale holds for the hardware.
\<close>

section \<open>The contract of the unit\<close>

locale smu_unit = smu_hal "vmt U" for U :: "'s unit_if" +
  assumes disable: "view (vmt U) (disable_SPI U s) = view (vmt U) s"
    and ready: "view (vmt U) (snd (dataReady (vmt U) E s)) = view (vmt U) s"
begin

lemma source_voltage_view:
  "view (vmt U) (smu (source_voltage U now x w)) = (view (vmt U) (smu w))\<lparr>mode := SOURCE_VOLTAGE, set_micro := x\<rparr>"
  by (simp add: source_voltage_def tested_def printError_def set_voltage)

lemma limit_current_view: "view (vmt U) (smu (App.limit_current U now n x w)) = (view (vmt U) (smu w))\<lparr>limit_micro := x\<rparr>"
  by (simp add: App.limit_current_def tested_def printError_def limit_current)

lemma limit_voltage_view: "view (vmt U) (smu (App.limit_voltage U now n x w)) = (view (vmt U) (smu w))\<lparr>limit_micro := x\<rparr>"
  by (simp add: App.limit_voltage_def tested_def printError_def limit_voltage)

text \<open>The mode a range request commits for does not matter to a current source that follows.\<close>

lemma source_current_view:
  "view (vmt U) (smu (fltCommitCurrentSourceAutoRange U now x auto w)) = (view (vmt U) (smu w))\<lparr>mode := SOURCE_CURRENT, set_micro := f2i64 x,
     crange := (if auto then (if \<bar>x\<bar> < of_i 8000 then MILLIAMP10 else AMP1) else crange (view (vmt U) (smu w)))\<rparr>"
  by (simp add: fltCommitCurrentSourceAutoRange_def tested_def printError_def with_smu_def Let_def set_current)
    (auto intro!: settings.equality simp: set_range_any)

lemma feedback_view: "view (vmt U) (smu (useVoltageFeedback U w)) = view (vmt U) (smu w)" "view (vmt U) (smu (useCurrentFeedback U w)) = view (vmt U) (smu w)"
  by (simp_all add: useVoltageFeedback_def useCurrentFeedback_def with_smu_def gpio)

lemmas source_views = source_voltage_view limit_current_view limit_voltage_view source_current_view feedback_view

end

lemma disable_view: "view (hal717 X) (disable_ADC_DAC_SPI_units X s) = view (hal717 X) s"
  by (simp add: disable_ADC_DAC_SPI_units_def view_def hal717_def)

lemma ready_view: "view (hal717 X) (snd (AD7176_dataReady X s)) = view (hal717 X) s"
proof -
  have "snd (AD7176_dataReady X s) = snd (AD7176_ReadRegister X Status_Register s)" by (simp add: dataReady_eq case_prod_unfold)
  then show ?thesis by (simp add: view717 board_more_smu [OF ReadRegister_frame(5)])
qed

lemma unit717_simps [simp]: "vmt (unit717 X) = hal717 X" "disable_SPI (unit717 X) = disable_ADC_DAC_SPI_units X"
    "dataReady (hal717 X) E = AD7176_dataReady X"
  by (simp_all add: unit717_def hal717_def)

interpretation u717: smu_unit "unit717 X :: ('d, 'z) smu717_scheme unit_if" for X :: "'d chips"
  by unfold_locales (simp_all add: h717.laws disable_view ready_view)

lemmas source_views717 = u717.source_views [simplified]

section \<open>What the dial enters is sourced\<close>

lemma f2i64_bound:
  assumes "is_fin x" "\<bar>val x\<bar> \<le> of_int n" "0 \<le> n" "n \<le> 1000000000000"
  shows "\<bar>f2i64 (x :: 'p::len flt)\<bar> \<le> n"
proof -
  have v: "val x \<le> of_int n" "- of_int n \<le> val x" using assms(2) by (simp_all add: abs_le_iff)
  have "\<bar>trunc (val x)\<bar> \<le> n"
  proof (cases "0 \<le> val x")
    case True
    have "\<lfloor>val x\<rfloor> \<le> n" using v(1) by linarith
    moreover have "0 \<le> \<lfloor>val x\<rfloor>" using True by simp
    ultimately show ?thesis using True by (simp add: trunc_def)
  next
    case False
    have "- n \<le> \<lceil>val x\<rceil>" using v(2) by linarith
    moreover have "\<lceil>val x\<rceil> \<le> 0" using False by simp
    ultimately show ?thesis using False by (simp add: trunc_def)
  qed
  then show ?thesis using assms by (cases x) (auto simp: f2i64_def f2i_def)
qed

lemma repr_in_f32_int8: "\<bar>n\<bar> \<le> 16777216 \<Longrightarrow> repr_in TYPE(f32) (of_int (8 * n))"
proof -
  assume n: "\<bar>n\<bar> \<le> 16777216"
  have "(of_int (8 * n) :: rat) = of_int n * 2 powi 3 \<and> \<bar>n\<bar> \<le> 2 ^ nat 24 \<and> - 126 - (24 - 1) \<le> (3 :: int)" using n by (simp add: power_int_def)
  then have "representable 24 (- 126) (of_int (8 * n))" unfolding representable_def by blast
  moreover have "\<bar>of_int (8 * n) :: rat\<bar> \<le> 134217728" using n by (simp only: of_int_abs [symmetric] of_int_le_numeral_iff)
  then have "\<bar>of_int (8 * n) :: rat\<bar> < 2 powi 128" by (rule le_less_trans) (simp add: power_int_def)
  ultimately show ?thesis unfolding repr_in_def by (simp add: prec_of_def emin_of_def emax_of_def)
qed

lemma milli_to_micro_bound:
  assumes "is_fin x" "\<bar>val x\<bar> \<le> of_int n" "n = 30000 \<or> n = 3300"
  shows "\<bar>f2i64 (x * of_i 1000 :: f32)\<bar> \<le> 1000 * n"
proof -
  have k: "is_fin (of_i 1000 :: f32)" "val (of_i 1000 :: f32) = 1000" by (simp_all add: of_i_exact)
  have r: "repr_in TYPE(f32) (of_int (1000 * n))" "repr_in TYPE(f32) (- of_int (1000 * n))"
    using repr_in_f32_int8 [of "125 * n"] repr_in_f32_int8 [of "- (125 * n)"] assms(3) by auto
  have v: "- of_int (1000 * n) \<le> val x * 1000" "val x * 1000 \<le> of_int (1000 * n)" using assms(2) by (simp_all add: abs_le_iff)
  have "is_fin (x * of_i 1000) \<and> \<bar>val (x * of_i 1000)\<bar> \<le> of_int (1000 * n)"
    using rnd_between [OF r(2,1) v, of "sgnb x \<noteq> sgnb (of_i 1000 :: f32)"] k assms(1) by (simp add: fin_mult abs_le_iff)
  then show ?thesis using assms(3) by (intro f2i64_bound) auto
qed

section \<open>What a request leaves alone\<close>

text \<open>All but the unit and the printed errors.\<close>

definition keeps :: "('s, 'd) app \<Rightarrow> ('s, 'd) app \<Rightarrow> bool" where
  "keeps w' w \<longleftrightarrow> w'\<lparr>smu := smu w, printed := printed w\<rparr> = w"

lemma keeps_basic [intro]: "keeps w w" "keeps w' w \<Longrightarrow> keeps (w'\<lparr>smu := s\<rparr>) w" "keeps w' w \<Longrightarrow> keeps (w'\<lparr>printed := p\<rparr>) w"
  by (simp_all add: keeps_def)

lemma keeps_tested [intro]: "keeps w' w \<Longrightarrow> keeps (tested n r w') w" "keeps w' w \<Longrightarrow> keeps (with_smu f w') w"
  by (auto simp: tested_def printError_def with_smu_def)

lemma keeps_commits [intro]:
  assumes "keeps w' w"
  shows "keeps (source_voltage U now x w') w" "keeps (App.limit_current U now n x w') w" "keeps (App.limit_voltage U now n x w') w"
    "keeps (fltCommitCurrentSourceAutoRange U now y auto w') w" "keeps (useVoltageFeedback U w') w" "keeps (useCurrentFeedback U w') w"
  using assms by (auto simp: source_voltage_def App.limit_current_def App.limit_voltage_def fltCommitCurrentSourceAutoRange_def useVoltageFeedback_def
      useCurrentFeedback_def Let_def)

lemma keeps_callback [intro]: "keeps w' w \<Longrightarrow> keeps (closeSourceDCCallback U now sl c w') w"
  by (auto simp: closeSourceDCCallback_def Let_def)

lemma keepsD:
  assumes "keeps w' w"
  shows "app_functionType w' = app_functionType w" "app_operationType w' = app_operationType w" "SOURCE_DIAL w' = SOURCE_DIAL w" "LIMIT_DIAL w' = LIMIT_DIAL w"
    "MAINMENU w' = MAINMENU w" "changeDigit w' = changeDigit w" "rotaryChangedFn w' = rotaryChangedFn w" "encoderCallbackFn w' = encoderCallbackFn w"
    "normalSamplingTimer w' = normalSamplingTimer w" "FUNCTION_PULSE w' = FUNCTION_PULSE w"
  by (subst assms [unfolded keeps_def, symmetric], simp)+

text \<open>The callback of the dial on the hardware.\<close>

lemma set_callback_view:
  "view (hal717 X) (smu (closeSourceDCCallback (unit717 X) now DIAL_SET False w)) = (view (hal717 X) (smu w))\<lparr>mode := app_operationType w,
     set_micro := f2i64 (getMv (SOURCE_DIAL w) * of_i 1000)\<rparr>"
  by (cases "app_operationType w") (simp_all add: closeSourceDCCallback_def with_smu_def DIAL_SET_def DIAL_LIMIT_def Let_def source_views717 disable_view)

lemma limit_callback_view:
  "view (hal717 X) (smu (closeSourceDCCallback (unit717 X) now DIAL_LIMIT False w)) = (view (hal717 X) (smu w))\<lparr>
     limit_micro := f2i64 (getMv (LIMIT_DIAL w) * of_i 1000)\<rparr>"
  by (cases "app_operationType w") (simp_all add: closeSourceDCCallback_def with_smu_def DIAL_SET_def DIAL_LIMIT_def Let_def source_views717 disable_view)

text \<open>C4: what the dial accepts is what the hardware sources: when a frame of the SET dial has offered the OK key, in any state of
  the dial that opening, keys, knob turns and frames can produce, the pass in which the key is pressed closes the dial and commits the
  shown value in the present mode, in micro units, leaving limit, range and rate alone; the set value is then at most
  30 V or 3.3 A.\<close>

theorem accepted_value_is_sourced:
  assumes "dtostrf_text F" and "dial_reach F d" and "handleKeypadDialog d = Some d1" and "d_dialog d1" and "ok_shown d1"
    and "set_or_limit d = DIAL_SET" and "SOURCE_DIAL w = d1" and "app_operationType w = vol_cur_type d"
  shows "(case use_dials (unit717 X) now KEYBOARD_OK w of None \<Rightarrow> False | Some w1 \<Rightarrow>
      \<not> d_dialog (SOURCE_DIAL w1)
      \<and> view (hal717 X) (smu w1) = (view (hal717 X) (smu w))\<lparr>mode := vol_cur_type d, set_micro := f2i64 (getMv d1 * of_i 1000)\<rparr>
      \<and> \<bar>set_micro (view (hal717 X) (smu w1))\<bar> \<le> (if vol_cur_type d = SOURCE_VOLTAGE then 30000000 else 3300000))"
proof -
  note a = accepted_value [OF assms(1-5)]
  have s: "set_or_limit d1 = DIAL_SET" using a(4) assms(6) by simp
  have b: "\<bar>f2i64 (getMv d1 * of_i 1000 :: f32)\<bar> \<le> (if vol_cur_type d = SOURCE_VOLTAGE then 30000000 else 3300000)"
    using a(1,2) assms(6) milli_to_micro_bound [of "getMv d1" 30000] milli_to_micro_bound [of "getMv d1" 3300] by (auto simp: dial_limit_def)
  define w1 where "w1 = closeSourceDCCallback (unit717 X) now DIAL_SET False (w\<lparr>SOURCE_DIAL := d1\<lparr>d_dialog := False, keydepressed := False\<rparr>\<rparr>)"
  have "use_dials (unit717 X) now KEYBOARD_OK w = Some w1"
  proof -
    have d: "SOURCE_DIAL w1 = d1\<lparr>d_dialog := False, keydepressed := False\<rparr>" unfolding w1_def by (subst keepsD(3) [OF keeps_callback [OF keeps_basic(1)]]) simp
    have "w1\<lparr>SOURCE_DIAL := SOURCE_DIAL w1\<rparr> = w1" by simp
    then show ?thesis using a(5) assms(4,7) s d by (simp add: use_dials_def use_source_dial_def handleKeypadDialog_def w1_def [symmetric])
  qed
  moreover have "SOURCE_DIAL w1 = d1\<lparr>d_dialog := False, keydepressed := False\<rparr>" unfolding w1_def by (subst keepsD(3) [OF keeps_callback [OF keeps_basic(1)]]) simp
  ultimately show ?thesis using b assms(8) by (simp add: w1_def set_callback_view)
qed

section \<open>Choosing a DC source\<close>

lemma close_view:
  assumes "app_functionType w \<noteq> DIGITIZE"
  shows "smu (close_function U w) = smu w"
  using assms by (simp add: close_function_def initDefaultSamplingIfByInterrupt_def)

lemma f2i64_of_i: "\<bar>n\<bar> \<le> 16777216 \<Longrightarrow> f2i64 (of_i n :: f32) = n"
proof -
  assume n: "\<bar>n\<bar> \<le> 16777216"
  then have "is_fin (of_i n :: f32)" "val (of_i n :: f32) = of_int n" by (simp_all add: of_i_exact)
  then show ?thesis using n by (cases "of_i n :: f32") (auto simp: f2i64_def f2i_def trunc_def)
qed

lemma start_values: "f2i64 (setMilliVoltage * of_i 1000) = 1234500" "f2i64 (setCurrentLimit * of_i 1000) = 33000"
  "f2i64 (setMilliAmpere * of_i 1000) = 13000" "f2i64 (setVoltageLimit * of_i 1000) = 5432100" "\<not> \<bar>setMilliAmpere * of_i 1000\<bar> < of_i 8000"
  by code_simp+

lemma open_dc_voltage_view:
  "view (hal717 X) (smu (open_dc_voltage (unit717 X) now u)) = (let a = view (hal717 X) (smu u) in
     if mode a = SOURCE_VOLTAGE then a else a\<lparr>mode := SOURCE_VOLTAGE, set_micro := 1234500, limit_micro := 33000\<rparr>)"
proof -
  define v where "v = useVoltageFeedback (unit717 X) (u\<lparr>rotaryChangedFn := RotaryVoltCurrent, encoderCallbackFn := EncDigit\<rparr>)"
  have v: "view (hal717 X) (smu v) = view (hal717 X) (smu u)" by (simp add: v_def source_views717)
  show ?thesis unfolding open_dc_voltage_def Let_def v_def [symmetric] unfolding start_values
    by (auto simp: h717.observed source_views717 v intro!: settings.equality)
qed

lemma small_current: "\<bar>n\<bar> \<le> 16777216 \<Longrightarrow> (\<bar>of_i n :: f32\<bar> < of_i 8000) = (\<bar>n\<bar> < 8000)"
proof -
  assume n: "\<bar>n\<bar> \<le> 16777216"
  have "(\<bar>of_i n :: f32\<bar> < of_i 8000) = (of_int \<bar>n\<bar> < (of_int 8000 :: rat))" using n by (simp add: fin_less of_i_exact)
  then show ?thesis by (simp only: of_int_less_iff)
qed

lemma open_dc_current_view:
  assumes "\<bar>set_micro (view (hal717 X) (smu u))\<bar> \<le> 16777216"
  shows "view (hal717 X) (smu (open_dc_current (unit717 X) now u)) = (let a = view (hal717 X) (smu u) in
     if mode a = SOURCE_CURRENT then a\<lparr>crange := (if \<bar>set_micro a\<bar> < 8000 then MILLIAMP10 else AMP1)\<rparr>
     else a\<lparr>mode := SOURCE_CURRENT, set_micro := 13000, limit_micro := 5432100, crange := AMP1\<rparr>)"
proof -
  define v where "v = useCurrentFeedback (unit717 X) (u\<lparr>rotaryChangedFn := RotaryVoltCurrent, encoderCallbackFn := EncDigit\<rparr>)"
  have v: "view (hal717 X) (smu v) = view (hal717 X) (smu u)" by (simp add: v_def source_views717)
  show ?thesis unfolding open_dc_current_def Let_def v_def [symmetric] unfolding start_values
    using assms by (auto simp: h717.observed source_views717 v start_values f2i64_of_i small_current intro!: settings.equality)
qed

text \<open>The two frames that set a DAC, and those of a source voltage, a source current and a voltage limit.\<close>

definition dac_frames :: "u32 \<Rightarrow> f32 \<Rightarrow> f32 \<Rightarrow> f32 \<Rightarrow> byte list" where
  "dac_frames ch v lo hi = LTC2758_frame LTC2758_WRITE_SPAN_DAC 0 (push_bit 2 ch) @ LTC2758_frame LTC2758_WRITE_CODE_UPDATE_DAC 0 (LTC2758_voltage_to_code v lo hi)"

definition voltage_frames :: "cal \<Rightarrow> int \<Rightarrow> byte list" where
  "voltage_frames V uV = (let dv = volt_dac_voltage V uV; (ch, lo, hi) = volt_span True dv in dac_frames ch (- dv) lo hi)"

definition current_frames :: "cal \<Rightarrow> CURRENT_RANGE \<Rightarrow> int \<Rightarrow> byte list" where
  "current_frames C r uA = (let dv = - curr_dac_voltage C r uA; (ch, lo, hi) = curr_span dv in dac_frames ch dv lo hi)"

definition voltage_limit_frames :: "int \<Rightarrow> byte list" where
  "voltage_limit_frames uV = dac_frames 1 (conv ((conv (milli uV * voltageInputDividerCompensation) :: f64) / lit 1000)) (lit 0) (lit 10)"

text \<open>What the commits put on the bus: the first component of a byte's tag is always off, the others select the limit DAC and the source DAC.\<close>

lemma commit_wires:
  fixes w :: "(('d, 'z) smu717_scheme, 'e) app"
  shows
  "wire (smu (source_voltage (unit717 X) now x w)) = wire (smu w) @ map (Pair (False, False, True)) (voltage_frames (V_CALIBRATION w) x)"
  "wire (smu (App.limit_current (unit717 X) now n x w)) = wire (smu w) @ map (Pair (False, True, False)) (limit_frames (V_CALIBRATION w) (s_current_range (smu w)) x)"
  "wire (smu (App.limit_voltage (unit717 X) now n x w)) = wire (smu w) @ map (Pair (False, True, False)) (voltage_limit_frames x)"
  by (simp_all add: source_voltage_def App.limit_current_def App.limit_voltage_def tested_def printError_def hal717_def limit_wire env_of_def
      adc_setVoltageSource_def adc_setVoltageLimit_def dac_program_wire voltage_frames_def voltage_limit_frames_def dac_frames_def Let_def case_prod_unfold)

lemma current_wire:
  "wire (snd (adc_setCurrentSource X E x s)) = wire s @ map (Pair (False, False, True)) (current_frames (env_C E) (s_current_range s) x)"
  by (simp add: adc_setCurrentSource_def dac_program_wire current_frames_def dac_frames_def Let_def case_prod_unfold)

lemma range_appends: "\<exists>pre. wire (adc_setCurrentRange X E r t s) = wire s @ pre"
proof -
  have g: "\<exists>pre. wire (adc_setGPIO X nr on u) = wire u @ pre" for nr on u using setGPIO_to_adc [of X nr on u] by blast
  have d: "wire (digitalWrite X p b u) = wire u" for p b u by simp
  show ?thesis
    using g [of 1 True "digitalWrite X 4 True (s\<lparr>s_current_range := AMP1\<rparr>)"]
      g [of 1 False "digitalWrite X 4 False (snd (adc_setCurrentLimit X E (s_setLimit_micro s) (s\<lparr>s_current_range := MILLIAMP10\<rparr>)))"]
      g [of 1 False "digitalWrite X 4 False (snd (adc_setCurrentSource X E (s_setValue_micro s) (s\<lparr>s_current_range := MILLIAMP10\<rparr>)))"]
    by (cases r; cases t) (auto simp: adc_setCurrentRange_def Let_def limit_wire current_wire)
qed

lemma auto_current_wire:
  fixes w :: "(('d, 'z) smu717_scheme, 'e) app"
  shows "\<exists>pre. wire (smu (fltCommitCurrentSourceAutoRange (unit717 X) now x True w)) = wire (smu w) @ pre
    @ map (Pair (False, False, True)) (current_frames (C_CALIBRATION w) (if \<bar>x\<bar> < of_i 8000 then MILLIAMP10 else AMP1) (f2i64 x))"
proof -
  define r where "r = (if \<bar>x\<bar> < of_i 8000 then MILLIAMP10 else AMP1)"
  define v where "v = with_smu (setCurrentRange (hal717 X) (env_of now w) r (app_operationType w)) w"
  have s: "smu v = adc_setCurrentRange X (env_of now w) r (app_operationType w) (smu w)" by (simp add: v_def with_smu_def hal717_def)
  obtain pre where pre: "wire (smu v) = wire (smu w) @ pre" using range_appends unfolding s by blast
  have "crange (view (hal717 X) (smu v)) = r" by (simp add: v_def with_smu_def h717.set_range_any)
  then have k: "s_current_range (smu v) = r" by (simp add: view717)
  have c: "env_C (env_of now v) = C_CALIBRATION w" by (simp add: env_of_def v_def with_smu_def)
  have "wire (smu (fltCommitCurrentSourceAutoRange (unit717 X) now x True w)) = wire (snd (adc_setCurrentSource X (env_of now v) (f2i64 x) (smu v)))"
    unfolding fltCommitCurrentSourceAutoRange_def Let_def r_def [symmetric] by (simp add: v_def [symmetric] tested_def printError_def) (simp add: hal717_def)
  then show ?thesis unfolding current_wire k c pre r_def by (intro exI [of _ pre]) simp
qed

lemma feedback_wire:
  fixes w :: "(('d, 'z) smu717_scheme, 'e) app" and X :: "'d chips"
  shows "\<exists>pre. wire (smu (useVoltageFeedback (unit717 X) w)) = wire (smu w) @ map (Pair (False, False, False)) pre"
    "\<exists>pre. wire (smu (useCurrentFeedback (unit717 X) w)) = wire (smu w) @ map (Pair (False, False, False)) pre"
  using setGPIO_to_adc [of X 0 False "smu w"] setGPIO_to_adc [of X 0 True "smu w"]
  by (simp_all add: useVoltageFeedback_def useCurrentFeedback_def with_smu_def hal717_def)

lemma calibrations_kept [simp]:
  "V_CALIBRATION (source_voltage U now x w) = V_CALIBRATION w" "V_CALIBRATION (useVoltageFeedback U w) = V_CALIBRATION w"
  "C_CALIBRATION (useCurrentFeedback U w) = C_CALIBRATION w"
  by (simp_all add: source_voltage_def useVoltageFeedback_def useCurrentFeedback_def tested_def printError_def with_smu_def)

lemma dc_voltage_wire:
  fixes u :: "(('d, 'z) smu717_scheme, 'e) app"
  assumes b_def: "b = view (hal717 X) (smu (open_dc_voltage (unit717 X) now u))"
  shows "\<exists>pre. wire (smu (open_dc_voltage (unit717 X) now u)) = wire (smu u) @ map (Pair (False, False, False)) pre
    @ map (Pair (False, False, True)) (voltage_frames (V_CALIBRATION u) (set_micro b))
    @ map (Pair (False, True, False)) (limit_frames (V_CALIBRATION u) (crange b) (limit_micro b))"
proof -
  define v where "v = useVoltageFeedback (unit717 X) (u\<lparr>rotaryChangedFn := RotaryVoltCurrent, encoderCallbackFn := EncDigit\<rparr>)"
  have v: "view (hal717 X) (smu v) = view (hal717 X) (smu u)" "V_CALIBRATION v = V_CALIBRATION u" by (simp_all add: v_def source_views717)
  obtain pre where pre: "wire (smu v) = wire (smu u) @ map (Pair (False, False, False)) pre"
    using feedback_wire(1) [of X "u\<lparr>rotaryChangedFn := RotaryVoltCurrent, encoderCallbackFn := EncDigit\<rparr>"] by (auto simp: v_def)
  have r: "s_current_range (smu z) = crange (view (hal717 X) (smu z))" for z :: "(('d, 'z) smu717_scheme, 'e) app" by (simp add: view717)
  show ?thesis unfolding b_def open_dc_voltage_def Let_def v_def [symmetric] unfolding start_values
    by (intro exI [of _ pre]) (simp add: h717.observed source_views717 v commit_wires r pre)
qed

lemma dc_current_wire:
  fixes u :: "(('d, 'z) smu717_scheme, 'e) app"
  assumes b_def: "b = view (hal717 X) (smu (open_dc_current (unit717 X) now u))"
  shows "\<exists>pre. wire (smu (open_dc_current (unit717 X) now u)) = wire (smu u) @ pre
    @ map (Pair (False, False, True)) (current_frames (C_CALIBRATION u) (crange b) (set_micro b))
    @ map (Pair (False, True, False)) (voltage_limit_frames (limit_micro b))"
proof -
  define v where "v = useCurrentFeedback (unit717 X) (u\<lparr>rotaryChangedFn := RotaryVoltCurrent, encoderCallbackFn := EncDigit\<rparr>)"
  have v: "view (hal717 X) (smu v) = view (hal717 X) (smu u)" "C_CALIBRATION v = C_CALIBRATION u" by (simp_all add: v_def source_views717)
  obtain pre where pre: "wire (smu v) = wire (smu u) @ map (Pair (False, False, False)) pre"
    using feedback_wire(2) [of X "u\<lparr>rotaryChangedFn := RotaryVoltCurrent, encoderCallbackFn := EncDigit\<rparr>"] by (auto simp: v_def)
  define x where "x = (if hal_operationType (hal717 X) (smu v) = SOURCE_CURRENT then of_i (getSetValue_micro (hal717 X) (smu v)) else setMilliAmpere * of_i 1000)"
  obtain pre' where pre': "wire (smu (fltCommitCurrentSourceAutoRange (unit717 X) now x True v)) = wire (smu v) @ pre'
    @ map (Pair (False, False, True)) (current_frames (C_CALIBRATION v) (if \<bar>x\<bar> < of_i 8000 then MILLIAMP10 else AMP1) (f2i64 x))"
    using auto_current_wire by blast
  have o: "\<exists>n y. open_dc_current (unit717 X) now u = App.limit_voltage (unit717 X) now n y (fltCommitCurrentSourceAutoRange (unit717 X) now x True v)"
    unfolding open_dc_current_def Let_def v_def [symmetric] x_def by (cases "hal_operationType (hal717 X) (smu v) = SOURCE_CURRENT") (simp, blast)+
  then obtain n y where o: "open_dc_current (unit717 X) now u = App.limit_voltage (unit717 X) now n y (fltCommitCurrentSourceAutoRange (unit717 X) now x True v)" by blast
  show ?thesis unfolding b_def o
    by (intro exI [of _ "map (Pair (False, False, False)) pre @ pre'"]) (simp add: source_views717 commit_wires pre pre' v)
qed

lemma close_kept:
  "V_CALIBRATION (close_function U w) = V_CALIBRATION w"
  "C_CALIBRATION (close_function U w) = C_CALIBRATION w"
  by (auto simp: close_function_def initDefaultSamplingIfByInterrupt_def case_prod_unfold Let_def)

text \<open>C15: choosing a DC source takes over what the unit does, or starts from the defaults, and programs both DACs with it.  From any function but the
  digitizer (whose closing first puts its sampling rate back), and with a present set value of at most 16.7 V or A (up to which the
  single precision of the current path is exact): a DC voltage source keeps set value and limit when the unit sources voltage, and
  takes 1234.5 mV with 33 mA when it does not; a DC current source keeps set value and limit when the unit sources current, in
  the 10 mA range below 8 mA and in the 1 A range from there on, and takes 13 mA and 5432.1 mV in the 1 A range when it does
  not.  In each case the last bytes on the bus are the two frames of the set value for the source DAC and the two frames of the limit for the limit
  DAC, computed from the calibration; what goes before them in the voltage case is for the converter only.\<close>

theorem dc_source_takes_over:
  fixes w :: "(('d, 'z) smu717_scheme, 'e) app"
  assumes "app_functionType w \<noteq> DIGITIZE" and "\<bar>set_micro (view (hal717 X) (smu w))\<bar> \<le> 16777216"
  shows "(let a = view (hal717 X) (smu w);
      v = smu (closeMainMenuCallback (unit717 X) now SOURCE_DC_VOLTAGE w); b = view (hal717 X) v;
      c = smu (closeMainMenuCallback (unit717 X) now SOURCE_DC_CURRENT w); d = view (hal717 X) c in
    b = (if mode a = SOURCE_VOLTAGE then a else a\<lparr>mode := SOURCE_VOLTAGE, set_micro := 1234500, limit_micro := 33000\<rparr>)
    \<and> d = (if mode a = SOURCE_CURRENT then a\<lparr>crange := (if \<bar>set_micro a\<bar> < 8000 then MILLIAMP10 else AMP1)\<rparr>
       else a\<lparr>mode := SOURCE_CURRENT, set_micro := 13000, limit_micro := 5432100, crange := AMP1\<rparr>)
    \<and> (\<exists>pre. wire v = wire (smu w) @ map (Pair (False, False, False)) pre
         @ map (Pair (False, False, True)) (voltage_frames (V_CALIBRATION w) (set_micro b))
         @ map (Pair (False, True, False)) (limit_frames (V_CALIBRATION w) (crange b) (limit_micro b)))
    \<and> (\<exists>pre. wire c = wire (smu w) @ pre
         @ map (Pair (False, False, True)) (current_frames (C_CALIBRATION w) (crange d) (set_micro d))
         @ map (Pair (False, True, False)) (voltage_limit_frames (limit_micro d))))"
proof -
  define u where "u = close_function (unit717 X) (w\<lparr>rotaryChangedFn := RotaryDontCare, encoderCallbackFn := EncDontCare\<rparr>)"
  have u: "smu u = smu w" "V_CALIBRATION u = V_CALIBRATION w" "C_CALIBRATION u = C_CALIBRATION w" using assms(1) by (simp_all add: u_def close_kept close_view)
  have s: "smu (closeMainMenuCallback (unit717 X) now SOURCE_DC_VOLTAGE w) = smu (open_dc_voltage (unit717 X) now u)"
    "smu (closeMainMenuCallback (unit717 X) now SOURCE_DC_CURRENT w) = smu (open_dc_current (unit717 X) now u)"
    by (simp_all add: closeMainMenuCallback_def open_function_def u_def)
  show ?thesis unfolding Let_def s
    using open_dc_voltage_view [of X now u] open_dc_current_view [of X u now] dc_voltage_wire [OF refl, of X now u] dc_current_wire [OF refl, of X now u] assms(2)
    unfolding u Let_def by blast
qed

section \<open>Sampling\<close>

lemma measure_view717:
  "view (hal717 X) (snd (measureMilliVoltage (hal717 X) E s)) = view (hal717 X) s" "view (hal717 X) (snd (measureCurrent (hal717 X) E r s)) = view (hal717 X) s"
  "view (hal717 X) (snd (AD7176_dataReady X s)) = view (hal717 X) s"
  by (simp_all add: h717.measure ready_view)

lemma digitizer_view717: "view (hal717 X) (snd (handleSamplingForDigitizer (hal717 X) E (d, s))) = view (hal717 X) s"
  by (simp add: handleSamplingForDigitizer_def case_prod_unfold Let_def measure_view717)

lemma samples_frame:
  "view (hal717 X) (smu (current_sample (unit717 X) now w)) = view (hal717 X) (smu w)" "DIGITIZER (current_sample U now w) = DIGITIZER w"
  "V_FILTERS (current_sample U now w) = V_FILTERS w" "V_STATS (current_sample U now w) = V_STATS w"
  "view (hal717 X) (smu (voltage_sample (unit717 X) Y now w)) = view (hal717 X) (smu w)" "DIGITIZER (voltage_sample U Y now w) = DIGITIZER w"
  "C_FILTERS (voltage_sample U Y now w) = C_FILTERS w" "C_STATS (voltage_sample U Y now w) = C_STATS w"
  "smu (simulated_sample U Y r now k w) = smu w" "DIGITIZER (simulated_sample U Y r now k w) = DIGITIZER w"
  by (simp_all add: current_sample_def voltage_sample_def simulated_sample_def log_mean_def Let_def case_prod_unfold measure_view717)

lemma simulated_frame:
  "(V_FILTERS (simulated_sample U Y r now k w) = V_FILTERS w \<and> V_STATS (simulated_sample U Y r now k w) = V_STATS w)
    \<or> (C_FILTERS (simulated_sample U Y r now k w) = C_FILTERS w \<and> C_STATS (simulated_sample U Y r now k w) = C_STATS w)"
  by (simp add: simulated_sample_def log_mean_def Let_def)

lemma ready_frame:
  "view (hal717 X) (smu (snd (sample_ready (unit717 X) now w))) = view (hal717 X) (smu w)"
  "DIGITIZER (snd (sample_ready U now w)) = DIGITIZER w" "V_FILTERS (snd (sample_ready U now w)) = V_FILTERS w" "C_FILTERS (snd (sample_ready U now w)) = C_FILTERS w"
  "V_STATS (snd (sample_ready U now w)) = V_STATS w" "C_STATS (snd (sample_ready U now w)) = C_STATS w" "SIMPLE_STATS (snd (sample_ready U now w)) = SIMPLE_STATS w"
  "LOGGER (snd (sample_ready U now w)) = LOGGER w" "RAM (snd (sample_ready U now w)) = RAM w"
  by (simp_all add: sample_ready_def case_prod_unfold Let_def measure_view717)

text \<open>C18: the sampling interrupt only measures: whatever the converter answers, the settings of the source stay as they are; while the
  digitizer runs it alone gets the reading, and the filters, statistics and logs are untouched; otherwise the
  digitizer is untouched, and a reading changes the filter and statistics of one quantity only.\<close>

theorem sampling_only_measures:
  "(let w1 = handleSampling (unit717 X) Y r now w in
    view (hal717 X) (smu w1) = view (hal717 X) (smu w)
    \<and> (if digitize (DIGITIZER w)
       then V_FILTERS w1 = V_FILTERS w \<and> C_FILTERS w1 = C_FILTERS w \<and> V_STATS w1 = V_STATS w \<and> C_STATS w1 = C_STATS w
         \<and> SIMPLE_STATS w1 = SIMPLE_STATS w \<and> LOGGER w1 = LOGGER w \<and> RAM w1 = RAM w
       else DIGITIZER w1 = DIGITIZER w
         \<and> ((V_FILTERS w1 = V_FILTERS w \<and> V_STATS w1 = V_STATS w) \<or> (C_FILTERS w1 = C_FILTERS w \<and> C_STATS w1 = C_STATS w))))"
proof -
  define p where "p = sample_ready (unit717 X) now w"
  note f = ready_frame(1) [of X now w, folded p_def] ready_frame(2-) [of "unit717 X" now w, folded p_def]
  show ?thesis
  proof (cases "digitize (DIGITIZER w)")
    case True
    then show ?thesis using f by (simp add: handleSampling_def p_def [symmetric] case_prod_unfold Let_def digitizer_view717)
  next
    case False
    then show ?thesis using f simulated_frame [of "unit717 X" Y r now "fst p" "snd p"]
      by (auto simp: handleSampling_def p_def [symmetric] case_prod_unfold Let_def samples_frame)
  qed
qed

section \<open>The knob\<close>

lemma rotary_voltage_view:
  assumes "app_operationType w = SOURCE_VOLTAGE" "\<not> d_dialog (SOURCE_DIAL w)" "\<not> d_dialog (LIMIT_DIAL w)"
  shows "view (hal717 X) (smu (rotaryChangedVoltCurrentFn (unit717 X) F now v w)) = (let a = view (hal717 X) (smu w) in
     if feq (changeDigit w) (of_i 0) then a else a\<lparr>mode := SOURCE_VOLTAGE, set_micro := set_micro a + f2i64 (v * changeDigit w)\<rparr>)"
  using assms by (simp add: rotaryChangedVoltCurrentFn_def Let_def source_views717 h717.observed)

text \<open>What a step of \<open>n\<close> tenths of the digit \<open>d\<close> adds, in microvolts.\<close>

definition knob_amount :: "int \<Rightarrow> int \<Rightarrow> int" where
  "knob_amount d n = (if d = 100000 \<and> \<bar>n\<bar> \<in> {13, 21, 26, 42} then n * 10000 - sgn n else n * (d div 10))"

definition knob_ok :: "int \<Rightarrow> int \<Rightarrow> bool" where
  "knob_ok d n \<longleftrightarrow> \<not> feq (of_i d :: f32) (of_i 0) \<and> f2i64 (conv ((of_i n :: f64) / of_i 10) * of_i d :: f32) = knob_amount d n"

lemma knob_table_1000: "list_all (knob_ok 1000) [- 42..42]" by code_simp
lemma knob_table_10000: "list_all (knob_ok 10000) [- 42..42]" by code_simp
lemma knob_table_100000: "list_all (knob_ok 100000) [- 42..42]" by code_simp
lemma knob_table_1000000: "list_all (knob_ok 1000000) [- 42..42]" by code_simp

lemma knob_amounts: "d \<in> {1000, 10000, 100000, 1000000} \<Longrightarrow> - 42 \<le> n \<Longrightarrow> n \<le> 42 \<Longrightarrow> knob_ok d n"
  using knob_table_1000 knob_table_10000 knob_table_100000 knob_table_1000000 by (auto simp only: list_all_iff set_upto atLeastAtMost_iff)

text \<open>a step of the knob moves the sourced voltage by what it stands for, to the microvolt: with one of the four digits selected
  and no dial open, a turn of n tenths, which the encoder reports for up to 42, adds n tenths of the digit to the set value and
  changes nothing else, except that four sizes of step lose one microvolt with the 100 mV digit (1.3 times 100000 is
  below 130000 in single precision); no limit is applied, so a turn at 30 V goes beyond what the dial accepts.\<close>

theorem knob_step_amount:
  assumes "app_operationType w = SOURCE_VOLTAGE" and "\<not> anyDialogOpen w" and "changeDigit w = of_i d" and "d \<in> {1000, 10000, 100000, 1000000}"
    and "- 42 \<le> n" and "n \<le> 42"
  shows "view (hal717 X) (smu (rotaryChangedVoltCurrentFn (unit717 X) F now (conv ((of_i n :: f64) / of_i 10)) w)) =
    (let a = view (hal717 X) (smu w) in a\<lparr>mode := SOURCE_VOLTAGE, set_micro := set_micro a + knob_amount d n\<rparr>)"
  using rotary_voltage_view [of w X F now] knob_amounts [OF assms(4-6)] assms(1-3) by (simp add: anyDialogOpen_def knob_ok_def Let_def)

section \<open>Witnesses\<close>

definition app_sample :: "(unit smu717, unit) app" where
  "app_sample = app_initial 0 calworld_sample () (\<lambda>_. (Fin 0, 0))"

lemma app_sample_fields [simp]:
  "app_functionType app_sample = SOURCE_DC_VOLTAGE" "app_operationType app_sample = SOURCE_VOLTAGE" "changeDigit app_sample = of_i 0"
  "p_timer_us (FUNCTION_PULSE app_sample) = None" "SOURCE_DIAL app_sample = dial_initial" "LIMIT_DIAL app_sample = dial_initial"
  "smu app_sample = smu zworld_sample"
  by (simp_all add: app_sample_def app_initial_def calworld.defs calworld_sample_def zworld.defs pulse_initial_def)

theorem knob_step_amount_witness:
  "set_micro (view (hal717 (\<lambda>_ d. (0, d))) (smu (rotaryChangedVoltCurrentFn (unit717 (\<lambda>_ d. (0, d))) (\<lambda>_ _ _. ''0'') 0 (conv ((of_i 1 :: f64) / of_i 10))
     (app_sample\<lparr>changeDigit := of_i 1000000, smu := smu717_initial ()\<lparr>s_setValue_micro := 30000000\<rparr>\<rparr>)))) = 30100000"
  by (subst knob_step_amount [where d = 1000000]) (simp_all add: anyDialogOpen_def dial_initial_def view717 knob_amount_def)

theorem dc_source_takes_over_witness:
  "view (hal717 (\<lambda>_ d. (0, d))) (smu (closeMainMenuCallback (unit717 (\<lambda>_ d. (0, d))) 0 SOURCE_DC_VOLTAGE
     (app_sample\<lparr>smu := smu717_initial ()\<rparr>))) = view (hal717 (\<lambda>_ d. (0, d))) (smu717_initial ())"
  using dc_source_takes_over [of "app_sample\<lparr>smu := smu717_initial ()\<rparr>" "\<lambda>_ d. (0, d)" 0, unfolded Let_def, THEN conjunct1]
  by (simp add: view717 smu717_initial_def)

definition entered_dial :: dial where
  "entered_dial = dial_open (\<lambda>_ _ _. ''1.2345'') SOURCE_VOLTAGE DIAL_SET 1234 (dial_init dial_initial)"

lemma entered_dial: "handleKeypadDialog entered_dial = Some (the (handleKeypadDialog entered_dial))" "d_dialog (the (handleKeypadDialog entered_dial))"
    "ok_shown (the (handleKeypadDialog entered_dial))" "f2i64 (getMv (the (handleKeypadDialog entered_dial)) * of_i 1000) = 1230"
    "vol_cur_type entered_dial = SOURCE_VOLTAGE" "set_or_limit entered_dial = DIAL_SET"
  by code_simp+

theorem accepted_value_is_sourced_witness:
  "map_option (\<lambda>w1. set_micro (view (hal717 (\<lambda>_ d. (0, d))) (smu w1)))
     (use_dials (unit717 (\<lambda>_ d. (0, d))) 0 KEYBOARD_OK (app_sample\<lparr>SOURCE_DIAL := the (handleKeypadDialog entered_dial)\<rparr>)) = Some 1230"
proof -
  obtain d1 where d1: "handleKeypadDialog entered_dial = Some d1" using entered_dial(1) by blast
  have r: "dial_reach (\<lambda>_ _ _. ''1.2345'') entered_dial" unfolding entered_dial_def by (intro dial_reach.opened dial_reach.start) simp_all
  have a: "app_operationType (app_sample\<lparr>SOURCE_DIAL := d1\<rparr>) = vol_cur_type entered_dial" by (simp add: entered_dial)
  have e: "d_dialog d1" "ok_shown d1" "f2i64 (getMv d1 * of_i 1000) = 1230" using entered_dial(2-4) by (simp_all add: d1)
  have s: "SOURCE_DIAL (app_sample\<lparr>SOURCE_DIAL := d1\<rparr>) = d1" by simp
  show ?thesis using accepted_value_is_sourced [OF sample_text r d1 e(1,2) entered_dial(6) s a, of "\<lambda>_ d. (0, d)" 0] e(3)
    by (simp add: d1 del: unit717_simps split: option.splits)
qed

end
