(* ===== verification/Wiring.thy ===== *)
theory Wiring
  imports AppLaws
begin

text \<open>
  The invariant of the whole program: what the knob, its key and the timers are connected to.  Every operation of a
  pass is shown to leave the connections alone, or to keep the invariant; the commands of the clients change the function
  shown and no connection.  Interrupts come between passes.
\<close>

section \<open>The wiring of the functions\<close>

definition rotary_of :: "FUNCTION_TYPE \<Rightarrow> rotary_fn" where
  "rotary_of f = (case f of SOURCE_DC_VOLTAGE \<Rightarrow> RotaryVoltCurrent | SOURCE_DC_CURRENT \<Rightarrow> RotaryVoltCurrent | SOURCE_PULSE \<Rightarrow> RotaryPulse
     | DIGITIZE \<Rightarrow> RotaryDigitizer | DATALOGGER \<Rightarrow> RotaryLogger | _ \<Rightarrow> RotaryDontCare)"

definition encoder_of :: "FUNCTION_TYPE \<Rightarrow> encoder_fn" where
  "encoder_of f = (case f of SOURCE_DC_VOLTAGE \<Rightarrow> EncDigit | SOURCE_DC_CURRENT \<Rightarrow> EncDigit | SOURCE_PULSE \<Rightarrow> EncPulse
     | DIGITIZE \<Rightarrow> EncDigitizer | DATALOGGER \<Rightarrow> EncLogger | _ \<Rightarrow> EncDontCare)"

text \<open>What the wiring depends on.\<close>

definition core :: "('s, 'd) app \<Rightarrow> FUNCTION_TYPE \<times> rotary_fn \<times> encoder_fn \<times> bool \<times> bool \<times> f32" where
  "core w = (app_functionType w, rotaryChangedFn w, encoderCallbackFn w, normalSamplingTimer w, p_timer_us (FUNCTION_PULSE w) \<noteq> None, changeDigit w)"

definition is_dc :: "FUNCTION_TYPE \<Rightarrow> bool" where "is_dc f = (f = SOURCE_DC_VOLTAGE \<or> f = SOURCE_DC_CURRENT)"

text \<open>One function owns the knob and its key; it is the function shown, or a DC source is shown.  One of the two timers runs, and the
  pulse timer does while the knob belongs to the pulses.  When no command has put a DC source in the place of another function
  (\<open>intact\<close>), the owner is the function shown and the pulse timer runs for the pulses only.\<close>

definition wired_core :: "bool \<Rightarrow> FUNCTION_TYPE \<times> rotary_fn \<times> encoder_fn \<times> bool \<times> bool \<times> f32 \<Rightarrow> bool" where
  "wired_core intact c = (case c of (f, r, e, sampling, pulsing, digit) \<Rightarrow>
     (\<exists>g. r = rotary_of g \<and> e = encoder_of g \<and> (g = f \<or> is_dc f))
     \<and> sampling = (\<not> pulsing) \<and> (r = RotaryPulse \<longrightarrow> pulsing)
     \<and> (intact \<longrightarrow> r = rotary_of f \<and> e = encoder_of f \<and> pulsing = (f = SOURCE_PULSE))
     \<and> list_ex (\<lambda>n. digit = of_i n) [0, 1000, 10000, 100000, 1000000] \<and> (is_dc f \<or> digit = of_i 0))"

definition wired :: "bool \<Rightarrow> ('s, 'd) app \<Rightarrow> bool" where "wired b w = wired_core b (core w)"

lemma core_more:
  fixes w w' :: "('s, 'd) app"
  shows "calworld.more w' = calworld.more w \<Longrightarrow> core w' = core w" "zworld.more w' = zworld.more w \<Longrightarrow> core w' = core w"
    "world.more w' = world.more w \<Longrightarrow> core w' = core w"
  by (cases w; cases w'; simp add: core_def)+

lemma core_update [simp]:
  fixes w :: "('s, 'd) app"
  shows "core (w\<lparr>smu := a1\<rparr>) = core w" "core (w\<lparr>V_CALIBRATION := a2\<rparr>) = core w" "core (w\<lparr>C_CALIBRATION := a3\<rparr>) = core w" "core (w\<lparr>cal_data := a4\<rparr>) = core w"
    "core (w\<lparr>V_FILTERS := a5\<rparr>) = core w" "core (w\<lparr>C_FILTERS := a6\<rparr>) = core w" "core (w\<lparr>V_STATS := a7\<rparr>) = core w" "core (w\<lparr>C_STATS := a8\<rparr>) = core w"
    "core (w\<lparr>app_operationType := a9\<rparr>) = core w" "core (w\<lparr>app_timeSinceLastChange := a10\<rparr>) = core w" "core (w\<lparr>changeDigitTimeout := a11\<rparr>) = core w"
    "core (w\<lparr>showSettings := a12\<rparr>) = core w" "core (w\<lparr>settingsShortAdc := a13\<rparr>) = core w" "core (w\<lparr>settingsInternalADCRef := a14\<rparr>) = core w"
    "core (w\<lparr>voltageMeasurementGainX2 := a15\<rparr>) = core w" "core (w\<lparr>voltageOnly := a16\<rparr>) = core w" "core (w\<lparr>SOURCE_DIAL := a17\<rparr>) = core w"
    "core (w\<lparr>LIMIT_DIAL := a18\<rparr>) = core w" "core (w\<lparr>MAINMENU := a19\<rparr>) = core w" "core (w\<lparr>WIDGETS := a20\<rparr>) = core w" "core (w\<lparr>GESTURES := a21\<rparr>) = core w"
    "core (w\<lparr>TOUCH := a22\<rparr>) = core w" "core (w\<lparr>ROTARY_ENCODER := a23\<rparr>) = core w" "core (w\<lparr>PUSHBUTTONS := a24\<rparr>) = core w"
    "core (w\<lparr>PUSHBUTTON_ENC := a25\<rparr>) = core w" "core (w\<lparr>FUNCTION_SWEEP := a26\<rparr>) = core w" "core (w\<lparr>DIGITIZER := a27\<rparr>) = core w"
    "core (w\<lparr>LOGGER := a28\<rparr>) = core w" "core (w\<lparr>SIMPLE_STATS := a29\<rparr>) = core w" "core (w\<lparr>RAM := a30\<rparr>) = core w" "core (w\<lparr>FAN := a31\<rparr>) = core w"
    "core (w\<lparr>UTILS := a32\<rparr>) = core w" "core (w\<lparr>logTimer := a33\<rparr>) = core w" "core (w\<lparr>simVolt := a34\<rparr>) = core w" "core (w\<lparr>lastSimMs := a35\<rparr>) = core w"
    "core (w\<lparr>samplesUpdateTimer := a36\<rparr>) = core w" "core (w\<lparr>printed := a37\<rparr>) = core w"
  by (simp_all add: core_def)

lemma core_keeps: "keeps w' w \<Longrightarrow> core w' = core w"
  by (simp add: core_def keepsD)

lemma core_commits [simp]:
  "core (with_smu f w) = core w" "core (source_voltage U now x w) = core w" "core (App.limit_current U now n x w) = core w" "core (App.limit_voltage U now n x w) = core w"
  "core (fltCommitCurrentSourceAutoRange U now y auto w) = core w" "core (useVoltageFeedback U w) = core w" "core (useCurrentFeedback U w) = core w"
  "core (closeSourceDCCallback U now sl c w) = core w"
  by (intro core_keeps; blast)+

subsection \<open>Operations that leave the wiring alone\<close>

lemma cal_more:
  "calworld.more (upd_cal k f w) = calworld.more w" "calworld.more (upd_filters k g w) = calworld.more w"
  for w :: "('s, 'z) calworld_scheme"
  by (cases k; simp add: upd_cal_def upd_filters_def)+

lemma core_upd [simp]:
  fixes w :: "('s, 'd) app"
  shows "core (upd_cal k f w) = core w" "core (upd_filters k g w) = core w"
  by (intro core_more(1) cal_more)+

lemma core_auto_cal [simp]:
  fixes w :: "('s, 'd) app"
  shows "core (autoCalADCfromDAC H now k w) = core w"
proof (rule core_more(1))
  show "calworld.more (autoCalADCfromDAC H now k w) = calworld.more w"
    by (simp add: autoCalADCfromDAC_def cal_source_def cal_record_def cal_finish_def Let_def cal_more)
qed

lemma core_startIndicator [simp]: "core (startIndicator now tag w) = core w" for w :: "('s, 'd) app"
  by (rule core_more(1)) (simp add: startIndicator_def)

lemma core_null [simp]:
  fixes w :: "('s, 'd) app"
  shows "core (handleAutoNull H now w) = core w" "core (startNullCalibration H now t w) = core w"
  by (intro core_more(2); simp add: handleAutoNull_def null_step0_def null_step1_def null_step2_def null_step3_def source_zero_def take_null_def filters_20_def
      startNullCalibration_def Let_def)+

lemma adjust_more:
  fixes w :: "('s, 'z) calworld_scheme"
  shows "calworld.more (adjust k f d w) = calworld.more w" "calworld.more (recommit H now t x w) = calworld.more w"
    "calworld.more (startAutoCal H now t w) = calworld.more w" "calworld.more (startIndicator now tag w) = calworld.more w"
  by (simp_all add: adjust_def recommit_def startAutoCal_def cal_limits_def startIndicator_def case_prod_unfold Let_def cal_more)

lemma gain_more:
  fixes w :: "('s, 'z) calworld_scheme"
  shows "calworld.more (dac_gain H now t neg pos dv dc w) = calworld.more w" "calworld.more (dac_gain_down H now t w) = calworld.more w"
    "calworld.more (limit_gain H now t d w) = calworld.more w" "calworld.more (adc_gain t neg pos dv dn dp w) = calworld.more w"
    "calworld.more (dac_zero H now t opc dv dc w) = calworld.more w"
  by (simp_all add: dac_gain_def dac_gain_down_def limit_gain_def adc_gain_def dac_zero_def Let_def adjust_more)

lemma cal_action_more:
  fixes w :: "('s, 'z) calworld_scheme"
  shows "cal_action H now tag t r = Some (d, f) \<Longrightarrow> calworld.more (f w) = calworld.more w"
  by (auto simp: cal_action_def Let_def adjust_more gain_more split: if_splits)

lemma core_calibration_buttons [simp]: "core (snd (handleCalibrationButtons H now tag t r w)) = core w" for w :: "('s, 'd) app"
proof (rule core_more(1), cases "cal_action H now tag t r :: (u32 \<times> (('s, 'd) app \<Rightarrow> ('s, 'd) app)) option")
  case (Some p)
  obtain d f where "p = (d, f)" by (cases p)
  with Some have a: "cal_action H now tag t r = Some (d, f)" by simp
  show "calworld.more (snd (handleCalibrationButtons H now tag t r w)) = calworld.more w"
    by (simp add: handleCalibrationButtons_def a cal_press_def cal_action_more [OF a] adjust_more cal_more)
qed (simp add: handleCalibrationButtons_def)

lemma core_sliders [simp]: "core (handleSliders a b w) = core w" for w :: "('s, 'd) app"
  by (rule core_more(3)) (simp add: handleSliders_def Let_def)

lemma core_sampling [simp]: "core (handleSampling U X rand now w) = core w"
  by (simp add: handleSampling_def sample_ready_def current_sample_def voltage_sample_def simulated_sample_def log_mean_def Let_def case_prod_unfold)

lemma core_widget_buttons [simp]: "core (widgets_checkButtons U now tag w) = core w"
  by (simp add: widgets_checkButtons_def Let_def)

lemma core_main_button [simp]: "core (main_button U F now tag w) = core w"
  by (simp add: main_button_def Let_def)

lemma core_button_action: "button_action U F now tag w = (r, w1) \<Longrightarrow> core w1 = core w"
  by (auto simp: button_action_def case_prod_unfold Let_def split: if_splits)

lemma core_checkButtons: "checkButtons U F now i w = Some (tag, w1) \<Longrightarrow> core w1 = core w"
  by (auto simp: checkButtons_def dest: core_button_action split: if_splits option.splits prod.splits)

lemma core_dialogs [simp]: "core (closeAllOpenDialogs w) = core w" "core (openMainMenu w) = core w" "core (pushButtonInterrupt p w) = core w"
  "core (app_gestures now i w) = core w" "core (displayWidget i w) = core w" "core (renderMainHeader now j w) = core w"
  "core (renderSetingsPage U i w) = core w"
  by (simp_all add: closeAllOpenDialogs_def openMainMenu_def pushButtonInterrupt_def app_gestures_def displayWidget_def renderMainHeader_def renderSetingsPage_def
      Let_def split: press.split)

lemma core_dials: "use_dials U now tag w = Some w1 \<Longrightarrow> core w1 = core w"
  by (auto simp: use_dials_def use_source_dial_def use_limit_dial_def case_prod_unfold Let_def split: if_splits option.splits)

subsection \<open>Operations that rewire\<close>

lemma wired_cong: "core w' = core w \<Longrightarrow> wired b w' = wired b w"
  by (simp add: wired_def)

lemma wired_I:
  assumes "rotaryChangedFn w = rotary_of (app_functionType w)" "encoderCallbackFn w = encoder_of (app_functionType w)"
    and "normalSamplingTimer w = (p_timer_us (FUNCTION_PULSE w) = None)" "rotaryChangedFn w = RotaryPulse \<Longrightarrow> p_timer_us (FUNCTION_PULSE w) \<noteq> None"
    and "b \<Longrightarrow> (p_timer_us (FUNCTION_PULSE w) \<noteq> None) = (app_functionType w = SOURCE_PULSE)" "changeDigit w = of_i 0"
  shows "wired b w"
  using assms by (auto simp: wired_def wired_core_def core_def)

lemma wired_D:
  assumes "wired b w"
  shows "normalSamplingTimer w = (p_timer_us (FUNCTION_PULSE w) = None)" "rotaryChangedFn w = RotaryPulse \<Longrightarrow> p_timer_us (FUNCTION_PULSE w) \<noteq> None"
    "b \<Longrightarrow> (p_timer_us (FUNCTION_PULSE w) \<noteq> None) = (app_functionType w = SOURCE_PULSE)"
    "list_ex (\<lambda>n. changeDigit w = of_i n) [0, 1000, 10000, 100000, 1000000]" "is_dc (app_functionType w) \<or> changeDigit w = of_i 0"
    "\<exists>g. rotaryChangedFn w = rotary_of g \<and> encoderCallbackFn w = encoder_of g \<and> (g = app_functionType w \<or> is_dc (app_functionType w))"
    "app_functionType w = SOURCE_PULSE \<Longrightarrow> p_timer_us (FUNCTION_PULSE w) \<noteq> None"
  using assms by (auto simp: wired_def wired_core_def core_def rotary_of_def is_dc_def)

text \<open>Closing a function stops its pulses and clears its digit.\<close>

lemma closed_function:
  assumes "wired b w" and v_def: "v = close_function U (w\<lparr>rotaryChangedFn := RotaryDontCare, encoderCallbackFn := EncDontCare\<rparr>)"
  shows "normalSamplingTimer v = (p_timer_us (FUNCTION_PULSE v) = None)" "b \<Longrightarrow> p_timer_us (FUNCTION_PULSE v) = None" "changeDigit v = of_i 0"
    "rotaryChangedFn v = RotaryDontCare" "encoderCallbackFn v = EncDontCare"
  using wired_D [OF assms(1)]
  by (auto simp: v_def close_function_def initDefaultSamplingIfByInterrupt_def pulse_close_def is_dc_def case_prod_unfold Let_def)

lemma opened_dc:
  "core (open_dc_voltage U now v) = core (v\<lparr>rotaryChangedFn := RotaryVoltCurrent, encoderCallbackFn := EncDigit\<rparr>)"
  "core (open_dc_current U now v) = core (v\<lparr>rotaryChangedFn := RotaryVoltCurrent, encoderCallbackFn := EncDigit\<rparr>)"
  by (simp_all add: open_dc_voltage_def open_dc_current_def Let_def)

lemma opened_pulse: "p_timer_us (fst (pulse_open off H E t p s)) \<noteq> None"
  by (simp add: pulse_open_def updateSamplingPeriod_def Let_def)

text \<open>A choice in the menu wires the chosen function, whatever was wired before.\<close>

lemma wired_callback: "wired b w \<Longrightarrow> wired b (closeMainMenuCallback U now f w)"
proof -
  assume w: "wired b w"
  define v where "v = close_function U (w\<lparr>rotaryChangedFn := RotaryDontCare, encoderCallbackFn := EncDontCare\<rparr>)"
  note v = closed_function [OF w v_def]
  show ?thesis
    unfolding closeMainMenuCallback_def v_def [symmetric]
  proof (rule wired_I, goal_cases)
    case 1 show ?case using v opened_dc [of U now v] by (cases f) (simp_all add: open_function_def rotary_of_def core_def case_prod_unfold Let_def)
  next
    case 2 show ?case using v opened_dc [of U now v] by (cases f) (simp_all add: open_function_def encoder_of_def core_def case_prod_unfold Let_def)
  next
    case 3 show ?case using v opened_dc [of U now v] opened_pulse
      by (cases f) (auto simp: open_function_def core_def case_prod_unfold Let_def)
  next
    case 4 then show ?case using v opened_dc [of U now v] opened_pulse by (cases f) (simp_all add: open_function_def core_def case_prod_unfold Let_def)
  next
    case 5 then show ?case using v opened_dc [of U now v] opened_pulse
      by (cases f) (simp_all add: open_function_def core_def case_prod_unfold Let_def)
  next
    case 6 show ?case using v opened_dc [of U now v] by (cases f) (simp_all add: open_function_def core_def case_prod_unfold Let_def)
  qed
qed

lemma pulse_timer_kept:
  "(p_timer_us (pulse_handleButtonAction n t p) \<noteq> None) = (p_timer_us p \<noteq> None)" if "p_timer_us p \<noteq> None" for n t p
  using that by (auto simp: pulse_handleButtonAction_def updateSamplingPeriod_def Let_def)

lemma wired_pulse:
  assumes "wired b w" "p_timer_us (FUNCTION_PULSE w) \<noteq> None" "p_timer_us p \<noteq> None"
  shows "wired b (w\<lparr>FUNCTION_PULSE := p\<rparr>)"
proof -
  have "core (w\<lparr>FUNCTION_PULSE := p\<rparr>) = core w" using assms(2,3) by (simp add: core_def)
  then show ?thesis using assms(1) by (simp add: wired_def)
qed

lemma wired_updates [simp]:
  "wired b (w\<lparr>SOURCE_DIAL := a1\<rparr>) = wired b w" "wired b (w\<lparr>MAINMENU := a2\<rparr>) = wired b w" "wired b (w\<lparr>PUSHBUTTONS := a3\<rparr>) = wired b w" "wired b (w\<lparr>PUSHBUTTON_ENC := a4\<rparr>) = wired b w"
  "wired b (w\<lparr>WIDGETS := a5\<rparr>) = wired b w" "wired b (w\<lparr>ROTARY_ENCODER := a6\<rparr>) = wired b w" "wired b (w\<lparr>DIGITIZER := a7\<rparr>) = wired b w" "wired b (w\<lparr>smu := a8\<rparr>) = wired b w"
  "wired b (w\<lparr>FUNCTION_SWEEP := a9\<rparr>) = wired b w" "wired b (w\<lparr>app_operationType := a10\<rparr>) = wired b w" "wired b (w\<lparr>samplesUpdateTimer := a11\<rparr>) = wired b w"
  "wired b (w\<lparr>LOGGER := a12\<rparr>) = wired b w"
  by (intro wired_cong; simp)+

lemma wired_rotary: "wired b w \<Longrightarrow> wired b (rotary_changed U F now v w)"
proof -
  assume w: "wired b w"
  have c: "core (rotaryChangedVoltCurrentFn U F now v w) = core w" by (simp add: rotaryChangedVoltCurrentFn_def Let_def)
  have p: "p_timer_us p \<noteq> None \<Longrightarrow> p_timer_us (pulse_rotaryEncChanged v p) \<noteq> None" for p
    by (auto simp: pulse_rotaryEncChanged_def updateSamplingPeriod_def Let_def)
  show ?thesis using w wired_cong [OF c] wired_pulse [OF w wired_D(2) [OF w] p [OF wired_D(2) [OF w]]]
    by (cases "rotaryChangedFn w") (simp_all add: rotary_changed_def)
qed

text \<open>The digit that the knob changes: five presses select the four digits and then none.\<close>

lemma digit_values: "feq (of_i 0 :: f32) (of_i 0)" "\<not> feq (of_i 1000 :: f32) (of_i 0)" "\<not> feq (of_i 10000 :: f32) (of_i 0)" "\<not> feq (of_i 100000 :: f32) (of_i 0)"
    "\<not> feq (of_i 1000000 :: f32) (of_i 0)"
  by code_simp+

lemma digit_pressed:
  "list_ex (\<lambda>n. changeDigit w = of_i n) [0, 1000, 10000, 100000, 1000000] \<Longrightarrow>
    list_ex (\<lambda>n. changeDigit (pushButtonEncInterrupt now w) = of_i n) [0, 1000, 10000, 100000, 1000000]"
  by (auto simp: pushButtonEncInterrupt_def Let_def)

lemma wired_encoder: "wired b w \<Longrightarrow> wired b (encoder_pressed now w)"
proof -
  assume w: "wired b w"
  have p: "core (pushButtonEncInterrupt now w) = (app_functionType w, rotaryChangedFn w, encoderCallbackFn w, normalSamplingTimer w, p_timer_us (FUNCTION_PULSE w) \<noteq> None,
      changeDigit (pushButtonEncInterrupt now w))"
    by (simp add: core_def pushButtonEncInterrupt_def Let_def)
  have d: "list_ex (\<lambda>n. changeDigit (pushButtonEncInterrupt now w) = of_i n) [0, 1000, 10000, 100000, 1000000]"
    by (rule digit_pressed [OF wired_D(4) [OF w]])
  have q: "core (w\<lparr>FUNCTION_PULSE := pulse_rotaryEncButtonChanged p\<rparr>) = core (w\<lparr>FUNCTION_PULSE := p\<rparr>)" for p
    by (simp add: core_def pulse_rotaryEncButtonChanged_def)
  have e: "is_dc (app_functionType w)" if "encoderCallbackFn w = EncDigit"
  proof -
    obtain g where "encoderCallbackFn w = encoder_of g" "g = app_functionType w \<or> is_dc (app_functionType w)" using wired_D(6) [OF w] by blast
    then show ?thesis using that by (cases g) (auto simp: encoder_of_def is_dc_def)
  qed
  show ?thesis
  proof (cases "encoderCallbackFn w")
    case EncDigit
    have "wired_core b (core (pushButtonEncInterrupt now w))"
      using w e [OF EncDigit] d unfolding p wired_def core_def [of w] wired_core_def by simp
    then show ?thesis using EncDigit by (simp add: encoder_pressed_def wired_def)
  next
    case EncPulse
    have "core (w\<lparr>FUNCTION_PULSE := pulse_rotaryEncButtonChanged (FUNCTION_PULSE w)\<rparr>) = core w" using q [of "FUNCTION_PULSE w"] by simp
    then show ?thesis using w EncPulse by (simp add: encoder_pressed_def wired_def)
  qed (use w in \<open>simp_all add: encoder_pressed_def\<close>)
qed

lemma wired_ops [simp]:
  "wired b (with_smu f w) = wired b w" "wired b (handleAutoNull H now w) = wired b w" "wired b (autoCalADCfromDAC H now k w) = wired b w" "wired b (handleSampling U X r now w) = wired b w"
  "wired b (app_gestures now i w) = wired b w" "wired b (displayWidget i w) = wired b w" "wired b (renderMainHeader now j w) = wired b w" "wired b (renderSetingsPage U i w) = wired b w"
  "wired b (openMainMenu w) = wired b w" "wired b (pushButtonInterrupt p w) = wired b w"
  by (intro wired_cong; simp)+

lemma wired_houseKeeping: "wired b w \<Longrightarrow> wired b (houseKeeping now w)"
  by (auto simp: houseKeeping_def wired_def wired_core_def core_def)

lemma wired_fold: "wired b w \<Longrightarrow> (\<And>x v. wired b v \<Longrightarrow> wired b (g x v)) \<Longrightarrow> wired b (fold g xs w)"
  by (induction xs arbitrary: w) simp_all

lemma wired_menu: "wired b w \<Longrightarrow> wired b (menu_reports U now r w)"
  by (simp add: menu_reports_def wired_fold wired_callback)

lemma wired_scrolldown: "wired b w \<Longrightarrow> wired b (handleMenuScrolldown U now tag w)"
  by (simp add: handleMenuScrolldown_def wired_menu)

lemma wired_push_buttons: "wired b w \<Longrightarrow> wired b (handle_push_buttons U now i w)"
  by (auto simp: handle_push_buttons_def case_prod_unfold Let_def intro!: wired_fold wired_encoder)

lemma wired_function_buttons: "wired b w \<Longrightarrow> wired b (handleFunctionSpecifcButtonAction now (app_functionType w) tag tag2 w)"
  by (simp add: handleFunctionSpecifcButtonAction_def wired_pulse pulse_timer_kept wired_D(7) del: not_None_eq)

lemma wired_operation: "wired b w \<Longrightarrow> wired b (main_operation U X r now w)"
  by (auto simp: main_operation_def case_prod_unfold Let_def intro!: wired_houseKeeping)

lemma wired_touch: "wired b w \<Longrightarrow> main_touch U F now i w = Some w1 \<Longrightarrow> wired b w1"
  by (auto simp: main_touch_def Let_def split: if_splits option.splits dest!: core_checkButtons wired_cong intro!: wired_function_buttons wired_menu)

lemma wired_screen: "wired b w \<Longrightarrow> main_screen U F now i w = Some w1 \<Longrightarrow> wired b w1"
proof (cases "showSettings w")
  case False
  assume w: "wired b w" and s: "main_screen U F now i w = Some w1"
  obtain z where z: "main_touch U F now (in_touch i) (app_gestures now (in_touch i) w) = Some z"
      and w1: "w1 = renderMainHeader now i (handleMenuScrolldown U now (in_tag (in_later i)) (displayWidget (in_later i)
        (z\<lparr>WIDGETS := handleWidgetScrollPosition (gestureDetected (GESTURES z)) (WIDGETS z)\<rparr>)))"
    using s False by (auto simp: main_screen_def Let_def)
  have "wired b z" by (rule wired_touch [OF _ z]) (simp add: w)
  then show ?thesis unfolding w1 by (simp add: wired_scrolldown)
qed (auto simp: main_screen_def)

lemma wired_loopMain: "wired b w \<Longrightarrow> loopMain U X r F now i w = Some w1 \<Longrightarrow> wired b w1"
  by (auto simp: loopMain_def bind_eq_Some_conv dest!: core_dials wired_cong dest: wired_screen [rotated] intro!: wired_push_buttons wired_operation)

lemma wired_digitizer: "wired b w \<Longrightarrow> wired b (loop_digitizer U now i w)"
  by (auto simp: loop_digitizer_def case_prod_unfold Let_def intro!: wired_scrolldown wired_push_buttons wired_menu)

lemma wired_graph: "wired b w \<Longrightarrow> wired b (loop_graph U now i w)"
  by (auto simp: loop_graph_def Let_def intro!: wired_scrolldown wired_push_buttons wired_menu)

lemma wired_knob: "wired b w \<Longrightarrow> wired b (knob_turned U F now k w)"
  by (auto simp: knob_turned_def case_prod_unfold Let_def split: option.split intro!: wired_rotary)

lemma wired_loop: "wired b w \<Longrightarrow> loop_pass U X r F now i w = Some w1 \<Longrightarrow> wired b w1"
proof -
  assume w: "wired b w" and l: "loop_pass U X r F now i w = Some w1"
  define v where "v = knob_turned U F now (in_knob i) (autoCalADCfromDAC (vmt U) now SOURCE_CURRENT (autoCalADCfromDAC (vmt U) now SOURCE_VOLTAGE w))"
  have v: "wired b v" using w by (simp add: v_def wired_knob)
  have "(if app_functionType v = DIGITIZE then Some (loop_digitizer U now i v)
      else if app_functionType v = GRAPH \<or> app_functionType v = DATALOGGER then Some (loop_graph U now i v) else loopMain U X r F now i v) = Some w1"
    using l unfolding loop_pass_def Let_def v_def by simp
  then show ?thesis using v wired_digitizer wired_graph wired_loopMain by (auto split: if_splits)
qed

subsection \<open>The commands of the clients\<close>

text \<open>What any commands do to the wiring: nothing, except that a DC source may be shown after them.\<close>

definition commanded :: "('s, 'd) app \<Rightarrow> ('s, 'd) app \<Rightarrow> bool" where
  "commanded w w1 = (snd (core w1) = snd (core w) \<and> (app_functionType w1 = app_functionType w \<or> is_dc (app_functionType w1)))"

lemma commanded_refl [simp]: "commanded w w" and commanded_trans: "commanded w v \<Longrightarrow> commanded v u \<Longrightarrow> commanded w u"
  by (auto simp: commanded_def)

lemma commanded_core: "core w1 = core w \<Longrightarrow> commanded w w1" "core v = core w \<Longrightarrow> is_dc f \<Longrightarrow> commanded w (v\<lparr>app_functionType := f\<rparr>)"
  by (auto simp: commanded_def core_def)

lemma dc_functions [simp]: "is_dc SOURCE_DC_VOLTAGE" "is_dc SOURCE_DC_CURRENT"
  by (simp_all add: is_dc_def)

lemma commanded_handler: "scpi_handler_of U e h = Some f \<Longrightarrow> commanded w (snd (f now param w))"
  by (cases h) (auto simp: scpi_handler_of_def sourceVoltageSCPI_def sourceCurrentSCPI_def sourceCurrentVLimitSCPI_def sourceVoltageILimitSCPI_def
      setGainSCPI_def getGainSCPI_def measureVoltageSCPI_def measureCurrentSCPI_def systemErrSCPI_def IdentifySCPI_def finTemperatureSCPI_def
      systemTemperatureSCPI_def case_prod_unfold Let_def commanded_core dc_functions split: option.split)

lemma commanded_call: "commanded w (snd rw) \<Longrightarrow> commanded w (snd (scpi_call U e now c h cmds params rw))"
  using commanded_trans commanded_handler by (fastforce simp: scpi_call_def case_prod_unfold Let_def split: option.split)

lemma commanded_execute: "commanded w (snd (snd pw)) \<Longrightarrow> commanded w (snd (snd (execute_command (scpi_call U e now c) message pw)))"
  by (auto simp: execute_command_def case_prod_unfold Let_def split: option.split intro: commanded_call)

lemma commanded_Execute: "commanded w (snd (snd pw)) \<Longrightarrow> commanded w (snd (snd (Execute (scpi_call U e now c) message pw)))"
proof -
  have "commanded w (snd (snd pw)) \<Longrightarrow> commanded w (snd (snd (fold (execute_command (scpi_call U e now c)) ms pw)))" for ms
    by (induction ms arbitrary: pw) (simp_all add: commanded_execute)
  then show "commanded w (snd (snd pw)) \<Longrightarrow> ?thesis" by (simp add: Execute_def)
qed

lemma commanded_client:
  "commanded w (snd (snd dv)) \<Longrightarrow> processClientData U e stack now first c n dv = Some (c1, n1, dv1) \<Longrightarrow> commanded w (snd (snd dv1))"
  by (auto simp: processClientData_def case_prod_unfold Let_def split: option.splits if_splits intro: commanded_Execute)

lemma commanded_clients:
  "commanded w (snd (snd dv)) \<Longrightarrow> process_clients U e stack now conn first cs n dv = Some (cs1, n1, dv1) \<Longrightarrow> commanded w (snd (snd dv1))"
proof (induction cs arbitrary: n dv cs1)
  case (Cons c cs)
  then show ?case by (cases dv) (auto simp: bind_eq_Some_conv split: if_splits
      dest: commanded_client [where dv = "(x, y, z)" and ?dv1.0 = "(x1, y1, z1)" for x y z x1 y1 z1, simplified])
qed simp

lemma commanded_detection:
  "scpiCommandDetectionLoop U now ni n dv = Some (n1, dv1) \<Longrightarrow> commanded (snd (snd dv)) (snd (snd dv1))"
  by (auto simp: scpiCommandDetectionLoop_def network_loop_def Let_def split: prod.splits dest: commanded_clients [OF commanded_refl])

text \<open>A command displaces a function when it shows a DC source in the place of one that is not.\<close>

definition displaced :: "FUNCTION_TYPE \<Rightarrow> FUNCTION_TYPE \<Rightarrow> bool" where
  "displaced f f1 = (f1 \<noteq> f \<and> \<not> is_dc f)"

lemma wired_commanded:
  "wired b w \<Longrightarrow> commanded w w1 \<Longrightarrow> wired (b \<and> \<not> displaced (app_functionType w) (app_functionType w1)) w1"
proof -
  assume w: "wired b w" and c: "commanded w w1"
  have dc: "rotary_of f = RotaryVoltCurrent" "encoder_of f = EncDigit" "f \<noteq> SOURCE_PULSE" if "is_dc f" for f
    using that by (auto simp: is_dc_def rotary_of_def encoder_of_def)
  obtain f r e s p d where k: "core w = (f, r, e, s, p, d)" by (cases "core w")
  have f: "app_functionType w = f" using k by (simp add: core_def)
  have k1: "core w1 = (app_functionType w1, r, e, s, p, d)" using c k by (simp add: commanded_def core_def)
  have t: "app_functionType w1 = f \<or> is_dc (app_functionType w1)" using c f by (simp add: commanded_def)
  show ?thesis
  proof (cases "app_functionType w1 = f")
    case True
    then show ?thesis using w k k1 f by (simp add: wired_def displaced_def)
  next
    case False
    then have d: "is_dc (app_functionType w1)" using t by blast
    show ?thesis using w False d dc [OF d] dc [of f] unfolding wired_def k k1 f wired_core_def displaced_def by auto
  qed
qed

subsection \<open>The states of the system\<close>

text \<open>The events of the system: a pass of the loop with its commands, the sampling interrupt, the pulse interrupt while its timer runs.
  The first argument is the flag \<open>intact\<close>: no command has displaced a function so far.\<close>

definition pulse_interrupt :: "'s unit_if \<Rightarrow> u32 \<Rightarrow> ('s, 'd) app \<Rightarrow> ('s, 'd) app" where
  "pulse_interrupt U now w =
     (let (p, s) = sourcePulse (vmt U) (env_of now w) (rawValue (V_STATS w)) (rawValue (C_STATS w)) (FUNCTION_PULSE w, smu w)
      in w\<lparr>FUNCTION_PULSE := p, smu := s\<rparr>)"

inductive app_reach :: "'s unit_if \<Rightarrow> 'd chips \<Rightarrow> (f64 \<Rightarrow> nat \<Rightarrow> nat \<Rightarrow> string) \<Rightarrow> bool \<Rightarrow> network \<times> ('s, 'd) device \<Rightarrow> bool" for U X F where
  start: "app_functionType w = SOURCE_DC_VOLTAGE \<Longrightarrow> changeDigit w = of_i 0 \<Longrightarrow> p_timer_us (FUNCTION_PULSE w) = None \<Longrightarrow>
    app_reach U X F True (n, p, rs, app_setup U X mb clock now w)"
| pass: "app_reach U X F b (n, p, rs, w) \<Longrightarrow> scpiCommandDetectionLoop U now ni n (p, rs, w) = Some (n1, p1, rs1, w1) \<Longrightarrow>
    app_loop U X r F now i ni (n, p, rs, w) = Some nd \<Longrightarrow>
    app_reach U X F (b \<and> \<not> displaced (app_functionType w) (app_functionType w1)) nd"
| sampling: "app_reach U X F b (n, p, rs, w) \<Longrightarrow> normalSamplingTimer w \<Longrightarrow> app_reach U X F b (n, p, rs, handleSampling U X r now w)"
| pulsing: "app_reach U X F b (n, p, rs, w) \<Longrightarrow> p_timer_us (FUNCTION_PULSE w) \<noteq> None \<Longrightarrow> app_reach U X F b (n, p, rs, pulse_interrupt U now w)"

lemma core_setup_unit [simp]: "core (setup_unit U now w) = core w"
  by (simp add: setup_unit_def case_prod_unfold Let_def)

lemma setup_unit_function: "app_functionType (setup_unit U now w) = app_functionType w"
  using core_setup_unit [of U now w] by (simp add: core_def)

lemma setup_function: "app_functionType (app_setup U X mb clock now w) = app_functionType w"
  by (simp add: app_setup_def initDefaultSamplingIfByInterrupt_def setup_unit_function Let_def)

lemma wired_setup:
  assumes "app_functionType w = SOURCE_DC_VOLTAGE" "changeDigit w = of_i 0" "p_timer_us (FUNCTION_PULSE w) = None"
  shows "wired b (app_setup U X mb clock now w)"
proof -
  define v where "v = setup_unit U now (w\<lparr>LOGGER := logger_init mb (LOGGER w), SIMPLE_STATS := simple_stats_init (SIMPLE_STATS w),
            PUSHBUTTONS := pushbuttons_init 3 1000 (PUSHBUTTONS w), PUSHBUTTON_ENC := pushbuttons_init 16 1000 (PUSHBUTTON_ENC w),
            encoderCallbackFn := EncDigit, FAN := fan_init (FAN w)\<rparr>)"
  have "core v = core (w\<lparr>encoderCallbackFn := EncDigit\<rparr>)" by (simp add: v_def) (simp add: core_def)
  then have v: "app_functionType v = SOURCE_DC_VOLTAGE" "changeDigit v = of_i 0" "p_timer_us (FUNCTION_PULSE v) = None" "encoderCallbackFn v = EncDigit"
    using assms by (simp_all add: core_def)
  show ?thesis unfolding app_setup_def Let_def v_def [symmetric] using v
    by (intro wired_I) (simp_all add: initDefaultSamplingIfByInterrupt_def rotary_of_def encoder_of_def pulse_init_def)
qed

lemma core_pulse_interrupt: "core (pulse_interrupt U now w) = core w"
  by (simp add: pulse_interrupt_def sourcePulse_def sourceVoltagePulse_def sourceCurrentPulse_def case_prod_unfold Let_def) (simp add: core_def)

lemma reach_wired: "app_reach U X F b nd \<Longrightarrow> wired b (snd (snd (snd nd)))"
proof (induction rule: app_reach.induct)
  case (pass b n p rs w now ni n1 p1 rs1 w1 r i nd)
  have "wired (b \<and> \<not> displaced (app_functionType w) (app_functionType w1)) w1"
    using wired_commanded commanded_detection [OF pass.hyps(2)] pass.IH by fastforce
  moreover obtain w2 where "loop_pass U X r F now i w1 = Some w2" "nd = (n1, p1, rs1, w2)"
    using pass.hyps(2,3) by (auto simp: app_loop_def)
  ultimately show ?case by (simp add: wired_loop)
next
  case (pulsing b n p rs w now)
  then show ?case by (simp add: wired_def core_pulse_interrupt)
qed (simp_all add: wired_setup)

text \<open>C3: the knob, its key and the two timers belong to the function that is running: in every state that the start,
  passes of the loop with any inputs and any commands of any clients, sampling interrupts and pulse interrupts lead to, the knob and its
  key call the handlers of one and the same function; exactly one of the two timers runs, and it is the pulse timer while the knob
  belongs to the pulses; a digit is selected for the knob, out of the four, only while a DC source is shown.  That one
  function is the function shown, and the pulse timer runs exactly while the pulses are shown, unless a source command of a
  client has put a DC source in the place of another function, which leaves the knob and the timers as they are
  (intact is false then); even then the function shown is such a DC source or the owner of the knob.\<close>

theorem function_wiring:
  assumes "app_reach U X F intact (n, p, rs, w)"
  shows "(\<exists>g. rotaryChangedFn w = rotary_of g \<and> encoderCallbackFn w = encoder_of g \<and> (g = app_functionType w \<or> is_dc (app_functionType w)))
    \<and> normalSamplingTimer w = (p_timer_us (FUNCTION_PULSE w) = None)
    \<and> (rotaryChangedFn w = RotaryPulse \<longrightarrow> p_timer_us (FUNCTION_PULSE w) \<noteq> None)
    \<and> (intact \<longrightarrow> rotaryChangedFn w = rotary_of (app_functionType w) \<and> encoderCallbackFn w = encoder_of (app_functionType w)
        \<and> (p_timer_us (FUNCTION_PULSE w) \<noteq> None) = (app_functionType w = SOURCE_PULSE))
    \<and> list_ex (\<lambda>n. changeDigit w = of_i n) [0, 1000, 10000, 100000, 1000000] \<and> (is_dc (app_functionType w) \<or> changeDigit w = of_i 0)"
  using reach_wired [OF assms] unfolding wired_def wired_core_def core_def by auto

theorem function_wiring_witness:
  "rotaryChangedFn (app_setup (unit717 (\<lambda>_ d. (0, d))) (\<lambda>_ d. (0, d)) 0 (\<lambda>_. 0) 0 app_sample) = RotaryVoltCurrent"
proof -
  have "app_reach (unit717 (\<lambda>_ d. (0, d))) (\<lambda>_ d. (0, d)) (\<lambda>_ _ _. ''0'') True
      (network_initial, my_instrument, [], app_setup (unit717 (\<lambda>_ d. (0, d))) (\<lambda>_ d. (0, d)) 0 (\<lambda>_. 0) 0 app_sample)"
    by (rule app_reach.start) simp_all
  from function_wiring [OF this] show ?thesis by (simp add: setup_function rotary_of_def)
qed

end
