(* ===== verification/Commands.thy ===== *)
theory Commands
  imports Wiring
begin

text \<open>
  The remote commands end to end: from the characters a client sends to the instrument, as the head of each pass of
  the loop runs them (the loop itself is in MainLoop, its invariant with the commands in Wiring).
\<close>

section \<open>The command table\<close>

text \<open>The documented spellings: every keyword in its short or long form.\<close>

fun spellings :: "string list list \<Rightarrow> string list" where
  "spellings [] = []"
| "spellings [ks] = ks"
| "spellings (ks # rest) = concat (map (\<lambda>k. map (\<lambda>s. k @ '':'' @ s) (spellings rest)) ks)"

definition scpi_table :: "(string \<times> scpi_command) list" where
  "scpi_table =
     (let VOLT = [''VOLT'', ''VOLTAGE'']; CURR = [''CURR'', ''CURRENT'']; SOUR = [''SOUR'', ''SOURCE'']; MEAS = [''MEAS'', ''MEASURE''];
          SYST = [''SYST'', ''SYSTEM'']; TEMP = [''TEMP'', ''TEMPERATURE'']; cmd = (\<lambda>q h kss. map (\<lambda>s. (s @ q, h)) (spellings kss))
      in cmd ''?'' IdentifyFn [[''*IDN'']] @ cmd ''?'' systemErrFn [[''SYST''], [''ERR'']]
       @ cmd ''?'' finTemperatureFn [SYST, TEMP, [''FIN'']] @ cmd ''?'' systemTemperatureFn [SYST, TEMP, [''SYS'']]
       @ cmd [] sourceVoltageFn [SOUR, VOLT] @ cmd [] sourceCurrentFn [SOUR, CURR]
       @ cmd [] sourceCurrentVLimitFn [SOUR, CURR, [''VLIM'', ''VLIMIT'']] @ cmd [] sourceVoltageILimitFn [SOUR, VOLT, [''ILIM'', ''ILIMIT'']]
       @ cmd [] setGainFn [SOUR, [''SETG'', ''SETGAIN'']] @ cmd ''?'' measureVoltageFn [MEAS, VOLT] @ cmd ''?'' measureCurrentFn [MEAS, CURR]
       @ cmd ''?'' getGainFn [MEAS, [''GETG'', ''GETGAIN'']])"

lemma my_instrument: "my_instrument = \<lparr>hash_magic_number = 16,
     tokens = [''*IDN'', ''SYST'', ''ERR'', ''SYSTem'', ''TEMPerature'', ''FIN'', ''SYS'', ''SOURce'', ''VOLTage'', ''CURRent'', ''VLIMit'', ''ILIMit'',
       ''SETGain'', ''MEASure'', ''GETGain''],
     valid_codes = [(47, IdentifyFn), (153, systemErrFn), (248, finTemperatureFn), (29, systemTemperatureFn), (120, sourceVoltageFn),
       (121, sourceCurrentFn), (154, sourceCurrentVLimitFn), (139, sourceVoltageILimitFn), (124, setGainFn), (55, measureVoltageFn),
       (92, measureCurrentFn), (21, getGainFn)],
     error_handler = DefaultErrorHandler, tree_code = 125, last_error = NoError, message_read = [], time_checker = 0\<rparr>"
  by code_simp

definition handler_of_message :: "string \<Rightarrow> scpi_command option" where
  "handler_of_message s = map_of (valid_codes my_instrument) (command_code (tokens my_instrument) (hash_magic_number my_instrument) 7 (fst (SCPI_Commands s)))"

definition table_entry_ok :: "string \<times> scpi_command \<Rightarrow> bool" where
  "table_entry_ok e = (handler_of_message (fst e) = Some (snd e) \<and> fst e \<noteq> [] \<and> list_all (\<lambda>c. \<not> isspace c \<and> c \<noteq> CHR '';'' \<and> c \<noteq> NUL) (fst e))"

lemma handler_code [code]: "handler_of_message s = map_of [(47, IdentifyFn), (153, systemErrFn), (248, finTemperatureFn), (29, systemTemperatureFn), (120, sourceVoltageFn),
       (121, sourceCurrentFn), (154, sourceCurrentVLimitFn), (139, sourceVoltageILimitFn), (124, setGainFn), (55, measureVoltageFn),
       (92, measureCurrentFn), (21, getGainFn)]
     (command_code [''*IDN'', ''SYST'', ''ERR'', ''SYSTem'', ''TEMPerature'', ''FIN'', ''SYS'', ''SOURce'', ''VOLTage'', ''CURRent'', ''VLIMit'', ''ILIMit'',
       ''SETGain'', ''MEASure'', ''GETGain''] 16 7 (fst (SCPI_Commands s)))"
  by (simp add: handler_of_message_def my_instrument)

lemma table_ok: "list_all table_entry_ok scpi_table"
  by code_simp

section \<open>One command of one client\<close>

lemma read_line_complete:
  "LF \<notin> set l \<Longrightarrow> length buf + length l < 100 \<Longrightarrow> read_line buf (l @ LF # q) = Some (Some (buf @ l), q)"
  by (induction l arbitrary: buf) auto

lemma read_line_partial:
  "LF \<notin> set l \<Longrightarrow> length buf + length l \<le> 100 \<Longrightarrow> read_line buf l = Some (None, [])"
  by (induction l arbitrary: buf) auto

text \<open>The instrument as commands leave the parser: only the tree base and the last error change.\<close>

definition ready_parser :: "scpi_command scpi \<Rightarrow> bool" where
  "ready_parser p = (valid_codes p = valid_codes my_instrument \<and> tokens p = tokens my_instrument \<and> hash_magic_number p = hash_magic_number my_instrument)"

lemma ready_start [simp]: "ready_parser my_instrument"
  by (simp add: ready_parser_def)

lemma scpi_loop_single:
  assumes "net_clients n = [c]" "\<not> closed c" "ni_accept i = None" "ni_connected i (client_id c)"
    and "processClientData U (ni_sensors i) (ni_stack i) now (client_id c) c (n\<lparr>sockets := (\<lambda>k. sockets n k @ ni_received i k), clientNow := Some (client_id c)\<rparr>) dv
       = Some (c', n1, dv1)" "\<not> closed c'"
  shows "map_option snd (scpiCommandDetectionLoop U now i n dv) = Some dv1"
  using assms by (simp add: scpiCommandDetectionLoop_def network_loop_def Let_def)

lemma plain_chars:
  assumes "list_all (\<lambda>c. \<not> isspace c \<and> c \<noteq> CHR '';'' \<and> c \<noteq> NUL) cmd" "pred_option plain arg" "c \<in> set (message_of cmd arg)"
  shows "c \<noteq> NUL \<and> c \<noteq> LF"
proof -
  have "c = CHR '' '' \<or> \<not> isspace c \<and> c \<noteq> NUL" using assms by (cases arg) (auto simp: message_of_def plain_def list_all_iff)
  moreover have "isspace LF" by code_simp
  moreover have "CHR '' '' \<noteq> NUL" "CHR '' '' \<noteq> LF" by code_simp+
  ultimately show ?thesis by metis
qed

lemma message_executed:
  assumes "ready_parser p" "table_entry_ok (map toupper cmd, h)" "pred_option plain arg" "length (message_of cmd arg) < 30"
  shows "Execute (scpi_call U e now c) (command_copy stack (takeWhile (\<lambda>x. x \<noteq> NUL) (message_of cmd arg))) (p, rw)
     = (p\<lparr>tree_code := 0\<rparr>, scpi_call U e now c h (fst (SCPI_Commands cmd)) (case arg of None \<Rightarrow> [] | Some a \<Rightarrow> [a]) rw)"
proof -
  have cmd: "cmd \<noteq> []" "list_all (\<lambda>c. \<not> isspace c \<and> c \<noteq> CHR '';'' \<and> c \<noteq> NUL) cmd" using assms(2) by (simp_all add: table_entry_ok_def plain_upper)
  have k: "takeWhile (\<lambda>x. x \<noteq> NUL) (message_of cmd arg) = message_of cmd arg" using plain_chars [OF cmd(2) assms(3)] by (simp add: takeWhile_eq_all_conv)
  have "map_of (valid_codes p) (command_code (tokens p) (hash_magic_number p) 7 (fst (SCPI_Commands cmd))) = Some h"
    using assms(1,2) by (simp add: table_entry_ok_def handler_of_message_def ready_parser_def header_upper command_code_upper)
  then show ?thesis unfolding k using assms(4) by (simp add: command_copy_def execute_message [OF cmd assms(3)])
qed

lemma remote_command:
  assumes "ready_parser p" "table_entry_ok (map toupper cmd, h)" "pred_option plain arg" "length (message_of cmd arg) < 30"
    and "net_clients n = [c]" "\<not> closed c" "ni_accept i = None" "ni_connected i (client_id c)"
    and "sockets n (client_id c) @ ni_received i (client_id c) = message_of cmd arg @ [LF]"
  shows "map_option snd (scpiCommandDetectionLoop U now i n (p, rw))
    = Some (p\<lparr>tree_code := 0\<rparr>, scpi_call U (ni_sensors i) now (client_id c) h (fst (SCPI_Commands cmd)) (case arg of None \<Rightarrow> [] | Some a \<Rightarrow> [a]) rw)"
proof -
  have "list_all (\<lambda>c. \<not> isspace c \<and> c \<noteq> CHR '';'' \<and> c \<noteq> NUL) cmd" using assms(2) by (simp add: table_entry_ok_def plain_upper)
  then have "LF \<notin> set (message_of cmd arg)" using plain_chars [OF _ assms(3)] by blast
  then have r: "read_line [] (message_of cmd arg @ [LF]) = Some (Some (message_of cmd arg), [])" using read_line_complete [of _ "[]"] assms(4) by simp
  let ?n = "n\<lparr>sockets := (\<lambda>k. sockets n k @ ni_received i k), clientNow := Some (client_id c)\<rparr>"
  have q: "sockets ?n (client_id c) = message_of cmd arg @ [LF]" using assms(9) by simp
  show ?thesis
    by (rule scpi_loop_single [where c' = "c\<lparr>lastRead := now, closedTime := now\<rparr>", OF assms(5-8)])
      (simp_all only: processClientData_def q r message_executed [OF assms(1-4)] Let_def option.case prod.case append_is_Nil_conv list.distinct if_False simp_thms,
        simp add: assms(6))
qed

text \<open>C6: a documented command runs its handler, once, and the client gets the answer: when the line of one client is a command of the
  table, in short or long keywords and any mixture of cases, with or without a parameter and shorter than 30 characters,
  the state after the pass is what its handler makes of it and the reply goes to that client.\<close>

theorem remote_command_runs:
  assumes "ready_parser p" and "(map toupper cmd, h) \<in> set scpi_table" and "scpi_handler_of U (ni_sensors i) h = Some f"
    and "pred_option plain arg" and "length (message_of cmd arg) < 30"
    and "net_clients n = [c]" and "\<not> closed c" and "ni_accept i = None" and "ni_connected i (client_id c)"
    and "sockets n (client_id c) @ ni_received i (client_id c) = message_of cmd arg @ [LF]"
  shows "map_option snd (scpiCommandDetectionLoop U now i n (p, rs, w)) =
    (let (reply, w1) = f now (map_option (toInt (ni_sensors i)) arg) w in Some (p\<lparr>tree_code := 0\<rparr>, rs @ [(client_id c, reply)], w1))"
proof -
  have t: "table_entry_ok (map toupper cmd, h)" using table_ok assms(2) by (auto simp: list_all_iff)
  have "First (case arg of None \<Rightarrow> [] | Some a \<Rightarrow> [a]) = arg" by (cases arg) (simp_all add: First_def)
  then show ?thesis
    by (simp add: remote_command [OF assms(1) t assms(4-10)] scpi_call_def assms(3) split: prod.splits)
qed

text \<open>commands do not depend on the case of their letters: for any parser and any message, the code computed for the upper case
  spelling of the message is the code of the message.\<close>

theorem commands_ignore_case:
  "GetCommandCode (fst (SCPI_Commands (map toupper s))) p = GetCommandCode (fst (SCPI_Commands s)) p"
  by (rule code_upper)

section \<open>Sourcing by command\<close>

lemma voltage_command_view:
  "view (hal717 X) (smu (snd (sourceVoltageSCPI (unit717 X) now (Some mv) w))) =
     (view (hal717 X) (smu w))\<lparr>mode := SOURCE_VOLTAGE, set_micro := sint (word_of_int (mv * 1000) :: u32)\<rparr>"
  by (simp add: sourceVoltageSCPI_def with_smu_def h717.laws source_views717)

text \<open>C5: SOURce:VOLTage sources what it says: when a client sends the command with a plain number, the unit's mode is voltage and its set value
  is the number of millivolts in microvolts, computed with 32 bits, limit, range and rate stay, and the client reads OK.\<close>

theorem remote_voltage_is_sourced:
  assumes "ready_parser p" and "(map toupper cmd, sourceVoltageFn) \<in> set scpi_table" and "plain a" and "length cmd + length a < 29"
    and "net_clients n = [c]" and "\<not> closed c" and "ni_accept i = None" and "ni_connected i (client_id c)"
    and "sockets n (client_id c) @ ni_received i (client_id c) = cmd @ '' '' @ a @ [LF]"
  shows "(case scpiCommandDetectionLoop (unit717 X) now i n (p, rs, w) of None \<Rightarrow> False | Some (_, _, rs1, w1) \<Rightarrow>
      rs1 = rs @ [(client_id c, ScpiOK)]
    \<and> view (hal717 X) (smu w1) = (view (hal717 X) (smu w))\<lparr>mode := SOURCE_VOLTAGE,
        set_micro := sint (word_of_int (toInt (ni_sensors i) a * 1000) :: u32)\<rparr>)"
proof -
  have t: "table_entry_ok (map toupper cmd, sourceVoltageFn)" using table_ok assms(2) by (auto simp: list_all_iff)
  have q: "sockets n (client_id c) @ ni_received i (client_id c) = message_of cmd (Some a) @ [LF]" using assms(9) by (simp add: message_of_def)
  have "map_option snd (scpiCommandDetectionLoop (unit717 X) now i n (p, rs, w))
    = Some (p\<lparr>tree_code := 0\<rparr>, scpi_call (unit717 X) (ni_sensors i) now (client_id c) sourceVoltageFn (fst (SCPI_Commands cmd)) [a] (rs, w))"
    by (subst remote_command [OF assms(1) t _ _ assms(5-8) q]) (use assms(3,4) in \<open>simp_all add: message_of_def\<close>)
  moreover have "fst (sourceVoltageSCPI (unit717 X) now (Some (toInt (ni_sensors i) a)) w) = ScpiOK" by (simp add: sourceVoltageSCPI_def)
  ultimately show ?thesis using voltage_command_view [of X now "toInt (ni_sensors i) a" w]
    by (auto simp: scpi_call_def scpi_handler_of_def First_def split: prod.splits option.splits)
qed

section \<open>What goes wrong\<close>

lemma commands_effect: "map_option snd (scpiCommandDetectionLoop U now i n dv) = map_option snd (network_loop U now i n dv)"
  by (simp add: scpiCommandDetectionLoop_def option.map_comp comp_def case_prod_unfold)

lemma process_effect:
  "map_option (snd \<circ> snd) (processClientData U e stack now first c n dv) = (case read_line [] (sockets n (client_id c)) of
     None \<Rightarrow> None | Some (None, _) \<Rightarrow> Some dv
   | Some (Some line, _) \<Rightarrow> Some (Execute (scpi_call U e now first) (command_copy stack (takeWhile (\<lambda>x. x \<noteq> NUL) line)) dv))"
  by (simp add: processClientData_def Let_def split: option.splits prod.splits)

lemma single_effect:
  assumes "net_clients n = [c]" "ni_accept i = None" "ni_connected i (client_id c)"
  shows "map_option snd (scpiCommandDetectionLoop U now i n dv) = (case read_line [] (sockets n (client_id c) @ ni_received i (client_id c)) of
     None \<Rightarrow> None | Some (None, _) \<Rightarrow> Some dv
   | Some (Some line, _) \<Rightarrow> Some (Execute (scpi_call U (ni_sensors i) now (client_id c)) (command_copy (ni_stack i) (takeWhile (\<lambda>x. x \<noteq> NUL) line)) dv))"
proof -
  let ?n = "n\<lparr>sockets := (\<lambda>k. sockets n k @ ni_received i k), clientNow := Some (client_id c)\<rparr>"
  have "map_option snd (scpiCommandDetectionLoop U now i n dv)
      = map_option (snd \<circ> snd) (processClientData U (ni_sensors i) (ni_stack i) now (client_id c) c ?n dv)"
    by (cases "processClientData U (ni_sensors i) (ni_stack i) now (client_id c) c ?n dv")
      (auto simp: commands_effect network_loop_def assms Let_def split: prod.splits)
  then show ?thesis by (simp add: process_effect)
qed

lemma partial_line:
  assumes "LF \<notin> set a" "length a \<le> 100" "net_clients n = [c]" "\<not> closed c" "sockets n (client_id c) = []"
    "ni_accept i = None" "ni_connected i (client_id c)" "ni_received i (client_id c) = a"
  obtains n' c' where "scpiCommandDetectionLoop U now i n dv = Some (n', dv)" "net_clients n' = [c']" "client_id c' = client_id c" "sockets n' (client_id c) = []"
proof -
  have r: "read_line [] a = Some (None, [])" using read_line_partial [OF assms(1), of "[]"] assms(2) by simp
  define n1 where "n1 = n\<lparr>clientNow := Some (client_id c), sockets := (\<lambda>k. sockets n k @ ni_received i k)(client_id c := []),
     net_clients := [if a = [] then c else c\<lparr>lastRead := now\<rparr>]\<rparr>"
  have "scpiCommandDetectionLoop U now i n dv = Some (if linkState n1 \<and> newMessageReady n1
        then let (s, n2) = GetEthMsg n1 in net_clearBuffer (n2\<lparr>SCPI_CommandBuffer := s\<rparr>) else n1, dv)"
    using assms(3-8) by (simp add: scpiCommandDetectionLoop_def network_loop_def processClientData_def r Let_def n1_def)
  then show ?thesis by (rule that [where c' = "if a = [] then c else c\<lparr>lastRead := now\<rparr>"]) (simp_all add: n1_def GetEthMsg_def net_clearBuffer_def Let_def)
qed

text \<open>C16: a command that arrives in two pieces is not executed: what a client sends of a line is thrown away at the end of the pass, so a
  pass over a piece without an end of line followed by a pass over the rest does to the instrument exactly what a pass over the
  rest alone does.\<close>

theorem split_line_loses_its_start:
  assumes "LF \<notin> set a" and "length a \<le> 100" and "net_clients n = [c]" and "\<not> closed c" and "sockets n (client_id c) = []"
    and "ni_accept i1 = None" and "ni_connected i1 (client_id c)" and "ni_received i1 (client_id c) = a"
    and "ni_accept i2 = None" and "ni_connected i2 (client_id c)"
  shows "Option.bind (scpiCommandDetectionLoop U t1 i1 n dv) (\<lambda>(n1, dv1). map_option snd (scpiCommandDetectionLoop U t2 i2 n1 dv1))
    = map_option snd (scpiCommandDetectionLoop U t2 i2 n dv)"
proof (rule partial_line [OF assms(1-8), of U t1 dv])
  fix n' c' assume n': "scpiCommandDetectionLoop U t1 i1 n dv = Some (n', dv)" "net_clients n' = [c']" "client_id c' = client_id c" "sockets n' (client_id c) = []"
  have "ni_connected i2 (client_id c')" using assms(10) n'(3) by simp
  from single_effect [OF n'(2) assms(9) this, of U t2 dv] have "map_option snd (scpiCommandDetectionLoop U t2 i2 n' dv) = map_option snd (scpiCommandDetectionLoop U t2 i2 n dv)"
    unfolding single_effect [OF assms(3,9,10), of U t2 dv] n'(3,4) assms(5) .
  then show ?thesis by (simp add: n'(1))
qed

lemma mult_zero_byte:
  "(256 :: 8 word) * k = 0" "(9472 :: 8 word) * k = 0" "(28672 :: 8 word) = 0"
proof -
  have "(256 :: 8 word) = 0" "(9472 :: 8 word) = 0" by simp_all
  then show "(256 :: 8 word) * k = 0" "(9472 :: 8 word) * k = 0" by (simp_all only: mult_zero_left)
qed simp

text \<open>C39: the first keyword of a long command is ignored: the codes are computed modulo 256 with the factor 16, so of three keywords and more
  the first one does not count as long as it is a token at all: MEASure:VOLTage:ILIMit sets the current limit.\<close>

theorem first_keyword_ignored:
  assumes "find_token k1 (length k1) 0 (tokens my_instrument) \<noteq> None" and "find_token k2 (length k2) 0 (tokens my_instrument) \<noteq> None"
  shows "command_code (tokens my_instrument) (hash_magic_number my_instrument) 7 (k1 # a # b # ks) =
    command_code (tokens my_instrument) (hash_magic_number my_instrument) 7 (k2 # a # b # ks)"
proof -
  have m: "hash_magic_number my_instrument = 16" by (simp add: my_instrument)
  show ?thesis using assms unfolding m by (auto simp: Let_def mult_zero_byte split: option.splits)
qed

text \<open>C17: a source command does not close the function that runs: while pulses are generated, SOURce:VOLTage makes the program show the DC
  voltage source, but the pulse timer goes on, the sampling timer stays off and the knob stays with the pulses.\<close>

theorem source_command_keeps_pulses:
  assumes "wired True w" and "app_functionType w = SOURCE_PULSE"
  shows "(let w1 = snd (sourceVoltageSCPI U now arg w) in app_functionType w1 = SOURCE_DC_VOLTAGE
    \<and> p_timer_us (FUNCTION_PULSE w1) \<noteq> None \<and> \<not> normalSamplingTimer w1 \<and> rotaryChangedFn w1 = RotaryPulse)"
  using assms
  by (cases arg) (simp_all add: sourceVoltageSCPI_def useVoltageFeedback_def with_smu_def wired_def wired_core_def core_def rotary_of_def)

section \<open>Witnesses\<close>

definition sample_client :: client_state where "sample_client = new_client 0 7"
definition sample_sensors :: sensors where "sample_sensors = \<lparr>at_LM60 = 0, at_TC74 = None, toInt = int \<circ> length\<rparr>"
definition sample_pass :: "string \<Rightarrow> net_inputs" where
  "sample_pass s = \<lparr>ni_accept = None, ni_received = (\<lambda>_. s), ni_connected = (\<lambda>_. True), ni_stack = [], ni_sensors = sample_sensors\<rparr>"

lemmas sample_net = sample_client_def sample_sensors_def sample_pass_def new_client_def network_initial_def

theorem remote_command_runs_witness:
  "map_option (\<lambda>r. fst (snd (snd r))) (scpiCommandDetectionLoop (unit717 (\<lambda>_ d. (0, d))) 0 (sample_pass (''sYst:Err?'' @ [LF])) (network_initial\<lparr>net_clients := [sample_client]\<rparr>)
     (my_instrument, [], app_sample)) = Some [(7, ScpiZero)]"
proof -
  have t: "(map toupper ''sYst:Err?'', systemErrFn) \<in> set scpi_table" "length (message_of ''sYst:Err?'' None) < 30" by code_simp+
  have "map_option snd (scpiCommandDetectionLoop (unit717 (\<lambda>_ d. (0, d))) 0 (sample_pass (''sYst:Err?'' @ [LF])) (network_initial\<lparr>net_clients := [sample_client]\<rparr>)
     (my_instrument, [], app_sample)) = Some (my_instrument\<lparr>tree_code := 0\<rparr>, [(7, ScpiZero)], app_sample)"
    by (subst remote_command_runs [OF ready_start t(1) _ _ t(2), where c = sample_client and f = systemErrSCPI])
      (simp_all add: sample_net scpi_handler_of_def systemErrSCPI_def message_of_def)
  then show ?thesis by (auto simp: option.map_comp)
qed

theorem remote_voltage_is_sourced_witness:
  "map_option (\<lambda>r. set_micro (view (hal717 (\<lambda>_ d. (0, d))) (smu (snd (snd (snd r))))))
     (scpiCommandDetectionLoop (unit717 (\<lambda>_ d. (0, d))) 0 (sample_pass (''SOUR:VOLT 12'' @ [LF])) (network_initial\<lparr>net_clients := [sample_client]\<rparr>)
       (my_instrument, [], app_sample)) = Some 2000"
proof -
  have t: "(map toupper ''SOUR:VOLT'', sourceVoltageFn) \<in> set scpi_table" "plain ''12''" by code_simp+
  show ?thesis using remote_voltage_is_sourced [OF ready_start t, where n = "network_initial\<lparr>net_clients := [sample_client]\<rparr>" and c = sample_client
      and i = "sample_pass (''SOUR:VOLT 12'' @ [LF])" and X = "\<lambda>_ d. (0, d)" and now = 0 and rs = "[]" and w = app_sample]
    by (auto simp: sample_net split: option.splits)
qed

theorem split_line_loses_its_start_witness:
  "Option.bind (scpiCommandDetectionLoop (unit717 (\<lambda>_ d. (0, d))) 0 (sample_pass ''*IDN'') (network_initial\<lparr>net_clients := [sample_client]\<rparr>) (my_instrument, [], app_sample))
     (\<lambda>(n, dv). map_option snd (scpiCommandDetectionLoop (unit717 (\<lambda>_ d. (0, d))) 50 (sample_pass (''?'' @ [LF])) n dv))
   = map_option snd (scpiCommandDetectionLoop (unit717 (\<lambda>_ d. (0, d))) 50 (sample_pass (''?'' @ [LF])) (network_initial\<lparr>net_clients := [sample_client]\<rparr>) (my_instrument, [], app_sample))"
  by (rule split_line_loses_its_start [where a = "''*IDN''" and c = sample_client]) (simp_all add: sample_net LF_def)

theorem first_keyword_ignored_witness:
  "handler_of_message ''MEAS:VOLT:ILIM'' = Some sourceVoltageILimitFn"
proof -
  have h: "fst (SCPI_Commands ''MEAS:VOLT:ILIM'') = [''MEAS'', ''VOLT'', ''ILIM'']" "fst (SCPI_Commands ''SOUR:VOLT:ILIM'') = [''SOUR'', ''VOLT'', ''ILIM'']"
    "handler_of_message ''SOUR:VOLT:ILIM'' = Some sourceVoltageILimitFn" by code_simp+
  have k: "find_token ''MEAS'' (length ''MEAS'') 0 (tokens my_instrument) \<noteq> None" "find_token ''SOUR'' (length ''SOUR'') 0 (tokens my_instrument) \<noteq> None"
    unfolding my_instrument by code_simp+
  show ?thesis using h(3) first_keyword_ignored [OF k, of "''VOLT''" "''ILIM''" "[]"] unfolding handler_of_message_def h(1,2) by simp
qed

theorem source_command_keeps_pulses_witness:
  "rotaryChangedFn (snd (sourceVoltageSCPI (unit717 (\<lambda>_ d. (0, d))) 9 None (closeMainMenuCallback (unit717 (\<lambda>_ d. (0, d))) 5 SOURCE_PULSE
     (app_setup (unit717 (\<lambda>_ d. (0, d))) (\<lambda>_ d. (0, d)) 0 (\<lambda>_. 0) 0 app_sample)))) = RotaryPulse"
proof -
  let ?w = "closeMainMenuCallback (unit717 (\<lambda>_ d. (0, d))) 5 SOURCE_PULSE (app_setup (unit717 (\<lambda>_ d. (0, d))) (\<lambda>_ d. (0, d)) 0 (\<lambda>_. 0) 0 app_sample)"
  have w: "wired True ?w" by (intro wired_callback wired_setup) simp_all
  have f: "app_functionType ?w = SOURCE_PULSE" by (simp add: closeMainMenuCallback_def)
  show ?thesis using source_command_keeps_pulses [OF w f, of "unit717 (\<lambda>_ d. (0, d))" 9 None] by (simp add: Let_def)
qed

end
