(* ===== verification/Display.thy ===== *)
theory Display
  imports SmuHal
begin

text \<open>
  The numbers on the display (src/src/digit_util.cpp, src/src/volt_display.cpp, src/src/current_display.cpp):
  how a value is split into volts, millivolts and microvolts and which pieces are shown.  Positions, fonts,
  colours and the copies that make a text bold are left out: a picture is the list of the numbers, each with the count of digits
  it is shown with, and texts in the order they are drawn.
\<close>

section \<open>Splitting a value\<close>

definition separate :: "f64 \<Rightarrow> int \<times> int \<times> int \<times> bool" where
  "separate raw0 =
     (let neg = raw0 < of_i 0; raw = (if neg then of_i 0 - raw0 else raw0);
          v = f2i32 (raw / of_i 1000);
          mv = f2i32 (raw - conv (of_i v * of_i 1000 :: f32));
          uv = f2i32 ((raw - of_i (f2i32 raw)) * of_i 1000)
      in (v, mv, uv, neg))"

definition separate2 :: "f64 \<Rightarrow> int \<times> int \<times> int \<times> int \<times> bool" where
  "separate2 raw0 =
     (let neg = raw0 < of_i 0; raw = (if neg then of_i 0 - raw0 else raw0);
          v = f2i32 (raw / of_i 1000);
          mv = f2i32 (raw - conv (of_i v * of_i 1000 :: f32));
          uv_f = conv ((raw - of_i (f2i32 raw)) * of_i 1000) :: f32;
          uv = f2i32 uv_f;
          nv = f2i32 (conv (uv_f - of_i uv) * of_i 1000 :: f64)
      in (v, mv, uv, nv, neg))"

definition separate64t :: "int \<Rightarrow> int \<times> int \<times> int \<times> int \<times> bool" where
  "separate64t raw0 =
     (let neg = raw0 < 0; raw = \<bar>raw0\<bar>; v = sint (word_of_int (raw div 1000) :: u32);
          mv = sint (word_of_int (raw - sint (word_of_int (v * 1000) :: u32)) :: u32);
          uv_f = of_i ((raw - sint (word_of_int raw :: u32)) * 1000) :: f32; uv = f2i32 uv_f
      in (v, mv, uv, f2i32 ((uv_f - of_i uv) * of_i 1000), neg))"

section \<open>What is shown\<close>

datatype shown = Txt string | Num nat int

definition typeVoltage :: int where "typeVoltage = 1"
definition typeCurrent :: int where "typeCurrent = 2"

definition renderValue :: "f32 \<Rightarrow> int \<Rightarrow> shown list" where
  "renderValue x type =
     (let (v, mV, uV, nV, neg) = separate2 (conv x);
          unit_text = (\<lambda>a b. if type > - 1 then [Txt (if type = typeVoltage then a else b)] else [])
      in (if neg then [Txt ''-''] else []) @
         (if v > 0 then [Num 2 v, Txt ''.'', Num 3 mV, Num 3 uV] @ unit_text ''V'' ''A''
          else if mV > 0 \<or> type = typeVoltage
          then (if mV < 100 then Num 2 mV else Num 3 mV) # Txt ''.'' # Num 3 uV # (if type = typeCurrent then [Num 2 (nV div 10)] else []) @ unit_text ''mV'' ''mA''
          else [Num 3 uV, Txt ''.'', Num 3 nV] @ unit_text ''uV'' ''uA''))"

text \<open>The tenth of a number that the sketch computes with \<open>uv / 10.0\<close> when it is passed as an integer, and the last digit.\<close>

definition tenth :: "int \<Rightarrow> int" where "tenth uv = f2i32 (of_i uv / of_i 10 :: f64)"
definition last_digit :: "int \<Rightarrow> int" where
  "last_digit uv = f2i32 ((of_i uv / of_i 10 - of_i (tenth uv)) * of_i 10 :: f64)"

definition volt_renderMeasured :: "f32 \<Rightarrow> shown list" where
  "volt_renderMeasured x =
     (let (v, mv, uv, neg) = separate (conv x) in
      Txt (if neg then ''-'' else ''+'') #
      (if v = 0 \<and> mv > 99 \<or> v > 0
       then [Num 2 v, Txt ''.'', Num 3 mv, Num 2 (tenth uv), Num 1 (last_digit uv), Txt ''V'']
       else [Num 3 mv, Txt ''.'', Num 3 uv, Num 2 (tenth uv), Txt ''mV'']))"

definition renderMeasuredResistance :: "f32 \<Rightarrow> f32 \<Rightarrow> shown list" where
  "renderMeasuredResistance mv ma = [Num 8 (f2i32 (mv / ma))]"

text \<open>The digits of a set value: the sign and the three numbers.\<close>

definition set_digits :: "int \<Rightarrow> int \<times> int \<times> int" where
  "set_digits raw =
     (let v = \<bar>raw\<bar> div 1000 div 1000; rest = of_i (\<bar>raw\<bar> - v * 1000 * 1000) :: f32; mv = f2i32 (rest / of_i 1000);
          rest = of_i (\<bar>raw\<bar> - mv * 1000) :: f32
      in (v, mv, f2i32 rest))"

definition volt_renderSet :: "int \<Rightarrow> shown list" where
  "volt_renderSet raw =
     (let neg = snd (snd (snd (snd (separate2 (conv (conv (of_i raw / of_i 1000 :: f64) :: f32))))));
          (v, mv, uv) = set_digits raw
      in [Txt (if neg then ''-'' else ''+''), Num 2 v, Num 3 mv, Txt ''.'', Num 2 (uv div 10), Txt ''V''])"

definition current_renderMeasured :: "bool \<Rightarrow> CURRENT_RANGE \<Rightarrow> f32 \<Rightarrow> shown list" where
  "current_renderMeasured show_nA cr x =
     (let (a, ma, ua, na, neg) = separate2 (conv x); part = (\<lambda>k. f2i32 (of_i na / of_i k :: f64)) in
      Txt (if neg then ''-'' else ''+'') #
      (if a > 0 then [Num 1 a, Txt ''.'', Num 3 ma, Num 3 ua, Txt ''A'']
       else if ma > 0 \<or> (ma = 0 \<and> ua > 100 \<and> \<not> show_nA) \<or> \<not> show_nA
       then (if cr = MILLIAMP10 then Num 2 ma else Num 3 ma) # Txt ''.'' # Num 3 ua #
         (if cr = MILLIAMP10 then [Num 2 (part 10)] else [Num 1 (part 100)]) @ [Txt ''mA'']
       else if show_nA then [Num 3 ua, Txt ''.'', Num 2 (part 10), Txt ''uA''] else []))"

definition current_renderSet :: "int \<Rightarrow> CURRENT_RANGE \<Rightarrow> shown list" where
  "current_renderSet raw cr =
     (let rawMa = conv (of_i raw / of_i 1000 :: f64) :: f32; na = fst (snd (snd (snd (separate64t (f2i64 rawMa)))));
          (a, ma, ua) = set_digits raw
      in (if rawMa < of_i 0 then [Txt ''-''] else []) @
         (if cr = AMP1 then [Num 1 a, Txt ''.'', Num 3 ma, Num 2 (ua div 10), Txt ''A'']
          else [Num 2 ma, Txt ''.'', Num 3 ua, Num 1 (na div 100), Txt ''mA'']))"

section \<open>Colours and the clock\<close>

text \<open>\<open>blinkColor\<close> keeps the time of the last change; \<open>indicateColor\<close> shows a pressed button for 100 ms.\<close>

definition blinkColor :: "int \<Rightarrow> int \<Rightarrow> u32 \<Rightarrow> u32 \<Rightarrow> u32 \<Rightarrow> int \<times> u32" where
  "blinkColor high low period now old =
     (if now - old > period then (high, now) else if now - old > period div 2 then (low, old) else (high, old))"

definition indicateColor :: "int \<Rightarrow> int \<Rightarrow> int \<Rightarrow> u32 \<Rightarrow> int \<Rightarrow> u32 \<Rightarrow> int" where
  "indicateColor normal indicator tag now current since =
     (if tag \<noteq> current then normal else if since + 100 > now then indicator else normal)"

text \<open>The time since the start: hours, minutes and seconds.  The number of milliseconds is passed as an int.\<close>

definition displayTime :: "u32 \<Rightarrow> int \<times> int \<times> int" where
  "displayTime ms =
     (let all = (word_of_int (if sint ms < 0 then - (- sint ms div 1000) else sint ms div 1000) :: u32);
          remaining = uint all mod 3600
      in (uint all div 3600, remaining div 60, remaining mod 60))"

section \<open>Exact steps\<close>

lemma repr_scaled64:
  assumes "\<bar>k\<bar> \<le> 2 ^ 53" "- 1000 \<le> e" "\<bar>of_int k * 2 powi e :: rat\<bar> < 2 powi 60"
  shows "repr_in TYPE(f64) (of_int k * 2 powi e)"
proof -
  have "representable 53 (- 1022) (of_int k * 2 powi e)"
    unfolding representable_def by (intro exI [of _ k] exI [of _ e]) (use assms(1,2) in simp)
  moreover have "(2::rat) powi 60 \<le> 2 powi (emax_of TYPE(f64) + 1)" by (simp only: powi_le_iff) (simp add: emax_of_def emin_of_def)
  ultimately show ?thesis using assms(3) by (simp add: repr_in_def prec_of_def emin_of_def)
qed

text \<open>Numbers of single precision minus a whole number below them, times a small whole number, are exact in double precision.\<close>

lemma frac_exact:
  assumes a: "repr_in TYPE(f32) a" "0 \<le> a" "a \<le> 1000000" and N: "0 \<le> N" "of_int N \<le> a" and c: "0 \<le> c" "c \<le> 1000"
  shows "repr_in TYPE(f64) ((a - of_int N) * of_int c)"
proof -
  obtain m e where m: "a = of_int m * 2 powi e" "\<bar>m\<bar> \<le> 2 ^ 24" "- 149 \<le> e"
    using a(1) by (auto simp: repr_in_def representable_def prec_of_def emin_of_def)
  have "(a - of_int N) * of_int c \<le> a * of_int c" using N c by (intro mult_right_mono) simp_all
  also have "\<dots> \<le> 1000000 * 1000" using a c by (intro mult_mono) simp_all
  finally have hi: "(a - of_int N) * of_int c < 2 powi 60" by simp
  have lo: "0 \<le> (a - of_int N) * of_int c" using N c by (intro mult_nonneg_nonneg) simp_all
  show ?thesis
  proof (cases "0 \<le> e")
    case True
    then have "a = of_int (m * 2 ^ nat e)" by (simp add: m(1) two_powi_nat)
    then have e: "(a - of_int N) * of_int c = of_int ((m * 2 ^ nat e - N) * c)" by simp
    have "(of_int ((m * 2 ^ nat e - N) * c) :: rat) \<le> of_int 1000000000" unfolding e [symmetric]
      using N c a by (simp add: mult_mono [of "a - of_int N" 1000000 "of_int c" 1000, simplified])
    then have "(m * 2 ^ nat e - N) * c \<le> 1000000000" by (simp only: of_int_le_iff)
    moreover have "0 \<le> (m * 2 ^ nat e - N) * c" using lo unfolding e by (simp only: of_int_0_le_iff)
    ultimately show ?thesis unfolding e by (intro repr_in_f64_int) simp
  next
    case False
    define s where "s = (2::int) ^ nat (- e)"
    have s: "of_int s * (2::rat) powi e = 1" using False two_powi_nat [of "- e"] power_int_add [of "2::rat" "- e" e] by (simp add: s_def)
    have e: "(a - of_int N) * of_int c = of_int ((m - N * s) * c) * 2 powi e"
    proof -
      have "(of_int N :: rat) = of_int (N * s) * 2 powi e" using s by (simp add: mult.assoc)
      then have "a - of_int N = of_int (m - N * s) * 2 powi e" by (simp add: m(1) left_diff_distrib)
      then show ?thesis by (simp add: mult_ac)
    qed
    have "of_int (N * s) * (2::rat) powi e \<le> of_int m * 2 powi e" using N(2) s m(1) by (simp add: mult.assoc)
    then have l: "N * s \<le> m" by (simp only: mult_le_cancel_right_pos [OF powi_gt0] of_int_le_iff)
    have "0 \<le> N * s" using N(1) by (simp add: s_def)
    then have "0 \<le> m" using l by linarith
    have "(m - N * s) * c \<le> m * 1000" using \<open>0 \<le> m\<close> \<open>0 \<le> N * s\<close> l c by (intro mult_mono) linarith+
    moreover have "0 \<le> (m - N * s) * c" using l c by simp
    ultimately show ?thesis unfolding e using m(2,3) lo hi unfolding e by (intro repr_scaled64) simp_all
  qed
qed

text \<open>Below a multiple of 1000 a number of single precision stays below it by at least one part in 2 to the 14th.\<close>

lemma below_thousand:
  assumes a: "repr_in TYPE(f32) a" "0 \<le> a" "a < of_int (1000 * (n + 1))" "0 \<le> n"
  shows "a \<le> of_int (1000 * (n + 1)) - 1 / 16384"
proof (cases "a \<le> 512")
  case True
  have "(of_int 1000 :: rat) \<le> of_int (1000 * (n + 1))" using a(4) by (simp only: of_int_le_iff) simp
  then show ?thesis using True by simp
next
  case False
  obtain m e where m: "a = of_int m * 2 powi e" "\<bar>m\<bar> \<le> 2 ^ 24" using a(1) by (auto simp: repr_in_def representable_def prec_of_def emin_of_def)
  have e: "- 14 \<le> e"
  proof (rule ccontr)
    assume "\<not> - 14 \<le> e"
    then have "(2::rat) powi e \<le> 2 powi (- 15)" by (simp only: powi_le_iff)
    moreover have "(of_int m :: rat) \<le> of_int (2 ^ 24)" using m(2) by (simp only: of_int_le_iff)
    ultimately have "a \<le> of_int (2 ^ 24) * 2 powi (- 15)" unfolding m(1) by (intro mult_mono) simp_all
    then show False using False by (simp add: power_int_def power_divide)
  qed
  have "(2::rat) powi (- 14) = 1 / 16384" by (simp add: power_int_def power_divide)
  then have "a * 16384 = of_int m * 2 powi e / 2 powi (- 14)" by (simp only: m(1)) simp
  also have "\<dots> = of_int (m * 2 ^ nat (e + 14))" using powi_int_quot [OF e, of m] by simp
  finally have i: "a * 16384 = of_int (m * 2 ^ nat (e + 14))" .
  then have "(of_int (m * 2 ^ nat (e + 14)) :: rat) < of_int (1000 * (n + 1) * 16384)" using a(3) by simp
  then have "m * 2 ^ nat (e + 14) \<le> 1000 * (n + 1) * 16384 - 1" by (simp only: of_int_less_iff)
  then have "(of_int (m * 2 ^ nat (e + 14)) :: rat) \<le> of_int (1000 * (n + 1) * 16384 - 1)" by (simp only: of_int_le_iff)
  then show ?thesis unfolding i [symmetric] by simp
qed

lemma f2i32_floor: "is_fin x \<Longrightarrow> 0 \<le> val x \<Longrightarrow> val x \<le> 1000000000 \<Longrightarrow> f2i32 x = \<lfloor>val x\<rfloor>"
proof -
  assume x: "is_fin x" "0 \<le> val x" "val x \<le> 1000000000"
  then have "\<lfloor>val x\<rfloor> \<le> 1000000000" "0 \<le> \<lfloor>val x\<rfloor>" by linarith+
  then show ?thesis using x by (cases x) (auto simp: f2i32_def f2i_def trunc_def)
qed

lemma floor_thousand: "\<lfloor>a / 1000\<rfloor> = \<lfloor>a :: rat\<rfloor> div 1000"
proof (rule floor_unique)
  have k: "\<lfloor>a\<rfloor> div 1000 * 1000 \<le> \<lfloor>a\<rfloor>" "\<lfloor>a\<rfloor> + 1 \<le> \<lfloor>a\<rfloor> div 1000 * 1000 + 1000" by presburger+
  have "(of_int (\<lfloor>a\<rfloor> div 1000 * 1000) :: rat) \<le> of_int \<lfloor>a\<rfloor>" using k(1) by (simp only: of_int_le_iff)
  also have "\<dots> \<le> a" by simp
  finally show "of_int (\<lfloor>a\<rfloor> div 1000) \<le> a / 1000" by simp
  have "a < of_int (\<lfloor>a\<rfloor> + 1)" by linarith
  also have "(of_int (\<lfloor>a\<rfloor> + 1) :: rat) \<le> of_int (\<lfloor>a\<rfloor> div 1000 * 1000 + 1000)" using k(2) by (simp only: of_int_le_iff)
  finally show "a / 1000 < of_int (\<lfloor>a\<rfloor> div 1000) + 1" by simp
qed

lemma quotient_floor:
  assumes a: "repr_in TYPE(f32) a" "0 \<le> a" "a \<le> 1000000"
  shows "\<lfloor>val (rnd z (a / 1000) :: f64)\<rfloor> = \<lfloor>a\<rfloor> div 1000 \<and> is_fin (rnd z (a / 1000) :: f64) \<and> 0 \<le> val (rnd z (a / 1000) :: f64) \<and> val (rnd z (a / 1000) :: f64) \<le> 1001"
proof -
  define n where "n = \<lfloor>a / 1000\<rfloor>"
  have n: "of_int n \<le> a / 1000" "a / 1000 < of_int (n + 1)" unfolding n_def by linarith+
  have n0: "0 \<le> n" "n \<le> 1000" using a unfolding n_def by linarith+
  have "a \<le> of_int (1000 * (n + 1)) - 1 / 16384" using below_thousand [OF a(1,2) _ n0(1)] n(2) by simp
  then have u: "a / 1000 \<le> of_int (n + 1) - 1 / 16777216" by simp
  have "repr_in TYPE(f64) (of_int ((n + 1) * 16777216 - 1) * 2 powi (- 24))"
  proof (rule repr_scaled64)
    have "0 \<le> (n + 1) * 16777216 - 1" "(n + 1) * 16777216 - 1 \<le> 17000000000" using n0 by auto
    then show "\<bar>(n + 1) * 16777216 - 1\<bar> \<le> 2 ^ 53" by simp
    have "(0::rat) \<le> of_int ((n + 1) * 16777216 - 1)" "(of_int ((n + 1) * 16777216 - 1) :: rat) \<le> of_int 17000000000"
      using n0 by (simp_all only: of_int_0_le_iff of_int_le_iff, simp_all)
    moreover have "(2::rat) powi (- 24) = 1 / 16777216" "(2::rat) powi 60 = 1152921504606846976" by (simp_all add: power_int_def power_divide)
    ultimately show "\<bar>of_int ((n + 1) * 16777216 - 1) * 2 powi (- 24) :: rat\<bar> < 2 powi 60" by (simp only: abs_mult abs_of_nonneg) simp
  qed simp
  then have ru: "repr_in TYPE(f64) (of_int (n + 1) - 1 / 16777216)" by (simp add: power_int_def field_simps)
  have rl: "repr_in TYPE(f64) (of_int n)" using n0 by (intro repr_in_f64_int) simp
  note b = rnd_between [OF rl ru n(1) u, of z]
  have "\<lfloor>val (rnd z (a / 1000) :: f64)\<rfloor> = n" using b by linarith
  moreover have "n = \<lfloor>a\<rfloor> div 1000" unfolding n_def by (rule floor_thousand)
  moreover have "(of_int n :: rat) \<le> 1000" "(0::rat) \<le> of_int n" using n0 by (simp_all only: of_int_le_iff [of n 1000, simplified] of_int_0_le_iff)
  ultimately show ?thesis using b by auto
qed

text \<open>The three numbers of a value that is not negative.\<close>

definition shown_value :: "f64 \<Rightarrow> rat \<Rightarrow> bool" where
  "shown_value r a = (is_fin r \<and> val r = a \<and> repr_in TYPE(f32) a \<and> 0 \<le> a \<and> a \<le> 1000000)"

lemma shown_floor: "shown_value r a \<Longrightarrow> 0 \<le> \<lfloor>a\<rfloor> \<and> \<lfloor>a\<rfloor> \<le> 1000000 \<and> of_int \<lfloor>a\<rfloor> \<le> a"
  by (simp add: shown_value_def floor_le_iff)

lemma thousand: "is_fin (of_i 1000 :: f64)" "val (of_i 1000 :: f64) = 1000"
  by code_simp+

lemma shown_volts: "shown_value r a \<Longrightarrow> f2i32 (r / of_i 1000) = \<lfloor>a\<rfloor> div 1000"
proof -
  assume s: "shown_value r a"
  then have "r / of_i 1000 = rnd (sgnb r \<noteq> sgnb (of_i 1000 :: f64)) (a / 1000)" by (simp add: shown_value_def fin_div thousand)
  then show ?thesis using quotient_floor [of a "sgnb r \<noteq> sgnb (of_i 1000 :: f64)"] s by (simp add: shown_value_def f2i32_floor)
qed

lemma minus_whole:
  assumes "shown_value r a" "0 \<le> N" "of_int N \<le> a" "is_fin x" "val x = of_int N"
  shows "is_fin (r - x) \<and> val (r - x) = a - of_int N"
  using frac_exact [of a N 1] assms rnd_exact [where ?'p = 53] by (simp add: shown_value_def fin_sub)

lemma shown_milli:
  assumes s: "shown_value r a"
  shows "f2i32 (r - conv (of_i (\<lfloor>a\<rfloor> div 1000) * of_i 1000 :: f32)) = \<lfloor>a\<rfloor> mod 1000"
proof -
  define n where "n = \<lfloor>a\<rfloor> div 1000"
  have "n * 1000 + \<lfloor>a\<rfloor> mod 1000 = \<lfloor>a\<rfloor>" unfolding n_def by (rule div_mult_mod_eq)
  moreover have "0 \<le> \<lfloor>a\<rfloor> mod 1000" by simp
  moreover have "0 \<le> n" unfolding n_def using shown_floor [OF s] by (simp only: pos_imp_zdiv_nonneg_iff zero_less_numeral)
  ultimately have k: "0 \<le> n" "n * 1000 \<le> \<lfloor>a\<rfloor>" "n * 1000 \<le> 1000000" using shown_floor [OF s] by linarith+
  have "(of_int (n * 1000) :: rat) \<le> of_int \<lfloor>a\<rfloor>" using k(2) by (simp only: of_int_le_iff)
  then have na: "of_int (n * 1000) \<le> a" using shown_floor [OF s] by linarith
  have whole: "repr_in TYPE(f32) (of_int n)" "repr_in TYPE(f32) (of_int 1000)" "repr_in TYPE(f32) (of_int (n * 1000))" "repr_in TYPE(f64) (of_int (n * 1000))"
    by (rule repr_in_f32_int repr_in_f64_int, use k in linarith)+
  have i: "is_fin (of_i n :: f32)" "val (of_i n :: f32) = of_int n" "is_fin (of_i 1000 :: f32)" "val (of_i 1000 :: f32) = of_int 1000"
    unfolding of_i_def using rnd_exact [OF whole(1)] rnd_exact [OF whole(2)] by blast+
  have v: "val (of_i n :: f32) * val (of_i 1000 :: f32) = of_int (n * 1000)" unfolding i by (simp only: of_int_mult)
  have p: "is_fin (of_i n * of_i 1000 :: f32)" "val (of_i n * of_i 1000 :: f32) = of_int (n * 1000)"
    unfolding fin_mult [OF i(1,3)] v using rnd_exact [OF whole(3)] by blast+
  have c: "is_fin (conv (of_i n * of_i 1000 :: f32) :: f64)" "val (conv (of_i n * of_i 1000 :: f32) :: f64) = of_int (n * 1000)"
    unfolding fin_conv [OF p(1)] p(2) using rnd_exact [OF whole(4)] by blast+
  have n0: "0 \<le> n * 1000" using k(1) by simp
  have m: "is_fin (r - conv (of_i n * of_i 1000 :: f32)) \<and> val (r - conv (of_i n * of_i 1000 :: f32)) = a - of_int (n * 1000)"
    by (rule minus_whole [OF s n0 na c])
  have b: "0 \<le> a - of_int (n * 1000)" "a - of_int (n * 1000) \<le> 1000000000" using na n0 s by (simp_all add: shown_value_def)
  have "\<lfloor>a - of_int (n * 1000)\<rfloor> = \<lfloor>a\<rfloor> - n * 1000" by (simp only: floor_diff_of_int)
  also have "\<dots> = \<lfloor>a\<rfloor> mod 1000" unfolding n_def by (simp add: minus_div_mult_eq_mod)
  finally show ?thesis unfolding n_def [symmetric] using m b by (simp only: f2i32_floor)
qed

lemma shown_micro:
  assumes s: "shown_value r a"
  shows "f2i32 ((r - of_i (f2i32 r)) * of_i 1000) = \<lfloor>(a - of_int \<lfloor>a\<rfloor>) * 1000\<rfloor>"
proof -
  note k = shown_floor [OF s]
  have a: "repr_in TYPE(f32) a" "0 \<le> a" "a \<le> 1000000" "is_fin r" "val r = a" using s by (simp_all add: shown_value_def)
  have f: "f2i32 r = \<lfloor>a\<rfloor>" using a by (simp add: f2i32_floor)
  have i: "is_fin (of_i \<lfloor>a\<rfloor> :: f64)" "val (of_i \<lfloor>a\<rfloor> :: f64) = of_int \<lfloor>a\<rfloor>"
    using rnd_exact [OF repr_in_f64_int [of "\<lfloor>a\<rfloor>"]] k by (simp_all add: of_i_def)
  have d: "is_fin (r - of_i \<lfloor>a\<rfloor>)" "val (r - of_i \<lfloor>a\<rfloor>) = a - of_int \<lfloor>a\<rfloor>" using minus_whole [OF s _ _ i] k by auto
  have "repr_in TYPE(f64) ((a - of_int \<lfloor>a\<rfloor>) * of_int 1000)" using k by (intro frac_exact a) auto
  then have e: "is_fin ((r - of_i \<lfloor>a\<rfloor>) * of_i 1000) \<and> val ((r - of_i \<lfloor>a\<rfloor>) * of_i 1000) = (a - of_int \<lfloor>a\<rfloor>) * 1000"
    using rnd_exact [where ?'p = 53] unfolding fin_mult [OF d(1) thousand(1)] d(2) thousand(2) by simp
  have "a - of_int \<lfloor>a\<rfloor> < 1" by linarith
  then have "0 \<le> (a - of_int \<lfloor>a\<rfloor>) * 1000" "(a - of_int \<lfloor>a\<rfloor>) * 1000 \<le> 1000000000" using k by simp_all
  then show ?thesis unfolding f using e by (simp only: f2i32_floor)
qed

text \<open>The split is exact: for every value of single precision up to a million millivolts, the volts, millivolts and microvolts are the digits of
  the exact value, cut off after the microvolts.\<close>

lemma measured_digits_exact:
  assumes "repr_in TYPE(f32) q" and "\<bar>q\<bar> \<le> 1000000"
  shows "separate (conv (Fin q :: f32)) = (\<lfloor>\<bar>q\<bar>\<rfloor> div 1000, \<lfloor>\<bar>q\<bar>\<rfloor> mod 1000, \<lfloor>(\<bar>q\<bar> - of_int \<lfloor>\<bar>q\<bar>\<rfloor>) * 1000\<rfloor>, q < 0)"
proof -
  have a: "repr_in TYPE(f32) \<bar>q\<bar>" using assms(1) repr_in_uminus [of "TYPE(f32)" q] by (simp add: abs_if)
  have ra: "repr_in TYPE(f64) \<bar>q\<bar>" using frac_exact [OF a, of 0 1] assms(2) by simp
  then have rq: "repr_in TYPE(f64) q" using repr_in_uminus [of "TYPE(f64)" q] by (simp add: abs_if split: if_splits)
  define r0 where "r0 = (conv (Fin q :: f32) :: f64)"
  have r0: "is_fin r0" "val r0 = q" using rnd_exact [OF rq] by (simp_all add: r0_def conv_def)
  have z: "is_fin (of_i 0 :: f64)" "val (of_i 0 :: f64) = 0" by code_simp+
  have neg: "(r0 < of_i 0) = (q < 0)" using r0 z by (simp add: fin_less)
  define r where "r = (if r0 < of_i 0 then of_i 0 - r0 else r0)"
  have m: "is_fin (of_i 0 - r0) \<and> val (of_i 0 - r0) = - q"
    using rnd_exact [OF iffD2 [OF repr_in_uminus rq]] unfolding fin_sub [OF z(1) r0(1)] z(2) r0(2) by simp
  have "shown_value r \<bar>q\<bar>" using m r0 a assms(2) by (simp add: shown_value_def r_def neg)
  then show ?thesis unfolding separate_def Let_def r0_def [symmetric] r_def [symmetric]
    by (simp only: shown_volts shown_milli shown_micro neg)
qed

text \<open>The tenth of the microvolts is exact; the last digit is exact or one too low.\<close>

lemma tenth_parts:
  assumes "0 \<le> k" "k \<le> 99" "0 \<le> d" "d \<le> 9"
  shows "tenth (10 * k + d) = k \<and> (last_digit (10 * k + d) = d \<or> d \<noteq> 0 \<and> last_digit (10 * k + d) = d - 1)"
proof -
  have i: "is_fin (of_i n :: f64)" "val (of_i n :: f64) = of_int n" if "\<bar>n\<bar> \<le> 1000" for n using that by simp_all
  have r: "repr_in TYPE(f64) (of_int n)" if "\<bar>n\<bar> \<le> 1000" for n using that by (intro repr_in_f64_int) simp
  have kd: "(0 :: rat) \<le> of_int k" "(of_int k :: rat) \<le> 99" "(0 :: rat) \<le> of_int d" "(of_int d :: rat) \<le> 9"
    using assms by simp_all
  define q where "q = (of_int (10 * k + d) / 10 :: rat)"
  have q: "q = of_int k + of_int d / 10" by (simp add: q_def add_divide_distrib)
  define x where "x = (of_i (10 * k + d) / of_i 10 :: f64)"
  have x: "\<exists>z. x = rnd z q" unfolding x_def q_def using assms by (intro exI) (simp add: fin_div)
  have xk: "is_fin x \<and> of_int k \<le> val x \<and> val x \<le> of_int (k + 1) \<and> \<bar>val x - q\<bar> \<le> 1 / 1000000000 \<and> (d = 0 \<longrightarrow> val x = of_int k)"
  proof -
    obtain z where z: "x = rnd z q" using x by blast
    have "is_fin (rnd z q :: f64) \<and> of_int k \<le> val (rnd z q :: f64) \<and> val (rnd z q :: f64) \<le> of_int (k + 1)"
      by (rule rnd_between [OF r r]) (use assms kd q in simp_all)
    moreover have "\<bar>val (rnd z q :: f64) - q\<bar> \<le> 1 / 1000000000" using rnd64_b [of q z] kd q by simp
    moreover have "val (rnd z q :: f64) = of_int k" if "d = 0" using rnd_exact [OF r [of k]] assms q that by simp
    ultimately show ?thesis unfolding z by blast
  qed
  have "val x < of_int k + 1" using xk kd q by linarith
  then have fl: "\<lfloor>val x\<rfloor> = k" using xk by linarith
  then have t: "tenth (10 * k + d) = k" unfolding tenth_def x_def [symmetric] using xk kd by (simp add: f2i32_floor)
  define y where "y = x - of_i k"
  have y: "is_fin y \<and> \<bar>val y - (val x - of_int k)\<bar> \<le> 1 / 1000000000 \<and> 0 \<le> val y \<and> val y \<le> 1 \<and> (d = 0 \<longrightarrow> val y = 0)"
  proof -
    obtain z where z: "y = rnd z (val x - of_int k)" using xk i [of k] assms by (auto simp: y_def fin_sub)
    have "is_fin (rnd z (val x - of_int k) :: f64) \<and> of_int 0 \<le> val (rnd z (val x - of_int k) :: f64) \<and> val (rnd z (val x - of_int k) :: f64) \<le> of_int 1"
      by (rule rnd_between [OF r r]) (use xk in simp_all)
    moreover have "\<bar>val (rnd z (val x - of_int k) :: f64) - (val x - of_int k)\<bar> \<le> 1 / 1000000000" using rnd64_b [of "val x - of_int k" z] xk by simp
    moreover have "val (rnd z (val x - of_int k) :: f64) = 0" if "d = 0" using rnd_exact [OF r [of 0]] xk that by simp
    ultimately show ?thesis unfolding z by simp
  qed
  define w where "w = y * of_i 10"
  have w: "is_fin w \<and> \<bar>val w - val y * 10\<bar> \<le> 1 / 1000000000 \<and> 0 \<le> val w \<and> val w \<le> 10 \<and> (d = 0 \<longrightarrow> val w = 0)"
  proof -
    obtain z where z: "w = rnd z (val y * 10)" using y by (auto simp: w_def fin_mult)
    have "is_fin (rnd z (val y * 10) :: f64) \<and> of_int 0 \<le> val (rnd z (val y * 10) :: f64) \<and> val (rnd z (val y * 10) :: f64) \<le> of_int 10"
      by (rule rnd_between [OF r r]) (use y in simp_all)
    moreover have "\<bar>val (rnd z (val y * 10) :: f64) - val y * 10\<bar> \<le> 1 / 1000000000" using rnd64_b [of "val y * 10" z] y by simp
    moreover have "val (rnd z (val y * 10) :: f64) = 0" if "d = 0" using rnd_exact [OF r [of 0]] y that by simp
    ultimately show ?thesis unfolding z by simp
  qed
  have l: "last_digit (10 * k + d) = \<lfloor>val w\<rfloor>"
    unfolding last_digit_def t x_def [symmetric] y_def [symmetric] w_def [symmetric] using w by (simp add: f2i32_floor)
  have n: "\<bar>val w - of_int d\<bar> \<le> 21 / 1000000000" using w y xk unfolding q by linarith
  have "\<lfloor>val w\<rfloor> = d \<or> d \<noteq> 0 \<and> \<lfloor>val w\<rfloor> = d - 1"
  proof (cases "d = 0")
    case False
    then show ?thesis using n by linarith
  qed (use w in simp)
  then show ?thesis using t l by simp
qed

text \<open>C13: the measured voltage is shown as it is, but for its last digit: for every value of single precision up to 1000 V, the display shows the sign of the value and
  the digits of the exact value, cut off after the microvolts: from 100 mV on the volts, the millivolts, the tens and hundreds of microvolts and a last
  digit for the microvolts, below 100 mV the millivolts, the microvolts and the tens and hundreds of them.  The last digit is that of the
  microvolts or, as the tenths are not exact in binary, one too low (last_digit_wrong).  So the jumps that a comment in digit_util.cpp
  suspects in separate are not made there.\<close>

theorem measured_voltage_shown:
  assumes "repr_in TYPE(f32) q" and "\<bar>q\<bar> \<le> 1000000"
  shows "(let m = \<lfloor>\<bar>q\<bar>\<rfloor>; u = \<lfloor>(\<bar>q\<bar> - of_int m) * 1000\<rfloor>; sign = Txt (if q < 0 then ''-'' else ''+'') in
      0 \<le> u \<and> u < 1000
    \<and> volt_renderMeasured (Fin q) =
        (if 100 \<le> m then [sign, Num 2 (m div 1000), Txt ''.'', Num 3 (m mod 1000), Num 2 (u div 10), Num 1 (last_digit u), Txt ''V'']
         else [sign, Num 3 m, Txt ''.'', Num 3 u, Num 2 (u div 10), Txt ''mV''])
    \<and> (last_digit u = u mod 10 \<or> u mod 10 \<noteq> 0 \<and> last_digit u = u mod 10 - 1))"
proof -
  define m u where "m = \<lfloor>\<bar>q\<bar>\<rfloor>" and "u = \<lfloor>(\<bar>q\<bar> - of_int m) * 1000\<rfloor>"
  have s: "separate (conv (Fin q :: f32)) = (m div 1000, m mod 1000, u, q < 0)" unfolding u_def m_def by (rule measured_digits_exact [OF assms])
  have m0: "0 \<le> m" by (simp add: m_def)
  have "of_int m \<le> \<bar>q\<bar>" "\<bar>q\<bar> < of_int m + 1" unfolding m_def by linarith+
  then have "0 \<le> (\<bar>q\<bar> - of_int m) * 1000" "(\<bar>q\<bar> - of_int m) * 1000 < 1000" by simp_all
  then have u: "0 \<le> u" "u < 1000" unfolding u_def by linarith+
  have k: "10 * (u div 10) + u mod 10 = u" "0 \<le> u div 10" "u div 10 \<le> 99" "0 \<le> u mod 10" "u mod 10 \<le> 9" using u by presburger+
  note t = tenth_parts [OF k(2-5), unfolded k(1)]
  have b: "(m div 1000 = 0 \<and> 99 < m mod 1000 \<or> 0 < m div 1000) = (100 \<le> m)"
  proof -
    have "m div 1000 * 1000 + m mod 1000 = m" "0 \<le> m mod 1000" "0 \<le> m div 1000" using m0 by (simp_all add: pos_imp_zdiv_nonneg_iff)
    then show ?thesis by linarith
  qed
  have small: "\<not> 100 \<le> m \<Longrightarrow> m mod 1000 = m" using m0 by simp
  have v: "volt_renderMeasured (Fin q) =
        (if 100 \<le> m then [Txt (if q < 0 then ''-'' else ''+''), Num 2 (m div 1000), Txt ''.'', Num 3 (m mod 1000), Num 2 (u div 10), Num 1 (last_digit u), Txt ''V'']
         else [Txt (if q < 0 then ''-'' else ''+''), Num 3 m, Txt ''.'', Num 3 u, Num 2 (u div 10), Txt ''mV''])"
    unfolding volt_renderMeasured_def s Let_def prod.case b conjunct1 [OF t]
    by (cases "100 \<le> m") (simp_all only: small if_True if_False simp_thms)
  show ?thesis unfolding Let_def m_def [symmetric] u_def [symmetric] by (intro conjI u v conjunct2 [OF t])
qed

section \<open>The set value\<close>

lemma repr_scaled32:
  assumes "\<bar>k\<bar> \<le> 16777216" "e = - 10"
  shows "repr_in TYPE(f32) (of_int k * 2 powi e)"
proof -
  have "representable 24 (- 126) (of_int k * 2 powi e)"
    unfolding representable_def by (intro exI [of _ k] exI [of _ e]) (use assms in simp)
  moreover have "\<bar>of_int k * 2 powi e :: rat\<bar> < 2 powi 25"
  proof -
    have "\<bar>of_int k * 2 powi e :: rat\<bar> \<le> of_int 16777216 * 1" unfolding abs_mult
      by (rule mult_mono) (use assms in \<open>simp_all only: of_int_abs [symmetric] of_int_le_iff, simp_all add: power_int_def power_divide\<close>)
    then show ?thesis by simp
  qed
  moreover have "(2::rat) powi 25 \<le> 2 powi (emax_of TYPE(f32) + 1)" by (simp only: powi_le_iff) (simp add: emax_of_def emin_of_def)
  ultimately show ?thesis by (simp add: repr_in_def prec_of_def emin_of_def)
qed

lemma tenth_powers: "(2::rat) powi (- 10) = 1 / 1024"
  by (simp add: power_int_def power_divide)

text \<open>The quotient of a whole number below a million by 1000, rounded to single precision, does not reach the next whole number.\<close>

lemma quotient32_floor:
  assumes r: "0 \<le> r" "r < 1000000"
  shows "\<lfloor>val (rnd z (of_int r / 1000) :: f32)\<rfloor> = r div 1000 \<and> is_fin (rnd z (of_int r / 1000) :: f32)
    \<and> 0 \<le> val (rnd z (of_int r / 1000) :: f32) \<and> val (rnd z (of_int r / 1000) :: f32) \<le> 1000"
proof -
  define n where "n = r div 1000"
  have e: "n * 1000 + r mod 1000 = r" unfolding n_def by (rule div_mult_mod_eq)
  have m: "0 \<le> r mod 1000" "r mod 1000 \<le> 999" by simp_all
  have n0: "0 \<le> n" "n \<le> 999" using e m r by linarith+
  have "n * 1000 \<le> r" "r \<le> n * 1000 + 999" using e m by linarith+
  then have "(of_int (n * 1000) :: rat) \<le> of_int r" "(of_int r :: rat) \<le> of_int (n * 1000 + 999)" by (simp_all only: of_int_le_iff)
  then have lo: "of_int n \<le> (of_int r / 1000 :: rat)" and hi: "of_int r / 1000 \<le> (of_int ((n + 1) * 1024 - 1) * 2 powi (- 10) :: rat)"
    unfolding tenth_powers by simp_all
  have rl: "repr_in TYPE(f32) (of_int n)" by (rule repr_in_f32_int) (use n0 in simp)
  have rh: "repr_in TYPE(f32) (of_int ((n + 1) * 1024 - 1) * 2 powi (- 10))" by (rule repr_scaled32) (use n0 in simp_all)
  have b: "(0 :: rat) \<le> of_int n" "(of_int n :: rat) \<le> of_int 999" using n0 by (simp_all only: of_int_0_le_iff of_int_le_iff)
  note c = rnd_between [OF rl rh lo hi, of z]
  have "val (rnd z (of_int r / 1000) :: f32) < of_int n + 1" using c unfolding tenth_powers by simp
  then have "\<lfloor>val (rnd z (of_int r / 1000) :: f32)\<rfloor> = n" using c by linarith
  then show ?thesis using c b \<open>val (rnd z (of_int r / 1000) :: f32) < of_int n + 1\<close> unfolding n_def by auto
qed

lemma of_i32: "\<bar>n\<bar> \<le> 16777216 \<Longrightarrow> is_fin (of_i n :: f32) \<and> val (of_i n :: f32) = of_int n"
  unfolding of_i_def using rnd_exact [OF repr_in_f32_int [of n]] by blast

lemma set_digits_eq:
  assumes "\<bar>raw\<bar> < 16777216"
  shows "set_digits raw = (\<bar>raw\<bar> div 1000000, \<bar>raw\<bar> mod 1000000 div 1000, \<bar>raw\<bar> - \<bar>raw\<bar> mod 1000000 div 1000 * 1000)"
proof -
  define x where "x = \<bar>raw\<bar>"
  have x: "0 \<le> x" "x < 16777216" using assms by (simp_all add: x_def)
  define r where "r = x mod 1000000"
  have r: "0 \<le> r" "r < 1000000" by (simp_all add: r_def)
  have v: "x div 1000 div 1000 = x div 1000000" by (simp add: zdiv_zmult2_eq [symmetric])
  have e: "x - x div 1000000 * 1000 * 1000 = r" unfolding r_def by (simp add: minus_div_mult_eq_mod [symmetric])
  have i: "is_fin (of_i r :: f32)" "val (of_i r :: f32) = of_int r" "is_fin (of_i 1000 :: f32)" "val (of_i 1000 :: f32) = 1000"
    using of_i32 [of r] of_i32 [of 1000] r by auto
  have q: "f2i32 (of_i r / of_i 1000 :: f32) = r div 1000"
    unfolding fin_div [OF i(1,3), unfolded i, simplified] using quotient32_floor [OF r, of "sgnb (of_i r :: f32) \<noteq> sgnb (of_i 1000 :: f32)"] by (simp add: f2i32_floor)
  have "r div 1000 * 1000 + r mod 1000 = r" by (rule div_mult_mod_eq)
  moreover have "0 \<le> r mod 1000" "0 \<le> r div 1000 * 1000" using r by (simp_all add: pos_imp_zdiv_nonneg_iff)
  moreover have "r \<le> x" unfolding r_def by (rule zmod_le_nonneg_dividend [OF x(1)])
  ultimately have y: "0 \<le> x - r div 1000 * 1000" "x - r div 1000 * 1000 \<le> 16777216" using x by linarith+
  then have "is_fin (of_i (x - r div 1000 * 1000) :: f32)" "val (of_i (x - r div 1000 * 1000) :: f32) = of_int (x - r div 1000 * 1000)"
    using of_i32 [of "x - r div 1000 * 1000"] by auto
  moreover have "(0 :: rat) \<le> of_int (x - r div 1000 * 1000)" "(of_int (x - r div 1000 * 1000) :: rat) \<le> of_int 16777216"
    using y by (simp_all only: of_int_0_le_iff of_int_le_iff)
  ultimately have "f2i32 (of_i (x - r div 1000 * 1000) :: f32) = x - r div 1000 * 1000"
    by (subst f2i32_floor) (simp_all del: of_int_diff of_int_mult)
  then show ?thesis unfolding set_digits_def Let_def x_def [symmetric] v e q r_def [symmetric] by simp
qed

lemma last_two_digits: "(x - x mod 1000000 div 1000 * 1000) div 10 mod 100 = x mod 1000 div (10 :: int)"
proof -
  define y w where "y = x div 1000" and "w = x mod 1000"
  have w: "0 \<le> w" "w < 1000" by (simp_all add: w_def)
  have x: "x = y * 1000 + w" by (simp add: y_def w_def)
  have "x mod (1000 * 1000) = 1000 * (x div 1000 mod 1000) + x mod 1000" by (rule zmod_zmult2_eq) simp
  then have m: "x mod 1000000 div 1000 = y mod 1000" by (simp add: y_def)
  have "x - y mod 1000 * 1000 = w + (y div 1000 * 100000) * 10" unfolding x using div_mult_mod_eq [of y 1000] by linarith
  then have "(x - y mod 1000 * 1000) div 10 = w div 10 + y div 1000 * 1000 * 100" by simp
  then have "(x - y mod 1000 * 1000) div 10 mod 100 = w div 10 mod 100" by (simp only: mod_mult_self1)
  also have "\<dots> = w div 10" using w by (intro mod_pos_pos_trivial) (simp_all add: pos_imp_zdiv_nonneg_iff div_less_iff_less_mult)
  finally show ?thesis unfolding m w_def [symmetric] .
qed

lemma conv_between:
  assumes "repr_in TYPE('p flt) lo" "repr_in TYPE('p flt) hi" "is_fin x \<and> lo \<le> val x \<and> val x \<le> hi"
  shows "is_fin (conv x :: ('p::len) flt) \<and> lo \<le> val (conv x :: 'p flt) \<and> val (conv x :: 'p flt) \<le> hi"
proof -
  have "conv x = (rnd (x = NegZero) (val x) :: 'p flt)" using assms(3) by (simp add: fin_conv)
  then show ?thesis using rnd_between [OF assms(1,2), of "val x"] assms(3) by simp
qed

lemma milli_sign:
  assumes "\<bar>raw\<bar> \<le> 16777216"
  shows "((conv (conv (of_i raw / of_i 1000 :: f64) :: f32) :: f64) < of_i 0) = (raw < 0)"
proof -
  have i: "is_fin (of_i raw :: f64)" "val (of_i raw :: f64) = of_int raw"
    unfolding of_i_def using rnd_exact [OF repr_in_f64_int [of raw]] assms by auto
  have bounds: "(of_int (- 16777216) :: rat) \<le> of_int raw" "(of_int raw :: rat) \<le> of_int 16777216" using assms by (simp_all only: of_int_le_iff)
  have R: "repr_in TYPE(f64) (of_int n)" "repr_in TYPE(f32) (of_int n)" if "\<bar>n\<bar> \<le> 16777216" for n
    using that by (auto intro: repr_in_f64_int repr_in_f32_int)
  have s: "repr_in TYPE(f32) (- (1 / 1024))" "repr_in TYPE(f64) (- (1 / 1024))"
    using repr_scaled32 [of "- 1" "- 10"] repr_scaled64 [of "- 1" "- 10"] unfolding tenth_powers by simp_all
  have z: "is_fin (of_i 0 :: f64)" "val (of_i 0 :: f64) = 0" by code_simp+
  define x where "x = (of_i raw / of_i 1000 :: f64)"
  have x: "x = rnd (sgnb (of_i raw :: f64) \<noteq> sgnb (of_i 1000 :: f64)) (of_int raw / 1000)" unfolding x_def by (simp add: fin_div i thousand)
  show ?thesis
  proof (cases "raw < 0")
    case True
    then have "(of_int raw :: rat) \<le> of_int (- 1)" by (simp only: of_int_le_iff)
    then have h: "(of_int raw / 1000 :: rat) \<le> - (1 / 1024)" "of_int (- 16777216) \<le> (of_int raw / 1000 :: rat)" using bounds by simp_all
    have lo: "repr_in TYPE(f64) (of_int (- 16777216))" "repr_in TYPE(f32) (of_int (- 16777216))" by (rule R; simp)+
    have "is_fin x \<and> of_int (- 16777216) \<le> val x \<and> val x \<le> - (1 / 1024)" unfolding x by (rule rnd_between [OF lo(1) s(2) h(2,1)])
    note conv_between [OF lo(1) s(2) conv_between [OF lo(2) s(1) this]]
    then show ?thesis using True z unfolding x_def [symmetric] by (simp add: fin_less)
  next
    case False
    then have "(of_int 0 :: rat) \<le> of_int raw" by (simp only: of_int_le_iff)
    then have h: "of_int 0 \<le> (of_int raw / 1000 :: rat)" "(of_int raw / 1000 :: rat) \<le> of_int 16777216" using bounds by simp_all
    have w: "repr_in TYPE(f64) (of_int 0)" "repr_in TYPE(f32) (of_int 0)" "repr_in TYPE(f64) (of_int 16777216)" "repr_in TYPE(f32) (of_int 16777216)" by (rule R; simp)+
    have "is_fin x \<and> of_int 0 \<le> val x \<and> val x \<le> of_int 16777216" unfolding x by (rule rnd_between [OF w(1,3) h])
    note conv_between [OF w(1,3) conv_between [OF w(2,4) this]]
    then show ?thesis using False z unfolding x_def [symmetric] by (simp add: fin_less)
  qed
qed

lemma separate2_sign: "snd (snd (snd (snd (separate2 x)))) = (x < of_i 0)"
  by (simp add: separate2_def Let_def)

text \<open>C22: the set voltage is shown as it is set: up to 16.777215 V the sign, the volts and the millivolts shown are those of the set value, and the last two digits of
  the third number are the hundreds and tens of its microvolts.\<close>

theorem set_voltage_shown:
  assumes "\<bar>raw\<bar> < 16777216"
  shows "(let u = (\<bar>raw\<bar> - \<bar>raw\<bar> mod 1000000 div 1000 * 1000) div 10 in
    volt_renderSet raw = [Txt (if raw < 0 then ''-'' else ''+''), Num 2 (\<bar>raw\<bar> div 1000000), Num 3 (\<bar>raw\<bar> mod 1000000 div 1000), Txt ''.'', Num 2 u, Txt ''V'']
    \<and> u mod 100 = \<bar>raw\<bar> mod 1000 div 10)"
  using milli_sign [OF less_imp_le [OF assms]] last_two_digits [of "\<bar>raw\<bar>"]
  by (simp only: volt_renderSet_def separate2_sign set_digits_eq [OF assms] Let_def prod.case simp_thms)

text \<open>From there on the third number is rounded to an even number of microvolts: 25.000999 V is shown as 25.00000 V.\<close>

lemma set_voltage_rounded: "set_digits 25000999 = (25, 0, 25001000)"
  by code_simp

text \<open>The last digit of a measured voltage is computed from an inexact tenth: 23 microvolts are shown with a last digit of 2.\<close>

lemma last_digit_wrong: "last_digit 23 = 2 \<and> last_digit 13 = 3"
  by (intro conjI; code_simp)

text \<open>The uptime is shown right for 24 days.\<close>

lemma uptime_shown:
  assumes "uint ms < 2147483648"
  shows "(case displayTime ms of (h, m, s) \<Rightarrow> h * 3600 + m * 60 + s = uint ms div 1000 \<and> 0 \<le> m \<and> m < 60 \<and> 0 \<le> s \<and> s < 60)"
proof -
  have s: "sint ms = uint ms" using assms by (simp add: sint_uint) (rule signed_take_bit_int_eq_self; simp add: order_trans [OF _ uint_nonnegative])
  have q: "0 \<le> uint ms div 1000" "uint ms div 1000 < 4294967296" using assms by (simp_all add: pos_imp_zdiv_nonneg_iff)
  have "uint (word_of_int (uint ms div 1000) :: u32) = uint ms div 1000" using q by (simp add: uint_word_of_int take_bit_int_eq_self)
  moreover have "k div 3600 * 3600 + k mod 3600 div 60 * 60 + k mod 3600 mod 60 = k" for k :: int
    using div_mult_mod_eq [of k 3600] div_mult_mod_eq [of "k mod 3600" 60] by linarith
  moreover have "k mod 3600 div 60 < 60" for k :: int using pos_mod_bound [of 3600 k] by (simp add: div_less_iff_less_mult)
  moreover have "0 \<le> k mod 3600 div 60" for k :: int by (simp add: pos_imp_zdiv_nonneg_iff)
  ultimately show ?thesis by (simp add: displayTime_def s Let_def)
qed

theorem measured_voltage_shown_witness:
  "\<exists>l \<in> {6, 7}. volt_renderMeasured (Fin (- (24691 / 16))) = [Txt ''-'', Num 2 1, Txt ''.'', Num 3 543, Num 2 18, Num 1 l, Txt ''V'']"
proof -
  have "repr_in TYPE(f32) (of_int (- 24691 * 64) * 2 powi (- 10))" by (rule repr_scaled32) simp_all
  then have "repr_in TYPE(f32) (- (24691 / 16))" unfolding tenth_powers by simp
  moreover have "\<lfloor>24691 / 16 :: rat\<rfloor> = 1543" "\<lfloor>(24691 / 16 - 1543) * 1000 :: rat\<rfloor> = 187" by (rule floor_unique; simp)+
  ultimately show ?thesis using measured_voltage_shown [of "- (24691 / 16)"] by (auto simp: Let_def)
qed

theorem set_voltage_shown_witness:
  "volt_renderSet (- 1234560) = [Txt ''-'', Num 2 1, Num 3 234, Txt ''.'', Num 2 100056, Txt ''V'']"
  using set_voltage_shown [of "- 1234560"] by (simp add: Let_def)

end
