(* ===== verification/Ada4254.thy ===== *)
theory Ada4254
  imports Bus
begin

text \<open>
  The prototype driver of the ADA4254 amplifier (src/src/Ada4254.cpp), which setup calls.  A frame is a chip select on
  the multiplexer lines, the bytes, and the end of the selection, of which the code has two kinds: line 7 goes high, or lines 8 and 9
  go low first.  Delays and debug output are left out.
\<close>

section \<open>Frames\<close>

definition ada_select :: "'d chips \<Rightarrow> ('d, 'z) board_scheme \<Rightarrow> ('d, 'z) board_scheme" where
  "ada_select X s = digitalWrite X 7 False (digitalWrite X 9 True (digitalWrite X 8 True s))"

definition ada_release :: "'d chips \<Rightarrow> ('d, 'z) board_scheme \<Rightarrow> ('d, 'z) board_scheme" where
  "ada_release X s = digitalWrite X 7 True s"

definition ada_release_all :: "'d chips \<Rightarrow> ('d, 'z) board_scheme \<Rightarrow> ('d, 'z) board_scheme" where
  "ada_release_all X s = digitalWrite X 7 True (digitalWrite X 9 False (digitalWrite X 8 False s))"

definition ada_frame :: "'d chips \<Rightarrow> byte list \<Rightarrow> ('d, 'z) board_scheme \<Rightarrow> ('d, 'z) board_scheme" where
  "ada_frame X bs s = ada_release X (snd (spi_transfers X bs (ada_select X s)))"

definition ada_frame_all :: "'d chips \<Rightarrow> byte list \<Rightarrow> ('d, 'z) board_scheme \<Rightarrow> ('d, 'z) board_scheme" where
  "ada_frame_all X bs s = ada_release_all X (snd (spi_transfers X bs (ada_select X s)))"

section \<open>The methods\<close>

definition ada_printId :: "'d chips \<Rightarrow> ('d, 'z) board_scheme \<Rightarrow> byte \<times> ('d, 'z) board_scheme" where
  "ada_printId X s = (let r = spi_transfer X 0 (ada_select X s) in (fst r, ada_release X (snd r)))"

definition ada4254_check :: "'d chips \<Rightarrow> ('d, 'z) board_scheme \<Rightarrow> ('d, 'z) board_scheme" where
  "ada4254_check X s = ada_frame X [0x83] (ada_frame X [0x84] (ada_frame X [0x03, 0x08] (ada_frame X [0x0B, 255] s)))"

definition ada4254_2 :: "'d chips \<Rightarrow> bool \<Rightarrow> ('d, 'z) board_scheme \<Rightarrow> ('d, 'z) board_scheme" where
  "ada4254_2 X on s = ada_frame X [0x08, if on then 0xff else 0xfb] s"

definition ada4254_3 :: "'d chips \<Rightarrow> bool \<Rightarrow> ('d, 'z) board_scheme \<Rightarrow> ('d, 'z) board_scheme" where
  "ada4254_3 X on s = ada_frame X [0x05, if on then 3 else 12] s"

definition ada_reset :: "'d chips \<Rightarrow> ('d, 'z) board_scheme \<Rightarrow> ('d, 'z) board_scheme" where
  "ada_reset X s = ada_frame X [0x01, 0x01] s"

definition ada4254_clear_analog_error :: "'d chips \<Rightarrow> ('d, 'z) board_scheme \<Rightarrow> ('d, 'z) board_scheme" where
  "ada4254_clear_analog_error X s = ada_frame X [0x0b, 0xff] (ada_frame X [0x04, 0x80] s)"

definition ada4254_5_gainx1d25 :: "'d chips \<Rightarrow> ('d, 'z) board_scheme \<Rightarrow> ('d, 'z) board_scheme" where
  "ada4254_5_gainx1d25 X s = ada_frame_all X [0x0E, 0] s"

text \<open>Gains other than 1, 2 and 4 send no data.\<close>

definition ada4254_setgain :: "'d chips \<Rightarrow> int \<Rightarrow> ('d, 'z) board_scheme \<Rightarrow> ('d, 'z) board_scheme" where
  "ada4254_setgain X gain s =
     ada_frame_all X (0x00 # (if gain = 1 then [0x20] else if gain = 2 then [0x28] else if gain = 4 then [0x30] else [])) s"

definition ada4254_5_gain :: "'d chips \<Rightarrow> ('d, 'z) board_scheme \<Rightarrow> ('d, 'z) board_scheme" where
  "ada4254_5_gain X s = fold (ada_frame_all X) [[0x05, 0xff], [0x0C, 0x08], [0x0E, 0], [0x00, 0x48]] s"

definition ada4254_4 :: "'d chips \<Rightarrow> ('d, 'z) board_scheme \<Rightarrow> ('d, 'z) board_scheme" where
  "ada4254_4 X s = ada_frame X [0x06, 0x60] s"

definition ada_relay :: "'d chips \<Rightarrow> bool \<Rightarrow> ('d, 'z) board_scheme \<Rightarrow> ('d, 'z) board_scheme" where
  "ada_relay X on s = digitalWrite X 4 True (snd (spi_transfer X (if on then 255 else 0) (digitalWrite X 4 False s)))"

text \<open>The blinking output: its timer and its state.\<close>

record ada_blink =
  relayTimer :: u32
  relayState :: bool

definition indicateADA4254status :: "'d chips \<Rightarrow> u32 \<Rightarrow> ada_blink \<times> ('d, 'z) board_scheme \<Rightarrow> ada_blink \<times> ('d, 'z) board_scheme" where
  "indicateADA4254status X now bs =
     (let (b, s) = bs in
      if relayTimer b + 1000 < now
      then (b\<lparr>relayState := \<not> relayState b, relayTimer := now\<rparr>, ada4254_check X (ada4254_2 X (\<not> relayState b) s))
      else (b, s))"

text \<open>The calls of setup.\<close>

definition ada_setup :: "'d chips \<Rightarrow> ('d, 'z) board_scheme \<Rightarrow> ('d, 'z) board_scheme" where
  "ada_setup X s = ada4254_clear_analog_error X (ada4254_5_gain X (ada4254_4 X (snd (ada_printId X (ada_reset X s)))))"

section \<open>What is sent\<close>

lemma ada_frame_simps [simp]:
  "wire (ada_frame X bs s) = wire s @ map (Pair (False, True, True)) bs" "pins (ada_frame X bs s) 7" "board.more (ada_frame X bs s) = board.more s"
  "wire (ada_frame_all X bs s) = wire s @ map (Pair (False, True, True)) bs" "pins (ada_frame_all X bs s) 7" "board.more (ada_frame_all X bs s) = board.more s"
  by (simp_all add: ada_frame_def ada_frame_all_def ada_release_def ada_release_all_def ada_select_def mux_lines_def)

text \<open>Every byte of the start-up goes to the amplifier, two by two after the identification, and the last gain is 32.\<close>

lemma ada_setup_wire:
  "wire (ada_setup X s) = wire s @ map (Pair (False, True, True)) [0x01, 0x01, 0x00, 0x06, 0x60, 0x05, 0xff, 0x0C, 0x08, 0x0E, 0x00, 0x00, 0x48, 0x04, 0x80, 0x0b, 0xff]"
proof -
  have "wire (snd (ada_printId X s)) = wire s @ [((False, True, True), 0)]" for s :: "('a, 'b) board_scheme"
    by (simp add: ada_printId_def ada_release_def ada_select_def mux_lines_def Let_def)
  then show ?thesis by (simp add: ada_setup_def ada_reset_def ada4254_4_def ada4254_5_gain_def ada4254_clear_analog_error_def)
qed

end
