(* ===== verification/Encoder.thy ===== *)
theory Encoder
  imports Knobs
begin

unbundle bit_operations_syntax

text \<open>
  The quadrature decoder of the knob (src/lib/EncoderTool-master/src/EncoderBase.h, EncoderButton.h and
  Single/Encoder.h): the three state tables, counting with limits, the flags and callbacks, and the start.  The debouncer
  of the button (Bounce2, not part of the repository) is an argument; its state is a field of type \<open>'b\<close>.  The calls of the attached
  functions are the second result of \<open>encoder_update\<close>.  Pins and the installation of the interrupts are left out;
  \<open>doUpdate\<close> is the interrupt handler.
\<close>

section \<open>The state tables\<close>

text \<open>The names of the states are those of the code, with the directions that a table entry adds to a state.\<close>

abbreviation (input) st_A :: byte where "st_A \<equiv> 0x00"
abbreviation (input) B_cw :: byte where "B_cw \<equiv> 0x01"
abbreviation (input) C_cw :: byte where "C_cw \<equiv> 0x03"
abbreviation (input) D_cw :: byte where "D_cw \<equiv> 0x02"
abbreviation (input) B_ccw :: byte where "B_ccw \<equiv> 0x04"
abbreviation (input) C_ccw :: byte where "C_ccw \<equiv> 0x06"
abbreviation (input) D_ccw :: byte where "D_ccw \<equiv> 0x05"
abbreviation (input) dir_UP :: byte where "dir_UP \<equiv> 0x10"
abbreviation (input) dir_DOWN :: byte where "dir_DOWN \<equiv> 0x20"
abbreviation (input) dir_ERR :: byte where "dir_ERR \<equiv> 0x30"

definition stateMachineQtr :: "byte list list" where
  "stateMachineQtr =
    [[st_A, B_cw, D_ccw, st_A OR dir_ERR],
     [st_A, B_cw, B_cw OR dir_ERR, C_cw],
     [st_A OR dir_UP, D_cw OR dir_ERR, D_cw, C_cw],
     [C_cw OR dir_ERR, B_cw, D_cw, C_cw],
     [st_A OR dir_DOWN, B_ccw, B_ccw OR dir_ERR, C_ccw],
     [st_A, D_ccw OR dir_ERR, D_ccw, C_ccw],
     [C_ccw OR dir_ERR, B_ccw, D_ccw, C_ccw]]"

definition stateMachineHalf :: "byte list list" where
  "stateMachineHalf =
    [[st_A, B_cw, D_ccw, st_A OR dir_ERR],
     [st_A, B_cw, B_cw OR dir_ERR, C_cw OR dir_UP],
     [st_A OR dir_UP, D_cw OR dir_ERR, D_cw, C_cw],
     [C_cw OR dir_ERR, B_ccw, D_cw, C_cw],
     [st_A OR dir_DOWN, B_ccw, B_ccw OR dir_ERR, C_cw],
     [st_A, B_ccw OR dir_ERR, D_ccw, C_cw OR dir_DOWN],
     [C_ccw OR dir_ERR, C_ccw OR dir_ERR, C_ccw OR dir_ERR, C_ccw OR dir_ERR]]"

text \<open>The full table has four rows in the code; the rest of the array is zero.\<close>

definition stateMachineFull :: "byte list list" where
  "stateMachineFull =
    [[st_A, B_cw OR dir_UP, D_cw OR dir_DOWN, st_A OR dir_ERR],
     [st_A OR dir_DOWN, B_cw, B_cw OR dir_ERR, C_cw OR dir_UP],
     [st_A OR dir_UP, D_cw OR dir_ERR, D_cw, C_cw OR dir_DOWN],
     [C_cw OR dir_ERR, B_cw OR dir_DOWN, D_cw OR dir_UP, C_cw],
     [0, 0, 0, 0], [0, 0, 0, 0], [0, 0, 0, 0]]"

section \<open>The counter\<close>

datatype CountMode = Quarter | QuarterInv | Half | HalfAlt | Full

record 'b quadrature =
  enc_value :: int
  minVal :: int
  maxVal :: int
  valChanged :: bool
  enc_button :: 'b
  btnChanged :: bool
  periodic :: bool
  invert :: u32
  enc_callback :: bool
  enc_btnCallback :: bool
  stateMachine :: "byte list list"
  curState :: byte

definition int_min :: int where "int_min = - (2 ^ 31)"
definition int_max :: int where "int_max = 2 ^ 31 - 1"

definition new_encoder :: "'b \<Rightarrow> 'b quadrature" where
  "new_encoder b = \<lparr>enc_value = 0, minVal = int_min, maxVal = int_max, valChanged = False, enc_button = b, btnChanged = False,
     periodic = True, invert = 0, enc_callback = False, enc_btnCallback = False, stateMachine = stateMachineFull, curState = 0\<rparr>"

definition enc_valueChanged :: "'b quadrature \<Rightarrow> bool \<times> 'b quadrature" where
  "enc_valueChanged e = (valChanged e, e\<lparr>valChanged := False\<rparr>)"

definition enc_getValue :: "'b quadrature \<Rightarrow> int" where "enc_getValue e = enc_value e"
definition enc_setValue :: "int \<Rightarrow> 'b quadrature \<Rightarrow> 'b quadrature" where "enc_setValue v e = e\<lparr>enc_value := v\<rparr>"

definition enc_buttonChanged :: "'b quadrature \<Rightarrow> bool \<times> 'b quadrature" where
  "enc_buttonChanged e = (btnChanged e, e\<lparr>btnChanged := False\<rparr>)"

definition setCountMode :: "CountMode \<Rightarrow> 'b quadrature \<Rightarrow> 'b quadrature" where
  "setCountMode mode e = (case mode of
       Quarter \<Rightarrow> e\<lparr>stateMachine := stateMachineQtr, invert := 3\<rparr>
     | QuarterInv \<Rightarrow> e\<lparr>stateMachine := stateMachineQtr, invert := 0\<rparr>
     | Half \<Rightarrow> e\<lparr>stateMachine := stateMachineHalf, invert := 0\<rparr>
     | HalfAlt \<Rightarrow> e\<lparr>stateMachine := stateMachineHalf, invert := 1\<rparr>
     | Full \<Rightarrow> e\<lparr>stateMachine := stateMachineFull, invert := 0\<rparr>)"

definition attachCallback :: "'b quadrature \<Rightarrow> 'b quadrature" where "attachCallback e = e\<lparr>enc_callback := True\<rparr>"
definition attachButtonCallback :: "'b quadrature \<Rightarrow> 'b quadrature" where "attachButtonCallback e = e\<lparr>enc_btnCallback := True\<rparr>"

definition setLimits :: "int \<Rightarrow> int \<Rightarrow> bool \<Rightarrow> 'b quadrature \<Rightarrow> 'b quadrature" where
  "setLimits lo hi wraps e =
     (if lo < hi then e\<lparr>minVal := lo, maxVal := hi, periodic := wraps\<rparr> else e\<lparr>minVal := int_min, maxVal := int_max, periodic := True\<rparr>)"

definition enc_input :: "bool \<Rightarrow> bool \<Rightarrow> 'b quadrature \<Rightarrow> u32" where
  "enc_input phaseA phaseB e = (push_bit 1 (of_bool phaseA) OR of_bool phaseB) XOR invert e"

definition encoder_begin :: "bool \<Rightarrow> bool \<Rightarrow> 'b quadrature \<Rightarrow> 'b quadrature" where
  "encoder_begin phaseA phaseB e = e\<lparr>curState := ucast (enc_input phaseA phaseB e)\<rparr>"

text \<open>A call of an attached function: the value and the step, or the state of the button.\<close>

datatype enc_call = ValueCall int int | ButtonCall bool

definition value_call :: "'b quadrature \<Rightarrow> int \<Rightarrow> enc_call list" where
  "value_call e step = (if enc_callback e then [ValueCall (enc_value e) step] else [])"

definition count_up :: "'b quadrature \<Rightarrow> int \<times> enc_call list \<times> 'b quadrature" where
  "count_up e =
     (if enc_value e < maxVal e then let e = e\<lparr>enc_value := enc_value e + 1, valChanged := True\<rparr> in (1, value_call e 1, e)
      else if periodic e then let e = e\<lparr>enc_value := minVal e, valChanged := True\<rparr> in (1, value_call e 1, e)
      else (0, [], e\<lparr>enc_value := maxVal e\<rparr>))"

definition count_down :: "'b quadrature \<Rightarrow> int \<times> enc_call list \<times> 'b quadrature" where
  "count_down e =
     (if minVal e < enc_value e then let e = e\<lparr>enc_value := enc_value e - 1, valChanged := True\<rparr> in (- 1, value_call e (- 1), e)
      else if periodic e then let e = e\<lparr>valChanged := True, enc_value := maxVal e\<rparr> in (- 1, value_call e (- 1), e)
      else (0, [], e\<lparr>enc_value := minVal e\<rparr>))"

definition button_update :: "(bool \<Rightarrow> 'b \<Rightarrow> bool \<times> 'b) \<Rightarrow> ('b \<Rightarrow> bool) \<Rightarrow> bool \<Rightarrow> 'b quadrature \<Rightarrow> enc_call list \<times> 'b quadrature" where
  "button_update bounce pressed btn e =
     (let (changed, b) = bounce btn (enc_button e); e = e\<lparr>enc_button := b\<rparr> in
      if changed then (if enc_btnCallback e then [ButtonCall (pressed b)] else [], e\<lparr>btnChanged := True\<rparr>) else ([], e))"

definition encoder_update ::
  "(bool \<Rightarrow> 'b \<Rightarrow> bool \<times> 'b) \<Rightarrow> ('b \<Rightarrow> bool) \<Rightarrow> bool \<Rightarrow> bool \<Rightarrow> bool \<Rightarrow> 'b quadrature \<Rightarrow> int \<times> enc_call list \<times> 'b quadrature" where
  "encoder_update bounce pressed phaseA phaseB btn e0 =
     (let (calls, e) = button_update bounce pressed btn e0;
          entry = stateMachine e ! unat (curState e) ! unat (enc_input phaseA phaseB e);
          direction = entry AND 0xF0;
          e = e\<lparr>curState := entry AND 0x0F\<rparr>;
          (step, more, e) = (if direction = dir_UP then count_up e else if direction = dir_DOWN then count_down e else (0, [], e))
      in (step, calls @ more, e))"

text \<open>The interrupt handler of the encoder, and its start with the pins as they are; the pins must have interrupts.\<close>

definition doUpdate :: "(bool \<Rightarrow> 'b \<Rightarrow> bool \<times> 'b) \<Rightarrow> ('b \<Rightarrow> bool) \<Rightarrow> bool \<times> bool \<Rightarrow> 'b quadrature \<Rightarrow> 'b quadrature" where
  "doUpdate bounce pressed ab e = snd (snd (encoder_update bounce pressed (fst ab) (snd ab) False e))"

definition encoder_start :: "bool \<Rightarrow> CountMode \<Rightarrow> bool \<times> bool \<Rightarrow> 'b quadrature \<Rightarrow> bool \<times> 'b quadrature" where
  "encoder_start interrupts mode ab e =
     (if \<not> interrupts then (False, e) else (True, encoder_begin (fst ab) (snd ab) (setCountMode mode e)))"

text \<open>\<open>init\<close> of the knob.\<close>

definition rotary_init :: "bool \<Rightarrow> bool \<times> bool \<Rightarrow> 'b quadrature \<Rightarrow> 'b quadrature" where
  "rotary_init interrupts ab e = snd (encoder_start interrupts Half ab e)"

section \<open>The knob\<close>

text \<open>
  A knob at position \<open>p\<close>, in quarters of a period, and the levels of its two contacts there.  A path of the knob is a list of positions, each at most
  one from the one before: turning, turning back and bouncing contacts.
\<close>

definition contacts :: "int \<Rightarrow> bool \<times> bool" where
  "contacts p = (p mod 4 = 2 \<or> p mod 4 = 3, p mod 4 = 1 \<or> p mod 4 = 2)"

fun path :: "int \<Rightarrow> int list \<Rightarrow> bool" where
  "path p [] = True"
| "path p (q # qs) = (\<bar>q - p\<bar> \<le> 1 \<and> path q qs)"

definition follow :: "(bool \<Rightarrow> 'b \<Rightarrow> bool \<times> 'b) \<Rightarrow> ('b \<Rightarrow> bool) \<Rightarrow> int list \<Rightarrow> 'b quadrature \<Rightarrow> 'b quadrature" where
  "follow bounce pressed ps e = fold (\<lambda>p. doUpdate bounce pressed (contacts p)) ps e"

definition wrap32 :: "int \<Rightarrow> int" where "wrap32 c = sint (word_of_int c :: u32)"

section \<open>The counter follows the knob\<close>

lemma wrap32_range: "int_min \<le> wrap32 c \<and> wrap32 c \<le> int_max"
  using sint_range_size [of "word_of_int c :: u32"] by (simp add: wrap32_def int_min_def int_max_def word_size)

lemma wrap32_small: "int_min \<le> c \<Longrightarrow> c \<le> int_max \<Longrightarrow> wrap32 c = c"
  by (simp add: wrap32_def int_min_def int_max_def sint_sbintrunc' signed_take_bit_int_eq_self)

lemma wrap32_cong: "wrap32 (wrap32 c + d) = wrap32 (c + d)"
  by (simp add: wrap32_def)

lemma wrap32_up: "wrap32 (c + 1) = (if wrap32 c < int_max then wrap32 c + 1 else int_min)"
proof (cases "wrap32 c < int_max")
  case True
  then show ?thesis using wrap32_small [of "wrap32 c + 1"] wrap32_range [of c] by (simp add: wrap32_cong)
next
  case False
  then have "wrap32 c = int_max" using wrap32_range [of c] by simp
  moreover have "wrap32 (int_max + 1) = int_min" by code_simp
  ultimately show ?thesis using wrap32_cong [of c 1] by simp
qed

lemma wrap32_down: "wrap32 (c - 1) = (if int_min < wrap32 c then wrap32 c - 1 else int_max)"
proof (cases "int_min < wrap32 c")
  case True
  then show ?thesis using wrap32_small [of "wrap32 c - 1"] wrap32_range [of c] wrap32_cong [of c "- 1"] by simp
next
  case False
  then have "wrap32 c = int_min" using wrap32_range [of c] by simp
  moreover have "wrap32 (int_min - 1) = int_max" by code_simp
  ultimately show ?thesis using wrap32_cong [of c "- 1"] by simp
qed

text \<open>
  The states of the half table by the position of the knob and the count: at rest on a detent, or a quarter above or below the detent that was
  counted last.
\<close>

definition half_state :: "int \<Rightarrow> int \<Rightarrow> byte \<Rightarrow> bool" where
  "half_state p c s \<longleftrightarrow>
     p mod 4 = 0 \<and> p - 2 * c = 0 \<and> s = st_A \<or> p mod 4 = 2 \<and> p - 2 * c = 0 \<and> s = C_cw \<or>
     p mod 4 = 1 \<and> p - 2 * c = 1 \<and> s = B_cw \<or> p mod 4 = 3 \<and> p - 2 * c = 1 \<and> s = D_cw \<or>
     p mod 4 = 1 \<and> p - 2 * c = - 1 \<and> s = B_ccw \<or> p mod 4 = 3 \<and> p - 2 * c = - 1 \<and> s = D_ccw"

definition tracks :: "int \<Rightarrow> int \<Rightarrow> int \<Rightarrow> 'b quadrature \<Rightarrow> bool" where
  "tracks b v p e \<longleftrightarrow>
     stateMachine e = stateMachineHalf \<and> invert e = 0 \<and> periodic e \<and> minVal e = int_min \<and> maxVal e = int_max \<and>
     (\<exists>c. enc_value e = wrap32 (c - b) \<and> (valChanged e \<or> c = v) \<and> half_state p c (curState e))"

text \<open>An update without the button: the entry of the table, and the count it asks for.\<close>

definition half_step :: "byte \<Rightarrow> 'b quadrature \<Rightarrow> 'b quadrature" where
  "half_step entry e =
     (let e = e\<lparr>curState := entry AND 0x0F\<rparr>; d = entry AND 0xF0
      in if d = dir_UP then snd (snd (count_up e)) else if d = dir_DOWN then snd (snd (count_down e)) else e)"

lemma button_update_keeps:
  "stateMachine (snd (button_update f g x e)) = stateMachine e" "invert (snd (button_update f g x e)) = invert e"
  "periodic (snd (button_update f g x e)) = periodic e" "minVal (snd (button_update f g x e)) = minVal e"
  "maxVal (snd (button_update f g x e)) = maxVal e" "enc_value (snd (button_update f g x e)) = enc_value e"
  "valChanged (snd (button_update f g x e)) = valChanged e" "curState (snd (button_update f g x e)) = curState e"
  by (simp_all add: button_update_def Let_def split: prod.split)

lemma tracks_button: "tracks b v p (snd (button_update f g x e)) = tracks b v p e"
  by (simp add: tracks_def button_update_keeps)

lemma phase_input: "unat ((push_bit 1 (of_bool x) OR of_bool y) XOR 0 :: u32) = 2 * of_bool x + of_bool y"
  by (induct x rule: bool.induct; induct y rule: bool.induct; code_simp)

lemma doUpdate_half:
  assumes "stateMachine e = stateMachineHalf" "invert e = 0"
  shows "doUpdate f g ab e =
    half_step (stateMachineHalf ! unat (curState e) ! (2 * of_bool (fst ab) + of_bool (snd ab))) (snd (button_update f g False e))"
proof -
  obtain calls e1 where b: "button_update f g False e = (calls, e1)" by fastforce
  then have e1: "stateMachine e1 = stateMachineHalf" "invert e1 = 0" "curState e1 = curState e"
    using button_update_keeps [of f g False e] assms by simp_all
  show ?thesis
    unfolding doUpdate_def encoder_update_def b enc_input_def half_step_def Let_def prod.case e1 phase_input snd_conv
    by (simp only: prod.case_eq_if snd_conv if_distrib [of snd] refl cong: if_cong)
qed

lemma counted:
  "enc_value e = wrap32 c \<Longrightarrow> periodic e \<Longrightarrow> minVal e = int_min \<Longrightarrow> maxVal e = int_max \<Longrightarrow>
     snd (snd (count_up e)) = e\<lparr>enc_value := wrap32 (c + 1), valChanged := True\<rparr>"
  "enc_value e = wrap32 c \<Longrightarrow> periodic e \<Longrightarrow> minVal e = int_min \<Longrightarrow> maxVal e = int_max \<Longrightarrow>
     snd (snd (count_down e)) = e\<lparr>enc_value := wrap32 (c - 1), valChanged := True\<rparr>"
  by (simp_all add: count_up_def count_down_def wrap32_up wrap32_down Let_def)

lemma half_entries:
  "half_step (stateMachineHalf ! unat st_A ! 0) e = e\<lparr>curState := st_A\<rparr>" "half_step (stateMachineHalf ! unat st_A ! 1) e = e\<lparr>curState := B_cw\<rparr>"
  "half_step (stateMachineHalf ! unat st_A ! 2) e = e\<lparr>curState := D_ccw\<rparr>"
  "half_step (stateMachineHalf ! unat B_cw ! 0) e = e\<lparr>curState := st_A\<rparr>" "half_step (stateMachineHalf ! unat B_cw ! 1) e = e\<lparr>curState := B_cw\<rparr>"
  "half_step (stateMachineHalf ! unat B_cw ! 3) e = snd (snd (count_up (e\<lparr>curState := C_cw\<rparr>)))"
  "half_step (stateMachineHalf ! unat D_cw ! 0) e = snd (snd (count_up (e\<lparr>curState := st_A\<rparr>)))"
  "half_step (stateMachineHalf ! unat D_cw ! 2) e = e\<lparr>curState := D_cw\<rparr>" "half_step (stateMachineHalf ! unat D_cw ! 3) e = e\<lparr>curState := C_cw\<rparr>"
  "half_step (stateMachineHalf ! unat C_cw ! 1) e = e\<lparr>curState := B_ccw\<rparr>" "half_step (stateMachineHalf ! unat C_cw ! 2) e = e\<lparr>curState := D_cw\<rparr>"
  "half_step (stateMachineHalf ! unat C_cw ! 3) e = e\<lparr>curState := C_cw\<rparr>"
  "half_step (stateMachineHalf ! unat B_ccw ! 0) e = snd (snd (count_down (e\<lparr>curState := st_A\<rparr>)))"
  "half_step (stateMachineHalf ! unat B_ccw ! 1) e = e\<lparr>curState := B_ccw\<rparr>" "half_step (stateMachineHalf ! unat B_ccw ! 3) e = e\<lparr>curState := C_cw\<rparr>"
  "half_step (stateMachineHalf ! unat D_ccw ! 0) e = e\<lparr>curState := st_A\<rparr>" "half_step (stateMachineHalf ! unat D_ccw ! 2) e = e\<lparr>curState := D_ccw\<rparr>"
  "half_step (stateMachineHalf ! unat D_ccw ! 3) e = snd (snd (count_down (e\<lparr>curState := C_cw\<rparr>)))"
  by (simp_all add: stateMachineHalf_def half_step_def Let_def)

lemma half_contacts:
  "p mod 4 = 0 \<Longrightarrow> (2 * of_bool (fst (contacts p)) + of_bool (snd (contacts p)) :: nat) = 0"
  "p mod 4 = 1 \<Longrightarrow> (2 * of_bool (fst (contacts p)) + of_bool (snd (contacts p)) :: nat) = 1"
  "p mod 4 = 2 \<Longrightarrow> (2 * of_bool (fst (contacts p)) + of_bool (snd (contacts p)) :: nat) = 3"
  "p mod 4 = 3 \<Longrightarrow> (2 * of_bool (fst (contacts p)) + of_bool (snd (contacts p)) :: nat) = 2"
  by (simp_all add: contacts_def)

lemma next_mod4:
  "(p :: int) mod 4 = 0 \<Longrightarrow> (p + 1) mod 4 = 1 \<and> (p - 1) mod 4 = 3" "(p :: int) mod 4 = 1 \<Longrightarrow> (p + 1) mod 4 = 2 \<and> (p - 1) mod 4 = 0"
  "(p :: int) mod 4 = 2 \<Longrightarrow> (p + 1) mod 4 = 3 \<and> (p - 1) mod 4 = 1" "(p :: int) mod 4 = 3 \<Longrightarrow> (p + 1) mod 4 = 0 \<and> (p - 1) mod 4 = 2"
  by presburger+

text \<open>One update moves the state with the knob, and counts when the next detent is reached.\<close>

definition at_count :: "int \<Rightarrow> int \<Rightarrow> int \<Rightarrow> 'b quadrature \<Rightarrow> bool" where
  "at_count b v c e \<longleftrightarrow> stateMachine e = stateMachineHalf \<and> invert e = 0 \<and> periodic e \<and> minVal e = int_min \<and> maxVal e = int_max \<and>
     enc_value e = wrap32 (c - b) \<and> (valChanged e \<or> c = v)"

lemma tracks_at_count: "tracks b v p e \<longleftrightarrow> (\<exists>c. at_count b v c e \<and> half_state p c (curState e))"
  by (auto simp: tracks_def at_count_def)

lemma at_count_moves:
  "at_count b v c e \<Longrightarrow> half_state q c s \<Longrightarrow> tracks b v q (e\<lparr>curState := s\<rparr>)"
  "at_count b v c e \<Longrightarrow> half_state q (c + 1) s \<Longrightarrow> tracks b v q (snd (snd (count_up (e\<lparr>curState := s\<rparr>))))"
  "at_count b v c e \<Longrightarrow> half_state q (c - 1) s \<Longrightarrow> tracks b v q (snd (snd (count_down (e\<lparr>curState := s\<rparr>))))"
proof -
  show "at_count b v c e \<Longrightarrow> half_state q c s \<Longrightarrow> tracks b v q (e\<lparr>curState := s\<rparr>)"
    unfolding tracks_at_count by (intro exI [of _ c]) (simp add: at_count_def)
  show "at_count b v c e \<Longrightarrow> half_state q (c + 1) s \<Longrightarrow> tracks b v q (snd (snd (count_up (e\<lparr>curState := s\<rparr>))))"
    unfolding tracks_at_count by (intro exI [of _ "c + 1"]) (simp add: at_count_def counted [where c = "c - b"] algebra_simps)
  show "at_count b v c e \<Longrightarrow> half_state q (c - 1) s \<Longrightarrow> tracks b v q (snd (snd (count_down (e\<lparr>curState := s\<rparr>))))"
    unfolding tracks_at_count by (intro exI [of _ "c - 1"]) (simp add: at_count_def counted [where c = "c - b"] algebra_simps)
qed

lemma next_diff:
  "(p :: int) - 2 * c = 0 \<Longrightarrow> p + 1 - 2 * c = 1" "(p :: int) - 2 * c = 0 \<Longrightarrow> p - 1 - 2 * c = - 1"
  "(p :: int) - 2 * c = 1 \<Longrightarrow> p + 1 - 2 * (c + 1) = 0" "(p :: int) - 2 * c = 1 \<Longrightarrow> p - 1 - 2 * c = 0"
  "(p :: int) - 2 * c = - 1 \<Longrightarrow> p + 1 - 2 * c = 0" "(p :: int) - 2 * c = - 1 \<Longrightarrow> p - 1 - 2 * (c - 1) = 0"
  by simp_all

lemma half_stateI:
  "q mod 4 = 0 \<Longrightarrow> q - 2 * c = 0 \<Longrightarrow> half_state q c st_A" "q mod 4 = 2 \<Longrightarrow> q - 2 * c = 0 \<Longrightarrow> half_state q c C_cw"
  "q mod 4 = 1 \<Longrightarrow> q - 2 * c = 1 \<Longrightarrow> half_state q c B_cw" "q mod 4 = 3 \<Longrightarrow> q - 2 * c = 1 \<Longrightarrow> half_state q c D_cw"
  "q mod 4 = 1 \<Longrightarrow> q - 2 * c = - 1 \<Longrightarrow> half_state q c B_ccw" "q mod 4 = 3 \<Longrightarrow> q - 2 * c = - 1 \<Longrightarrow> half_state q c D_ccw"
  unfolding half_state_def by blast+

lemma half_moves:
  assumes "half_state p c s" "q = p \<or> q = p + 1 \<or> q = p - 1" "at_count b v c e"
  shows "tracks b v q (half_step (stateMachineHalf ! unat s ! (2 * of_bool (fst (contacts q)) + of_bool (snd (contacts q)))) e)"
  using assms(1,2) unfolding half_state_def
  by (elim disjE conjE)
    (simp_all only: half_contacts next_mod4 half_entries,
     (rule at_count_moves [OF assms(3)], rule half_stateI, simp only: next_mod4, simp only: next_diff)+)

lemma tracks_update:
  assumes "tracks b v p e" "\<bar>q - p\<bar> \<le> 1"
  shows "tracks b v q (doUpdate f g (contacts q) e)"
proof -
  obtain c where c: "at_count b v c (snd (button_update f g False e))" "half_state p c (curState e)"
    using assms(1) tracks_button [of b v p f g False e] unfolding tracks_at_count by (auto simp: at_count_def button_update_keeps)
  have "stateMachine e = stateMachineHalf" "invert e = 0" using assms(1) by (simp_all add: tracks_def)
  moreover have "q = p \<or> q = p + 1 \<or> q = p - 1" using assms(2) by arith
  ultimately show ?thesis using half_moves [OF c(2) _ c(1)] by (simp only: doUpdate_half)
qed

lemma tracks_follow: "tracks b v p e \<Longrightarrow> path p ps \<Longrightarrow> tracks b v (last (p # ps)) (follow f g ps e)"
proof (induction ps arbitrary: p e)
  case (Cons q ps)
  then have "tracks b v q (doUpdate f g (contacts q) e)" "path q ps" using tracks_update by (simp, blast, simp)
  then show ?case using Cons.IH by (simp add: follow_def)
qed (simp add: follow_def)

lemma even_mod4: "even (p :: int) \<Longrightarrow> p mod 4 = 0 \<or> p mod 4 = 2" by presburger

lemma tracks_start:
  assumes "even p"
  shows "tracks (p div 2) (p div 2) p (rotary_init True (contacts p) (new_encoder b))"
proof -
  have s: "curState (rotary_init True (contacts p) (new_encoder b)) = (if p mod 4 = 0 then st_A else C_cw)"
    using even_mod4 [OF assms] phase_input
    by (auto simp: rotary_init_def encoder_start_def encoder_begin_def enc_input_def setCountMode_def contacts_def)
  have "half_state p (p div 2) (if p mod 4 = 0 then st_A else C_cw)"
    using even_mod4 [OF assms] assms by (auto simp: half_state_def)
  moreover have "wrap32 0 = 0" by code_simp
  ultimately show ?thesis unfolding tracks_def s
    by (auto simp: rotary_init_def encoder_start_def encoder_begin_def setCountMode_def new_encoder_def intro!: exI [of _ "p div 2"])
qed

lemma half_state_near: "half_state p c s \<Longrightarrow> \<bar>p - 2 * c\<bar> \<le> 1"
  unfolding half_state_def by (elim disjE conjE) simp_all

lemma tracks_position: "tracks b v p e \<Longrightarrow> \<exists>c. \<bar>p - 2 * c\<bar> \<le> 1 \<and> enc_value e = wrap32 (c - b) \<and> (valChanged e \<or> c = v)"
  unfolding tracks_def using half_state_near by blast

text \<open>At a detent: the value, whether it changed, and the start of the next stretch once the change has been read.\<close>

lemma tracks_rest:
  assumes "even p" "tracks b v p e"
  shows "enc_value e = wrap32 (p div 2 - b)" "valChanged e \<or> p div 2 = v" "tracks b (p div 2) p (snd (enc_valueChanged e))"
proof -
  obtain c where c: "at_count b v c e" "half_state p c (curState e)" using assms(2) tracks_at_count by blast
  then have "c = p div 2" using half_state_near assms(1) by fastforce
  then show "enc_value e = wrap32 (p div 2 - b)" "valChanged e \<or> p div 2 = v" "tracks b (p div 2) p (snd (enc_valueChanged e))"
    using c unfolding tracks_at_count by (auto simp: at_count_def enc_valueChanged_def)
qed

text \<open>C12: the counter follows the knob: from a detent, along every path of turns, turns back and bouncing contacts, the count is within a quarter of a period of the
  position, so that at every detent it is exactly the number of detents turned (modulo 2 to the 32); no bounce is counted twice or lost.\<close>

theorem encoder_follows_knob:
  assumes "even p" "path p ps"
  shows "\<exists>c. \<bar>last (p # ps) - p - 2 * c\<bar> \<le> 1 \<and> enc_getValue (follow bounce pressed ps (rotary_init True (contacts p) (new_encoder b))) = wrap32 c"
proof -
  define e where "e = follow bounce pressed ps (rotary_init True (contacts p) (new_encoder b))"
  define q where "q = last (p # ps)"
  have "tracks (p div 2) (p div 2) q e" unfolding e_def q_def by (rule tracks_follow [OF tracks_start [OF assms(1)] assms(2)])
  from tracks_position [OF this] obtain c where c: "\<bar>q - 2 * c\<bar> \<le> 1" "enc_value e = wrap32 (c - p div 2)" by metis
  have "p = 2 * (p div 2)" using assms(1) by simp
  then have "q - p - 2 * (c - p div 2) = q - 2 * c" by arith
  then show ?thesis unfolding e_def [symmetric] q_def [symmetric] enc_getValue_def using c by metis
qed

theorem encoder_follows_knob_witness:
  "\<exists>c. \<bar>last (0 # [1, 0, 1, 2, 3, 2, 3, 4]) - 0 - 2 * c\<bar> \<le> 1 \<and>
     enc_getValue (follow (\<lambda>x b. (x \<noteq> b, x)) id [1, 0, 1, 2, 3, 2, 3, 4] (rotary_init True (contacts 0) (new_encoder False))) = wrap32 c"
  by (rule encoder_follows_knob) simp_all

lemma half_difference: "even (p :: int) \<Longrightarrow> even q \<Longrightarrow> (q - p) div 2 = q div 2 - p div 2"
  by (elim evenE) simp

lemma half_order: "even (p :: int) \<Longrightarrow> even q \<Longrightarrow> (q div 2 = p div 2) = (q = p) \<and> (q div 2 < p div 2) = (q < p)"
  by (elim evenE) simp

text \<open>A turn of the knob moves the value in its direction: between two passes of the main loop that find the knob at a detent, whatever the contacts
  did meanwhile, the function of the knob is called exactly if the detent is another one, with the sign of the turn and the speed of the time since the
  last step.\<close>

lemma knob_turn_moves_value:
  fixes e0 :: "'b quadrature"
  assumes "even p" "path p ps" "even p1" "p1 = last (p # ps)" "path p1 qs" "even q" "q = last (p1 # qs)"
    and "int_min \<le> (p1 - p) div 2" "(p1 - p) div 2 \<le> int_max" "int_min \<le> (q - p) div 2" "(q - p) div 2 \<le> int_max"
    and "e0 = snd (enc_valueChanged (follow bounce pressed ps (rotary_init True (contacts p) (new_encoder b))))"
    and "positionLeft r = enc_getValue e0" "e1 = follow bounce pressed qs e0"
  shows "fst (rotary_handle rr (fst (enc_valueChanged e1)) (enc_getValue e1) now r) =
    (let speed = encoder_speed (stepless_dynamic r) rr (sint (now - word_of_int (millisAtLastStep r)))
     in if q = p1 then None else Some (conv ((of_i (speed * sgn (q - p1)) :: f64) / of_i 10)))"
proof -
  have "tracks (p div 2) (p div 2) p1 (follow bounce pressed ps (rotary_init True (contacts p) (new_encoder b)))"
    unfolding assms(4) by (rule tracks_follow [OF tracks_start [OF assms(1)] assms(2)])
  note rest = tracks_rest [OF assms(3) this]
  then have "tracks (p div 2) (p1 div 2) p1 e0" by (simp add: assms(12))
  from tracks_follow [OF this assms(5)] have "tracks (p div 2) (p1 div 2) q e1" by (simp only: assms(7,14))
  note rest1 = tracks_rest [OF assms(6) this]
  have v: "enc_value e0 = p1 div 2 - p div 2" "enc_value e1 = q div 2 - p div 2"
    using rest(1) rest1(1) wrap32_small [OF assms(8,9)] wrap32_small [OF assms(10,11)] half_difference [OF assms(1)] assms(3,6)
    by (simp_all add: assms(12) enc_valueChanged_def)
  show ?thesis
  proof (cases "q = p1")
    case True
    then show ?thesis using v assms(13) by (simp add: rotary_handle_def enc_getValue_def Let_def)
  next
    case False
    then have "valChanged e1" "q div 2 \<noteq> p1 div 2" "(q div 2 < p1 div 2) = (q < p1)" using rest1(2) half_order [OF assms(3,6)] by simp_all
    then show ?thesis using v assms(13) False by (simp add: rotary_handle_def enc_valueChanged_def enc_getValue_def Let_def sgn_if)
  qed
qed

section \<open>Limits, and what the tables do otherwise\<close>

text \<open>With limits the value stays within them, and without wrapping it stops there.\<close>

lemma encoder_update_limits:
  assumes "minVal e \<le> enc_value e" "enc_value e \<le> maxVal e"
  shows "minVal e \<le> enc_value (doUpdate f g ab e) \<and> enc_value (doUpdate f g ab e) \<le> maxVal e"
  using assms button_update_keeps [of f g False e]
  by (auto simp: doUpdate_def encoder_update_def count_up_def count_down_def Let_def split: prod.split)

text \<open>A missed edge below a detent: the entry of the half table for \<open>D_ccw\<close> is \<open>B_ccw\<close>, where every other entry of a missed edge stays in its row, and the knob that
  turns back to where it was is counted down; the quarter table keeps the state there.\<close>

lemma missed_edge_counts:
  "enc_value (fold (doUpdate (\<lambda>x b. (x \<noteq> b, x)) id) [(True, False), (False, True), (False, False)] (rotary_init True (False, False) (new_encoder False))) = - 1"
  by code_simp

text \<open>The alternative half mode counts backwards: inverting one contact reverses the direction.\<close>

lemma halfAlt_counts_backwards:
  "enc_value (follow (\<lambda>x b. (x \<noteq> b, x)) id [2, 3, 4, 5] (snd (encoder_start True HalfAlt (contacts 1) (new_encoder False)))) = - 2"
  "enc_value (follow (\<lambda>x b. (x \<noteq> b, x)) id [2, 3, 4, 5] (snd (encoder_start True Full (contacts 1) (new_encoder False)))) = 4"
  by code_simp+

end
