(* ===== verification/Trend.thy ===== *)
theory Trend
  imports Stats Display
begin

text \<open>
  What the trend statistics show (src/src/Stats.cpp, \<open>renderHistogram\<close> and \<open>renderTrend\<close>): the bins of the histogram, and the scale of the trend, which \<open>renderTrend\<close>
  keeps and adapts slowly.  A picture is given by its numbers, texts and the points of its curves before they are rounded to pixels; lines of the grid, colours and
  the positions of texts are left out.  Drawing is not part of the model of the main loop.
\<close>

section \<open>The histogram\<close>

record trend_view =
  visibleMax :: f32
  visibleMin :: f32
  visibleMaxSlow :: f32
  visibleMinSlow :: f32
  uispan :: f32

definition trend_view_initial :: trend_view where
  "trend_view_initial = \<lparr>visibleMax = of_i 0, visibleMin = of_i 0, visibleMaxSlow = - undefinedValue, visibleMinSlow = undefinedValue, uispan = of_i 0\<rparr>"

definition noOfBins :: nat where "noOfBins = 21"

definition hist_limits :: "stats \<Rightarrow> f32 list" where
  "hist_limits s =
     (let sp = st_maximum s - st_minimum s
      in map (\<lambda>i. st_minimum s + sp / of_i (int noOfBins) * of_i (int i)) [0..<noOfBins] @ [st_maximum s * of_i 2])"

text \<open>The bins and the largest bin; one value at one bin, and at all of them.\<close>

definition hist_bin :: "f32 list \<Rightarrow> f32 \<Rightarrow> nat \<Rightarrow> f32 list \<times> f32 \<Rightarrow> f32 list \<times> f32" where
  "hist_bin ls v i bm =
     (let (bins, m) = bm in
      if v \<ge> ls ! i \<and> v < ls ! (i + 1) then let b = bins ! i + of_i 1 in (bins[i := b], if b \<ge> m then b else m) else (bins, m))"

definition hist_value :: "f32 list \<Rightarrow> f32 \<Rightarrow> f32 list \<times> f32 \<Rightarrow> f32 list \<times> f32" where
  "hist_value ls v bm = (if feq v undefinedValue then bm else fold (hist_bin ls v) [0..<noOfBins] bm)"

definition histogram :: "stats \<Rightarrow> f32 list \<times> f32" where
  "histogram s = fold (hist_value (hist_limits s)) (st_value s) (replicate noOfBins (of_i 0), of_i 0)"

text \<open>A bar: its left side, its height, and the texts at it.\<close>

definition renderHistogram :: "bool \<Rightarrow> int \<Rightarrow> stats \<Rightarrow> trend_view \<Rightarrow> (int \<times> f32 \<times> shown list) list \<times> trend_view" where
  "renderHistogram limitDetails x s tv =
     (let (bins, m) = histogram s; barWidth = 600 div int noOfBins; xpos = (\<lambda>i. 100 + x + int i * barWidth);
          top = (\<lambda>i. if m > of_i 0 then bins ! i / m * of_i 100 else of_i 0);
          texts = (\<lambda>i. if limitDetails then []
            else (if m > of_i 0 then [Num 0 (f2i32 (bins ! i))] else []) @
              (if i = 0 \<or> i = (noOfBins - 1) div 2 \<or> i = noOfBins - 1 then renderValue (hist_limits s ! i) (st_type s) else []))
      in (map (\<lambda>i. (xpos i, top i, texts i)) (takeWhile (\<lambda>i. xpos i \<le> 800) [0..<noOfBins]), tv\<lparr>uispan := visibleMax tv - visibleMin tv\<rparr>))"

section \<open>The scale of the trend\<close>

text \<open>The largest and the smallest value in thousandths, the scale that follows a drop slowly, its rounding to tens, and the values cut to thousandths.\<close>

definition slow_max :: "f32 \<Rightarrow> f32 \<Rightarrow> f32 \<times> f32" where
  "slow_max m slow =
     (if m \<ge> slow then (m, m)
      else let sl = conv (conv slow - conv (slow - m) / of_i 3 :: f64) in (if sl \<ge> m then sl else m, sl))"

definition slow_min :: "f32 \<Rightarrow> f32 \<Rightarrow> f32 \<times> f32" where
  "slow_min m slow =
     (if m \<le> slow then (m, m)
      else let sl = conv (conv slow + conv (m - slow) / of_i 3 :: f64) in (if sl < m then sl else m, sl))"

definition milli_int :: "f32 \<Rightarrow> f32" where "milli_int x = of_i (f2i32 (conv x * of_i 1000 :: f64))"
definition by_thousand :: "f32 \<Rightarrow> f32" where "by_thousand x = conv (conv x / of_i 1000 :: f64)"

definition ten_above :: "f32 \<Rightarrow> f32" where
  "ten_above x = of_i (sint (word_of_int ((f2i32 (conv x / of_i 10 :: f64) + 1) * 10) :: u32))"

definition ten_below :: "f32 \<Rightarrow> f32" where
  "ten_below x = of_i (sint (word_of_int (f2i32 (conv x / of_i 10 :: f64) * 10) :: u32))"

definition trend_axis :: "stats \<Rightarrow> trend_view \<Rightarrow> stats \<times> trend_view" where
  "trend_axis s tv =
     (let hi = milli_int (st_maximum s); lo = milli_int (st_minimum s);
          (top, topSlow) = slow_max hi (visibleMaxSlow tv); (bottom, bottomSlow) = slow_min lo (visibleMinSlow tv);
          sp = hi - lo; adjust = conv (conv (of_i 100 - sp) / of_i 4 :: f64) :: f32;
          (top, bottom) = (if sp < of_i 100 then (top + adjust, bottom - adjust) else (top, bottom));
          top = by_thousand (ten_above top); bottom = by_thousand (ten_below bottom)
      in (s\<lparr>st_maximum := by_thousand hi, st_minimum := by_thousand lo\<rparr>,
          tv\<lparr>visibleMax := top, visibleMin := bottom, visibleMaxSlow := topSlow, visibleMinSlow := bottomSlow, uispan := top - bottom\<rparr>))"

section \<open>The picture of the trend\<close>

text \<open>The labels are those of the scale before it is adapted; the points run from the oldest value.\<close>

definition trend_labels :: "stats \<Rightarrow> trend_view \<Rightarrow> shown list list" where
  "trend_labels s tv =
     (let dist = (visibleMax tv - visibleMin tv) / of_i 10
      in map (\<lambda>i. renderValue (visibleMax tv - dist * of_i i) (st_type s)) [0, 2, 4, 6, 8, 10])"

definition trend_height :: "trend_view \<Rightarrow> f32 \<Rightarrow> f32" where
  "trend_height tv v = of_i 150 * ((visibleMax tv - v) / uispan tv)"

definition trend_columns :: "int \<Rightarrow> stats \<Rightarrow> (int \<times> nat) list" where
  "trend_columns x s =
     filter (\<lambda>p. st_value s ! snd p < undefinedValue)
       (takeWhile (\<lambda>p. fst p \<le> 800) (map (\<lambda>k. (100 + x + int k * 8, (nat (endPtr s) + k) mod MAX_FULL_SAMPLES)) [0..<MAX_FULL_SAMPLES]))"

definition trend_curve :: "int \<Rightarrow> int \<Rightarrow> stats \<Rightarrow> trend_view \<Rightarrow> (int \<times> f32) list" where
  "trend_curve x y s tv = map (\<lambda>(px, i). (px, of_i (y + 58) + trend_height tv (st_value s ! i))) (trend_columns x s)"

definition trend_extremes :: "int \<Rightarrow> int \<Rightarrow> stats \<Rightarrow> trend_view \<Rightarrow> (int \<times> f32 \<times> f32) list" where
  "trend_extremes x y s tv =
     map (\<lambda>(px, i). (px, of_i (y + 58) + trend_height tv (fst (valueExt s ! i)), of_i (y + 58) + trend_height tv (snd (valueExt s ! i)))) (trend_columns x s)"

text \<open>The function returns as soon as a column is right of the screen; then the extremes and the texts are missing.\<close>

definition trend_texts :: "stats \<Rightarrow> shown list" where
  "trend_texts s = renderValue (st_maximum s) (st_type s) @ renderValue (st_minimum s) (st_type s) @ [Txt ''Span noise''] @
     renderValue (st_maximum s - st_minimum s) (st_type s) @ [Txt ''Span signal''] @ renderValue (maximumMean s - minimumMean s) (st_type s)"

record trend_picture =
  tp_labels :: "shown list list"
  tp_curve :: "(int \<times> f32) list"
  tp_extremes :: "(int \<times> f32 \<times> f32) list"
  tp_texts :: "shown list"

definition renderTrend :: "bool \<Rightarrow> int \<Rightarrow> int \<Rightarrow> stats \<Rightarrow> trend_view \<Rightarrow> trend_picture \<times> stats \<times> trend_view" where
  "renderTrend limitDetails x y s0 tv0 =
     (let (s, tv) = trend_axis s0 tv0; labels = trend_labels s0 tv0; whole = 100 + x + 74 * 8 \<le> 800
      in (if limitDetails then \<lparr>tp_labels = labels, tp_curve = [], tp_extremes = [], tp_texts = []\<rparr>
          else \<lparr>tp_labels = labels, tp_curve = trend_curve x y s tv, tp_extremes = (if whole then trend_extremes x y s tv else []),
                 tp_texts = (if whole then trend_texts s else [])\<rparr>, s, tv))"

section \<open>The histogram counts every value once\<close>

text \<open>The relative error of single precision.\<close>

lemma rnd32_rel:
  assumes q: "\<bar>q\<bar> \<le> 16000000"
  shows "is_fin (rnd z q :: f32) \<and> \<bar>val (rnd z q :: f32) - q\<bar> \<le> \<bar>q\<bar> / 16777216 + 1 / 1000000000000"
proof -
  have f: "is_fin (rnd z q :: f32)" using rnd32_err(1) [of q 24 z] q by simp
  have err: "\<bar>val (rnd z q :: f32) - q\<bar> \<le> 2 powi (k - 25)" if "\<bar>q\<bar> < 2 powi k" "- 126 < k" for k
    using rndq_err [of 24 q k "- 126"] that by (simp add: rnd_val [OF f]) (simp add: prec_of_def emin_of_def)
  show ?thesis
  proof (cases "\<bar>q\<bar> < 2 powi (- 20)")
    case True
    then have "\<bar>val (rnd z q :: f32) - q\<bar> \<le> 2 powi (- 45)" using err [of "- 20"] by simp
    also have "(2 :: rat) powi (- 45) \<le> 1 / 1000000000000" by (simp add: power_int_def power_divide)
    also have "1 / 1000000000000 \<le> \<bar>q\<bar> / 16777216 + 1 / 1000000000000" by simp
    finally show ?thesis using f by simp
  next
    case False
    then have q0: "0 < \<bar>q\<bar>" "(2 :: rat) powi (- 20) \<le> \<bar>q\<bar>" using powi_gt0 [of "- 20"] by linarith+
    define k where "k = ilog2 \<bar>q\<bar>"
    have b: "2 powi k \<le> \<bar>q\<bar>" "\<bar>q\<bar> < 2 powi (k + 1)" using ilog2_bounds [OF q0(1)] by (simp_all add: k_def)
    have "- 126 < k + 1"
    proof (rule ccontr)
      assume "\<not> - 126 < k + 1"
      then have "(2 :: rat) powi (k + 1) \<le> 2 powi (- 20)" by (simp only: powi_le_iff)
      then show False using b(2) q0(2) by linarith
    qed
    from err [OF b(2) this] have "\<bar>val (rnd z q :: f32) - q\<bar> \<le> 2 powi (k + (- 24))" by simp
    also have "(2 :: rat) powi (k + (- 24)) = 2 powi k / 16777216" unfolding powi_add2 by (simp add: power_int_def power_divide)
    also have "\<dots> \<le> \<bar>q\<bar> / 16777216 + 1 / 1000000000000" using b(1) by simp
    finally show ?thesis using f by simp
  qed
qed

text \<open>A drawable state: the largest value is at least a picovolt above zero, and the values fit.\<close>

definition drawable :: "stats \<Rightarrow> bool" where
  "drawable s \<longleftrightarrow> is_fin (st_minimum s) \<and> is_fin (st_maximum s) \<and> \<bar>val (st_minimum s)\<bar> \<le> 1000000 \<and> val (st_maximum s) \<le> 1000000 \<and>
     1 / 1000000000 \<le> val (st_maximum s) \<and> val (st_minimum s) \<le> val (st_maximum s) \<and> repr_in TYPE(f32) (val (st_minimum s))"

lemma hist_limit_nth: "i < noOfBins \<Longrightarrow> hist_limits s ! i = st_minimum s + (st_maximum s - st_minimum s) / of_i 21 * of_i (int i)"
  "hist_limits s ! noOfBins = st_maximum s * of_i 2"
  by (simp_all add: hist_limits_def noOfBins_def Let_def nth_append)

text \<open>The limits are finite, they do not decrease, the first is the minimum and the last is above the maximum.\<close>

lemma three_roundings:
  fixes D S d e :: rat
  assumes "S - D \<le> D / 16777216 + 1 / 1000000000000" "d - S / 21 \<le> S / 21 / 16777216 + 1 / 1000000000000"
    "e - d * 20 \<le> d * 20 / 16777216 + 1 / 1000000000000" "0 \<le> D" "0 \<le> S" "0 \<le> d"
  shows "e \<le> D + 1 / 1000000000"
proof -
  have "S \<le> D + D / 1000 + 1 / 1000000000000" using assms(1,4) by simp
  moreover have "d \<le> S / 21 + S / 21000 + 1 / 1000000000000" using assms(2,5) by simp
  moreover have "e \<le> d * 20 + d * 20 / 1000 + 1 / 1000000000000" using assms(3,6) by simp
  ultimately show ?thesis using assms(4) by simp
qed

lemma hist_limits_fin:
  assumes "drawable s"
  shows "i \<le> noOfBins \<Longrightarrow> is_fin (hist_limits s ! i)" "i < noOfBins \<Longrightarrow> val (hist_limits s ! i) \<le> val (hist_limits s ! (i + 1))"
    "val (hist_limits s ! 0) = val (st_minimum s)" "val (st_maximum s) < val (hist_limits s ! noOfBins)"
proof -
  define a b where "a = val (st_minimum s)" and "b = val (st_maximum s)"
  have fin: "is_fin (st_minimum s)" "is_fin (st_maximum s)" and ab: "\<bar>a\<bar> \<le> 1000000" "b \<le> 1000000" "1 / 1000000000 \<le> b" "a \<le> b" "repr_in TYPE(f32) a"
    using assms by (simp_all add: drawable_def a_def b_def)
  have near: "is_fin (rnd z q :: f32) \<and> 0 \<le> val (rnd z q :: f32) \<and> val (rnd z q :: f32) \<le> of_int n \<and>
      \<bar>val (rnd z q :: f32) - q\<bar> \<le> q / 16777216 + 1 / 1000000000000" if "0 \<le> q" "q \<le> of_int n" "n \<le> 16000000" for q z n
  proof -
    have "of_int n \<le> (of_int 16000000 :: rat)" using that by (simp only: of_int_le_iff)
    moreover have "0 \<le> n" using that by (metis of_int_0_le_iff order_trans)
    ultimately show ?thesis using that rnd32_rel [of q z] rnd_between [of 0 "of_int n" q z, where 'p = 24] repr_in_f32_int [of 0] repr_in_f32_int [of n] by simp
  qed
  have c: "is_fin (of_i n :: f32) \<and> val (of_i n :: f32) = of_int n" if "0 \<le> n" "n \<le> 21" for n using that by simp
  define sp where "sp = st_maximum s - st_minimum s"
  have sp: "is_fin sp" "0 \<le> val sp" "val sp \<le> 2000000" "\<bar>val sp - (b - a)\<bar> \<le> (b - a) / 16777216 + 1 / 1000000000000"
    using near [of "b - a" 2000000] ab fin by (simp_all add: sp_def fin_sub a_def b_def)
  define d where "d = sp / of_i 21"
  have d: "is_fin d" "0 \<le> val d" "val d \<le> 100000" "\<bar>val d - val sp / 21\<bar> \<le> val sp / 21 / 16777216 + 1 / 1000000000000"
    using near [of "val sp / 21" 100000] sp c [of 21] by (simp_all add: d_def fin_div)
  define e where "e i = d * of_i (int i)" for i
  have e: "is_fin (e i)" "0 \<le> val (e i)" "val (e i) \<le> 2000000" "\<bar>val (e i) - val d * of_nat i\<bar> \<le> val d * of_nat i / 16777216 + 1 / 1000000000000" if "i \<le> 20" for i
  proof -
    have i: "of_nat i \<le> (20 :: rat)" using that by (simp add: of_nat_le_iff [of i 20, simplified])
    have "val d * of_nat i \<le> 100000 * 20" using d i by (intro mult_mono) simp_all
    then show "is_fin (e i)" "0 \<le> val (e i)" "val (e i) \<le> 2000000" "\<bar>val (e i) - val d * of_nat i\<bar> \<le> val d * of_nat i / 16777216 + 1 / 1000000000000"
      using near [of "val d * of_nat i" 2000000] d c [of "int i"] that by (simp_all add: e_def fin_mult)
  qed
  have mono: "val (e i) \<le> val (e (i + 1))" if "i < 20" for i
  proof -
    have m: "e j = rnd (sgnb d \<noteq> sgnb (of_i (int j) :: f32)) (val d * of_nat j)" if "j \<le> 20" for j
      using d(1) c [of "int j"] that by (simp add: e_def fin_mult)
    have "val d * of_nat i \<le> val d * of_nat (i + 1)" using d(2) by (intro mult_left_mono) simp_all
    then show ?thesis using rnd_mono e(1) [of i] e(1) [of "i + 1"] m [of i] m [of "i + 1"] that
      by (metis Suc_eq_plus1 less_eq_Suc_le less_imp_le_nat)
  qed
  have l: "hist_limits s ! i = rnd (st_minimum s = NegZero \<and> e i = NegZero) (a + val (e i))" if "i < noOfBins" for i
    using that e(1) [of i] fin by (simp only: hist_limit_nth sp_def [symmetric] d_def [symmetric] e_def [symmetric])
      (simp add: fin_add a_def noOfBins_def)
  have l21: "hist_limits s ! noOfBins = rnd (sgnb (st_maximum s) \<noteq> sgnb (of_i 2 :: f32)) (b * 2)"
    using fin c [of 2] by (simp add: hist_limit_nth fin_mult b_def)
  have top: "a + val (e 20) \<le> b * 2"
  proof -
    have "val sp - (b - a) \<le> (b - a) / 16777216 + 1 / 1000000000000" "val d - val sp / 21 \<le> val sp / 21 / 16777216 + 1 / 1000000000000"
      "val (e 20) - val d * 20 \<le> val d * 20 / 16777216 + 1 / 1000000000000" using sp(4) d(4) e(4) [of 20] by (simp_all add: abs_le_iff)
    from three_roundings [OF this] have "val (e 20) \<le> (b - a) + 1 / 1000000000" using sp(2) d(2) ab(4) by simp
    then show ?thesis using ab(3) by linarith
  qed
  have f: "is_fin (hist_limits s ! i)" if "i \<le> noOfBins" for i
  proof (cases "i = noOfBins")
    case True
    then show ?thesis using rnd32_rel [of "b * 2"] ab by (simp add: l21)
  next
    case False
    then have i: "i < noOfBins" using that by simp
    then have "\<bar>a + val (e i)\<bar> \<le> 3000000" using e(2,3) [of i] ab by (simp add: noOfBins_def abs_le_iff)
    then show ?thesis using rnd32_rel [of "a + val (e i)"] by (simp add: l [OF i])
  qed
  then show "i \<le> noOfBins \<Longrightarrow> is_fin (hist_limits s ! i)" .
  show "val (hist_limits s ! i) \<le> val (hist_limits s ! (i + 1))" if "i < noOfBins"
  proof (cases "i + 1 = noOfBins")
    case True
    then have "i = 20" by (simp add: noOfBins_def)
    then show ?thesis using rnd_mono [OF _ _ top] f [of 20] f [of noOfBins] l [of 20] l21 unfolding True by (simp add: noOfBins_def)
  next
    case False
    then have i: "i + 1 < noOfBins" using that by simp
    then have "a + val (e i) \<le> a + val (e (i + 1))" using mono [of i] by (simp add: noOfBins_def)
    then show ?thesis using rnd_mono f [of i] f [of "i + 1"] l [of i] l [OF i] i that by (metis less_imp_le)
  qed
  have "e 0 = rnd (sgnb d \<noteq> sgnb (of_i 0 :: f32)) 0" using d(1) c [of 0] by (simp add: e_def fin_mult)
  then have "val (e 0) = 0" using rnd_exact [of "of_int 0 :: rat", where 'p = 24] repr_in_f32_int [of 0] by simp
  then show "val (hist_limits s ! 0) = val (st_minimum s)" using rnd_exact [OF ab(5)] l [of 0] by (simp add: noOfBins_def a_def)
  have "\<bar>b * 2\<bar> = b * 2" using ab by simp
  then show "val (st_maximum s) < val (hist_limits s ! noOfBins)"
    using rnd32_rel [of "b * 2" "sgnb (st_maximum s) \<noteq> sgnb (of_i 2 :: f32)"] ab l21 by (simp add: b_def [symmetric] abs_le_iff)
qed

definition in_bin :: "f32 list \<Rightarrow> f32 \<Rightarrow> nat \<Rightarrow> bool" where "in_bin ls v i \<longleftrightarrow> \<not> feq v undefinedValue \<and> ls ! i \<le> v \<and> v < ls ! (i + 1)"

definition bin_count :: "f32 list \<Rightarrow> f32 list \<Rightarrow> nat \<Rightarrow> nat" where "bin_count ls vs i = length (filter (\<lambda>v. in_bin ls v i) vs)"

lemma fst_hist_bin:
  "fst (hist_bin ls v i bm) = (if ls ! i \<le> v \<and> v < ls ! (i + 1) then (fst bm)[i := fst bm ! i + of_i 1] else fst bm)"
  by (cases bm) (simp add: hist_bin_def Let_def)

lemma hist_value_bins:
  assumes "length bins = noOfBins"
  shows "fst (hist_value ls v (bins, m)) = map (\<lambda>i. if in_bin ls v i then bins ! i + of_i 1 else bins ! i) [0..<noOfBins]"
proof (cases "feq v undefinedValue")
  case False
  have "n \<le> noOfBins \<Longrightarrow> fst (fold (hist_bin ls v) [0..<n] (bins, m)) =
      map (\<lambda>i. if in_bin ls v i then bins ! i + of_i 1 else bins ! i) [0..<n] @ drop n bins" for n
  proof (induction n)
    case (Suc n)
    let ?done = "map (\<lambda>i. if in_bin ls v i then bins ! i + of_i 1 else bins ! i) [0..<n]"
    have "(?done @ drop n bins) ! n = bins ! n" "drop n bins = bins ! n # drop (Suc n) bins"
      using Suc.prems assms by (simp_all add: nth_append Cons_nth_drop_Suc)
    moreover have "(?done @ bins ! n # r)[n := z] = ?done @ z # r" for z r by (simp add: list_update_append)
    ultimately show ?case using Suc False by (simp add: fst_hist_bin) (auto simp: in_bin_def)
  qed simp
  from this [of noOfBins] show ?thesis using assms False by (simp add: hist_value_def)
qed (use assms in \<open>auto simp: hist_value_def in_bin_def intro: nth_equalityI\<close>)

lemma of_i_Suc: "int n < 16777216 \<Longrightarrow> (of_i (int n) :: f32) + of_i 1 = of_i (int (Suc n))"
proof -
  assume "int n < 16777216"
  moreover have "(of_i 1 :: f32) = Fin 1" by code_simp
  ultimately show ?thesis by (simp add: fin_add) (simp add: of_i_def add.commute)
qed

lemma histogram_counts:
  "length vs < 16777216 \<Longrightarrow> length ns = noOfBins \<Longrightarrow> (\<And>i. i < noOfBins \<Longrightarrow> ns ! i + length vs < 16777216) \<Longrightarrow>
   fst (fold (hist_value ls) vs (map (\<lambda>n. of_i (int n)) ns, m)) = map (\<lambda>i. of_i (int (ns ! i + bin_count ls vs i))) [0..<noOfBins]"
proof (induction vs arbitrary: ns m)
  case Nil
  then show ?case by (auto simp: bin_count_def intro: nth_equalityI)
next
  case (Cons v vs)
  define ks where "ks = map (\<lambda>i. if in_bin ls v i then Suc (ns ! i) else ns ! i) [0..<noOfBins]"
  obtain bs m1 where h: "hist_value ls v (map (\<lambda>n. of_i (int n)) ns, m) = (bs, m1)" by fastforce
  have "bs = map (\<lambda>i. if in_bin ls v i then map (\<lambda>n. of_i (int n)) ns ! i + of_i 1 else map (\<lambda>n. of_i (int n)) ns ! i) [0..<noOfBins]"
    using hist_value_bins [of "map (\<lambda>n. of_i (int n)) ns" ls v m] Cons.prems(2) by (simp add: h)
  also have "\<dots> = map (\<lambda>n. of_i (int n)) ks"
  proof -
    have "of_i (int (ns ! i)) + of_i 1 = (of_i (int (Suc (ns ! i))) :: f32)" if "i < noOfBins" for i
      using Cons.prems(3) [OF that] by (intro of_i_Suc) simp
    then show ?thesis using Cons.prems(2) by (auto simp: ks_def simp del: of_nat_Suc)
  qed
  finally have bs: "bs = map (\<lambda>n. of_i (int n)) ks" .
  have "fst (fold (hist_value ls) vs (bs, m1)) = map (\<lambda>i. of_i (int (ks ! i + bin_count ls vs i))) [0..<noOfBins]"
    unfolding bs
  proof (rule Cons.IH)
    show "ks ! i + length vs < 16777216" if "i < noOfBins" for i using Cons.prems(3) [OF that] that by (simp add: ks_def)
  qed (use Cons.prems in \<open>simp_all add: ks_def\<close>)
  then show ?case using Cons.prems(2) by (simp add: h) (auto simp: ks_def bin_count_def add_ac)
qed

lemma one_bin:
  assumes "drawable s" "is_fin v" "val (st_minimum s) \<le> val v" "val v \<le> val (st_maximum s)" "\<not> feq v undefinedValue"
  shows "length (filter (in_bin (hist_limits s) v) [0..<noOfBins]) = 1"
proof -
  let ?l = "\<lambda>i. val (hist_limits s ! i)"
  have b: "in_bin (hist_limits s) v i \<longleftrightarrow> ?l i \<le> val v \<and> \<not> ?l (i + 1) \<le> val v" if "i < noOfBins" for i
    using hist_limits_fin(1) [OF assms(1), of i] hist_limits_fin(1) [OF assms(1), of "i + 1"] that assms(2,5) by (auto simp: in_bin_def fin_less_eq fin_less)
  have "int (length (filter (in_bin (hist_limits s) v) [0..<n])) = of_bool (?l 0 \<le> val v) - of_bool (?l n \<le> val v)" if "n \<le> noOfBins" for n
    using that
  proof (induction n)
    case (Suc n)
    then have "?l n \<le> ?l (n + 1)" using hist_limits_fin(2) [OF assms(1)] by simp
    then show ?case using Suc b [of n] by auto
  qed simp
  from this [of noOfBins] show ?thesis using hist_limits_fin(3,4) [OF assms(1)] assms(3,4) by simp
qed

text \<open>C20: the histogram counts every value once: when the largest value is positive, every value of the trend that is defined and lies between the smallest and the largest
  is counted in exactly one bin, the one whose limits it lies between, so that the bins add up to the number of defined values.\<close>

theorem histogram_counts_each_value:
  assumes "drawable s" and "length (st_value s) = MAX_FULL_SAMPLES"
    and "\<forall>v \<in> set (st_value s). feq v undefinedValue \<or> is_fin v \<and> val (st_minimum s) \<le> val v \<and> val v \<le> val (st_maximum s)"
  shows "fst (histogram s) = map (\<lambda>i. of_i (int (bin_count (hist_limits s) (st_value s) i))) [0..<noOfBins] \<and>
    sum_list (map (bin_count (hist_limits s) (st_value s)) [0..<noOfBins]) = length (filter (\<lambda>v. \<not> feq v undefinedValue) (st_value s))"
proof -
  have "replicate noOfBins (of_i 0 :: f32) = map (\<lambda>n. of_i (int n)) (replicate noOfBins 0)" by simp
  then have "fst (histogram s) = map (\<lambda>i. of_i (int (bin_count (hist_limits s) (st_value s) i))) [0..<noOfBins]"
    using histogram_counts [of "st_value s" "replicate noOfBins 0"] assms(2) by (simp add: histogram_def MAX_FULL_SAMPLES_def cong: map_cong)
  moreover have "sum_list (map (bin_count (hist_limits s) vs) [0..<noOfBins]) = length (filter (\<lambda>v. \<not> feq v undefinedValue) vs)"
    if "\<forall>v \<in> set vs. feq v undefinedValue \<or> is_fin v \<and> val (st_minimum s) \<le> val v \<and> val v \<le> val (st_maximum s)" for vs
    using that
  proof (induction vs)
    case (Cons v vs)
    have "sum_list (map (bin_count (hist_limits s) (v # vs)) ks) =
        length (filter (in_bin (hist_limits s) v) ks) + sum_list (map (bin_count (hist_limits s) vs) ks)" for ks
      by (induction ks) (auto simp: bin_count_def)
    moreover have "length (filter (in_bin (hist_limits s) v) [0..<noOfBins]) = (if feq v undefinedValue then 0 else 1)"
      using one_bin [OF assms(1), of v] Cons.prems by (auto simp: in_bin_def)
    ultimately show ?case using Cons by simp
  qed (simp add: bin_count_def)
  ultimately show ?thesis using assms(3) by simp
qed

definition hist_sample :: "f32 \<Rightarrow> f32 \<Rightarrow> stats" where
  "hist_sample a b = stats_sample\<lparr>st_minimum := a, st_maximum := b, st_value := a # b # replicate 73 undefinedValue\<rparr>"

lemma undefined_marked: "feq undefinedValue undefinedValue" by code_simp

theorem histogram_counts_each_value_witness:
  "fst (histogram (hist_sample (Fin 1) (Fin 2))) =
     map (\<lambda>i. of_i (int (bin_count (hist_limits (hist_sample (Fin 1) (Fin 2))) (st_value (hist_sample (Fin 1) (Fin 2))) i))) [0..<noOfBins] \<and>
   sum_list (map (bin_count (hist_limits (hist_sample (Fin 1) (Fin 2))) (st_value (hist_sample (Fin 1) (Fin 2)))) [0..<noOfBins]) = 2"
proof -
  have "\<not> feq (Fin 1 :: f32) undefinedValue" "\<not> feq (Fin 2 :: f32) undefinedValue" by code_simp+
  then have "length (filter (\<lambda>v. \<not> feq v undefinedValue) (st_value (hist_sample (Fin 1) (Fin 2)))) = 2"
    by (simp add: hist_sample_def undefined_marked)
  moreover have "drawable (hist_sample (Fin 1) (Fin 2))"
    using repr_in_f32_int [of 1] by (simp add: drawable_def hist_sample_def)
  ultimately show ?thesis
    using histogram_counts_each_value [of "hist_sample (Fin 1) (Fin 2)"] by (simp add: hist_sample_def MAX_FULL_SAMPLES_def undefined_marked)
qed

text \<open>With a negative maximum the last limit, twice the maximum, is below the values: the largest ones are in no bin.\<close>

lemma histogram_loses_negative: "fst (histogram (hist_sample (Fin (- 2)) (Fin (- 1)))) = of_i 1 # replicate 20 (of_i 0)"
  by code_simp

section \<open>The scale encloses the largest value\<close>

lemma f2i32_mono: "a \<le> b \<Longrightarrow> f2i32 a \<le> f2i32 b"
proof -
  assume "a \<le> b"
  then show ?thesis
    by (cases rule: flt_le_cases) (auto simp: f2i32_def f2i_def split: flt.split dest: trunc_mono)
qed

lemma by_thousand_mono: "a \<le> b \<Longrightarrow> by_thousand a \<le> by_thousand b"
  unfolding by_thousand_def by (intro conv_mono fdiv_mono) simp_all

text \<open>Values below 500 V: in thousandths a number of single precision below \<open>2 ^ 29\<close>.\<close>

lemma rnd_repr:
  assumes "is_fin (rnd z q :: f32)" "\<bar>val (rnd z q :: f32)\<bar> \<le> 2147483648"
  shows "repr_in TYPE(f32) (val (rnd z q :: f32))"
proof -
  have "representable (prec_of TYPE(f32)) (emin_of TYPE(f32)) (val (rnd z q :: f32))"
    using rndq_is_repr [OF prec_ge1 [of "TYPE(f32)"]] assms(1) by (simp add: rnd_val)
  moreover have "(2147483648 :: rat) < 2 powi (emax_of TYPE(f32) + 1)" by (simp add: emax_of_def emin_of_def power_int_def)
  ultimately show ?thesis using assms(2) by (simp add: repr_in_def)
qed

lemma milli_int_fin:
  assumes "is_fin x" "\<bar>val x\<bar> \<le> 500000"
  shows "is_fin (milli_int x)" "\<bar>val (milli_int x)\<bar> \<le> 536870912" "repr_in TYPE(f32) (val (milli_int x))"
proof -
  define y where "y = (conv x * of_i 1000 :: f64)"
  define k where "k = f2i32 y"
  have p: "repr_in TYPE(f64) 500000" "repr_in TYPE(f64) (- 500000)" "repr_in TYPE(f64) 500000000" "repr_in TYPE(f64) (- 500000000)"
    using repr_in_f64_int [of 500000] repr_in_f64_int [of "- 500000"] repr_in_f64_int [of 500000000] repr_in_f64_int [of "- 500000000"] by simp_all
  have c: "is_fin (conv x :: f64)" "- 500000 \<le> val (conv x :: f64)" "val (conv x :: f64) \<le> 500000"
    using rnd_between [OF p(2,1), of "val x"] assms by (simp_all add: fin_conv abs_le_iff)
  have y: "is_fin y" "- 500000000 \<le> val y" "val y \<le> 500000000" using rnd_between [OF p(4,3), of "val (conv x :: f64) * 1000"] c
    by (simp_all add: y_def fin_mult)
  have "- 500000000 \<le> trunc (val y)" "trunc (val y) \<le> 500000000"
    using trunc_mono [OF y(2)] trunc_mono [OF y(3)] trunc_of_int [of 500000000] trunc_of_int [of "- 500000000"] by simp_all
  then have k: "- 500000000 \<le> k" "k \<le> 500000000" using y(1) by (cases y; simp add: k_def f2i32_def f2i_def)+
  then have "(of_int (- 536870912) :: rat) \<le> of_int k" "(of_int k :: rat) \<le> of_int 536870912" by (simp_all only: of_int_le_iff)
  moreover have m: "milli_int x = rnd False (of_int k)" by (simp only: milli_int_def k_def y_def of_i_def)
  ultimately have b: "is_fin (milli_int x)" "\<bar>val (milli_int x)\<bar> \<le> 536870912"
    using rnd_between [of "- 536870912" 536870912 "of_int k" False, where 'p = 24] repr_in_powi(1) [of 29] repr_in_uminus [of "TYPE(f32)" 536870912]
    by (simp_all add: abs_le_iff)
  then show "is_fin (milli_int x)" "\<bar>val (milli_int x)\<bar> \<le> 536870912" .
  show "repr_in TYPE(f32) (val (milli_int x))" unfolding m by (rule rnd_repr) (use b in \<open>simp_all add: m\<close>)
qed

text \<open>Rounding up to the next ten: the next whole number of tens is not below.\<close>

lemma next_ten:
  assumes "is_fin (h :: f32)" "\<bar>val h\<bar> \<le> 2147483648" "h \<le> x"
  shows "val h \<le> of_int ((f2i32 (conv x / of_i 10 :: f64) + 1) * 10)"
proof -
  define g where "g = (conv h :: f64)"
  define r where "r = g / of_i 10"
  have p: "repr_in TYPE(f64) 2147483648" "repr_in TYPE(f64) (- 2147483648)" using repr_in_f64_int [of 2147483648] repr_in_f64_int [of "- 2147483648"] by simp_all
  have g: "is_fin g" "- 2147483648 \<le> val g" "val g \<le> 2147483648" using rnd_between [OF p(2,1), of "val h"] assms(1,2)
    by (simp_all add: g_def fin_conv abs_le_iff)
  have "repr_in TYPE(f64) 300000000" "repr_in TYPE(f64) (- 300000000)" using repr_in_f64_int [of 300000000] repr_in_f64_int [of "- 300000000"] by simp_all
  from rnd_between [OF this(2,1), of "val g / 10"] have r: "is_fin r" "- 300000000 \<le> val r" "val r \<le> 300000000" "r = rnd (sgnb g \<noteq> sgnb (of_i 10 :: f64)) (val g / 10)"
    using g by (simp_all add: r_def fin_div)
  have tr: "- 300000000 \<le> trunc (val r)" "trunc (val r) \<le> 300000000" using trunc_mono [OF r(2)] trunc_mono [OF r(3)] trunc_of_int [of 300000000] trunc_of_int [of "- 300000000"] by simp_all
  define n where "n = trunc (val r) + 1"
  have n: "val r < of_int n" "\<bar>n\<bar> \<le> 2147483649" using tr by (auto simp: n_def trunc_def) linarith+
  have "val h \<le> of_int (n * 10)"
  proof (rule ccontr)
    assume "\<not> val h \<le> of_int (n * 10)"
    then have "of_int (n * 10) \<le> val h" by simp
    moreover have whole: "is_fin (rnd False (of_int m) :: f64)" "val (rnd False (of_int m) :: f64) = of_int m" if "\<bar>m\<bar> \<le> 9007199254740992" for m
      using rnd_exact [OF repr_in_f64_int [OF that]] by simp_all
    moreover have "g = rnd (h = NegZero) (val h)" using assms(1) by (simp add: g_def fin_conv)
    ultimately have "of_int (n * 10) \<le> val g"
      using rnd_mono [of False "of_int (n * 10)" "h = NegZero" "val h", where 'p = 53] whole [of "n * 10"] g(1) n(2) by simp
    then have "of_int n \<le> val g / 10" by simp
    then have "of_int n \<le> val r"
      using rnd_mono [of False "of_int n" "sgnb g \<noteq> sgnb (of_i 10 :: f64)" "val g / 10", where 'p = 53] whole [of n] r(1,4) n(2) by simp
    then show False using n(1) by simp
  qed
  moreover have "n * 10 \<le> (f2i32 (conv x / of_i 10 :: f64) + 1) * 10"
  proof -
    have "trunc (val r) \<le> f2i32 r"
      using r(1) tr by (cases r) (simp_all add: f2i32_def f2i_def)
    also have "f2i32 r \<le> f2i32 (conv x / of_i 10 :: f64)" unfolding r_def g_def by (intro f2i32_mono fdiv_mono conv_mono assms(3)) simp_all
    finally show ?thesis by (simp add: n_def)
  qed
  ultimately show ?thesis by (meson of_int_le_iff order_trans)
qed

lemma powers_repr:
  "repr_in TYPE(f32) 0" "repr_in TYPE(f32) 536870912" "repr_in TYPE(f32) 1073741824" "repr_in TYPE(f32) 2147483648" "repr_in TYPE(f32) (- 536870912)"
  "repr_in TYPE(f32) (- 1073741824)" "repr_in TYPE(f32) (- 2147483648)"
  "repr_in TYPE(f64) 0" "repr_in TYPE(f64) 536870912" "repr_in TYPE(f64) 1073741824" "repr_in TYPE(f64) 2147483648" "repr_in TYPE(f64) (- 536870912)"
  "repr_in TYPE(f64) (- 1073741824)" "repr_in TYPE(f64) (- 2147483648)"
  using repr_in_f32_int [of 0] repr_in_powi(1) [of 29] repr_in_powi(1) [of 30] repr_in_powi(1) [of 31]
    repr_in_f64_int [of 0] repr_in_powi(2) [of 29] repr_in_powi(2) [of 30] repr_in_powi(2) [of 31]
  by (simp_all add: repr_in_uminus)

lemma slow_max_bounds:
  assumes "is_fin m" "\<bar>val m\<bar> \<le> 536870912" "is_fin slow" "val slow \<le> 536870912"
  shows "m \<le> fst (slow_max m slow) \<and> is_fin (fst (slow_max m slow)) \<and> val (fst (slow_max m slow)) \<le> 536870912"
proof (cases "slow \<le> m")
  case False
  then have less: "val m < val slow" using assms by (simp add: fin_less_eq)
  have b: "- 536870912 \<le> val m" "- 536870912 \<le> val slow" using assms(2) less by (simp_all add: abs_le_iff)
  define e where "e = slow - m"
  have e: "is_fin e" "0 \<le> val e" "val e \<le> 1073741824"
    using rnd_between [OF powers_repr(1,3), of "val slow - val m"] assms less b by (simp_all add: e_def fin_sub)
  define c where "c = (conv e :: f64)"
  have c: "is_fin c" "0 \<le> val c" "val c \<le> 1073741824" using rnd_between [OF powers_repr(8,10), of "val e"] e by (simp_all add: c_def fin_conv)
  define q where "q = c / of_i 3"
  have q: "is_fin q" "0 \<le> val q" "val q \<le> 1073741824" using rnd_between [OF powers_repr(8,10), of "val c / 3"] c by (simp_all add: q_def fin_div)
  define s where "s = (conv slow :: f64)"
  have s: "is_fin s" "- 536870912 \<le> val s" "val s \<le> 536870912" using rnd_between [OF powers_repr(12,9), of "val slow"] assms b by (simp_all add: s_def fin_conv)
  define r where "r = s - q"
  have r: "is_fin r" "- 2147483648 \<le> val r" "val r \<le> 536870912" using rnd_between [OF powers_repr(14,9), of "val s - val q"] s q by (simp_all add: r_def fin_sub)
  have "is_fin (conv r :: f32) \<and> val (conv r :: f32) \<le> 536870912" using rnd_between [OF powers_repr(7,2), of "val r"] r by (simp add: fin_conv)
  then show ?thesis using False assms(1,2)
    by (simp add: slow_max_def e_def [symmetric] c_def [symmetric] q_def [symmetric] s_def [symmetric] r_def [symmetric] Let_def fin_less_eq abs_le_iff)
qed (use assms in \<open>simp add: slow_max_def fin_less_eq abs_le_iff\<close>)

text \<open>The widening of a small span.\<close>

lemma adjust_bounds:
  assumes "is_fin (sp :: f32)" "- 1073741824 \<le> val sp" "sp < of_i 100"
  shows "is_fin (conv (conv (of_i 100 - sp) / of_i 4 :: f64) :: f32) \<and> 0 \<le> val (conv (conv (of_i 100 - sp) / of_i 4 :: f64) :: f32) \<and>
    val (conv (conv (of_i 100 - sp) / of_i 4 :: f64) :: f32) \<le> 536870912"
proof -
  have less: "val sp < 100" using assms(1,3) by (simp add: fin_less)
  define e where "e = of_i 100 - sp"
  have e: "is_fin e" "0 \<le> val e" "val e \<le> 2147483648"
    using rnd_between [OF powers_repr(1,4), of "100 - val sp"] assms less by (simp_all add: e_def fin_sub)
  define c where "c = (conv e :: f64)"
  have c: "is_fin c" "0 \<le> val c" "val c \<le> 2147483648" using rnd_between [OF powers_repr(8,11), of "val e"] e by (simp_all add: c_def fin_conv)
  define q where "q = c / of_i 4"
  have q: "is_fin q" "0 \<le> val q" "val q \<le> 536870912" using rnd_between [OF powers_repr(8,9), of "val c / 4"] c by (simp_all add: q_def fin_div)
  have "is_fin (conv q :: f32) \<and> 0 \<le> val (conv q :: f32) \<and> val (conv q :: f32) \<le> 536870912"
    using rnd_between [OF powers_repr(1,2), of "val q"] q by (simp add: fin_conv)
  then show ?thesis unfolding q_def c_def e_def .
qed

lemma sint_in_range: "- 2147483648 \<le> z \<Longrightarrow> z < 2147483648 \<Longrightarrow> sint (word_of_int z :: u32) = z"
  by (simp add: sint_sbintrunc' signed_take_bit_int_eq_self)

lemma ten_above_ge:
  assumes "is_fin h" "\<bar>val h\<bar> \<le> 536870912" "repr_in TYPE(f32) (val h)" "h \<le> x" "is_fin x" "val x \<le> 1073741824"
  shows "h \<le> ten_above x"
proof -
  define t where "t = f2i32 (conv x / of_i 10 :: f64)"
  have x: "- 536870912 \<le> val x" using assms(1,2,4,5) by (simp add: fin_less_eq abs_le_iff)
  have c: "is_fin (conv x :: f64)" "- 536870912 \<le> val (conv x :: f64)" "val (conv x :: f64) \<le> 1073741824"
    using rnd_between [OF powers_repr(12,10), of "val x"] assms(5,6) x by (simp_all add: fin_conv)
  have p: "repr_in TYPE(f64) 107374183" "repr_in TYPE(f64) (- 107374183)" using repr_in_f64_int [of 107374183] repr_in_f64_int [of "- 107374183"] by simp_all
  define r where "r = (conv x / of_i 10 :: f64)"
  have r: "is_fin r" "- 107374183 \<le> val r" "val r \<le> 107374183"
    using rnd_between [OF p(2,1), of "val (conv x :: f64) / 10"] c by (simp_all add: r_def fin_div)
  have "- 107374183 \<le> trunc (val r)" "trunc (val r) \<le> 107374183"
    using trunc_mono [OF r(2)] trunc_mono [OF r(3)] trunc_of_int [of 107374183] trunc_of_int [of "- 107374183"] by simp_all
  then have "- 107374183 \<le> t" "t \<le> 107374183" using r(1) by (cases r; simp add: t_def r_def [symmetric] f2i32_def f2i_def)+
  then have "sint (word_of_int ((t + 1) * 10) :: u32) = (t + 1) * 10" by (intro sint_in_range) simp_all
  then have "ten_above x = of_i ((t + 1) * 10)" by (simp only: ten_above_def t_def [symmetric])
  then have "ten_above x = rnd False (of_int ((t + 1) * 10))" by (simp only: of_i_def)
  moreover have "val h \<le> of_int ((t + 1) * 10)" unfolding t_def by (rule next_ten) (use assms(1,2,4) in simp_all)
  ultimately have "rnd False (val h) \<le> ten_above x" by (simp only: rnd_le)
  moreover have "h \<le> rnd False (val h)" using rnd_exact [OF assms(3)] assms(1) by (simp add: fin_less_eq)
  ultimately show ?thesis by (rule flt_le_trans [rotated])
qed

text \<open>The values of the trend are below 500 V or A, and the slow end of the scale is one of such values.\<close>

definition scalable :: "stats \<Rightarrow> trend_view \<Rightarrow> bool" where
  "scalable s tv \<longleftrightarrow> is_fin (st_maximum s) \<and> \<bar>val (st_maximum s)\<bar> \<le> 500000 \<and> is_fin (st_minimum s) \<and> \<bar>val (st_minimum s)\<bar> \<le> 500000 \<and>
     is_fin (visibleMaxSlow tv) \<and> val (visibleMaxSlow tv) \<le> 536870912"

text \<open>C21: the scale of the trend always has room for the largest value: for values below 500 V, whatever the scale was before, after it has been adapted, widened to its smallest span and rounded, its
  upper end is not below the largest value that is shown.\<close>

theorem trend_scale_encloses_maximum:
  assumes "scalable s tv"
  shows "st_maximum (fst (trend_axis s tv)) \<le> visibleMax (snd (trend_axis s tv))"
proof -
  define hi lo where "hi = milli_int (st_maximum s)" and "lo = milli_int (st_minimum s)"
  define top where "top = fst (slow_max hi (visibleMaxSlow tv))"
  define sp where "sp = hi - lo"
  define adjust where "adjust = (conv (conv (of_i 100 - sp) / of_i 4 :: f64) :: f32)"
  define top1 where "top1 = (if sp < of_i 100 then top + adjust else top)"
  have hi: "is_fin hi" "\<bar>val hi\<bar> \<le> 536870912" "repr_in TYPE(f32) (val hi)"
    unfolding hi_def by (rule milli_int_fin; use assms in \<open>simp add: scalable_def\<close>)+
  have lo: "is_fin lo" "\<bar>val lo\<bar> \<le> 536870912"
    unfolding lo_def by (rule milli_int_fin; use assms in \<open>simp add: scalable_def\<close>)+
  have top: "hi \<le> top" "is_fin top" "val top \<le> 536870912"
    using slow_max_bounds [OF hi(1,2)] assms by (simp_all add: top_def scalable_def)
  have top1: "hi \<le> top1 \<and> is_fin top1 \<and> val top1 \<le> 1073741824"
  proof (cases "sp < of_i 100")
    case True
    have "- 1073741824 \<le> val hi - val lo" "val hi - val lo \<le> 1073741824" using hi(2) lo(2) by (simp_all add: abs_le_iff)
    then have "is_fin sp" "- 1073741824 \<le> val sp" using rnd_between [OF powers_repr(6,3), of "val hi - val lo"] hi(1) lo(1) by (simp_all add: sp_def fin_sub)
    from adjust_bounds [OF this True] have adj: "is_fin adjust" "0 \<le> val adjust" "val adjust \<le> 536870912" by (simp_all add: adjust_def)
    have "val hi \<le> val top" using top hi(1) by (simp add: fin_less_eq)
    then show ?thesis using rnd_between [OF hi(3) powers_repr(3), of "val top + val adjust"] adj top hi(1) True
      by (simp add: top1_def fin_add fin_less_eq)
  qed (use top in \<open>simp add: top1_def\<close>)
  have "hi \<le> ten_above top1" using ten_above_ge [OF hi] top1 by simp
  then have "by_thousand hi \<le> by_thousand (ten_above top1)" by (rule by_thousand_mono)
  moreover obtain topSlow bottom bottomSlow where "slow_max hi (visibleMaxSlow tv) = (top, topSlow)" "slow_min lo (visibleMinSlow tv) = (bottom, bottomSlow)"
    by (metis prod.collapse top_def)
  ultimately show ?thesis
    by (cases "sp < of_i 100") (simp_all add: trend_axis_def Let_def hi_def [symmetric] lo_def [symmetric] sp_def [symmetric] adjust_def [symmetric] top1_def)
qed

definition trend_sample :: stats where "trend_sample = hist_sample (Fin 1) (Fin 2)"

theorem trend_scale_encloses_maximum_witness:
  "st_maximum (fst (trend_axis trend_sample trend_view_initial)) \<le> visibleMax (snd (trend_axis trend_sample trend_view_initial))"
  by (rule trend_scale_encloses_maximum) (simp add: scalable_def trend_sample_def hist_sample_def trend_view_initial_def stats_consts)

text \<open>At the lower end the cut to tens goes the wrong way for negative values: the smallest value is drawn below the scale.\<close>

lemma scale_loses_negative_minimum:
  assumes "st_minimum s = Fin (- 5005 / 1000)" "st_maximum s = Fin 1" "visibleMinSlow tv = undefinedValue"
  shows "st_minimum (fst (trend_axis s tv)) < visibleMin (snd (trend_axis s tv))"
proof -
  have v: "milli_int (Fin (- 5005 / 1000)) = Fin (- 5005)" "milli_int (Fin 1) = Fin 1000" "slow_min (Fin (- 5005)) undefinedValue = (Fin (- 5005), Fin (- 5005))"
    "\<not> Fin 1000 - Fin (- 5005) < (of_i 100 :: f32)" "by_thousand (Fin (- 5005)) < by_thousand (ten_below (Fin (- 5005)))"
    by code_simp+
  obtain top slow where "slow_max (Fin 1000) (visibleMaxSlow tv) = (top, slow)" by fastforce
  with v assms show ?thesis by (simp add: trend_axis_def Let_def)
qed

end
