(* ===== verification/Spec2Isabelle.thy ===== *)
theory Spec2Isabelle
  imports Hals ZeroCal Sweep Pulse Digitizer Stats Filters Logger Fan Knobs UIButton Menu Settings DialLaws CalOps Touch Commands Display Ada4254 Encoder Trend
begin

text \<open>
  A verification library for the firmware of Poor Man's SMU (src/src/*.cpp), a source measure unit:
  a precision voltage or current source with a limit, that measures what it sources.

  \<^bold>\<open>The parts and how they interact.\<close>  The main program (Poormanssmu.cpp) runs passes of a loop, between which interrupts sample the
  converter or drive pulses.  A pass first runs the commands that have come in over the network; then it reads the touch screen, the push buttons and
  the knob, and lets the function in use (voltage source, current source, pulse, digitizer, sweep, logger, null calibration, the two
  calibrations, settings) and its dialogs act.  All of it works on the unit through the hardware abstraction layer
  (SMU_HAL.h, implemented by SMU_HAL_717x.cpp on the chips and by SMU_HAL_dummy.cpp as a simulator).  A reading goes through the calibration
  (Calibration.cpp), the filters (Filters.cpp), the statistics (Stats.cpp, SimpleStats.cpp) and the log (RamClass.cpp, Logger.cpp).  A set value is
  turned into codes of the LTC2758 converters (LTC2758.cpp); readings come from the AD7176 (AD7176.cpp, AD7176_Comm.cpp).

  \<^bold>\<open>Theories, from the machine upwards.\<close>
  \<^item> Prelude: the machine types and collections.  Flt: the binary floating point numbers of C
    (float and double) as correctly rounded rationals with negative zero, infinities and NaN, at any
    precision; FltBits: their IEEE 754 byte representation.
  \<^item> Bus: the pins, multiplexer and SPI traffic of the board.  What a chip answers is a parameter:
    a function from its state and the bytes sent to the bytes received.  Ltc2758, Ad7176: the chip drivers, function by function; Ada4254: the
    prototype driver of the amplifier, which only shifts bytes out.
  \<^item> Eeprom: EEPROMAnything.h and the address map of eeprom_adr.h.  Calibration: the class CalibrationClass as the record \<^theory_text>\<open>cal\<close>, its start, its
    tables and gains; CalOps: the automatic calibration and the adjustments.
  \<^item> Filters, Stats: the moving average, and the two statistics classes.
  \<^item> SmuHal: the abstraction layer.  The virtual methods are a record of functions over the state of
    the implementation; the locale \<^theory_text>\<open>smu_hal\<close> states its contract, the observable settings after each
    request.  Hal717x and HalDummy are the two implementations, and each interprets the locale; Hals shows where they
    agree, and that the automatic range, which the contract does not cover, sets them apart.
  \<^item> World: the objects the functions share.  ZeroCal, Sweep, Pulse, Digitizer: the functions, over any
    implementation of the layer where the code is (the pulse interrupt uses the hardware one).
  \<^item> Ring, Ram, Logger: ring buffers, the serial RAM with its log, and the data logger.  Fan: the fan.
  \<^item> Tags, Touch, UIButton, Menu, Settings, Knobs, Dial and DialLaws: touch tags, gestures, buttons, the menu, the settings, knob and push
    buttons, and the dials that values are typed into.  Encoder: the quadrature decoder that the knob is read with (EncoderBase.h of the
    library in src/lib).  Display: the digits of the values shown; Trend: the histogram and the scale of the trend that the statistics show.
  \<^item> App: the state of the main program and its callbacks; Sampling: the sampling interrupts; MainLoop: setup and one pass of the loop (\<^theory_text>\<open>app_loop\<close>: the commands, then
    \<^theory_text>\<open>loop_pass\<close>, the rest of it); AppLaws: the
    laws of both, with the locale \<^theory_text>\<open>smu_unit\<close>, which extends \<^theory_text>\<open>smu_hal\<close> by what the main program asks of a unit; Wiring: which
    handlers and timers belong to which function, in every state that passes with their commands and interrupts lead to.
  \<^item> Scpi: the command parser (Vrekrer_scpi_parser); Network: the clients and lines of Network2.cpp; Commands: what the commands of
    the main program do, from the bytes of a client to the unit.

  \<^bold>\<open>What the lemmas show.\<close>  Drivers: code range, monotonicity, round trips, which device a frame
  addresses, rejection of corrupted frames, polling.  Calibration and EEPROM: round trips of stored
  values and tables, interpolation, what is suspect at start, that an automatic calibration ends, and that each of the eleven adjustments
  of both calibrations survives a restart.  Layer: both implementations keep the
  contract, a source is accurate to the resolution of its converter, limits survive range changes,
  automatic ranging has hysteresis.  Functions: null calibration ends and restores the settings it
  changed, the sweep sources only values of its band, the pulse period is always defined while the 32-bit frequency cannot wrap, a capture of the
  digitizer shows consecutive samples round the trigger and always completes in continuous mode.  Log: what is written is read back, and the window shown is
  that of the newest samples.  Input: the dial takes what is typed, digit by digit, and accepts only what is in range; a still press is reported once, a
  swipe ends, a choice of the menu is reported once over the passes in which the menu closes, and the buttons of a screen go through whole press cycles
  as long as no finger slides between them.  Display: the digits of a measured voltage are those of the exact value up to the last, which can be one too low; the histogram counts every value once, and the scale has room for the largest.  Program: sampling interrupts change no setting; the knob, its
  key and the timers belong to one function, which is the function shown unless a source command of a client has replaced it; a function that
  opens a DC source programs its set value and its limit; and the compositions from the outside to the
  converters: an accepted dial value, a step of the knob and a command received over the network each set the observable setting of the unit
  that they stand for.  The theorem in this theory follows the knob from the levels of its contacts to the sourced voltage.

  \<^bold>\<open>Bounds.\<close>  Loops of the code are structural recursions, folds over the index ranges
  of the code, or recursion on the remaining polls; a calibration table has at most 200 points, the size of its arrays.  Times are 32 bit words; \<^theory_text>\<open>millis\<close> is
  read once per pass.  Interrupts come between passes, and characters that arrive during a pass count after it.  A line of a client that overruns the local buffer of 100
  characters has no result (\<^theory_text>\<open>None\<close>); strings hold no NUL character.  The count of the knob wraps at 32 bits.  Where a
  conversion from a floating point number to an integer is out of range the model saturates, as the ARM instruction does.  The frequency of the
  pulses is kept at 32 bits, as it has no bound in the source.  The timers of the automatic calibration are integers that do not wrap; the laws about
  it ask for times at which the timer of the code does not overflow.  The access of the dial before the start of its array goes to the cell
  \<^theory_text>\<open>screenHeight\<close>, the member the class has there.

  \<^bold>\<open>Parameters.\<close>  The answers of the chips, the clock, the touch screen, the events of the network stack, the debouncer of the encoder's button, and the
  library functions \<^theory_text>\<open>dtostrf\<close>, \<^theory_text>\<open>toInt\<close> and \<^theory_text>\<open>random\<close> are arguments of the definitions that use them.

  \<^bold>\<open>Not modelled.\<close>  Positions, fonts and colours of what is drawn, the gauges of analogGauge.cpp and the graphs but for those of the statistics, debug prints, pin modes and delays, the
  display driver GD2.cpp, the network stack QNEthernet, and the multiplexed and polled encoders, which the program does not use.  The frames that setup sends to
  the amplifier are defined (\<^theory_text>\<open>ada_setup\<close>) but are not part of the model of setup: they only shift bytes to the amplifier.
\<close>

section \<open>From the contacts of the knob to the source\<close>

lemma knob_digits: "d \<in> {1000, 10000, 100000, 1000000} \<Longrightarrow> feq (of_i d :: f32) (of_i 1000) = (d = 1000)"
proof -
  have "\<forall>d \<in> set [1000, 10000, 100000, 1000000]. feq (of_i d :: f32) (of_i 1000) = (d = 1000)" by code_simp
  then show "d \<in> {1000, 10000, 100000, 1000000} \<Longrightarrow> feq (of_i d :: f32) (of_i 1000) = (d = 1000)" by auto
qed

text \<open>C19: from the contacts of the knob to the source: between two passes of the main loop that find the knob at a detent, whatever the contacts did meanwhile, with
  a digit selected and no dial open, the sourced voltage moves in the direction of the turn by the tenths of the digit that the speed of the knob stands for, and by nothing
  when the knob is back at the detent it came from; the other settings stay.\<close>

theorem knob_turn_sources:
  fixes e0 :: "'b quadrature"
  assumes "even p" "path p ps" "even p1" "p1 = last (p # ps)" "path p1 qs" "even q" "q = last (p1 # qs)"
    and "int_min \<le> (p1 - p) div 2" "(p1 - p) div 2 \<le> int_max" "int_min \<le> (q - p) div 2" "(q - p) div 2 \<le> int_max"
    and "e0 = snd (enc_valueChanged (follow bounce pressed ps (rotary_init True (contacts p) (new_encoder b))))"
    and "r = ROTARY_ENCODER w" "positionLeft r = enc_getValue e0" "e1 = follow bounce pressed qs e0"
    and "rotaryChangedFn w = RotaryVoltCurrent" "app_operationType w = SOURCE_VOLTAGE" "\<not> anyDialogOpen w"
    and "changeDigit w = of_i d" "d \<in> {1000, 10000, 100000, 1000000}" "0 \<le> sint (now - word_of_int (millisAtLastStep r))"
  shows "view (hal717 X) (smu (knob_turned (unit717 X) F now (fst (enc_valueChanged e1), enc_getValue e1) w)) =
    (let a = view (hal717 X) (smu w);
         speed = encoder_speed (stepless_dynamic r) (\<not> adc_use100uVSetResolution (smu w) \<and> d = 1000) (sint (now - word_of_int (millisAtLastStep r)))
     in if q = p1 then a else a\<lparr>mode := SOURCE_VOLTAGE, set_micro := set_micro a + knob_amount d (speed * sgn (q - p1))\<rparr>)"
proof -
  define rr where "rr \<longleftrightarrow> \<not> adc_use100uVSetResolution (smu w) \<and> d = 1000"
  define speed where "speed = encoder_speed (stepless_dynamic r) rr (sint (now - word_of_int (millisAtLastStep r)))"
  have rr: "(\<not> use100uVSetResolution (hal717 X) (smu w) \<and> feq (changeDigit w) (of_i 1000)) = rr"
    by (simp only: assms(19) knob_digits [OF assms(20)] rr_def) (simp add: hal717_def)
  have "1 \<le> speed \<and> speed \<le> 42" unfolding speed_def by (rule encoder_speed_range [OF assms(21)])
  then have n: "- 42 \<le> speed * sgn (q - p1)" "speed * sgn (q - p1) \<le> 42" by (auto simp: sgn_if)
  have turned: "fst (rotary_handle rr (fst (enc_valueChanged e1)) (enc_getValue e1) now (ROTARY_ENCODER w)) =
      (if q = p1 then None else Some (conv ((of_i (speed * sgn (q - p1)) :: f64) / of_i 10)))"
    using knob_turn_moves_value [OF assms(1-12,14,15)] by (simp only: assms(13) [symmetric] speed_def Let_def)
  have amount: "\<not> feq (changeDigit w) (of_i 0) \<and> f2i64 (conv ((of_i (speed * sgn (q - p1)) :: f64) / of_i 10) * changeDigit w) = knob_amount d (speed * sgn (q - p1))"
    using knob_amounts [OF assms(20) n] by (simp only: knob_ok_def assms(19) simp_thms)
  obtain v e where h: "rotary_handle rr (fst (enc_valueChanged e1)) (enc_getValue e1) now (ROTARY_ENCODER w) = (v, e)" by fastforce
  define w1 where "w1 = w\<lparr>ROTARY_ENCODER := e\<rparr>"
  have w1: "smu w1 = smu w" "app_operationType w1 = SOURCE_VOLTAGE" "\<not> d_dialog (SOURCE_DIAL w1)" "\<not> d_dialog (LIMIT_DIAL w1)" "changeDigit w1 = changeDigit w"
    "rotaryChangedFn w1 = RotaryVoltCurrent" using assms(16-18) by (simp_all add: w1_def anyDialogOpen_def)
  have "knob_turned (unit717 X) F now (fst (enc_valueChanged e1), enc_getValue e1) w =
      (case v of None \<Rightarrow> w1 | Some x \<Rightarrow> rotaryChangedVoltCurrentFn (unit717 X) F now x w1)"
    using h by (simp add: knob_turned_def rr w1_def [symmetric] rotary_changed_def w1(6) Let_def split: option.split)
  moreover have "v = (if q = p1 then None else Some (conv ((of_i (speed * sgn (q - p1)) :: f64) / of_i 10)))" using turned h by simp
  ultimately show ?thesis
    using rotary_voltage_view [OF w1(2-4), of X F now] amount
    by (simp add: w1(1,5) speed_def [unfolded rr_def, symmetric] Let_def)
qed

definition turned_twice :: "bool quadrature" where
  "turned_twice = snd (enc_valueChanged (follow (\<lambda>x b. (x \<noteq> b, x)) id [1, 2] (rotary_init True (contacts 0) (new_encoder False))))"

lemma turned_twice: "enc_getValue turned_twice = 1" and no_hurry: "encoder_speed True False 200 = 1"
  by code_simp+

theorem knob_turn_sources_witness:
  "let e1 = follow (\<lambda>x b. (x \<noteq> b, x)) id [3, 2, 3, 4] turned_twice;
       w = app_sample\<lparr>changeDigit := of_i 1000000, smu := smu717_initial ()\<lparr>s_setValue_micro := 30000000\<rparr>, rotaryChangedFn := RotaryVoltCurrent,
         ROTARY_ENCODER := \<lparr>positionLeft = 1, millisAtLastStep = 1000, millisAtLastVoltageCommit = 1000, stepless_dynamic = True\<rparr>\<rparr>
   in set_micro (view (hal717 (\<lambda>_ d. (0, d))) (smu (knob_turned (unit717 (\<lambda>_ d. (0, d))) (\<lambda>_ _ _. ''0'') 1200
        (fst (enc_valueChanged e1), enc_getValue e1) w))) = 30100000"
  unfolding Let_def
  by (subst knob_turn_sources [where p = 0 and ps = "[1, 2]" and ?p1.0 = 2 and qs = "[3, 2, 3, 4]" and q = 4 and d = 1000000, OF _ _ _ _ _ _ _ _ _ _ _ turned_twice_def refl _ refl])
    (simp_all add: anyDialogOpen_def dial_initial_def view717 knob_amount_def turned_twice no_hurry int_min_def int_max_def)

end
